(* ===== verification/Prelude.thy ===== *)
theory Prelude
  imports Main "HOL-Library.Word"
begin

unbundle bit_operations_syntax

text \<open>
  What the components share: the machine-integer types of the C code, C strings and
  bounded reads of byte buffers, big-endian words, and the generic list and word lemmas
  the component proofs use.  A read outside its buffer is the value \<open>None\<close>, so that a
  theorem that an operation returns \<open>Some\<close> also says that it never reads out of bounds.
\<close>

type_synonym u8 = "8 word"
type_synonym u16 = "16 word"
type_synonym u32 = "32 word"
type_synonym u64 = "64 word"

text \<open>
  Facts that groups of proofs use together: \<open>scan_simps\<close> are the rewrite rules and
  \<open>scan_intros\<close> the introduction rules for the position bookkeeping of the scanners.
\<close>

named_theorems scan_simps
named_theorems scan_intros

section \<open>C strings\<close>

text \<open>
  A C string is the list of its bytes without the terminator; reading at or behind the
  end gives NUL.  (The code never reads behind the terminator, which is a theorem of the
  tokenizer; a NUL byte inside the list ends the string for the code as it does in C.)
\<close>

abbreviation NUL :: char where
  "NUL \<equiv> CHR 0x00"

abbreviation newline :: char where
  "newline \<equiv> CHR 0x0A"

definition char_at :: "string \<Rightarrow> nat \<Rightarrow> char" where
  "char_at s i = (if i < length s then s ! i else NUL)"

lemma char_at_not_NUL [dest]: "char_at s i \<noteq> NUL \<Longrightarrow> i < length s"
  by (auto simp: char_at_def split: if_splits)

lemma char_at_nth: "i < length s \<Longrightarrow> char_at s i = s ! i"
  by (simp add: char_at_def)

lemma char_at_end [simp]: "length s \<le> i \<Longrightarrow> char_at s i = NUL"
  by (simp add: char_at_def)

text \<open>The C library's classification in the "C" locale, on unsigned bytes.\<close>

definition isdigit :: "char \<Rightarrow> bool" where
  "isdigit c \<longleftrightarrow> (let n = (of_char c :: nat) in 48 \<le> n \<and> n \<le> 57)"

definition isalpha :: "char \<Rightarrow> bool" where
  "isalpha c \<longleftrightarrow> (let n = (of_char c :: nat) in (65 \<le> n \<and> n \<le> 90) \<or> (97 \<le> n \<and> n \<le> 122))"

definition isalnum :: "char \<Rightarrow> bool" where
  "isalnum c \<longleftrightarrow> isalpha c \<or> isdigit c"

definition isxdigit :: "char \<Rightarrow> bool" where
  "isxdigit c \<longleftrightarrow>
     isdigit c \<or> (let n = (of_char c :: nat) in (65 \<le> n \<and> n \<le> 70) \<or> (97 \<le> n \<and> n \<le> 102))"

lemma not_isdigit_NUL [simp]: "\<not> isdigit NUL"
  by (simp add: isdigit_def)

lemma not_isalpha_NUL [simp]: "\<not> isalpha NUL"
  by (simp add: isalpha_def)

lemma not_isalnum_NUL [simp]: "\<not> isalnum NUL"
  by (simp add: isalnum_def)

lemma not_isxdigit_NUL [simp]: "\<not> isxdigit NUL"
  by (simp add: isxdigit_def)

section \<open>Positions in a text\<close>

text \<open>Line and column of an offset, both counted from one.\<close>

definition line_at :: "string \<Rightarrow> nat \<Rightarrow> nat" where
  "line_at s n = Suc (count_list (take n s) newline)"

definition column_at :: "string \<Rightarrow> nat \<Rightarrow> nat" where
  "column_at s n = Suc (length (takeWhile (\<lambda>c. c \<noteq> newline) (rev (take n s))))"

lemma line_at_0 [simp]: "line_at s 0 = 1"
  by (simp add: line_at_def)

lemma column_at_0 [simp]: "column_at s 0 = 1"
  by (simp add: column_at_def)

lemma line_at_Suc:
  "n < length s \<Longrightarrow> line_at s (Suc n) = (if s ! n = newline then Suc (line_at s n) else line_at s n)"
  by (simp add: line_at_def take_Suc_conv_app_nth)

lemma column_at_Suc:
  "n < length s \<Longrightarrow> column_at s (Suc n) = (if s ! n = newline then 1 else Suc (column_at s n))"
  by (simp add: column_at_def take_Suc_conv_app_nth)

section \<open>Slices of byte buffers\<close>

definition slice :: "'a list \<Rightarrow> nat \<Rightarrow> nat \<Rightarrow> 'a list" where
  "slice xs off n = take n (drop off xs)"

lemma length_slice [simp]: "off + n \<le> length xs \<Longrightarrow> length (slice xs off n) = n"
  by (simp add: slice_def)

lemma nth_slice [simp]: "off + n \<le> length xs \<Longrightarrow> i < n \<Longrightarrow> slice xs off n ! i = xs ! (off + i)"
  by (simp add: slice_def)

lemma slice_0 [simp]: "slice xs off 0 = []"
  by (simp add: slice_def)

lemma slice_append: "slice xs off m @ slice xs (off + m) n = slice xs off (m + n)"
  by (simp add: slice_def take_add add.commute)

lemma slice_slice:
  "a + n \<le> m \<Longrightarrow> slice (slice xs off m) a n = slice xs (off + a) n"
  by (simp add: slice_def drop_take add.commute min_def)

section \<open>Big-endian words\<close>

text \<open>The value \<open>(p[0] << 24) | (p[1] << 16) | (p[2] << 8) | p[3]\<close> of four bytes.\<close>

definition be32_of :: "u8 \<Rightarrow> u8 \<Rightarrow> u8 \<Rightarrow> u8 \<Rightarrow> u32" where
  "be32_of p0 p1 p2 p3 =
     ((push_bit 24 (ucast p0) OR push_bit 16 (ucast p1)) OR push_bit 8 (ucast p2)) OR ucast p3"

definition read_be32 :: "u8 list \<Rightarrow> nat \<Rightarrow> u32 option" where
  "read_be32 p off =
     (if off + 4 \<le> length p
      then Some (be32_of (p ! off) (p ! (off + 1)) (p ! (off + 2)) (p ! (off + 3)))
      else None)"

lemma read_be32_Some: "off + 4 \<le> length p \<Longrightarrow> \<exists>w. read_be32 p off = Some w"
  by (simp add: read_be32_def)

text \<open>The inverse: the four bytes of a word, most significant first.\<close>

definition bytes_be32 :: "u32 \<Rightarrow> u8 list" where
  "bytes_be32 w = [ucast (drop_bit 24 w), ucast (drop_bit 16 w), ucast (drop_bit 8 w), ucast w]"

lemma length_bytes_be32 [simp]: "length (bytes_be32 w) = 4"
  by (simp add: bytes_be32_def)

lemma be32_of_bytes:
  "be32_of (ucast (drop_bit 24 w)) (ucast (drop_bit 16 w)) (ucast (drop_bit 8 w)) (ucast w) = w"
proof (rule bit_eqI)
  fix n
  assume n: "possible_bit TYPE(32 word) n"
  then have "n < 32"
    by simp
  then consider "n < 8" | "8 \<le> n" "n < 16" | "16 \<le> n" "n < 24" | "24 \<le> n" "n < 32"
    by linarith
  then show "bit (be32_of (ucast (drop_bit 24 w)) (ucast (drop_bit 16 w))
      (ucast (drop_bit 8 w)) (ucast w)) n = bit w n"
    by cases (auto simp: be32_of_def bit_simps)
qed

section \<open>Words as numbers\<close>

lemma unat_u32_less: "unat (w :: u32) < 4294967296"
  using unsigned_less [of w] by simp

lemma unat_add_u32: "unat a + unat b < 2 ^ 32 \<Longrightarrow> unat (a + b :: u32) = unat a + unat b"
  by (simp add: unat_word_ariths(1))

section \<open>Reads and writes of a memory\<close>

text \<open>
  A memory is a list of bytes; \<open>patch\<close> replaces the bytes from an offset on, and the reads
  and writes of the code are \<open>None\<close> when they leave the memory.
\<close>

definition patch :: "'a list \<Rightarrow> nat \<Rightarrow> 'a list \<Rightarrow> 'a list" where
  "patch mem off xs = take off mem @ xs @ drop (off + length xs) mem"

definition read_bytes :: "'a list \<Rightarrow> nat \<Rightarrow> nat \<Rightarrow> 'a list option" where
  "read_bytes mem off n = (if off + n \<le> length mem then Some (slice mem off n) else None)"

definition write_bytes :: "'a list \<Rightarrow> nat \<Rightarrow> 'a list \<Rightarrow> 'a list option" where
  "write_bytes mem off xs =
     (if off + length xs \<le> length mem then Some (patch mem off xs) else None)"

lemma length_patch [simp]: "off + length xs \<le> length mem \<Longrightarrow> length (patch mem off xs) = length mem"
  by (simp add: patch_def)

lemma nth_patch:
  "off + length xs \<le> length mem \<Longrightarrow> i < length mem \<Longrightarrow>
   patch mem off xs ! i = (if off \<le> i \<and> i < off + length xs then xs ! (i - off) else mem ! i)"
  by (auto simp: patch_def nth_append min_def)

lemma patch_Nil [simp]: "patch mem off [] = mem"
  by (simp add: patch_def)

lemma slice_patch_same: "off + length xs \<le> length mem \<Longrightarrow> slice (patch mem off xs) off (length xs) = xs"
  by (simp add: slice_def patch_def)

lemma slice_patch_other:
  assumes "off + length xs \<le> length mem" and "pos + n \<le> length mem"
    and "pos + n \<le> off \<or> off + length xs \<le> pos"
  shows "slice (patch mem off xs) pos n = slice mem pos n"
  using assms by (intro nth_equalityI) (auto simp: nth_patch)

lemma patch_patch:
  assumes "off + length xs + length ys \<le> length mem"
  shows "patch (patch mem off xs) (off + length xs) ys = patch mem off (xs @ ys)"
  using assms by (intro nth_equalityI) (auto simp: nth_patch nth_append)

end
