(* ===== verification/CText.thy ===== *)
theory CText
  imports Prelude
begin

unbundle bit_operations_syntax

text \<open>
  Text output as the code does it with \<open>snprintf\<close>: decimal and hexadecimal numbers, the
  cut at the size of the buffer, and the facts that make printed operands unambiguous.
\<close>

section \<open>Numbers\<close>

text \<open>The conversions \<open>%u\<close>, \<open>%d\<close> and \<open>%08x\<close>.\<close>

function print_nat :: "nat \<Rightarrow> string" where
  "print_nat n = (if n < 10 then [char_of (48 + n)] else print_nat (n div 10) @ [char_of (48 + n mod 10)])"
  by pat_completeness auto
termination
  by (relation "measure id") auto

declare print_nat.simps [simp del]

definition print_int :: "int \<Rightarrow> string" where
  "print_int k = (if k < 0 then CHR ''-'' # print_nat (nat (- k)) else print_nat (nat k))"

definition nibble :: "u32 \<Rightarrow> nat \<Rightarrow> u32" where
  "nibble w i = take_bit 4 (drop_bit (4 * i) w)"

definition hex_digit :: "nat \<Rightarrow> char" where
  "hex_digit n = ''0123456789abcdef'' ! n"

definition hex8 :: "u32 \<Rightarrow> string" where
  "hex8 w = List.map (\<lambda>i. hex_digit (unat (nibble w i))) [7, 6, 5, 4, 3, 2, 1, 0]"

text \<open>The text that ends up in a buffer (its size is not 0).\<close>

definition snprintf :: "nat \<Rightarrow> string \<Rightarrow> string" where
  "snprintf buffer_size text = take (buffer_size - 1) text"

lemma snprintf_bound: "0 < n \<Longrightarrow> length (snprintf n text) < n"
  by (simp add: snprintf_def)

section \<open>Printed numbers determine the number\<close>

definition read_nat :: "string \<Rightarrow> nat" where
  "read_nat = foldl (\<lambda>n c. 10 * n + (of_char c - 48)) 0"

lemma of_char_digit: "n < 10 \<Longrightarrow> (of_char (char_of (48 + n) :: char) :: nat) = 48 + n"
  by simp

lemma read_print_nat [simp]: "read_nat (print_nat n) = n"
proof (induction n rule: print_nat.induct)
  case (1 n)
  show ?case
  proof (cases "n < 10")
    case True
    then show ?thesis
      by (subst print_nat.simps) (simp add: read_nat_def)
  next
    case False
    then have "read_nat (print_nat n) = 10 * read_nat (print_nat (n div 10)) + n mod 10"
      by (subst print_nat.simps) (simp add: read_nat_def)
    with 1 False show ?thesis
      by simp
  qed
qed

lemma print_nat_eq_iff [simp]: "print_nat m = print_nat n \<longleftrightarrow> m = n"
  by (metis read_print_nat)

lemma print_nat_not_Nil [simp]: "print_nat n \<noteq> []"
  by (subst print_nat.simps) simp

lemma print_nat_chars: "c \<in> set (print_nat n) \<Longrightarrow> \<exists>d < 10. c = char_of (48 + d :: nat)"
proof (induction n rule: print_nat.induct)
  case (1 n)
  then show ?case
    by (subst (asm) (2) print_nat.simps) (auto split: if_splits intro: exI [of _ "n mod 10"])
qed

lemma print_nat_no: "of_char c < (48 :: nat) \<or> 58 \<le> (of_char c :: nat) \<Longrightarrow> c \<notin> set (print_nat n)"
  using print_nat_chars [of c n] of_char_digit by fastforce

lemma minus_not_digit: "CHR ''-'' \<notin> set (print_nat n)"
  by (rule print_nat_no) simp

lemma minus_print_nat: "CHR ''-'' # xs \<noteq> print_nat n" "print_nat n \<noteq> CHR ''-'' # xs"
  using minus_not_digit [of n] list.set_intros(1) [of "CHR ''-''" xs] by (metis, metis)

lemma print_int_eq_iff [simp]: "print_int j = print_int k \<longleftrightarrow> j = k"
  by (simp add: print_int_def minus_print_nat nat_eq_iff)

lemma print_int_no: "c \<noteq> CHR ''-'' \<Longrightarrow> of_char c < (48 :: nat) \<or> 58 \<le> (of_char c :: nat) \<Longrightarrow> c \<notin> set (print_int k)"
  using print_nat_no [of c] by (simp add: print_int_def)

lemma length_hex8 [simp]: "length (hex8 w) = 8"
  by (simp add: hex8_def)

lemma nibble_less: "unat (nibble w i) < 16"
proof -
  have "unat (nibble w i) = take_bit 4 (unat (drop_bit (4 * i) w))"
    by (simp add: nibble_def unsigned_take_bit_eq)
  then show ?thesis
    using take_bit_nat_less_exp [of 4 "unat (drop_bit (4 * i) w)"] by simp
qed

lemma hex_digit_inj: "m < 16 \<Longrightarrow> n < 16 \<Longrightarrow> hex_digit m = hex_digit n \<longleftrightarrow> m = n"
  unfolding hex_digit_def by (rule nth_eq_iff_index_eq) simp_all

lemma bit_nibble: "bit w n = bit (nibble w (n div 4)) (n mod 4)"
  by (simp add: nibble_def bit_simps)

lemma hex8_eq_iff [simp]: "hex8 v = hex8 w \<longleftrightarrow> v = w"
proof
  assume "hex8 v = hex8 w"
  then have eq: "nibble v i = nibble w i" if "i < 8" for i
    using that hex_digit_inj [OF nibble_less nibble_less]
    by (auto simp: hex8_def less_Suc_eq numeral_eq_Suc word_unat_eq_iff)
  show "v = w"
  proof (rule bit_word_eqI)
    fix n
    assume "n < LENGTH(32)"
    then have "n div 4 < 8"
      by simp
    from eq [OF this] show "bit v n = bit w n"
      by (metis bit_nibble)
  qed
qed simp

section \<open>Delimiters\<close>

text \<open>A text is determined by its parts when the delimiter does not occur in the first part.\<close>

lemma split_first: "c \<notin> set xs \<Longrightarrow> c \<notin> set ys \<Longrightarrow> xs @ c # us = ys @ c # vs \<longleftrightarrow> xs = ys \<and> us = vs"
proof (induction xs arbitrary: ys)
  case Nil
  then show ?case
    by (cases ys) auto
next
  case (Cons x xs)
  then show ?case
    by (cases ys) auto
qed

end
