(* ===== verification/WiiRuntime.thy ===== *)
theory WiiRuntime
  imports CText
begin

unbundle bit_operations_syntax

text \<open>
  The runtime of compiled programs on the console (compiler/src/c_runtime/calynda_runtime.c,
  calynda_gc_refcount.c and the headers): a word is a raw number or the address of an object, and
  the registry of objects tells which.  Memory is a map from addresses to objects; an access to an
  address without an object, or outside an array, is \<open>Wild\<close>.  What allocation answers is an argument, so that running out
  of memory is a branch of the model; the text buffers of templates are not limited.  The packages
  of the hardware (controller, Mii, graphics, physics, motion) are parameters.
\<close>

section \<open>Data\<close>

datatype CalyndaRtObjectKind =
    CALYNDA_RT_OBJECT_STRING | CALYNDA_RT_OBJECT_ARRAY | CALYNDA_RT_OBJECT_CLOSURE
  | CALYNDA_RT_OBJECT_PACKAGE | CALYNDA_RT_OBJECT_EXTERN_CALLABLE | CALYNDA_RT_OBJECT_UNION
  | CALYNDA_RT_OBJECT_HETERO_ARRAY

datatype CalyndaRtTypeTag =
    CALYNDA_RT_TYPE_VOID | CALYNDA_RT_TYPE_BOOL | CALYNDA_RT_TYPE_INT32 | CALYNDA_RT_TYPE_INT64
  | CALYNDA_RT_TYPE_STRING | CALYNDA_RT_TYPE_ARRAY | CALYNDA_RT_TYPE_CLOSURE
  | CALYNDA_RT_TYPE_EXTERNAL | CALYNDA_RT_TYPE_RAW_WORD | CALYNDA_RT_TYPE_UNION
  | CALYNDA_RT_TYPE_HETERO_ARRAY

type_synonym CalyndaRtWord = u32

record CalyndaRtTypeDescriptor =
  td_name :: string
  td_generic_param_count :: nat
  td_variant_names :: "string list"
  td_variant_payload_tags :: "CalyndaRtTypeTag list"

text \<open>The structures behind a header, by its kind; the entry of a closure is a number.\<close>

datatype CalyndaRtObject =
    CalyndaRtString string
  | CalyndaRtArray "CalyndaRtWord list"
  | CalyndaRtClosure nat "CalyndaRtWord list"
  | CalyndaRtPackage string
  | CalyndaRtExternCallable nat string
  | CalyndaRtUnion "CalyndaRtTypeDescriptor option" u32 CalyndaRtWord
  | CalyndaRtHeteroArray "CalyndaRtWord list" "CalyndaRtTypeTag list"

fun object_kind :: "CalyndaRtObject \<Rightarrow> CalyndaRtObjectKind" where
  "object_kind (CalyndaRtString s) = CALYNDA_RT_OBJECT_STRING"
| "object_kind (CalyndaRtArray ws) = CALYNDA_RT_OBJECT_ARRAY"
| "object_kind (CalyndaRtClosure e ws) = CALYNDA_RT_OBJECT_CLOSURE"
| "object_kind (CalyndaRtPackage s) = CALYNDA_RT_OBJECT_PACKAGE"
| "object_kind (CalyndaRtExternCallable k s) = CALYNDA_RT_OBJECT_EXTERN_CALLABLE"
| "object_kind (CalyndaRtUnion d t w) = CALYNDA_RT_OBJECT_UNION"
| "object_kind (CalyndaRtHeteroArray ws ts) = CALYNDA_RT_OBJECT_HETERO_ARRAY"

text \<open>A text part is a pointer to a C string; any other tag than the two is an error.\<close>

datatype CalyndaRtTemplatePart =
    Template_text "string option" | Template_value CalyndaRtWord | Template_unknown u32

text \<open>The static objects: the two of the runtime, and a package object and the callables of each package.\<close>

datatype rt_package = Package_wpad | Package_mii | Package_gfx | Package_physics | Package_motion

datatype rt_static =
    Pkg_stdlib
  | STDOUT_PRINT_CALLABLE
  | Pkg rt_package
  | Callable rt_package nat

text \<open>
  The memory: the objects, the reference counts of the blocks of the collector, and the registry
  with its capacity; the text written to standard output; the addresses that the linker gave the
  static objects.
\<close>

record CalyndaRt =
  cr_objects :: "u32 \<Rightarrow> CalyndaRtObject option"
  cr_refcounts :: "u32 \<Rightarrow> u32 option"
  cr_items :: "u32 list"
  cr_capacity :: nat
  cr_out :: string
  cr_address :: "rt_static \<Rightarrow> u32"

text \<open>
  A call returns, stops the program with a message, or has accessed memory that is not its own: an
  address without an object, or an element outside its array.  When the code of a package follows
  a word that is no pointer to its data the run ends with that package and the kind of the call.
\<close>

datatype 'a outcome = Done 'a | Abort string | Wild | Bridge_fault rt_package nat

fun and_then :: "'a outcome \<Rightarrow> ('a \<Rightarrow> 'b outcome) \<Rightarrow> 'b outcome" where
  "and_then (Done x) f = f x"
| "and_then (Abort s) f = Abort s"
| "and_then Wild f = Wild"
| "and_then (Bridge_fault P kind) f = Bridge_fault P kind"

text \<open>The accesses to element \<open>i\<close> of an array in memory.\<close>

definition element_at :: "'a list \<Rightarrow> nat \<Rightarrow> 'a outcome" where
  "element_at xs i = (if i < length xs then Done (xs ! i) else Wild)"

definition element_put :: "'a list \<Rightarrow> nat \<Rightarrow> 'a \<Rightarrow> 'a list outcome" where
  "element_put xs i x = (if i < length xs then Done (xs[i := x]) else Wild)"

text \<open>
  The answers of allocation to one call: the address of the block, whether the memory inside the
  object (bytes, elements) was there, and whether the registry could grow.
\<close>

record memory_answers =
  ma_block :: "u32 option"
  ma_data :: bool
  ma_grow :: bool

section \<open>The collector\<close>

definition calynda_gc_alloc :: "memory_answers \<Rightarrow> CalyndaRtObject \<Rightarrow> CalyndaRt \<Rightarrow> u32 option \<times> CalyndaRt" where
  "calynda_gc_alloc ma ob st =
     (case ma_block ma of
        None \<Rightarrow> (None, st)
      | Some p \<Rightarrow>
          (Some p, st\<lparr>cr_objects := (cr_objects st)(p \<mapsto> ob), cr_refcounts := (cr_refcounts st)(p \<mapsto> 1)\<rparr>))"

definition calynda_gc_retain :: "u32 \<Rightarrow> CalyndaRt \<Rightarrow> CalyndaRt outcome" where
  "calynda_gc_retain p st =
     (if p = 0 then Done st
      else case cr_refcounts st p of
             None \<Rightarrow> Wild
           | Some n \<Rightarrow> Done (st\<lparr>cr_refcounts := (cr_refcounts st)(p \<mapsto> n + 1)\<rparr>))"

definition calynda_gc_release :: "u32 \<Rightarrow> CalyndaRt \<Rightarrow> CalyndaRt outcome" where
  "calynda_gc_release p st =
     (if p = 0 then Done st
      else case cr_refcounts st p of
             None \<Rightarrow> Wild
           | Some n \<Rightarrow>
               if n = 0 then Done st
               else if n - 1 = 0
               then Done (st\<lparr>cr_objects := (cr_objects st)(p := None), cr_refcounts := (cr_refcounts st)(p := None)\<rparr>)
               else Done (st\<lparr>cr_refcounts := (cr_refcounts st)(p \<mapsto> n - 1)\<rparr>))"

section \<open>The registry\<close>

text \<open>The doubling loop; it starts from 8 at least.\<close>

function grow_to :: "nat \<Rightarrow> nat \<Rightarrow> nat" where
  "grow_to needed new_cap = (if new_cap < needed \<and> new_cap \<noteq> 0 then grow_to needed (new_cap * 2) else new_cap)"
  by pat_completeness auto
termination
  by (relation "measure (\<lambda>(needed, new_cap). needed - new_cap)") auto

declare grow_to.simps [simp del]

definition registry_reserve :: "bool \<Rightarrow> nat \<Rightarrow> CalyndaRt \<Rightarrow> bool \<times> CalyndaRt" where
  "registry_reserve grow needed st =
     (if cr_capacity st \<ge> needed then (True, st)
      else if \<not> grow then (False, st)
      else (True, st\<lparr>cr_capacity := grow_to needed (if cr_capacity st = 0 then 8 else cr_capacity st)\<rparr>))"

definition registry_contains :: "CalyndaRt \<Rightarrow> u32 \<Rightarrow> bool" where
  "registry_contains st p = list_ex (\<lambda>q. q = p) (cr_items st)"

definition rt_register_object_pointer :: "bool \<Rightarrow> u32 \<Rightarrow> CalyndaRt \<Rightarrow> bool \<times> CalyndaRt" where
  "rt_register_object_pointer grow p st =
     (if p = 0 \<or> registry_contains st p then (True, st)
      else case registry_reserve grow (length (cr_items st) + 1) st of
             (ok, st) \<Rightarrow> if ok then (True, st\<lparr>cr_items := cr_items st @ [p]\<rparr>) else (False, st))"

text \<open>The pointer that a word is, if it is one of an object: one of six static ones, or a registered one.\<close>

definition known_statics :: "rt_static list" where
  "known_statics =
     [Pkg_stdlib, STDOUT_PRINT_CALLABLE, Pkg Package_wpad, Pkg Package_gfx, Pkg Package_physics, Pkg Package_motion]"

definition calynda_rt_as_object :: "CalyndaRt \<Rightarrow> CalyndaRtWord \<Rightarrow> u32 option" where
  "calynda_rt_as_object st word =
     (if word = 0 then None
      else if word \<in> cr_address st ` set known_statics then Some word
      else if \<not> registry_contains st word then None
      else Some word)"

definition calynda_rt_is_object :: "CalyndaRt \<Rightarrow> CalyndaRtWord \<Rightarrow> bool" where
  "calynda_rt_is_object st word \<longleftrightarrow> calynda_rt_as_object st word \<noteq> None"

text \<open>The object behind a word, read through the pointer.\<close>

definition rt_object :: "CalyndaRt \<Rightarrow> CalyndaRtWord \<Rightarrow> CalyndaRtObject option outcome" where
  "rt_object st word =
     (case calynda_rt_as_object st word of
        None \<Rightarrow> Done None
      | Some p \<Rightarrow> (case cr_objects st p of None \<Rightarrow> Wild | Some ob \<Rightarrow> Done (Some ob)))"

definition calynda_rt_register_static_object :: "bool \<Rightarrow> u32 \<Rightarrow> CalyndaRt \<Rightarrow> CalyndaRt" where
  "calynda_rt_register_static_object grow p st = snd (rt_register_object_pointer grow p st)"

section \<open>New objects\<close>

text \<open>
  What the constructors share: the block, its memory, the registration, and the release of the
  block when a later step fails.
\<close>

definition new_object :: "memory_answers \<Rightarrow> bool \<Rightarrow> CalyndaRtObject \<Rightarrow> CalyndaRt \<Rightarrow> (u32 option \<times> CalyndaRt) outcome" where
  "new_object ma needs_data ob st =
     (case calynda_gc_alloc ma ob st of
        (None, st) \<Rightarrow> Done (None, st)
      | (Some p, st) \<Rightarrow>
          if needs_data \<and> \<not> ma_data ma
          then and_then (calynda_gc_release p st) (\<lambda>st. Done (None, st))
          else case rt_register_object_pointer (ma_grow ma) p st of
                 (ok, st) \<Rightarrow>
                   if ok then Done (Some p, st)
                   else and_then (calynda_gc_release p st) (\<lambda>st. Done (None, st)))"

text \<open>The bytes of a string are copied before its block is allocated.\<close>

definition rt_new_string_object :: "memory_answers \<Rightarrow> string \<Rightarrow> CalyndaRt \<Rightarrow> (u32 option \<times> CalyndaRt) outcome" where
  "rt_new_string_object ma bytes st =
     (if \<not> ma_data ma then Done (None, st) else new_object ma False (CalyndaRtString bytes) st)"

definition rt_new_array_object :: "memory_answers \<Rightarrow> CalyndaRtWord list \<Rightarrow> CalyndaRt \<Rightarrow> (u32 option \<times> CalyndaRt) outcome" where
  "rt_new_array_object ma elements st = new_object ma (elements \<noteq> []) (CalyndaRtArray elements) st"

definition rt_new_closure_object ::
  "memory_answers \<Rightarrow> nat \<Rightarrow> CalyndaRtWord list \<Rightarrow> CalyndaRt \<Rightarrow> (u32 option \<times> CalyndaRt) outcome" where
  "rt_new_closure_object ma entry captures st = new_object ma (captures \<noteq> []) (CalyndaRtClosure entry captures) st"

text \<open>The address of a new object, or the end of the program.\<close>

definition or_abort :: "string \<Rightarrow> (u32 option \<times> CalyndaRt) outcome \<Rightarrow> (CalyndaRtWord \<times> CalyndaRt) outcome" where
  "or_abort message r =
     and_then r (\<lambda>(p, st). case p of None \<Rightarrow> Abort message | Some p \<Rightarrow> Done (p, st))"

definition calynda_rt_make_string_copy :: "memory_answers \<Rightarrow> string option \<Rightarrow> CalyndaRt \<Rightarrow> (CalyndaRtWord \<times> CalyndaRt) outcome" where
  "calynda_rt_make_string_copy ma bytes st =
     or_abort ''runtime: out of memory while creating string''
       (rt_new_string_object ma (case bytes of None \<Rightarrow> [] | Some s \<Rightarrow> s) st)"

section \<open>Names and text\<close>

fun calynda_rt_object_kind_name :: "CalyndaRtObjectKind \<Rightarrow> string" where
  "calynda_rt_object_kind_name CALYNDA_RT_OBJECT_STRING = ''string''"
| "calynda_rt_object_kind_name CALYNDA_RT_OBJECT_ARRAY = ''array''"
| "calynda_rt_object_kind_name CALYNDA_RT_OBJECT_CLOSURE = ''closure''"
| "calynda_rt_object_kind_name CALYNDA_RT_OBJECT_PACKAGE = ''package''"
| "calynda_rt_object_kind_name CALYNDA_RT_OBJECT_EXTERN_CALLABLE = ''extern-callable''"
| "calynda_rt_object_kind_name CALYNDA_RT_OBJECT_UNION = ''union''"
| "calynda_rt_object_kind_name CALYNDA_RT_OBJECT_HETERO_ARRAY = ''hetero-array''"

fun calynda_rt_type_tag_name :: "CalyndaRtTypeTag \<Rightarrow> string" where
  "calynda_rt_type_tag_name CALYNDA_RT_TYPE_VOID = ''void''"
| "calynda_rt_type_tag_name CALYNDA_RT_TYPE_BOOL = ''bool''"
| "calynda_rt_type_tag_name CALYNDA_RT_TYPE_INT32 = ''int32''"
| "calynda_rt_type_tag_name CALYNDA_RT_TYPE_INT64 = ''int64''"
| "calynda_rt_type_tag_name CALYNDA_RT_TYPE_STRING = ''string''"
| "calynda_rt_type_tag_name CALYNDA_RT_TYPE_ARRAY = ''array''"
| "calynda_rt_type_tag_name CALYNDA_RT_TYPE_CLOSURE = ''closure''"
| "calynda_rt_type_tag_name CALYNDA_RT_TYPE_EXTERNAL = ''external''"
| "calynda_rt_type_tag_name CALYNDA_RT_TYPE_RAW_WORD = ''raw-word''"
| "calynda_rt_type_tag_name CALYNDA_RT_TYPE_UNION = ''union''"
| "calynda_rt_type_tag_name CALYNDA_RT_TYPE_HETERO_ARRAY = ''hetero-array''"

text \<open>\<open>long long\<close> values are integers; a word holds 32 bits of one.\<close>

definition rt_signed_from_word :: "CalyndaRtWord \<Rightarrow> int" where
  "rt_signed_from_word value = sint value"

definition rt_word_from_signed :: "int \<Rightarrow> CalyndaRtWord" where
  "rt_word_from_signed value = word_of_int value"

text \<open>The text of an object before it is cut at the end of the buffer.\<close>

definition union_text :: "CalyndaRtTypeDescriptor option \<Rightarrow> u32 \<Rightarrow> string" where
  "union_text type_desc tag =
     (let vname = (case type_desc of
                     None \<Rightarrow> ''?''
                   | Some td \<Rightarrow>
                       if unat tag < length (td_variant_names td) then td_variant_names td ! unat tag else ''?'')
      in ''<'' @ (case type_desc of None \<Rightarrow> ''union'' | Some td \<Rightarrow> td_name td) @ ''::'' @ vname @ ''>'')"

fun object_text :: "CalyndaRtObject \<Rightarrow> string" where
  "object_text (CalyndaRtString bytes) = bytes"
| "object_text (CalyndaRtArray elements) = ''<array:'' @ print_nat (length elements) @ ''>''"
| "object_text (CalyndaRtClosure entry captures) = ''<closure>''"
| "object_text (CalyndaRtPackage name) = ''<package:'' @ name @ ''>''"
| "object_text (CalyndaRtExternCallable kind name) = ''<extern:'' @ name @ ''>''"
| "object_text (CalyndaRtUnion type_desc tag payload) = union_text type_desc tag"
| "object_text (CalyndaRtHeteroArray elements tags) = ''<hetero-array:'' @ print_nat (length elements) @ ''>''"

text \<open>The text in a buffer of \<open>bufsz\<close> bytes; \<open>None\<close> is the answer false.\<close>

definition rt_format_word_internal :: "CalyndaRt \<Rightarrow> CalyndaRtWord \<Rightarrow> nat \<Rightarrow> string option outcome" where
  "rt_format_word_internal st word bufsz =
     (if bufsz = 0 then Done None
      else and_then (rt_object st word) (\<lambda>h.
        Done (Some (snprintf bufsz (case h of
                                      None \<Rightarrow> print_int (rt_signed_from_word word)
                                    | Some ob \<Rightarrow> object_text ob)))))"

definition rt_is_runtime_string_word :: "CalyndaRt \<Rightarrow> CalyndaRtWord \<Rightarrow> bool outcome" where
  "rt_is_runtime_string_word st word =
     and_then (rt_object st word) (\<lambda>h.
       Done (case h of None \<Rightarrow> False | Some ob \<Rightarrow> object_kind ob = CALYNDA_RT_OBJECT_STRING))"

definition calynda_rt_string_bytes :: "CalyndaRt \<Rightarrow> CalyndaRtWord \<Rightarrow> string option outcome" where
  "calynda_rt_string_bytes st word =
     and_then (rt_object st word) (\<lambda>h.
       Done (case h of Some (CalyndaRtString bytes) \<Rightarrow> Some bytes | _ \<Rightarrow> None))"

definition calynda_rt_array_length :: "CalyndaRt \<Rightarrow> CalyndaRtWord \<Rightarrow> nat outcome" where
  "calynda_rt_array_length st word =
     and_then (rt_object st word) (\<lambda>h.
       Done (case h of Some (CalyndaRtArray elements) \<Rightarrow> length elements | _ \<Rightarrow> 0))"

text \<open>\<open>strtoll\<close> in base 10 without the end pointer: blanks, a sign, digits; saturating.\<close>

definition is_space :: "char \<Rightarrow> bool" where
  "is_space c \<longleftrightarrow> (let n = (of_char c :: nat) in n = 32 \<or> (9 \<le> n \<and> n \<le> 13))"

definition strtoll :: "string \<Rightarrow> int" where
  "strtoll s =
     (let s = dropWhile is_space s;
          negative = (s \<noteq> [] \<and> hd s = CHR ''-'');
          digits = takeWhile isdigit (if s \<noteq> [] \<and> hd s \<in> {CHR ''-'', CHR ''+''} then tl s else s);
          value = (if negative then - int (read_nat digits) else int (read_nat digits))
      in max (- (2 ^ 63)) (min (2 ^ 63 - 1) value))"

section \<open>Templates\<close>

text \<open>The loop over the parts; \<open>None\<close> for the buffer is the null pointer before the first part.\<close>

fun template_loop :: "CalyndaRt \<Rightarrow> CalyndaRtTemplatePart list \<Rightarrow> string option \<Rightarrow> string option outcome" where
  "template_loop st [] buffer = Done buffer"
| "template_loop st (part # parts) buffer =
     (let so_far = (case buffer of None \<Rightarrow> [] | Some s \<Rightarrow> s)
      in case part of
           Template_text text \<Rightarrow>
             template_loop st parts (Some (so_far @ (case text of None \<Rightarrow> [] | Some s \<Rightarrow> s)))
         | Template_value word \<Rightarrow>
             and_then (rt_format_word_internal st word 256) (\<lambda>text.
               case text of
                 None \<Rightarrow> Abort ''runtime: failed to format template value''
               | Some s \<Rightarrow> template_loop st parts (Some (so_far @ s)))
         | Template_unknown tag \<Rightarrow>
             Abort (''runtime: unknown template tag ('' @ print_nat (unat tag) @ '')''))"

definition rt_template_build :: "memory_answers \<Rightarrow> CalyndaRtTemplatePart list \<Rightarrow> CalyndaRt \<Rightarrow> (CalyndaRtWord \<times> CalyndaRt) outcome" where
  "rt_template_build ma parts st =
     and_then (template_loop st parts None) (\<lambda>buffer.
       case buffer of
         None \<Rightarrow> calynda_rt_make_string_copy ma (Some []) st
       | Some bytes \<Rightarrow>
           or_abort ''runtime: out of memory boxing template result'' (rt_new_string_object ma bytes st))"

section \<open>Operations\<close>

definition rt_closure_new :: "memory_answers \<Rightarrow> nat \<Rightarrow> CalyndaRtWord list \<Rightarrow> CalyndaRt \<Rightarrow> (CalyndaRtWord \<times> CalyndaRt) outcome" where
  "rt_closure_new ma code_ptr captures st =
     or_abort ''runtime: out of memory creating closure'' (rt_new_closure_object ma code_ptr captures st)"

definition rt_array_literal :: "memory_answers \<Rightarrow> CalyndaRtWord list \<Rightarrow> CalyndaRt \<Rightarrow> (CalyndaRtWord \<times> CalyndaRt) outcome" where
  "rt_array_literal ma elements st =
     or_abort ''runtime: out of memory creating array'' (rt_new_array_object ma elements st)"

text \<open>The offset of an index: the signed value of the word as a \<open>size_t\<close> of 32 bits.\<close>

definition index_offset :: "CalyndaRtWord \<Rightarrow> nat" where
  "index_offset index = unat (word_of_int (rt_signed_from_word index) :: u32)"

definition out_of_bounds :: "nat \<Rightarrow> string" where
  "out_of_bounds offset = ''runtime: array index out of bounds ('' @ print_nat offset @ '')''"

definition rt_index_load :: "CalyndaRtWord \<Rightarrow> CalyndaRtWord \<Rightarrow> CalyndaRt \<Rightarrow> CalyndaRtWord outcome" where
  "rt_index_load target index st =
     and_then (rt_object st target) (\<lambda>h.
       case h of
         Some (CalyndaRtArray elements) \<Rightarrow>
           if index_offset index \<ge> length elements then Abort (out_of_bounds (index_offset index))
           else element_at elements (index_offset index)
       | _ \<Rightarrow> Abort ''runtime: index load on non-array value'')"

definition rt_store_index :: "CalyndaRtWord \<Rightarrow> CalyndaRtWord \<Rightarrow> CalyndaRtWord \<Rightarrow> CalyndaRt \<Rightarrow> CalyndaRt outcome" where
  "rt_store_index target index value st =
     and_then (rt_object st target) (\<lambda>h.
       case h of
         Some (CalyndaRtArray elements) \<Rightarrow>
           if index_offset index \<ge> length elements then Abort (out_of_bounds (index_offset index))
           else and_then (element_put elements (index_offset index) value) (\<lambda>elements.
             Done (st\<lparr>cr_objects := (cr_objects st)(target \<mapsto> CalyndaRtArray elements)\<rparr>))
       | _ \<Rightarrow> Abort ''runtime: index store on non-array value'')"

definition rt_store_member :: "CalyndaRt outcome" where
  "rt_store_member = Abort ''runtime: member stores are not implemented''"

definition rt_throw :: "CalyndaRtWord \<Rightarrow> CalyndaRt \<Rightarrow> 'a outcome" where
  "rt_throw value st =
     and_then (rt_format_word_internal st value 256) (\<lambda>text.
       Abort (''Unhandled throw: '' @ (case text of None \<Rightarrow> ''<unformattable>'' | Some s \<Rightarrow> s)))"

definition rt_cast_value :: "memory_answers \<Rightarrow> CalyndaRtWord \<Rightarrow> CalyndaRtTypeTag \<Rightarrow> CalyndaRt \<Rightarrow> (CalyndaRtWord \<times> CalyndaRt) outcome" where
  "rt_cast_value ma source target_type_tag st =
     (if target_type_tag = CALYNDA_RT_TYPE_BOOL then Done (if source \<noteq> 0 then 1 else 0, st)
      else if target_type_tag \<in> {CALYNDA_RT_TYPE_INT32, CALYNDA_RT_TYPE_INT64}
      then and_then (rt_object st source) (\<lambda>h.
             case h of
               Some (CalyndaRtString bytes) \<Rightarrow> Done (rt_word_from_signed (strtoll bytes), st)
             | _ \<Rightarrow> Done (source, st))
      else if target_type_tag = CALYNDA_RT_TYPE_STRING
      then and_then (rt_is_runtime_string_word st source) (\<lambda>is_string.
             if is_string then Done (source, st)
             else and_then (rt_format_word_internal st source 128) (\<lambda>text.
               case text of
                 None \<Rightarrow> Abort ''runtime: failed to stringify cast source''
               | Some s \<Rightarrow> calynda_rt_make_string_copy ma (Some s) st))
      else Done (source, st))"

definition rt_union_new :: "memory_answers \<Rightarrow> CalyndaRtTypeDescriptor option \<Rightarrow> u32 \<Rightarrow> CalyndaRtWord \<Rightarrow> CalyndaRt \<Rightarrow> (CalyndaRtWord \<times> CalyndaRt) outcome" where
  "rt_union_new ma type_desc variant_tag payload st =
     or_abort (if ma_block ma = None then ''runtime: out of memory creating union'' else ''runtime: out of memory registering union'')
       (new_object ma False (CalyndaRtUnion type_desc variant_tag payload) st)"

definition rt_union_get_tag :: "CalyndaRtWord \<Rightarrow> CalyndaRt \<Rightarrow> u32 outcome" where
  "rt_union_get_tag value st =
     and_then (rt_object st value) (\<lambda>h.
       case h of
         Some (CalyndaRtUnion type_desc tag payload) \<Rightarrow> Done tag
       | _ \<Rightarrow> Abort ''runtime: tag access on non-union value'')"

definition rt_union_get_payload :: "CalyndaRtWord \<Rightarrow> CalyndaRt \<Rightarrow> CalyndaRtWord outcome" where
  "rt_union_get_payload value st =
     and_then (rt_object st value) (\<lambda>h.
       case h of
         Some (CalyndaRtUnion type_desc tag payload) \<Rightarrow> Done payload
       | _ \<Rightarrow> Abort ''runtime: payload access on non-union value'')"

definition rt_union_check_tag :: "CalyndaRtWord \<Rightarrow> u32 \<Rightarrow> CalyndaRt \<Rightarrow> bool outcome" where
  "rt_union_check_tag value expected_tag st =
     and_then (rt_object st value) (\<lambda>h.
       case h of
         Some (CalyndaRtUnion type_desc tag payload) \<Rightarrow> Done (tag = expected_tag)
       | _ \<Rightarrow> Done False)"

text \<open>
  The copy of \<open>count\<close> elements from an array of the caller reads outside a shorter one; a null
  pointer leaves the zeros of the allocation.
\<close>

definition copy_elements :: "nat \<Rightarrow> 'a list option \<Rightarrow> 'a \<Rightarrow> 'a list outcome" where
  "copy_elements count source zero =
     (case source of
        None \<Rightarrow> Done (replicate count zero)
      | Some xs \<Rightarrow> if count \<le> length xs then Done (take count xs) else Wild)"

definition rt_hetero_array_new ::
  "memory_answers \<Rightarrow> nat \<Rightarrow> CalyndaRtWord list option \<Rightarrow> CalyndaRtTypeTag list option \<Rightarrow> CalyndaRt \<Rightarrow>
    (CalyndaRtWord \<times> CalyndaRt) outcome" where
  "rt_hetero_array_new ma count elements element_tags st =
     (if ma_block ma = None then Abort ''runtime: out of memory creating hetero-array''
      else if count > 0 \<and> \<not> ma_data ma then Abort ''runtime: out of memory creating hetero-array elements''
      else and_then (copy_elements count elements 0) (\<lambda>ws.
        and_then (copy_elements count element_tags CALYNDA_RT_TYPE_VOID) (\<lambda>ts.
          or_abort ''runtime: out of memory registering hetero-array''
            (new_object ma (count > 0) (CalyndaRtHeteroArray ws ts) st))))"

definition rt_hetero_array_get_tag :: "CalyndaRtWord \<Rightarrow> CalyndaRtWord \<Rightarrow> CalyndaRt \<Rightarrow> CalyndaRtTypeTag outcome" where
  "rt_hetero_array_get_tag target index st =
     and_then (rt_object st target) (\<lambda>h.
       case h of
         Some (CalyndaRtHeteroArray elements tags) \<Rightarrow>
           if index_offset index \<ge> length elements
           then Abort (''runtime: hetero-array tag index out of bounds ('' @ print_nat (index_offset index) @ '')'')
           else element_at tags (index_offset index)
       | _ \<Rightarrow> Abort ''runtime: hetero-array tag access on non-hetero-array'')"

end
