(* ===== verification/WiiProgram.thy ===== *)
theory WiiProgram
  imports WiiRuntime
begin

unbundle bit_operations_syntax

text \<open>
  Compiled programs on the runtime: the packages of the console with their callables
  (calynda_wpad.c, calynda_mii.c and the bridges), member loads and calls, and the start of a
  process.  A compiled program is a tree of calls into the runtime, whose continuations take the
  word that a call returned; closures name code of the program.  What the console and its libraries
  answer is an argument.
\<close>

section \<open>The packages\<close>

text \<open>
  The labels of the callables of a package, in the order of their kinds: the kinds of a package
  are consecutive, from 100, 200, 300, 400 and 500.
\<close>

definition all_wpad_callables :: "string list" where
  "all_wpad_callables =
     [''init'', ''scan'', ''buttons_down'', ''buttons_held'', ''buttons_up'', ''rumble'',
      ''probe'', ''BUTTON_A'', ''BUTTON_B'', ''BUTTON_1'', ''BUTTON_2'', ''BUTTON_UP'',
      ''BUTTON_DOWN'', ''BUTTON_LEFT'', ''BUTTON_RIGHT'', ''BUTTON_PLUS'', ''BUTTON_MINUS'',
      ''BUTTON_HOME'', ''has_button'']"

definition all_mii_callables :: "string list" where
  "all_mii_callables =
     [''load'', ''count'', ''name'', ''creator'', ''is_female'', ''is_favorite'', ''height'',
      ''weight'', ''fav_color'', ''face_shape'', ''skin_color'', ''facial_feature'', ''hair_type'',
      ''hair_color'', ''hair_part'', ''eye_type'', ''eye_color'', ''eyebrow_type'',
      ''eyebrow_color'', ''nose_type'', ''lip_type'', ''lip_color'', ''glasses_type'',
      ''glasses_color'', ''mustache_type'', ''beard_type'', ''facial_hair_color'', ''has_mole'',
      ''load_remote'', ''RED'', ''ORANGE'', ''YELLOW'', ''LIGHT_GREEN'', ''GREEN'', ''BLUE'',
      ''LIGHT_BLUE'', ''PINK'', ''PURPLE'', ''BROWN'', ''WHITE'', ''BLACK'']"

definition all_gfx_callables :: "string list" where
  "all_gfx_callables =
     [''init'', ''frame_begin'', ''frame_end'', ''setup_3d'', ''setup_2d'', ''camera_set_pos'',
      ''camera_set_target'', ''camera_set_fov'', ''camera_apply'', ''camera_orbit_update'',
      ''camera_follow_update'', ''mesh_create_cube'', ''mesh_create_sphere'',
      ''mesh_create_plane'', ''mesh_draw'', ''material_set_mode'', ''material_apply'',
      ''light_set_ambient'', ''light_add_directional'', ''light_add_point'', ''lights_apply'',
      ''scene_create_node'', ''node_set_pos'', ''node_set_rotation'', ''node_set_scale'',
      ''node_set_mesh'', ''scene_render'', ''skybox_draw'', ''particles_emit'',
      ''particles_update'', ''particles_draw'', ''water_update'', ''water_draw'']"

definition all_physics_callables :: "string list" where
  "all_physics_callables =
     [''world_init'', ''world_step'', ''set_gravity'', ''body_create'', ''body_create_static'',
      ''body_destroy'', ''body_set_pos'', ''body_get_pos_x'', ''body_get_pos_y'',
      ''body_get_pos_z'', ''body_apply_force'', ''body_apply_impulse'', ''body_set_velocity'',
      ''body_set_restitution'', ''body_set_friction'', ''SHAPE_SPHERE'', ''SHAPE_BOX'',
      ''SHAPE_CAPSULE'', ''SHAPE_PLANE'', ''raycast'', ''ray_hit'', ''ray_distance'',
      ''projectile_launch'', ''char_create'', ''char_move'', ''char_jump'', ''char_update'',
      ''char_grounded'']"

definition all_motion_callables :: "string list" where
  "all_motion_callables =
     [''init'', ''update'', ''feed_raw'', ''feed_ir'', ''get_pitch'', ''get_yaw'', ''get_roll'',
      ''get_angular_vel_x'', ''get_angular_vel_y'', ''get_angular_vel_z'', ''get_linear_accel_x'',
      ''get_linear_accel_y'', ''get_linear_accel_z'', ''get_gesture'', ''get_gesture_strength'',
      ''get_pointer_x'', ''get_pointer_y'', ''get_aim_ray_ox'', ''get_aim_ray_oy'',
      ''get_aim_ray_oz'', ''get_aim_ray_dx'', ''get_aim_ray_dy'', ''get_aim_ray_dz'',
      ''set_thresholds'', ''calibrate'', ''reset_orientation'', ''GESTURE_NONE'',
      ''GESTURE_SWING_LEFT'', ''GESTURE_SWING_RIGHT'', ''GESTURE_SWING_UP'',
      ''GESTURE_SWING_DOWN'', ''GESTURE_THRUST'', ''GESTURE_THROW'', ''GESTURE_TWIST_CW'',
      ''GESTURE_TWIST_CCW'', ''GESTURE_SHAKE'']"

fun package_callables :: "rt_package \<Rightarrow> string list" where
  "package_callables Package_wpad = all_wpad_callables"
| "package_callables Package_mii = all_mii_callables"
| "package_callables Package_gfx = all_gfx_callables"
| "package_callables Package_physics = all_physics_callables"
| "package_callables Package_motion = all_motion_callables"

fun first_kind :: "rt_package \<Rightarrow> nat" where
  "first_kind Package_wpad = 100"
| "first_kind Package_mii = 200"
| "first_kind Package_gfx = 300"
| "first_kind Package_physics = 400"
| "first_kind Package_motion = 500"

fun package_name :: "rt_package \<Rightarrow> string" where
  "package_name Package_wpad = ''wpad''"
| "package_name Package_mii = ''mii''"
| "package_name Package_gfx = ''gfx''"
| "package_name Package_physics = ''physics''"
| "package_name Package_motion = ''motion''"

text \<open>The static objects and what they hold.\<close>

fun static_object :: "rt_static \<Rightarrow> CalyndaRtObject" where
  "static_object Pkg_stdlib = CalyndaRtPackage ''stdlib''"
| "static_object STDOUT_PRINT_CALLABLE = CalyndaRtExternCallable 0 ''print''"
| "static_object (Pkg P) = CalyndaRtPackage (package_name P)"
| "static_object (Callable P i) = CalyndaRtExternCallable (first_kind P + i) (package_callables P ! i)"

definition package_statics :: "rt_package \<Rightarrow> rt_static list" where
  "package_statics P = Pkg P # List.map (Callable P) [0..<length (package_callables P)]"

text \<open>The answer of the allocation of each registration is that for the address.\<close>

definition register_objects :: "(u32 \<Rightarrow> bool) \<Rightarrow> rt_package \<Rightarrow> CalyndaRt \<Rightarrow> CalyndaRt" where
  "register_objects grow P st =
     foldl (\<lambda>st s. calynda_rt_register_static_object (grow (cr_address st s)) (cr_address st s) st) st (package_statics P)"

definition calynda_wpad_register_objects :: "(u32 \<Rightarrow> bool) \<Rightarrow> CalyndaRt \<Rightarrow> CalyndaRt" where
  "calynda_wpad_register_objects grow st = register_objects grow Package_wpad st"

definition calynda_mii_register_objects :: "(u32 \<Rightarrow> bool) \<Rightarrow> CalyndaRt \<Rightarrow> CalyndaRt" where
  "calynda_mii_register_objects grow st = register_objects grow Package_mii st"

definition calynda_gfx_register_objects :: "(u32 \<Rightarrow> bool) \<Rightarrow> CalyndaRt \<Rightarrow> CalyndaRt" where
  "calynda_gfx_register_objects grow st = register_objects grow Package_gfx st"

definition calynda_physics_register_objects :: "(u32 \<Rightarrow> bool) \<Rightarrow> CalyndaRt \<Rightarrow> CalyndaRt" where
  "calynda_physics_register_objects grow st = register_objects grow Package_physics st"

definition calynda_motion_register_objects :: "(u32 \<Rightarrow> bool) \<Rightarrow> CalyndaRt \<Rightarrow> CalyndaRt" where
  "calynda_motion_register_objects grow st = register_objects grow Package_motion st"

definition calynda_rt_init :: "(u32 \<Rightarrow> bool) \<Rightarrow> CalyndaRt \<Rightarrow> CalyndaRt" where
  "calynda_rt_init grow st =
     (let st = calynda_wpad_register_objects grow st;
          st = calynda_mii_register_objects grow st;
          st = calynda_gfx_register_objects grow st;
          st = calynda_physics_register_objects grow st
      in calynda_motion_register_objects grow st)"

text \<open>The chain of comparisons of the member; 0 when none is equal.\<close>

fun position_of :: "string \<Rightarrow> string list \<Rightarrow> nat option" where
  "position_of x [] = None"
| "position_of x (y # ys) = (if y = x then Some 0 else map_option Suc (position_of x ys))"

definition search_member :: "CalyndaRt \<Rightarrow> rt_package \<Rightarrow> string list \<Rightarrow> string \<Rightarrow> CalyndaRtWord" where
  "search_member st P labels member =
     (case position_of member labels of None \<Rightarrow> 0 | Some i \<Rightarrow> cr_address st (Callable P i))"

definition calynda_wpad_member_load :: "CalyndaRt \<Rightarrow> string \<Rightarrow> CalyndaRtWord" where
  "calynda_wpad_member_load st member = search_member st Package_wpad all_wpad_callables member"

definition calynda_mii_member_load :: "CalyndaRt \<Rightarrow> string \<Rightarrow> CalyndaRtWord" where
  "calynda_mii_member_load st member = search_member st Package_mii all_mii_callables member"

definition calynda_gfx_member_load :: "CalyndaRt \<Rightarrow> string \<Rightarrow> CalyndaRtWord" where
  "calynda_gfx_member_load st member = search_member st Package_gfx all_gfx_callables member"

definition calynda_physics_member_load :: "CalyndaRt \<Rightarrow> string \<Rightarrow> CalyndaRtWord" where
  "calynda_physics_member_load st member = search_member st Package_physics all_physics_callables member"

definition calynda_motion_member_load :: "CalyndaRt \<Rightarrow> string \<Rightarrow> CalyndaRtWord" where
  "calynda_motion_member_load st member = search_member st Package_motion all_motion_callables member"

fun package_member_load :: "CalyndaRt \<Rightarrow> rt_package \<Rightarrow> string \<Rightarrow> CalyndaRtWord" where
  "package_member_load st Package_wpad member = calynda_wpad_member_load st member"
| "package_member_load st Package_mii member = calynda_mii_member_load st member"
| "package_member_load st Package_gfx member = calynda_gfx_member_load st member"
| "package_member_load st Package_physics member = calynda_physics_member_load st member"
| "package_member_load st Package_motion member = calynda_motion_member_load st member"

section \<open>Member loads and calls\<close>

text \<open>The packages are compared with the target one after the other.\<close>

fun member_of_package :: "CalyndaRt \<Rightarrow> u32 \<Rightarrow> string \<Rightarrow> rt_package list \<Rightarrow> CalyndaRtWord option" where
  "member_of_package st h member [] = None"
| "member_of_package st h member (P # Ps) =
     (if h = cr_address st (Pkg P) \<and> package_member_load st P member \<noteq> 0
      then Some (package_member_load st P member)
      else member_of_package st h member Ps)"

definition rt_member_load :: "CalyndaRtWord \<Rightarrow> string option \<Rightarrow> CalyndaRt \<Rightarrow> CalyndaRtWord outcome" where
  "rt_member_load target member st =
     (case calynda_rt_as_object st target of
        None \<Rightarrow> Abort ''runtime: member access on non-object value''
      | Some h \<Rightarrow>
          (case member of
             None \<Rightarrow> Abort ''runtime: member access with null member symbol''
           | Some m \<Rightarrow>
               if h = cr_address st Pkg_stdlib \<and> m = ''print'' then Done (cr_address st STDOUT_PRINT_CALLABLE)
               else case member_of_package st h m
                           [Package_wpad, Package_mii, Package_gfx, Package_physics, Package_motion] of
                      Some w \<Rightarrow> Done w
                    | None \<Rightarrow> Abort (''runtime: unsupported member load .'' @ m)))"

definition rt_dispatch_extern_callable :: "nat \<Rightarrow> CalyndaRtWord list \<Rightarrow> CalyndaRt \<Rightarrow> (CalyndaRtWord \<times> CalyndaRt) outcome" where
  "rt_dispatch_extern_callable kind arguments st =
     (if kind = 0
      then (case arguments of
              [] \<Rightarrow> Done (0, st\<lparr>cr_out := cr_out st @ [CHR 0x0A]\<rparr>)
            | a # as \<Rightarrow>
                and_then (rt_format_word_internal st a 256) (\<lambda>text.
                  Done (0, st\<lparr>cr_out := cr_out st @ (case text of None \<Rightarrow> ''<unformattable>'' | Some s \<Rightarrow> s) @ [CHR 0x0A]\<rparr>)))
      else Abort (''runtime: unsupported extern callable kind '' @ print_nat kind))"

text \<open>What a callable leads to: code of the program with its captures, or a kind of callable.\<close>

datatype rt_target = Target_closure nat "CalyndaRtWord list" | Target_extern nat

definition callable_target :: "CalyndaRtWord \<Rightarrow> CalyndaRt \<Rightarrow> rt_target outcome" where
  "callable_target callable st =
     and_then (rt_object st callable) (\<lambda>h.
       case h of
         None \<Rightarrow> Abort (''runtime: attempted to call a non-callable raw word ('' @ print_nat (unat callable) @ '')'')
       | Some (CalyndaRtClosure entry captures) \<Rightarrow> Done (Target_closure entry captures)
       | Some (CalyndaRtExternCallable kind name) \<Rightarrow> Done (Target_extern kind)
       | Some ob \<Rightarrow>
           Abort (''runtime: object of kind '' @ calynda_rt_object_kind_name (object_kind ob) @ '' is not callable''))"

text \<open>The package that a kind belongs to; \<open>None\<close> is the runtime itself.\<close>

definition package_of_kind :: "nat \<Rightarrow> rt_package option" where
  "package_of_kind kind =
     (if kind \<ge> 500 then Some Package_motion
      else if kind \<ge> 400 then Some Package_physics
      else if kind \<ge> 300 then Some Package_gfx
      else if kind \<ge> 200 then Some Package_mii
      else if kind \<ge> 100 then Some Package_wpad
      else None)"

text \<open>
  The controller package.  What libogc answers is a record of its functions; the masks of the
  buttons are constants of its header.
\<close>

record libogc =
  WPAD_Init :: u32
  WPAD_ScanPads :: u32
  WPAD_ButtonsDown :: "u32 \<Rightarrow> u32"
  WPAD_ButtonsHeld :: "u32 \<Rightarrow> u32"
  WPAD_ButtonsUp :: "u32 \<Rightarrow> u32"
  WPAD_Rumble :: "u32 \<Rightarrow> u32 \<Rightarrow> u32"
  WPAD_Probe :: "u32 \<Rightarrow> u32"
  WPAD_BUTTON :: "string \<Rightarrow> u32"

definition argument_or_zero :: "CalyndaRtWord list \<Rightarrow> nat \<Rightarrow> CalyndaRtWord" where
  "argument_or_zero arguments i = (if i < length arguments then arguments ! i else 0)"

definition calynda_wpad_dispatch :: "libogc \<Rightarrow> nat \<Rightarrow> CalyndaRtWord list \<Rightarrow> CalyndaRtWord" where
  "calynda_wpad_dispatch ogc kind arguments =
     (if kind = 100 then WPAD_Init ogc
      else if kind = 101 then WPAD_ScanPads ogc
      else if kind = 102 then WPAD_ButtonsDown ogc (argument_or_zero arguments 0)
      else if kind = 103 then WPAD_ButtonsHeld ogc (argument_or_zero arguments 0)
      else if kind = 104 then WPAD_ButtonsUp ogc (argument_or_zero arguments 0)
      else if kind = 105 then WPAD_Rumble ogc (argument_or_zero arguments 0) (argument_or_zero arguments 1)
      else if kind = 106 then WPAD_Probe ogc (argument_or_zero arguments 0)
      else if kind = 107 then WPAD_BUTTON ogc ''A''
      else if kind = 108 then WPAD_BUTTON ogc ''B''
      else if kind = 109 then WPAD_BUTTON ogc ''1''
      else if kind = 110 then WPAD_BUTTON ogc ''2''
      else if kind = 111 then WPAD_BUTTON ogc ''UP''
      else if kind = 112 then WPAD_BUTTON ogc ''DOWN''
      else if kind = 113 then WPAD_BUTTON ogc ''LEFT''
      else if kind = 114 then WPAD_BUTTON ogc ''RIGHT''
      else if kind = 115 then WPAD_BUTTON ogc ''PLUS''
      else if kind = 116 then WPAD_BUTTON ogc ''MINUS''
      else if kind = 117 then WPAD_BUTTON ogc ''HOME''
      else if kind = 118
      then (if argument_or_zero arguments 0 AND argument_or_zero arguments 1 \<noteq> 0 then 1 else 0)
      else 0)"

text \<open>
  The other packages work on data of their own; towards the runtime they return a word, or the
  object of a text (\<open>mii.name\<close> and \<open>mii.creator\<close>), or they follow an argument that is no pointer to
  their data, as the bridges of graphics and physics do without a check.
\<close>

datatype bridge_answer = Answer_word CalyndaRtWord | Answer_text string | Answer_fault

section \<open>Programs\<close>

datatype rt_op =
    RT_TEMPLATE_BUILD "CalyndaRtTemplatePart list"
  | RT_CLOSURE_NEW nat "CalyndaRtWord list"
  | RT_CALL_CALLABLE CalyndaRtWord "CalyndaRtWord list"
  | RT_MEMBER_LOAD CalyndaRtWord "string option"
  | RT_INDEX_LOAD CalyndaRtWord CalyndaRtWord
  | RT_ARRAY_LITERAL "CalyndaRtWord list"
  | RT_STORE_INDEX CalyndaRtWord CalyndaRtWord CalyndaRtWord
  | RT_STORE_MEMBER CalyndaRtWord string CalyndaRtWord
  | RT_THROW CalyndaRtWord
  | RT_CAST_VALUE CalyndaRtWord CalyndaRtTypeTag
  | RT_MAKE_STRING_COPY "string option"
  | RT_ARRAY_LENGTH CalyndaRtWord
  | RT_UNION_NEW "CalyndaRtTypeDescriptor option" u32 CalyndaRtWord
  | RT_UNION_GET_TAG CalyndaRtWord
  | RT_UNION_GET_PAYLOAD CalyndaRtWord
  | RT_UNION_CHECK_TAG CalyndaRtWord u32
  | RT_HETERO_ARRAY_NEW "(CalyndaRtWord \<times> CalyndaRtTypeTag) list"
  | RT_HETERO_ARRAY_GET_TAG CalyndaRtWord CalyndaRtWord

datatype rt_program = Return CalyndaRtWord | Runtime rt_op "CalyndaRtWord \<Rightarrow> rt_program"

fun tag_word :: "CalyndaRtTypeTag \<Rightarrow> CalyndaRtWord" where
  "tag_word CALYNDA_RT_TYPE_VOID = 0"
| "tag_word CALYNDA_RT_TYPE_BOOL = 1"
| "tag_word CALYNDA_RT_TYPE_INT32 = 2"
| "tag_word CALYNDA_RT_TYPE_INT64 = 3"
| "tag_word CALYNDA_RT_TYPE_STRING = 4"
| "tag_word CALYNDA_RT_TYPE_ARRAY = 5"
| "tag_word CALYNDA_RT_TYPE_CLOSURE = 6"
| "tag_word CALYNDA_RT_TYPE_EXTERNAL = 7"
| "tag_word CALYNDA_RT_TYPE_RAW_WORD = 8"
| "tag_word CALYNDA_RT_TYPE_UNION = 9"
| "tag_word CALYNDA_RT_TYPE_HETERO_ARRAY = 10"

text \<open>The word that a call which only reads the state gives to the program.\<close>

definition reading :: "CalyndaRt \<Rightarrow> CalyndaRtWord outcome \<Rightarrow> (CalyndaRtWord \<times> CalyndaRt) outcome" where
  "reading st r = and_then r (\<lambda>w. Done (w, st))"

text \<open>Every call but that of a callable, which the run of a program makes itself.\<close>

fun rt_execute :: "memory_answers \<Rightarrow> rt_op \<Rightarrow> CalyndaRt \<Rightarrow> (CalyndaRtWord \<times> CalyndaRt) outcome" where
  "rt_execute ma (RT_TEMPLATE_BUILD parts) st = rt_template_build ma parts st"
| "rt_execute ma (RT_CLOSURE_NEW entry captures) st = rt_closure_new ma entry captures st"
| "rt_execute ma (RT_CALL_CALLABLE callable arguments) st = Done (0, st)"
| "rt_execute ma (RT_MEMBER_LOAD target member) st = reading st (rt_member_load target member st)"
| "rt_execute ma (RT_INDEX_LOAD target index) st = reading st (rt_index_load target index st)"
| "rt_execute ma (RT_ARRAY_LITERAL elements) st = rt_array_literal ma elements st"
| "rt_execute ma (RT_STORE_INDEX target index value) st =
     and_then (rt_store_index target index value st) (\<lambda>st. Done (0, st))"
| "rt_execute ma (RT_STORE_MEMBER target member value) st =
     and_then rt_store_member (\<lambda>st. Done (0, st))"
| "rt_execute ma (RT_THROW value) st = rt_throw value st"
| "rt_execute ma (RT_CAST_VALUE source tag) st = rt_cast_value ma source tag st"
| "rt_execute ma (RT_MAKE_STRING_COPY bytes) st = calynda_rt_make_string_copy ma bytes st"
| "rt_execute ma (RT_ARRAY_LENGTH word) st =
     reading st (and_then (calynda_rt_array_length st word) (\<lambda>n. Done (word_of_nat n)))"
| "rt_execute ma (RT_UNION_NEW type_desc tag payload) st = rt_union_new ma type_desc tag payload st"
| "rt_execute ma (RT_UNION_GET_TAG value) st = reading st (rt_union_get_tag value st)"
| "rt_execute ma (RT_UNION_GET_PAYLOAD value) st = reading st (rt_union_get_payload value st)"
| "rt_execute ma (RT_UNION_CHECK_TAG value tag) st =
     reading st (and_then (rt_union_check_tag value tag st) (\<lambda>b. Done (if b then 1 else 0)))"
| "rt_execute ma (RT_HETERO_ARRAY_NEW elements) st =
     rt_hetero_array_new ma (length elements) (Some (List.map fst elements)) (Some (List.map snd elements)) st"
| "rt_execute ma (RT_HETERO_ARRAY_GET_TAG target index) st =
     reading st (and_then (rt_hetero_array_get_tag target index st) (\<lambda>t. Done (tag_word t)))"

text \<open>
  What surrounds a program: the code of its closures, the answers of allocation, and the answers
  of the console, each at a moment.
\<close>

record rt_environment =
  env_code :: "nat \<Rightarrow> CalyndaRtWord list \<Rightarrow> CalyndaRtWord list \<Rightarrow> rt_program"
  env_memory :: "nat \<Rightarrow> CalyndaRt \<Rightarrow> memory_answers"
  env_ogc :: "nat \<Rightarrow> libogc"
  env_bridge :: "nat \<Rightarrow> rt_package \<Rightarrow> nat \<Rightarrow> CalyndaRtWord list \<Rightarrow> bridge_answer"

definition call_extern :: "rt_environment \<Rightarrow> nat \<Rightarrow> nat \<Rightarrow> CalyndaRtWord list \<Rightarrow> CalyndaRt \<Rightarrow> (CalyndaRtWord \<times> CalyndaRt) outcome" where
  "call_extern env n kind arguments st =
     (case package_of_kind kind of
        None \<Rightarrow> rt_dispatch_extern_callable kind arguments st
      | Some P \<Rightarrow>
          if P = Package_wpad then Done (calynda_wpad_dispatch (env_ogc env n) kind arguments, st)
          else case env_bridge env n P kind arguments of
                 Answer_word w \<Rightarrow> Done (w, st)
               | Answer_text s \<Rightarrow> calynda_rt_make_string_copy (env_memory env n st) (Some s) st
               | Answer_fault \<Rightarrow> Bridge_fault P kind)"

text \<open>A run with \<open>n\<close> levels of calls and continuations; \<open>None\<close> when they are not enough.\<close>

fun run_program :: "rt_environment \<Rightarrow> nat \<Rightarrow> rt_program \<Rightarrow> CalyndaRt \<Rightarrow> (CalyndaRtWord \<times> CalyndaRt) outcome option" where
  "run_program env 0 prog st = None"
| "run_program env (Suc n) (Return w) st = Some (Done (w, st))"
| "run_program env (Suc n) (Runtime rt_op k) st =
     (case (case rt_op of
              RT_CALL_CALLABLE callable arguments \<Rightarrow>
                (case callable_target callable st of
                   Done (Target_closure entry captures) \<Rightarrow> run_program env n (env_code env entry captures arguments) st
                 | Done (Target_extern kind) \<Rightarrow> Some (call_extern env n kind arguments st)
                 | Abort message \<Rightarrow> Some (Abort message)
                 | Wild \<Rightarrow> Some Wild
                 | Bridge_fault P kind \<Rightarrow> Some (Bridge_fault P kind))
            | _ \<Rightarrow> Some (rt_execute (env_memory env n st) rt_op st)) of
        Some (Done (w, st)) \<Rightarrow> run_program env n (k w) st
      | r \<Rightarrow> r)"

section \<open>The start of a process\<close>

fun box_arguments :: "rt_environment \<Rightarrow> string list \<Rightarrow> CalyndaRt \<Rightarrow> (CalyndaRtWord list \<times> CalyndaRt) outcome" where
  "box_arguments env [] st = Done ([], st)"
| "box_arguments env (s # ss) st =
     and_then (calynda_rt_make_string_copy (env_memory env (length ss) st) (Some s) st) (\<lambda>(w, st).
       and_then (box_arguments env ss st) (\<lambda>(ws, st). Done (w # ws, st)))"

text \<open>The code of the program on the array of the arguments.\<close>

definition run_entry ::
  "rt_environment \<Rightarrow> nat \<Rightarrow> (CalyndaRtWord \<Rightarrow> rt_program) \<Rightarrow> CalyndaRtWord list \<Rightarrow> CalyndaRt \<Rightarrow> (int \<times> CalyndaRt) outcome option" where
  "run_entry env n start elements st =
     (case rt_array_literal (env_memory env n st) elements st of
        Abort message \<Rightarrow> Some (Abort message)
      | Wild \<Rightarrow> Some Wild
      | Bridge_fault P kind \<Rightarrow> Some (Bridge_fault P kind)
      | Done (arguments, st) \<Rightarrow>
          map_option (\<lambda>r. and_then r (\<lambda>(result, st). Done (sint result, st))) (run_program env n (start arguments) st))"

text \<open>The exit codes 70 and 71 are answers of the start itself.\<close>

definition calynda_rt_start_process ::
  "rt_environment \<Rightarrow> (u32 \<Rightarrow> bool) \<Rightarrow> bool \<Rightarrow> nat \<Rightarrow> (CalyndaRtWord \<Rightarrow> rt_program) option \<Rightarrow> string list \<Rightarrow> CalyndaRt \<Rightarrow>
    (int \<times> CalyndaRt) outcome option" where
  "calynda_rt_start_process env grow boxes n entry argv st =
     (case entry of
        None \<Rightarrow> Some (Done (70, st))
      | Some start \<Rightarrow>
          let st = calynda_rt_init grow st
          in if length argv > 1 \<and> \<not> boxes then Some (Done (71, st))
             else case box_arguments env (tl argv) st of
                    Abort message \<Rightarrow> Some (Abort message)
                  | Wild \<Rightarrow> Some Wild
                  | Bridge_fault P kind \<Rightarrow> Some (Bridge_fault P kind)
                  | Done (elements, st) \<Rightarrow> run_entry env n start elements st)"

end
