(* ===== verification/WiiLaws.thy ===== *)
theory WiiLaws
  imports WiiProgram "HOL-Library.Sublist"
begin

unbundle bit_operations_syntax

text \<open>
  The laws of the runtime: its registry lies in its array and names live objects only, objects
  persist, no call touches memory without an object, and what templates, casts, arrays, member loads
  and the start of a process do.
\<close>

section \<open>The invariant\<close>

text \<open>An array with tags has a tag for every element.\<close>

fun object_wf :: "CalyndaRtObject \<Rightarrow> bool" where
  "object_wf (CalyndaRtHeteroArray ws ts) \<longleftrightarrow> length ts = length ws"
| "object_wf ob \<longleftrightarrow> True"

definition live :: "CalyndaRt \<Rightarrow> u32 \<Rightarrow> bool" where
  "live st p \<longleftrightarrow> (case cr_objects st p of None \<Rightarrow> False | Some ob \<Rightarrow> object_wf ob)"

definition rt_wf :: "CalyndaRt \<Rightarrow> bool" where
  "rt_wf st \<longleftrightarrow>
     distinct (cr_items st) \<and> length (cr_items st) \<le> cr_capacity st \<and>
     (\<forall>p \<in> set (cr_items st). p \<noteq> 0 \<and> live st p) \<and>
     (\<forall>s \<in> set known_statics. live st (cr_address st s))"

text \<open>An object keeps its kind and its contents, but for the elements of an array.\<close>

fun same_object :: "CalyndaRtObject \<Rightarrow> CalyndaRtObject \<Rightarrow> bool" where
  "same_object (CalyndaRtArray xs) (CalyndaRtArray ys) \<longleftrightarrow> length xs = length ys"
| "same_object a b \<longleftrightarrow> a = b"

definition persists :: "CalyndaRt \<Rightarrow> CalyndaRt \<Rightarrow> bool" where
  "persists st st' \<longleftrightarrow>
     (\<forall>p ob. cr_objects st p = Some ob \<longrightarrow> (\<exists>ob'. cr_objects st' p = Some ob' \<and> same_object ob ob')) \<and>
     prefix (cr_items st) (cr_items st') \<and> prefix (cr_out st) (cr_out st') \<and> cr_address st' = cr_address st"

definition fresh :: "memory_answers \<Rightarrow> CalyndaRt \<Rightarrow> bool" where
  "fresh ma st \<longleftrightarrow> (case ma_block ma of None \<Rightarrow> True | Some p \<Rightarrow> p \<noteq> 0 \<and> cr_objects st p = None)"

lemma same_object_refl [simp, intro!]: "same_object ob ob"
  by (cases ob) simp_all

lemma same_object_trans: "same_object a b \<Longrightarrow> same_object b c \<Longrightarrow> same_object a c"
  by (cases a; cases b; cases c) simp_all

lemma same_object_kind: "same_object a b \<Longrightarrow> object_kind b = object_kind a"
  by (cases a; cases b) simp_all

lemma persists_refl [simp, intro!]: "persists st st"
  by (auto simp: persists_def)

lemma persists_trans: "persists a b \<Longrightarrow> persists b c \<Longrightarrow> persists a c"
  unfolding persists_def by (auto intro: prefix_order.order_trans) (meson same_object_trans)

text \<open>An outcome keeps the invariant and the objects.\<close>

definition keeps :: "CalyndaRt \<Rightarrow> ('a \<times> CalyndaRt) outcome \<Rightarrow> bool" where
  "keeps st r \<longleftrightarrow> (case r of Done (w, st') \<Rightarrow> rt_wf st' \<and> persists st st' | Abort s \<Rightarrow> True | _ \<Rightarrow> False)"

lemma keeps_simps [simp]:
  "keeps st (Done (w, st')) \<longleftrightarrow> rt_wf st' \<and> persists st st'" "keeps st (Abort s)" "\<not> keeps st Wild"
  "\<not> keeps st (Bridge_fault P kind)"
  by (simp_all add: keeps_def)

lemma keeps_trans: "persists st st' \<Longrightarrow> keeps st' r \<Longrightarrow> keeps st r"
  by (auto simp: keeps_def split: outcome.splits intro: persists_trans)

lemma keeps_and_then:
  assumes "keeps st r"
    and "\<And>w st'. r = Done (w, st') \<Longrightarrow> rt_wf st' \<Longrightarrow> keeps st' (f (w, st'))"
  shows "keeps st (and_then r f)"
  using assms by (cases r) (auto intro: keeps_trans)

text \<open>A part that only reads: it never touches wild memory, and is no call of a package.\<close>

definition alive :: "'a outcome \<Rightarrow> bool" where
  "alive r \<longleftrightarrow> (case r of Done x \<Rightarrow> True | Abort s \<Rightarrow> True | _ \<Rightarrow> False)"

lemma alive_simps [simp]: "alive (Done x)" "alive (Abort s)" "\<not> alive Wild" "\<not> alive (Bridge_fault P kind)"
  by (simp_all add: alive_def)

lemma keeps_read:
  assumes "alive r" and "\<And>x. r = Done x \<Longrightarrow> keeps st (f x)"
  shows "keeps st (and_then r f)"
  using assms by (cases r) auto

lemma alive_and_then: "alive r \<Longrightarrow> (\<And>x. r = Done x \<Longrightarrow> alive (f x)) \<Longrightarrow> alive (and_then r f)"
  by (cases r) auto

section \<open>The registry\<close>

lemma registry_contains_set [simp]: "registry_contains st p \<longleftrightarrow> p \<in> set (cr_items st)"
  by (auto simp: registry_contains_def list_ex_iff)

lemma grow_to_enough: "0 < c \<Longrightarrow> needed \<le> grow_to needed c"
  by (induction needed c rule: grow_to.induct) (subst grow_to.simps, auto)

lemma live_cong: "cr_objects st' = cr_objects st \<Longrightarrow> live st' = live st"
  by (simp add: live_def fun_eq_iff)

lemma live_update: "object_wf ob \<Longrightarrow> live st q \<Longrightarrow> live (st\<lparr>cr_objects := (cr_objects st)(p \<mapsto> ob)\<rparr>) q"
  by (simp add: live_def)

lemma live_object: "live st p \<Longrightarrow> cr_objects st p \<noteq> None"
  by (auto simp: live_def split: option.splits)

lemma live_print [simp]: "live (st\<lparr>cr_out := out\<rparr>) = live st" "rt_wf (st\<lparr>cr_out := out\<rparr>) = rt_wf st"
  by (simp_all add: rt_wf_def live_def fun_eq_iff)

lemma rt_as_object_alive: "rt_wf st \<Longrightarrow> calynda_rt_as_object st w = Some p \<Longrightarrow> p = w \<and> live st p \<and> cr_objects st p \<noteq> None"
  by (auto simp: calynda_rt_as_object_def rt_wf_def dest: live_object split: if_splits)

lemma rt_object_wf: "rt_wf st \<Longrightarrow> rt_object st w = Done (Some ob) \<Longrightarrow> object_wf ob"
  using rt_as_object_alive [of st w] by (auto simp: rt_object_def live_def split: option.splits)

lemma rt_object_alive [simp]: "rt_wf st \<Longrightarrow> alive (rt_object st w)"
  using rt_as_object_alive [of st w] by (auto simp: rt_object_def split: option.splits)

lemma rt_object_Done: "rt_object st w = Done (Some ob) \<Longrightarrow> cr_objects st w = Some ob"
  by (auto simp: rt_object_def calynda_rt_as_object_def split: option.splits if_splits)

lemma rt_object_not_Abort [simp]: "rt_object st w \<noteq> Abort s"
  by (auto simp: rt_object_def split: option.splits)

lemma register_wf:
  assumes "rt_wf st" and "live st p"
    and "rt_register_object_pointer grow p st = (ok, st')"
  shows "rt_wf st'" and "persists st st'" and "cr_objects st' = cr_objects st" and "cr_refcounts st' = cr_refcounts st"
    and "ok \<Longrightarrow> p = 0 \<or> p \<in> set (cr_items st')" and "cr_out st' = cr_out st" and "cr_address st' = cr_address st"
    and "set (cr_items st') \<subseteq> insert p (set (cr_items st))"
    and "grow \<Longrightarrow> ok"
proof -
  have "length (cr_items st) < grow_to (Suc (length (cr_items st))) (if cr_capacity st = 0 then 8 else cr_capacity st)"
    using grow_to_enough [of "if cr_capacity st = 0 then 8 else cr_capacity st" "Suc (length (cr_items st))"] by auto
  then show "rt_wf st'" "persists st st'" "cr_objects st' = cr_objects st" "cr_refcounts st' = cr_refcounts st"
    "ok \<Longrightarrow> p = 0 \<or> p \<in> set (cr_items st')" "cr_out st' = cr_out st" "cr_address st' = cr_address st"
    "set (cr_items st') \<subseteq> insert p (set (cr_items st))" "grow \<Longrightarrow> ok"
    using assms
    by (auto simp: rt_register_object_pointer_def registry_reserve_def rt_wf_def persists_def live_def split: if_splits)
qed

lemma register_static:
  assumes "rt_wf st" and "live st p"
  shows "rt_wf (calynda_rt_register_static_object grow p st)"
    and "persists st (calynda_rt_register_static_object grow p st)"
    and "grow \<Longrightarrow> p = 0 \<or> p \<in> set (cr_items (calynda_rt_register_static_object grow p st))"
    and "cr_objects (calynda_rt_register_static_object grow p st) = cr_objects st"
  using register_wf [OF assms surjective_pairing, of grow] by (simp_all add: calynda_rt_register_static_object_def)

section \<open>New objects\<close>

lemma alloc_wf:
  fixes ob :: CalyndaRtObject
  assumes "rt_wf st" and "p \<noteq> 0" and "cr_objects st p = None" and "object_wf ob"
  defines "st' \<equiv> st\<lparr>cr_objects := (cr_objects st)(p \<mapsto> ob), cr_refcounts := (cr_refcounts st)(p \<mapsto> 1)\<rparr>"
  shows "rt_wf st'" and "persists st st'"
  using assms by (auto simp: rt_wf_def persists_def live_def)

lemma new_object_registered:
  fixes ob :: CalyndaRtObject
  assumes "rt_wf st" and "fresh ma st" and "ma_block ma = Some p" and "object_wf ob"
  defines "reg \<equiv> rt_register_object_pointer (ma_grow ma) p
    (st\<lparr>cr_objects := (cr_objects st)(p \<mapsto> ob), cr_refcounts := (cr_refcounts st)(p \<mapsto> 1)\<rparr>)"
  shows "rt_wf (snd reg)" and "persists st (snd reg)" and "cr_objects (snd reg) = (cr_objects st)(p \<mapsto> ob)"
    and "cr_refcounts (snd reg) p = Some 1" and "cr_out (snd reg) = cr_out st"
    and "fst reg \<Longrightarrow> p \<in> set (cr_items (snd reg))" and "ma_grow ma \<Longrightarrow> fst reg"
proof -
  let ?on = "st\<lparr>cr_objects := (cr_objects st)(p \<mapsto> ob), cr_refcounts := (cr_refcounts st)(p \<mapsto> 1)\<rparr>"
  have block: "p \<noteq> 0" "cr_objects st p = None"
    using assms(2,3) by (simp_all add: fresh_def)
  note wf = alloc_wf [OF assms(1) block assms(4)]
  have ex: "live ?on p" and reg: "rt_register_object_pointer (ma_grow ma) p ?on = (fst reg, snd reg)"
    using assms(4) by (simp_all add: reg_def live_def)
  note laws = register_wf [OF wf(1) ex reg]
  show "rt_wf (snd reg)" "persists st (snd reg)" "cr_objects (snd reg) = (cr_objects st)(p \<mapsto> ob)"
    "cr_refcounts (snd reg) p = Some 1" "cr_out (snd reg) = cr_out st"
    "fst reg \<Longrightarrow> p \<in> set (cr_items (snd reg))" "ma_grow ma \<Longrightarrow> fst reg"
    using laws block persists_trans [OF wf(2) laws(2)] by auto
qed

lemma new_object_eq:
  fixes ob :: CalyndaRtObject
  assumes "rt_wf st" and "fresh ma st" and "ma_block ma = Some p" and "object_wf ob"
  defines "reg \<equiv> rt_register_object_pointer (ma_grow ma) p
    (st\<lparr>cr_objects := (cr_objects st)(p \<mapsto> ob), cr_refcounts := (cr_refcounts st)(p \<mapsto> 1)\<rparr>)"
  shows "\<exists>st'. new_object ma needs_data ob st =
    (if (needs_data \<longrightarrow> ma_data ma) \<and> fst reg then Done (Some p, snd reg) else Done (None, st'))"
proof -
  have block: "p \<noteq> 0"
    using assms(2,3) by (simp add: fresh_def)
  have count: "cr_refcounts (snd reg) p = Some 1"
    using new_object_registered(4) [OF assms(1-4)] by (simp add: reg_def)
  show ?thesis
    using block count
    by (cases "needs_data \<and> \<not> ma_data ma")
      (auto simp: new_object_def calynda_gc_alloc_def calynda_gc_release_def assms(3) reg_def
        split: prod.splits)
qed

lemma new_object_laws:
  assumes "rt_wf st" and "fresh ma st" and "object_wf ob"
  shows "\<exists>a st'. new_object ma needs_data ob st = Done (a, st') \<and>
    (ma_data ma \<and> ma_grow ma \<longrightarrow> a = ma_block ma) \<and>
    (\<forall>p. a = Some p \<longrightarrow> rt_wf st' \<and> persists st st' \<and> cr_objects st' = (cr_objects st)(p \<mapsto> ob) \<and>
       cr_out st' = cr_out st \<and> p \<in> set (cr_items st') \<and> p \<noteq> 0 \<and> cr_objects st p = None)"
proof (cases "ma_block ma")
  case None
  then show ?thesis
    by (simp add: new_object_def calynda_gc_alloc_def)
next
  case (Some p)
  have "p \<noteq> 0" "cr_objects st p = None"
    using assms(2) Some by (simp_all add: fresh_def)
  with new_object_registered [OF assms(1,2) Some assms(3)] new_object_eq [OF assms(1,2) Some assms(3), of needs_data] Some
  show ?thesis
    by (auto split: if_splits)
qed

lemma or_abort_new:
  assumes "rt_wf st" and "fresh ma st" and "object_wf ob"
  shows "keeps st (or_abort message (new_object ma needs_data ob st))"
    and "or_abort message (new_object ma needs_data ob st) = Done (w, st') \<Longrightarrow>
           rt_wf st' \<and> persists st st' \<and> cr_objects st' = (cr_objects st)(w \<mapsto> ob) \<and> cr_out st' = cr_out st \<and>
           w \<in> set (cr_items st') \<and> w \<noteq> 0 \<and> cr_objects st w = None"
    and "ma_block ma = Some p \<Longrightarrow> ma_data ma \<Longrightarrow> ma_grow ma \<Longrightarrow>
           \<exists>st'. or_abort message (new_object ma needs_data ob st) = Done (p, st')"
  using new_object_laws [OF assms, of needs_data]
  by (auto simp: or_abort_def split: option.splits)

lemma or_abort_none [simp]: "or_abort message (Done (None, st)) = Abort message"
  by (simp add: or_abort_def)

lemma or_abort_string:
  assumes "rt_wf st" and "fresh ma st"
  shows "keeps st (or_abort message (rt_new_string_object ma bytes st))"
    and "or_abort message (rt_new_string_object ma bytes st) = Done (w, st') \<Longrightarrow>
           rt_wf st' \<and> persists st st' \<and> cr_objects st' = (cr_objects st)(w \<mapsto> CalyndaRtString bytes) \<and> cr_out st' = cr_out st \<and>
           w \<in> set (cr_items st') \<and> w \<noteq> 0 \<and> cr_objects st w = None"
    and "ma_block ma = Some p \<Longrightarrow> ma_data ma \<Longrightarrow> ma_grow ma \<Longrightarrow>
           \<exists>st'. or_abort message (rt_new_string_object ma bytes st) = Done (p, st')"
proof -
  have string_wf: "object_wf (CalyndaRtString bytes)"
    by simp
  have eq: "or_abort message (rt_new_string_object ma bytes st) =
      (if ma_data ma then or_abort message (new_object ma False (CalyndaRtString bytes) st) else Abort message)"
    by (simp add: rt_new_string_object_def)
  show "keeps st (or_abort message (rt_new_string_object ma bytes st))"
    unfolding eq by (simp add: or_abort_new(1) [OF assms string_wf])
  show "rt_wf st' \<and> persists st st' \<and> cr_objects st' = (cr_objects st)(w \<mapsto> CalyndaRtString bytes) \<and> cr_out st' = cr_out st \<and>
           w \<in> set (cr_items st') \<and> w \<noteq> 0 \<and> cr_objects st w = None"
    if "or_abort message (rt_new_string_object ma bytes st) = Done (w, st')"
    using that unfolding eq by (intro or_abort_new(2) [OF assms string_wf]) (simp split: if_splits)
  show "\<exists>st'. or_abort message (rt_new_string_object ma bytes st) = Done (p, st')"
    if "ma_block ma = Some p" "ma_data ma" "ma_grow ma"
    unfolding eq using or_abort_new(3) [OF assms string_wf that] that(2) by simp
qed

lemma or_abort_alive:
  assumes "rt_wf st" and "fresh ma st"
  shows "object_wf ob \<Longrightarrow> or_abort message (new_object ma needs_data ob st) \<noteq> Wild"
    and "object_wf ob \<Longrightarrow> or_abort message (new_object ma needs_data ob st) \<noteq> Bridge_fault P kind"
    and "or_abort message (rt_new_string_object ma bytes st) \<noteq> Wild"
    and "or_abort message (rt_new_string_object ma bytes st) \<noteq> Bridge_fault P kind"
  using or_abort_new(1) [OF assms] or_abort_string(1) [OF assms] keeps_simps(3,4) by metis+

lemma or_abort_message:
  assumes "rt_wf st" and "fresh ma st"
  shows "object_wf ob \<Longrightarrow> or_abort message (new_object ma needs_data ob st) = Abort m \<Longrightarrow> m = message"
    and "or_abort message (rt_new_string_object ma bytes st) = Abort m \<Longrightarrow> m = message"
  using new_object_laws [OF assms, of ob needs_data] new_object_laws [OF assms, of "CalyndaRtString bytes" False]
  by (auto simp: or_abort_def rt_new_string_object_def split: option.splits if_splits)

section \<open>Every call keeps the invariant and the objects\<close>

lemma format_alive [simp]: "rt_wf st \<Longrightarrow> alive (rt_format_word_internal st w n)"
  by (auto simp: rt_format_word_internal_def intro!: alive_and_then)

lemma string_word_alive [simp]: "rt_wf st \<Longrightarrow> alive (rt_is_runtime_string_word st w)"
  by (auto simp: rt_is_runtime_string_word_def intro!: alive_and_then)

lemma template_loop_alive: "rt_wf st \<Longrightarrow> alive (template_loop st parts buffer)"
proof (induction parts arbitrary: buffer)
  case (Cons part parts)
  then show ?case
    by (cases part) (auto simp: Let_def split: option.splits intro!: alive_and_then)
qed simp

lemma template_keeps: "rt_wf st \<Longrightarrow> fresh ma st \<Longrightarrow> keeps st (rt_template_build ma parts st)"
  unfolding rt_template_build_def calynda_rt_make_string_copy_def
  by (intro keeps_read template_loop_alive) (auto split: option.splits intro: or_abort_string(1))

lemma make_string_keeps: "rt_wf st \<Longrightarrow> fresh ma st \<Longrightarrow> keeps st (calynda_rt_make_string_copy ma bytes st)"
  by (simp add: calynda_rt_make_string_copy_def or_abort_string(1))

lemma cast_keeps:
  assumes "rt_wf st" and "fresh ma st"
  shows "keeps st (rt_cast_value ma source tag st)"
proof -
  have "keeps st (and_then (rt_object st source) (\<lambda>h.
             case h of
               Some (CalyndaRtString bytes) \<Rightarrow> Done (rt_word_from_signed (strtoll bytes), st)
             | _ \<Rightarrow> Done (source, st)))"
    using assms by (intro keeps_read) (auto split: option.splits CalyndaRtObject.splits)
  moreover have "keeps st (and_then (rt_is_runtime_string_word st source) (\<lambda>is_string.
             if is_string then Done (source, st)
             else and_then (rt_format_word_internal st source 128) (\<lambda>text.
               case text of
                 None \<Rightarrow> Abort ''runtime: failed to stringify cast source''
               | Some s \<Rightarrow> calynda_rt_make_string_copy ma (Some s) st)))"
    using assms by (intro keeps_read) (auto split: option.splits intro!: keeps_read make_string_keeps)
  ultimately show ?thesis
    using assms(1) by (simp add: rt_cast_value_def)
qed

lemma element_put_length: "element_put xs i x = Done ys \<Longrightarrow> length ys = length xs"
  by (auto simp: element_put_def split: if_splits)

lemma element_alive [simp]: "i < length xs \<Longrightarrow> alive (element_at xs i)" "i < length xs \<Longrightarrow> alive (element_put xs i x)"
  by (simp_all add: element_at_def element_put_def)

lemma store_index_eq:
  "rt_store_index target index value st = Done st' \<Longrightarrow>
     \<exists>xs ys. rt_object st target = Done (Some (CalyndaRtArray xs)) \<and> length ys = length xs \<and>
       st' = st\<lparr>cr_objects := (cr_objects st)(target \<mapsto> CalyndaRtArray ys)\<rparr>"
  by (cases "rt_object st target")
    (auto simp: rt_store_index_def element_put_def split: option.splits CalyndaRtObject.splits if_splits
      intro: exI [of _ "_[_ := _]"])

lemma store_index_wf:
  assumes "rt_wf st" and "rt_store_index target index value st = Done st'"
  shows "rt_wf st'" and "persists st st'"
proof -
  obtain xs ys where xs: "rt_object st target = Done (Some (CalyndaRtArray xs))" "length ys = length xs"
    and st': "st' = st\<lparr>cr_objects := (cr_objects st)(target \<mapsto> CalyndaRtArray ys)\<rparr>"
    using store_index_eq [OF assms(2)] by blast
  show "rt_wf st'"
    using assms(1) live_update [of "CalyndaRtArray ys"] by (simp add: st' rt_wf_def)
  show "persists st st'"
    using rt_object_Done [OF xs(1)] xs(2) by (auto simp: st' persists_def)
qed

lemma store_index_alive: "rt_wf st \<Longrightarrow> alive (rt_store_index target index value st)"
  by (auto simp: rt_store_index_def split: option.splits CalyndaRtObject.splits intro!: alive_and_then)

lemma store_keeps:
  assumes "rt_wf st"
  shows "keeps st (and_then (rt_store_index target index value st) (\<lambda>st. Done (0, st)))"
  using store_index_wf [OF assms] store_index_alive [OF assms]
  by (intro keeps_read) simp_all

lemma reading_keeps: "rt_wf st \<Longrightarrow> alive r \<Longrightarrow> keeps st (reading st r)"
  unfolding reading_def by (intro keeps_read) simp_all

lemma hetero_tag_alive:
  assumes "rt_wf st"
  shows "alive (rt_hetero_array_get_tag target index st)"
proof (cases "rt_object st target")
  case (Done h)
  then show ?thesis
    using rt_object_wf [OF assms, of target]
    by (auto simp: rt_hetero_array_get_tag_def split: option.splits CalyndaRtObject.splits)
qed (use rt_object_alive [OF assms, of target] in \<open>auto simp: rt_hetero_array_get_tag_def\<close>)

lemma hetero_array_keeps:
  assumes "rt_wf st" and "fresh ma st"
  shows "keeps st (rt_hetero_array_new ma (length es) (Some (List.map fst es)) (Some (List.map snd es)) st)"
  using or_abort_new(1) [OF assms] by (simp add: rt_hetero_array_new_def copy_elements_def)

lemma loads_alive:
  assumes "rt_wf st"
  shows "alive (rt_index_load target index st)" and "alive (rt_member_load target member st)"
    and "alive (calynda_rt_array_length st word)" and "alive (rt_union_get_tag word st)"
    and "alive (rt_union_get_payload word st)" and "alive (rt_union_check_tag word expected st)"
    and "alive (rt_hetero_array_get_tag target index st)"
  using assms hetero_tag_alive [OF assms]
  by (auto simp: rt_index_load_def rt_member_load_def calynda_rt_array_length_def rt_union_get_tag_def
      rt_union_get_payload_def rt_union_check_tag_def
      split: option.splits CalyndaRtObject.splits intro!: alive_and_then)

lemma rt_execute_keeps:
  assumes "rt_wf st" and "fresh ma st"
  shows "keeps st (rt_execute ma rt_op st)"
proof (cases rt_op)
  case (RT_THROW w)
  show ?thesis
    using assms(1) unfolding RT_THROW rt_execute.simps rt_throw_def by (intro keeps_read) simp_all
next
  case (RT_ARRAY_LENGTH w)
  then show ?thesis
    using assms(1) by (auto intro!: reading_keeps alive_and_then loads_alive)
next
  case (RT_UNION_CHECK_TAG w t)
  then show ?thesis
    using assms(1) by (auto intro!: reading_keeps alive_and_then loads_alive)
next
  case (RT_HETERO_ARRAY_GET_TAG w t)
  then show ?thesis
    using assms(1) by (auto intro!: reading_keeps alive_and_then loads_alive)
qed (use assms in \<open>auto intro!: template_keeps cast_keeps store_keeps make_string_keeps reading_keeps loads_alive or_abort_new hetero_array_keeps
      simp: rt_closure_new_def rt_new_closure_object_def rt_array_literal_def rt_new_array_object_def rt_union_new_def rt_store_member_def\<close>)

lemma callable_target_alive: "rt_wf st \<Longrightarrow> alive (callable_target callable st)"
  by (auto simp: callable_target_def split: option.splits CalyndaRtObject.splits intro!: alive_and_then)

lemma dispatch_keeps: "rt_wf st \<Longrightarrow> keeps st (rt_dispatch_extern_callable kind arguments st)"
  by (auto simp: rt_dispatch_extern_callable_def persists_def
      split: list.splits option.splits intro!: keeps_read)

definition fresh_memory :: "rt_environment \<Rightarrow> bool" where
  "fresh_memory env \<longleftrightarrow> (\<forall>n st. fresh (env_memory env n st) st)"

text \<open>What a run does: it keeps, or it ends where the code of a package follows a bad argument.\<close>

definition bridge_faults :: "rt_environment \<Rightarrow> 'a outcome \<Rightarrow> bool" where
  "bridge_faults env r \<longleftrightarrow>
     (\<exists>P kind n arguments. r = Bridge_fault P kind \<and> P \<noteq> Package_wpad \<and> env_bridge env n P kind arguments = Answer_fault)"

definition kept :: "rt_environment \<Rightarrow> CalyndaRt \<Rightarrow> ('a \<times> CalyndaRt) outcome \<Rightarrow> bool" where
  "kept env st r \<longleftrightarrow> keeps st r \<or> bridge_faults env r"

lemma keeps_kept: "keeps st r \<Longrightarrow> kept env st r"
  by (simp add: kept_def)

lemma kept_trans: "persists st st' \<Longrightarrow> kept env st' r \<Longrightarrow> kept env st r"
  by (auto simp: kept_def intro: keeps_trans)

lemma kept_Done [simp]: "kept env st (Done (w, st')) \<longleftrightarrow> rt_wf st' \<and> persists st st'"
  by (simp add: kept_def bridge_faults_def)

lemma kept_Abort [simp]: "kept env st (Abort s)" "\<not> kept env st Wild"
  by (simp_all add: kept_def bridge_faults_def)

lemma call_extern_kept:
  assumes "rt_wf st" and "fresh_memory env"
  shows "kept env st (call_extern env n kind arguments st)"
proof (cases "package_of_kind kind")
  case None
  then show ?thesis
    using assms(1) by (simp add: call_extern_def dispatch_keeps keeps_kept)
next
  case (Some P)
  then show ?thesis
    using assms make_string_keeps [of st "env_memory env n st"]
    by (auto simp: call_extern_def fresh_memory_def kept_def bridge_faults_def split: bridge_answer.splits)
qed

text \<open>The first part of a call: the code of a closure runs, or the call is made.\<close>

definition run_call :: "rt_environment \<Rightarrow> nat \<Rightarrow> rt_op \<Rightarrow> CalyndaRt \<Rightarrow> (CalyndaRtWord \<times> CalyndaRt) outcome option" where
  "run_call env n rt_op st =
     (case rt_op of
        RT_CALL_CALLABLE callable arguments \<Rightarrow>
          (case callable_target callable st of
             Done (Target_closure entry captures) \<Rightarrow> run_program env n (env_code env entry captures arguments) st
           | Done (Target_extern kind) \<Rightarrow> Some (call_extern env n kind arguments st)
           | Abort message \<Rightarrow> Some (Abort message)
           | Wild \<Rightarrow> Some Wild
           | Bridge_fault P kind \<Rightarrow> Some (Bridge_fault P kind))
      | _ \<Rightarrow> Some (rt_execute (env_memory env n st) rt_op st))"

lemma run_program_call:
  "run_program env (Suc n) (Runtime rt_op k) st =
     (case run_call env n rt_op st of Some (Done (w, st)) \<Rightarrow> run_program env n (k w) st | r \<Rightarrow> r)"
  unfolding run_call_def run_program.simps ..

lemma run_program_kept:
  assumes "fresh_memory env"
  shows "rt_wf st \<Longrightarrow> run_program env n prog st = Some r \<Longrightarrow> kept env st r"
proof (induction n arbitrary: prog st r)
  case (Suc n)
  have first: "kept env st r1" if "run_call env n rt_op st = Some r1" for rt_op r1
  proof (cases "\<exists>callable arguments. rt_op = RT_CALL_CALLABLE callable arguments")
    case True
    then obtain callable arguments where "rt_op = RT_CALL_CALLABLE callable arguments"
      by blast
    with that Suc callable_target_alive [of st callable] call_extern_kept [OF Suc.prems(1) assms]
    show ?thesis
      by (auto simp: run_call_def split: outcome.splits rt_target.splits)
  next
    case False
    then have "run_call env n rt_op st = Some (rt_execute (env_memory env n st) rt_op st)"
      by (cases rt_op) (auto simp: run_call_def)
    with that assms show ?thesis
      using rt_execute_keeps [OF Suc.prems(1)] by (auto simp: fresh_memory_def intro: keeps_kept)
  qed
  show ?case
  proof (cases prog)
    case (Return w)
    with Suc.prems show ?thesis
      by auto
  next
    case (Runtime rt_op k)
    show ?thesis
    proof (cases "\<exists>w st'. run_call env n rt_op st = Some (Done (w, st'))")
      case True
      then obtain w st' where call: "run_call env n rt_op st = Some (Done (w, st'))"
        by blast
      with first [OF call] Suc.IH [of st' "k w" r] Suc.prems(2) show ?thesis
        by (auto simp: Runtime run_program_call simp del: run_program.simps intro: kept_trans)
    next
      case False
      with first [of rt_op r] Suc.prems(2) show ?thesis
        by (auto simp: Runtime run_program_call simp del: run_program.simps split: option.splits outcome.splits)
    qed
  qed
qed simp

section \<open>The image of the program and the registration of its static objects\<close>

definition all_packages :: "rt_package list" where
  "all_packages = [Package_wpad, Package_mii, Package_gfx, Package_physics, Package_motion]"

definition all_statics :: "rt_static list" where
  "all_statics = Pkg_stdlib # STDOUT_PRINT_CALLABLE # concat (List.map package_statics all_packages)"

text \<open>The image as loaded: every static object at an address of its own, and nothing registered.\<close>

definition program_image :: "CalyndaRt \<Rightarrow> bool" where
  "program_image st \<longleftrightarrow>
     distinct (List.map (cr_address st) all_statics) \<and>
     list_all (\<lambda>s. cr_address st s \<noteq> 0 \<and> cr_objects st (cr_address st s) = Some (static_object s)) all_statics \<and>
     cr_items st = []"

lemma packages_complete [simp]: "P \<in> set all_packages"
  by (cases P) (simp_all add: all_packages_def)

lemma package_statics_known: "s \<in> set (package_statics P) \<Longrightarrow> s \<in> set all_statics"
  using packages_complete [of P] by (auto simp: all_statics_def)

lemma known_statics_all: "s \<in> set known_statics \<Longrightarrow> s \<in> set all_statics"
  by (auto simp: known_statics_def all_statics_def all_packages_def package_statics_def)

lemma program_image_static:
  "program_image st \<Longrightarrow> s \<in> set all_statics \<Longrightarrow>
     cr_address st s \<noteq> 0 \<and> cr_objects st (cr_address st s) = Some (static_object s)"
  by (auto simp: program_image_def list_all_iff)

lemma program_image_eq:
  "program_image st \<Longrightarrow> s \<in> set all_statics \<Longrightarrow> t \<in> set all_statics \<Longrightarrow> cr_address st s = cr_address st t \<longleftrightarrow> s = t"
  by (auto simp: program_image_def distinct_map dest: inj_onD)

lemma static_object_wf: "object_wf (static_object s)"
  by (cases s) simp_all

lemma program_image_live: "program_image st \<Longrightarrow> s \<in> set all_statics \<Longrightarrow> live st (cr_address st s)"
  using program_image_static [of st s] static_object_wf [of s] by (simp add: live_def)

lemma program_image_wf: "program_image st \<Longrightarrow> rt_wf st"
  using program_image_live [OF _ known_statics_all] by (auto simp: rt_wf_def) (simp_all add: program_image_def)

definition register_all :: "(u32 \<Rightarrow> bool) \<Rightarrow> rt_static list \<Rightarrow> CalyndaRt \<Rightarrow> CalyndaRt" where
  "register_all grow ss st =
     foldl (\<lambda>st s. calynda_rt_register_static_object (grow (cr_address st s)) (cr_address st s) st) st ss"

lemma register_all_laws:
  assumes "rt_wf st" and "\<And>s. s \<in> set ss \<Longrightarrow> live st (cr_address st s)"
  shows "rt_wf (register_all grow ss st) \<and> persists st (register_all grow ss st) \<and>
    cr_objects (register_all grow ss st) = cr_objects st \<and>
    (\<forall>s \<in> set ss. grow (cr_address st s) \<longrightarrow> cr_address st s = 0 \<or> cr_address st s \<in> set (cr_items (register_all grow ss st)))"
  using assms
proof (induction ss arbitrary: st)
  case (Cons s ss)
  let ?st = "calynda_rt_register_static_object (grow (cr_address st s)) (cr_address st s) st"
  have static: "rt_wf ?st" "persists st ?st" "cr_objects ?st = cr_objects st"
    "grow (cr_address st s) \<Longrightarrow> cr_address st s = 0 \<or> cr_address st s \<in> set (cr_items ?st)"
    using Cons.prems register_static [of st "cr_address st s"] by simp_all
  have address: "cr_address ?st = cr_address st"
    using static(2) by (simp add: persists_def)
  have step: "register_all grow (s # ss) st = register_all grow ss ?st"
    by (simp add: register_all_def)
  have rest: "rt_wf (register_all grow ss ?st) \<and> persists ?st (register_all grow ss ?st) \<and>
    cr_objects (register_all grow ss ?st) = cr_objects ?st \<and>
    (\<forall>s \<in> set ss. grow (cr_address ?st s) \<longrightarrow>
      cr_address ?st s = 0 \<or> cr_address ?st s \<in> set (cr_items (register_all grow ss ?st)))"
    by (rule Cons.IH) (use static(1) live_cong [OF static(3)] Cons.prems address in auto)
  have "set (cr_items ?st) \<subseteq> set (cr_items (register_all grow ss ?st))"
    using rest by (auto simp: persists_def dest: set_mono_prefix)
  with rest static address step show ?case
    by (auto intro: persists_trans)
qed (simp add: register_all_def)

lemma calynda_rt_init_all:
  "calynda_rt_init grow st = register_all grow (concat (List.map package_statics all_packages)) st"
  by (simp add: calynda_rt_init_def calynda_wpad_register_objects_def calynda_mii_register_objects_def
      calynda_gfx_register_objects_def calynda_physics_register_objects_def calynda_motion_register_objects_def
      register_objects_def register_all_def all_packages_def)

lemma calynda_rt_init_laws:
  assumes "program_image st"
  shows "rt_wf (calynda_rt_init grow st)" and "persists st (calynda_rt_init grow st)"
    and "cr_objects (calynda_rt_init grow st) = cr_objects st"
    and "s \<in> set (package_statics P) \<Longrightarrow> grow (cr_address st s) \<Longrightarrow> cr_address st s \<in> set (cr_items (calynda_rt_init grow st))"
proof -
  let ?ss = "concat (List.map package_statics all_packages)"
  have "live st (cr_address st s)" if "s \<in> set ?ss" for s
    using program_image_live [OF assms, of s] that by (simp add: all_statics_def)
  note all = register_all_laws [of st ?ss grow, OF program_image_wf [OF assms] this]
  have laws: "rt_wf (register_all grow ?ss st)" "persists st (register_all grow ?ss st)"
    "cr_objects (register_all grow ?ss st) = cr_objects st"
    "\<And>s. s \<in> set ?ss \<Longrightarrow> grow (cr_address st s) \<Longrightarrow>
       cr_address st s = 0 \<or> cr_address st s \<in> set (cr_items (register_all grow ?ss st))"
    using conjunct1 [OF all] conjunct1 [OF conjunct2 [OF all]] conjunct1 [OF conjunct2 [OF conjunct2 [OF all]]]
      bspec [OF conjunct2 [OF conjunct2 [OF conjunct2 [OF all]]]]
    by blast+
  show "rt_wf (calynda_rt_init grow st)" "persists st (calynda_rt_init grow st)"
    "cr_objects (calynda_rt_init grow st) = cr_objects st"
    unfolding calynda_rt_init_all by (fact laws)+
  show "cr_address st s \<in> set (cr_items (calynda_rt_init grow st))"
    if "s \<in> set (package_statics P)" "grow (cr_address st s)"
  proof -
    have "s \<in> set ?ss"
      using that(1) packages_complete [of P] by auto
    from laws(4) [OF this that(2)] show ?thesis
      using program_image_static [OF assms package_statics_known [OF that(1)]] by (simp add: calynda_rt_init_all)
  qed
qed

section \<open>Members of the packages\<close>

lemma position_of_nth: "distinct ls \<Longrightarrow> i < length ls \<Longrightarrow> position_of (ls ! i) ls = Some i"
  by (induction ls arbitrary: i) (auto simp: nth_Cons' less_Suc_eq_0_disj)

lemma package_member_load_eq: "package_member_load st P member = search_member st P (package_callables P) member"
  by (cases P)
    (simp_all add: calynda_wpad_member_load_def calynda_mii_member_load_def calynda_gfx_member_load_def
      calynda_physics_member_load_def calynda_motion_member_load_def)

lemma labels_distinct:
  "distinct all_wpad_callables" "distinct all_mii_callables" "distinct all_gfx_callables"
  "distinct all_physics_callables" "distinct all_motion_callables"
  by code_simp+

lemma labels_length:
  "length all_wpad_callables = 19" "length all_mii_callables = 41" "length all_gfx_callables = 33"
  "length all_physics_callables = 28" "length all_motion_callables = 36"
  by code_simp+

lemma package_callables_distinct: "distinct (package_callables P)"
  by (cases P) (simp_all add: labels_distinct)

lemma callable_static: "i < length (package_callables P) \<Longrightarrow> Callable P i \<in> set (package_statics P)"
  by (simp add: package_statics_def)

lemma package_static: "Pkg P \<in> set (package_statics P)"
  by (simp add: package_statics_def)

lemma package_kinds:
  assumes "i < length (package_callables P)"
  shows "package_of_kind (first_kind P + i) = Some P"
proof -
  have "i < 100"
  proof -
    have "length (package_callables P) < 100"
      by (cases P) (simp_all add: labels_length)
    with assms show ?thesis
      by simp
  qed
  then show ?thesis
    by (cases P) (simp_all add: package_of_kind_def)
qed

lemma later_object:
  assumes "cr_address st s \<in> set (cr_items st)" and "cr_objects st (cr_address st s) = Some (CalyndaRtExternCallable kind name)"
    and "cr_address st s \<noteq> 0" and "persists st st'"
  shows "callable_target (cr_address st s) st' = Done (Target_extern kind)"
proof -
  have "cr_address st s \<in> set (cr_items st')"
    using assms(1,4) by (auto simp: persists_def dest: set_mono_prefix)
  moreover obtain ob' where "cr_objects st' (cr_address st s) = Some ob'" "same_object (CalyndaRtExternCallable kind name) ob'"
    using assms(2,4) unfolding persists_def by blast
  moreover from this(2) have "ob' = CalyndaRtExternCallable kind name"
    by simp
  ultimately show ?thesis
    using assms(3) by (simp add: callable_target_def rt_object_def calynda_rt_as_object_def)
qed

lemma member_of_package_distinct:
  assumes "\<And>Q. cr_address st (Pkg P) = cr_address st (Pkg Q) \<longleftrightarrow> P = Q" and "P \<in> set Ps"
    and "package_member_load st P m = w" and "w \<noteq> 0"
  shows "member_of_package st (cr_address st (Pkg P)) m Ps = Some w"
  using assms by (induction Ps) auto

text \<open>
  C36: once the registration of the static objects had its memory, every member of every package is
  loaded from the object of the package at any later moment, and the call of it is dispatched to
  that package with the kind of the member.
\<close>

theorem package_members_routed:
  assumes image: "program_image st" and grow: "\<And>p. grow p"
    and later: "persists (calynda_rt_init grow st) st'" and member: "i < length (package_callables P)"
  shows "\<exists>w. rt_member_load (cr_address st (Pkg P)) (Some (package_callables P ! i)) st' = Done w \<and>
    callable_target w st' = Done (Target_extern (first_kind P + i)) \<and> package_of_kind (first_kind P + i) = Some P"
proof -
  note init = calynda_rt_init_laws [OF image, where grow = grow]
  have address: "cr_address (calynda_rt_init grow st) = cr_address st" "cr_address st' = cr_address st"
    using init(2) later by (simp_all add: persists_def)
  have known: "Callable P i \<in> set all_statics" "Pkg Q \<in> set all_statics" "Pkg_stdlib \<in> set all_statics" for Q
    using package_statics_known [OF callable_static [OF member]] package_statics_known [OF package_static]
    by (simp_all add: all_statics_def)
  have callable: "cr_address st (Callable P i) \<noteq> 0"
    "cr_objects st (cr_address st (Callable P i)) = Some (CalyndaRtExternCallable (first_kind P + i) (package_callables P ! i))"
    using program_image_static [OF image known(1)] by simp_all
  have target: "callable_target (cr_address st (Callable P i)) st' = Done (Target_extern (first_kind P + i))"
    using later_object [of "calynda_rt_init grow st" "Callable P i", OF _ _ _ later] address(1) callable
      init(3) init(4) [OF callable_static [OF member] grow] by simp
  have registered: "cr_address st (Pkg P) \<in> set (cr_items st')"
    using init(4) [OF package_static grow, of P] later by (auto simp: persists_def dest: set_mono_prefix)
  have loaded: "member_of_package st' (cr_address st' (Pkg P)) (package_callables P ! i) all_packages =
      Some (cr_address st (Callable P i))"
    by (rule member_of_package_distinct)
      (use program_image_eq [OF image known(2) known(2)] address callable member in
        \<open>simp_all add: package_member_load_eq search_member_def position_of_nth package_callables_distinct\<close>)
  have "rt_member_load (cr_address st (Pkg P)) (Some (package_callables P ! i)) st' = Done (cr_address st (Callable P i))"
    using loaded registered program_image_eq [OF image known(2) known(3), of P] program_image_static [OF image known(2), of P] address
    by (simp add: rt_member_load_def calynda_rt_as_object_def all_packages_def)
  with target package_kinds [OF member] show ?thesis
    by blast
qed

section \<open>Texts\<close>

text \<open>The text of a word: the number, or the text of the object that it is the address of.\<close>

definition word_text :: "CalyndaRt \<Rightarrow> CalyndaRtWord \<Rightarrow> string" where
  "word_text st w =
     (case calynda_rt_as_object st w of
        None \<Rightarrow> print_int (sint w)
      | Some p \<Rightarrow> (case cr_objects st p of None \<Rightarrow> [] | Some ob \<Rightarrow> object_text ob))"

fun part_text :: "CalyndaRt \<Rightarrow> CalyndaRtTemplatePart \<Rightarrow> string" where
  "part_text st (Template_text text) = (case text of None \<Rightarrow> [] | Some s \<Rightarrow> s)"
| "part_text st (Template_value w) = take 255 (word_text st w)"
| "part_text st (Template_unknown tag) = []"

fun known_part :: "CalyndaRtTemplatePart \<Rightarrow> bool" where
  "known_part (Template_unknown tag) = False"
| "known_part part = True"

lemma format_word:
  assumes "rt_wf st" and "0 < n"
  shows "rt_format_word_internal st w n = Done (Some (take (n - 1) (word_text st w)))"
  using assms(2) rt_as_object_alive [OF assms(1), of w]
  by (cases "calynda_rt_as_object st w")
    (auto simp: rt_format_word_internal_def rt_object_def word_text_def snprintf_def rt_signed_from_word_def)

lemma template_loop_text:
  assumes "rt_wf st" and "list_all known_part parts"
  shows "\<exists>r. template_loop st parts buffer = Done r \<and>
    (case r of None \<Rightarrow> [] | Some s \<Rightarrow> s) = (case buffer of None \<Rightarrow> [] | Some s \<Rightarrow> s) @ concat (List.map (part_text st) parts)"
  using assms(2)
proof (induction parts arbitrary: buffer)
  case (Cons part parts)
  then show ?case
    using Cons.IH [of "Some ((case buffer of None \<Rightarrow> [] | Some s \<Rightarrow> s) @ part_text st part)"] format_word [OF assms(1)]
    by (cases part) (auto simp: Let_def)
qed simp

lemma string_made:
  assumes "rt_wf st" and "fresh ma st" and "ma_block ma = Some p" and "ma_data ma" and "ma_grow ma"
  shows "\<exists>st'. or_abort message (rt_new_string_object ma s st) = Done (p, st') \<and> persists st st' \<and> rt_wf st' \<and>
    cr_objects st' p = Some (CalyndaRtString s) \<and> rt_object st' p = Done (Some (CalyndaRtString s))"
proof -
  obtain st' where made: "or_abort message (rt_new_string_object ma s st) = Done (p, st')"
    using or_abort_string(3) [OF assms(1,2) assms(3-5)] by blast
  from or_abort_string(2) [OF assms(1,2) made] show ?thesis
    by (auto simp: made rt_object_def calynda_rt_as_object_def)
qed

text \<open>
  C37: a template whose tags are known is built into a new string: the concatenation of its texts and
  of the texts of its values, each value cut at 255 characters; nothing that existed changes.
\<close>

theorem template_text:
  assumes "rt_wf st" and "fresh ma st" and "ma_block ma = Some p" and "ma_data ma" and "ma_grow ma"
    and "list_all known_part parts"
  shows "\<exists>st'. rt_template_build ma parts st = Done (p, st') \<and> persists st st' \<and> rt_wf st' \<and>
    calynda_rt_string_bytes st' p = Done (Some (concat (List.map (part_text st) parts)))"
proof -
  from template_loop_text [OF assms(1,6), of None] obtain r
    where r: "template_loop st parts None = Done r"
      "(case r of None \<Rightarrow> [] | Some s \<Rightarrow> s) = concat (List.map (part_text st) parts)"
    by auto
  show ?thesis
  proof (cases r)
    case None
    with string_made [OF assms(1-5), of "''runtime: out of memory while creating string''" "[]"] r show ?thesis
      by (auto simp: rt_template_build_def calynda_rt_make_string_copy_def calynda_rt_string_bytes_def)
  next
    case (Some s)
    with string_made [OF assms(1-5), of "''runtime: out of memory boxing template result''" s] r show ?thesis
      by (auto simp: rt_template_build_def calynda_rt_string_bytes_def)
  qed
qed

section \<open>Casts\<close>

lemma length_print_nat: "n < 10 ^ k \<Longrightarrow> 0 < k \<Longrightarrow> length (print_nat n) \<le> k"
proof (induction k arbitrary: n)
  case (Suc k)
  show ?case
  proof (cases "n < 10")
    case True
    then show ?thesis
      by (subst print_nat.simps) simp
  next
    case False
    with Suc.prems have "0 < k" "n div 10 < 10 ^ k"
      by (auto intro: Suc_lessI gr0I)
    with False Suc.IH show ?thesis
      by (subst print_nat.simps) auto
  qed
qed simp

lemma print_nat_digits: "c \<in> set (print_nat n) \<Longrightarrow> isdigit c"
  using print_nat_chars [of c n] of_char_digit by (auto simp: isdigit_def Let_def)

lemma strtoll_digits:
  assumes "ds = print_nat n" and "n < 2 ^ 63"
  shows "strtoll ds = int n" and "strtoll (CHR ''-'' # ds) = - int n"
proof -
  obtain c cs where ds: "ds = c # cs"
    using print_nat_not_Nil [of n] assms(1) by (metis neq_Nil_conv)
  have digits: "list_all isdigit ds"
    using print_nat_digits assms(1) by (auto simp: list_all_iff)
  have "isdigit c"
    using digits ds by simp
  then have c: "\<not> is_space c" "c \<noteq> CHR ''-''" "c \<noteq> CHR ''+''"
    by (auto simp: is_space_def isdigit_def Let_def)
  have taken: "takeWhile isdigit ds = ds"
    using digits by (simp add: takeWhile_eq_all_conv list_all_iff)
  have number: "read_nat ds = n" "- (2 ^ 63) \<le> int n" "int n \<le> 2 ^ 63 - 1"
    using assms by simp_all
  have minus: "\<not> is_space (CHR ''-'')"
    by (simp add: is_space_def Let_def)
  have dw: "dropWhile is_space ds = ds" "dropWhile is_space (CHR ''-'' # ds) = CHR ''-'' # ds"
    using c(1) minus by (simp_all add: ds)
  have head: "ds \<noteq> []" "hd ds \<noteq> CHR ''-''" "hd ds \<noteq> CHR ''+''"
    using c by (simp_all add: ds)
  show "strtoll ds = int n" "strtoll (CHR ''-'' # ds) = - int n"
    using number head by (simp_all add: strtoll_def dw minus Let_def taken)
qed

lemma strtoll_print_int:
  assumes "- (2 ^ 31) \<le> k" and "k < 2 ^ 31"
  shows "strtoll (print_int k) = k" and "length (print_int k) \<le> 11"
proof -
  have "nat \<bar>k\<bar> < 10 ^ 10"
    using assms by auto
  then show "length (print_int k) \<le> 11"
    using length_print_nat [of "nat \<bar>k\<bar>" 10] by (auto simp: print_int_def split: if_splits)
  show "strtoll (print_int k) = k"
    using assms strtoll_digits [OF refl, of "nat \<bar>k\<bar>"] by (auto simp: print_int_def)
qed

lemma sint_u32: "- (2 ^ 31) \<le> sint (w :: u32)" "sint (w :: u32) < 2 ^ 31"
  using sint_greater_eq [of w] sint_less [of w] by simp_all

text \<open>
  C38: a number survives the cast to a string and back: the string of the cast has its decimal text,
  whole, and the cast of that string to an integer is the number again.
\<close>

theorem cast_roundtrip:
  assumes "rt_wf st" and "fresh ma st" and "ma_block ma = Some p" and "ma_data ma" and "ma_grow ma"
    and "\<not> calynda_rt_is_object st w"
  shows "\<exists>st'. rt_cast_value ma w CALYNDA_RT_TYPE_STRING st = Done (p, st') \<and>
    calynda_rt_string_bytes st' p = Done (Some (print_int (sint w))) \<and>
    (\<forall>ma'. rt_cast_value ma' p CALYNDA_RT_TYPE_INT32 st' = Done (w, st'))"
proof -
  have plain: "rt_object st w = Done None" and printed: "word_text st w = print_int (sint w)"
    using assms(6) by (simp_all add: calynda_rt_is_object_def rt_object_def word_text_def)
  have whole: "take 127 (print_int (sint w)) = print_int (sint w)"
    using strtoll_print_int(2) [OF sint_u32, of w] by simp
  define message where "message = ''runtime: out of memory while creating string''"
  from string_made [OF assms(1-5), of message "print_int (sint w)"] obtain st'
    where made: "or_abort message (rt_new_string_object ma (print_int (sint w)) st) = Done (p, st')"
      "rt_object st' p = Done (Some (CalyndaRtString (print_int (sint w))))"
    by blast
  have "rt_cast_value ma w CALYNDA_RT_TYPE_STRING st = Done (p, st')"
    using format_word [OF assms(1), of 128 w] made(1)
    by (simp add: rt_cast_value_def rt_is_runtime_string_word_def plain printed whole calynda_rt_make_string_copy_def
      message_def [symmetric])
  moreover have "rt_cast_value ma' p CALYNDA_RT_TYPE_INT32 st' = Done (w, st')" for ma'
    using made(2) strtoll_print_int(1) [OF sint_u32, of w]
    by (simp add: rt_cast_value_def rt_word_from_signed_def)
  ultimately show ?thesis
    using made(2) by (auto simp: calynda_rt_string_bytes_def)
qed

section \<open>Arrays\<close>

lemma index_offset_unat [simp]: "index_offset i = unat i"
  by (simp add: index_offset_def rt_signed_from_word_def)

lemma rt_object_update:
  "rt_object (st\<lparr>cr_objects := (cr_objects st)(t \<mapsto> ob)\<rparr>) t =
     (if calynda_rt_as_object st t = None then Done None else Done (Some ob))"
  by (auto simp: rt_object_def calynda_rt_as_object_def registry_contains_def)

text \<open>
  C39: the index of an array is taken as an unsigned number of 32 bits: at or above the length (every
  negative index) a load and a store stop the program with the bounds message and change nothing; below
  it a load reads that element, and a store changes that element alone, in no other object.
\<close>

theorem array_access:
  assumes "rt_object st t = Done (Some (CalyndaRtArray xs))"
  shows "if unat i < length xs
    then rt_index_load t i st = Done (xs ! unat i) \<and>
      (\<exists>st'. rt_store_index t i v st = Done st' \<and>
        (\<forall>j. unat j < length xs \<longrightarrow> rt_index_load t j st' = Done (if j = i then v else xs ! unat j)) \<and>
        (\<forall>q. q \<noteq> t \<longrightarrow> cr_objects st' q = cr_objects st q))
    else rt_index_load t i st = Abort (out_of_bounds (unat i)) \<and> rt_store_index t i v st = Abort (out_of_bounds (unat i))"
proof (cases "unat i < length xs")
  case True
  have "calynda_rt_as_object st t \<noteq> None"
    using assms by (auto simp: rt_object_def split: option.splits)
  then have after: "rt_object (st\<lparr>cr_objects := (cr_objects st)(t \<mapsto> CalyndaRtArray (xs[unat i := v]))\<rparr>) t =
      Done (Some (CalyndaRtArray (xs[unat i := v])))"
    by (simp add: rt_object_update)
  from True show ?thesis
    using assms after by (auto simp: rt_index_load_def rt_store_index_def element_at_def element_put_def nth_list_update word_unat_eq_iff)
next
  case False
  then show ?thesis
    using assms by (simp add: rt_index_load_def rt_store_index_def)
qed

section \<open>Processes\<close>

lemma box_arguments_laws:
  assumes "fresh_memory env"
  shows "rt_wf st \<Longrightarrow> keeps st (box_arguments env ss st) \<and>
    (\<forall>ws st'. box_arguments env ss st = Done (ws, st') \<longrightarrow>
       list_all2 (\<lambda>w s. cr_objects st' w = Some (CalyndaRtString s)) ws ss) \<and>
    (\<forall>m. box_arguments env ss st = Abort m \<longrightarrow> m = ''runtime: out of memory while creating string'')"
proof (induction ss arbitrary: st)
  case (Cons s ss)
  let ?made = "or_abort ''runtime: out of memory while creating string'' (rt_new_string_object (env_memory env (length ss) st) s st)"
  have box: "box_arguments env (s # ss) st =
      and_then ?made (\<lambda>(w, st). and_then (box_arguments env ss st) (\<lambda>(ws, st). Done (w # ws, st)))"
    by (simp add: calynda_rt_make_string_copy_def)
  have fresh: "fresh (env_memory env (length ss) st) st"
    using assms by (simp add: fresh_memory_def)
  show ?case
  proof (cases ?made)
    case (Done r)
    obtain w st1 where r: "r = (w, st1)"
      by fastforce
    have one: "rt_wf st1" "persists st st1" "cr_objects st1 w = Some (CalyndaRtString s)"
      using or_abort_string(2) [OF Cons.prems fresh Done [unfolded r]] by simp_all
    have rest: "keeps st1 (box_arguments env ss st1)"
      "\<And>ws st'. box_arguments env ss st1 = Done (ws, st') \<Longrightarrow>
        list_all2 (\<lambda>w s. cr_objects st' w = Some (CalyndaRtString s)) ws ss"
      "\<And>m. box_arguments env ss st1 = Abort m \<Longrightarrow> m = ''runtime: out of memory while creating string''"
      using Cons.IH [OF one(1)] by blast+
    show ?thesis
    proof (cases "box_arguments env ss st1")
      case (Done q)
      obtain ws st2 where q: "q = (ws, st2)"
        by fastforce
      have two: "rt_wf st2" "persists st1 st2"
        using rest(1) Done q by simp_all
      then have "cr_objects st2 w = Some (CalyndaRtString s)"
        using one(3) unfolding persists_def by (metis same_object.simps(2))
      with two one rest(2) [OF Done [unfolded q]] show ?thesis
        using \<open>?made = Done r\<close> by (auto simp: box r Done q simp del: box_arguments.simps intro: persists_trans)
    qed (use rest Done in \<open>auto simp: box r simp del: box_arguments.simps\<close>)
  qed (use or_abort_alive(3,4) [OF Cons.prems fresh] or_abort_message(2) [OF Cons.prems fresh] in \<open>auto simp: box simp del: box_arguments.simps\<close>)
qed simp

lemma run_entry_array:
  assumes "rt_wf st" and "fresh_memory env"
  shows "run_entry env n start ws st = Some (Abort ''runtime: out of memory creating array'') \<or>
    (\<exists>a st'. run_entry env n start ws st =
        map_option (\<lambda>r. and_then r (\<lambda>(w, st). Done (sint w, st))) (run_program env n (start a) st') \<and>
      rt_wf st' \<and> persists st st' \<and> rt_object st' a = Done (Some (CalyndaRtArray ws)))"
proof -
  have fresh: "fresh (env_memory env n st) st"
    using assms(2) by (simp add: fresh_memory_def)
  have literal: "rt_array_literal (env_memory env n st) ws st =
      or_abort ''runtime: out of memory creating array'' (new_object (env_memory env n st) (ws \<noteq> []) (CalyndaRtArray ws) st)"
    by (simp add: rt_array_literal_def rt_new_array_object_def)
  show ?thesis
  proof (cases "rt_array_literal (env_memory env n st) ws st")
    case (Done r)
    then obtain a st' where r: "rt_array_literal (env_memory env n st) ws st = Done (a, st')"
      by (cases r) auto
    then have "rt_wf st' \<and> persists st st' \<and> rt_object st' a = Done (Some (CalyndaRtArray ws))"
      using or_abort_new(2) [OF assms(1) fresh _ r [unfolded literal]] by (simp add: rt_object_def calynda_rt_as_object_def)
    with r show ?thesis
      by (auto simp: run_entry_def)
  next
    case (Abort message)
    then show ?thesis
      using or_abort_message(1) [OF assms(1) fresh _ Abort [unfolded literal]] by (simp add: run_entry_def)
  next
    case Wild
    then show ?thesis
      using or_abort_alive(1) [OF assms(1) fresh] by (simp add: literal)
  next
    case (Bridge_fault P kind)
    then show ?thesis
      using or_abort_alive(2) [OF assms(1) fresh] by (simp add: literal)
  qed
qed

lemma strings_persist:
  assumes "persists st st'" and "list_all2 (\<lambda>w s. cr_objects st w = Some (CalyndaRtString s)) ws ss"
  shows "list_all2 (\<lambda>w s. cr_objects st' w = Some (CalyndaRtString s)) ws ss"
proof (rule list_all2_mono [OF assms(2)])
  fix w s
  assume "cr_objects st w = Some (CalyndaRtString s)"
  then show "cr_objects st' w = Some (CalyndaRtString s)"
    using assms(1) unfolding persists_def by (metis same_object.simps(2))
qed

lemma run_entry_kept:
  assumes "rt_wf st" and "fresh_memory env" and "run_entry env n start ws st = Some r"
  shows "kept env st r"
proof -
  have ended: "kept env st (and_then r (\<lambda>(w, st). Done (sint w, st)))"
    if "kept env st r" for st and r :: "(CalyndaRtWord \<times> CalyndaRt) outcome"
    using that by (cases r) (auto simp: kept_def bridge_faults_def)
  from run_entry_array [OF assms(1,2), of n start ws] show ?thesis
  proof (elim disjE exE conjE)
    fix a st'
    assume run: "run_entry env n start ws st =
        map_option (\<lambda>r. and_then r (\<lambda>(w, st). Done (sint w, st))) (run_program env n (start a) st')"
      and st': "rt_wf st'" "persists st st'"
    from run assms(3) obtain r0 where "run_program env n (start a) st' = Some r0"
      "r = and_then r0 (\<lambda>(w, st). Done (sint w, st))"
      by (cases "run_program env n (start a) st'") auto
    with ended [OF run_program_kept [OF assms(2) st'(1)]] st'(2) show ?thesis
      by (auto intro: kept_trans)
  qed (use assms(3) in \<open>simp add: keeps_kept\<close>)
qed

text \<open>
  C40: a process whose start has its code ends before that code with exit code 71 or the message of a
  failed allocation, or else it runs the code on an array of strings, the arguments after the name of
  the program, and its exit code is the signed value of the word that the code returns.
\<close>

theorem process_arguments:
  assumes "program_image st" and "fresh_memory env"
  shows "calynda_rt_start_process env grow boxes n (Some start) argv st = Some (Done (71, calynda_rt_init grow st)) \<and> \<not> boxes \<or>
    (\<exists>message \<in> {''runtime: out of memory while creating string'', ''runtime: out of memory creating array''}.
      calynda_rt_start_process env grow boxes n (Some start) argv st = Some (Abort message)) \<or>
    (\<exists>a ws st'. calynda_rt_start_process env grow boxes n (Some start) argv st =
        map_option (\<lambda>r. and_then r (\<lambda>(w, st). Done (sint w, st))) (run_program env n (start a) st') \<and>
      rt_wf st' \<and> rt_object st' a = Done (Some (CalyndaRtArray ws)) \<and>
      list_all2 (\<lambda>w s. cr_objects st' w = Some (CalyndaRtString s)) ws (tl argv))"
proof -
  let ?st = "calynda_rt_init grow st"
  note boxed = box_arguments_laws [OF assms(2) calynda_rt_init_laws(1) [OF assms(1)], of grow "tl argv"]
  show ?thesis
  proof (cases "length argv > 1 \<and> \<not> boxes")
    case False
    show ?thesis
    proof (cases "box_arguments env (tl argv) ?st")
      case (Done r)
      then obtain ws st1 where r: "box_arguments env (tl argv) ?st = Done (ws, st1)"
        by (cases r) auto
      with boxed have "rt_wf st1" "list_all2 (\<lambda>w s. cr_objects st1 w = Some (CalyndaRtString s)) ws (tl argv)"
        by auto
      with run_entry_array [OF _ assms(2), of st1 n start ws] strings_persist False r show ?thesis
        by (auto simp: calynda_rt_start_process_def Let_def) blast+
    qed (use boxed False in \<open>auto simp: calynda_rt_start_process_def Let_def\<close>)
  qed (simp add: calynda_rt_start_process_def Let_def)
qed

text \<open>
  C35: no program, whatever words it computes and passes, makes the runtime access memory that is
  not its own, an address without an object or an element outside its array, as long as allocation
  hands out unused addresses.  A process ends with a message, or with an exit code, and then
  every registered address has its object and no object of the start is gone or has changed its kind,
  its text, its captures, its payload or its length; or it ends where the code of a package of the
  console, but not that of the controller, follows a word that is no pointer to its data.
\<close>

theorem process_never_wild:
  assumes "program_image st" and "fresh_memory env"
    and "calynda_rt_start_process env grow boxes n entry argv st = Some r"
  shows "r \<noteq> Wild \<and>
    (\<forall>code st'. r = Done (code, st') \<longrightarrow> rt_wf st' \<and> persists st st') \<and>
    (\<forall>P kind. r = Bridge_fault P kind \<longrightarrow>
       P \<noteq> Package_wpad \<and> (\<exists>m arguments. env_bridge env m P kind arguments = Answer_fault))"
proof -
  have "kept env st r"
  proof (cases entry)
    case None
    then show ?thesis
      using assms program_image_wf by (auto simp: calynda_rt_start_process_def)
  next
    case (Some start)
    let ?st = "calynda_rt_init grow st"
    have init: "rt_wf ?st" "persists st ?st"
      using calynda_rt_init_laws [OF assms(1)] by auto
    have boxed: "keeps ?st (box_arguments env (tl argv) ?st)"
      using box_arguments_laws [OF assms(2) init(1)] by blast
    have "kept env ?st r"
    proof (cases "box_arguments env (tl argv) ?st")
      case (Done q)
      then obtain ws st1 where q: "box_arguments env (tl argv) ?st = Done (ws, st1)"
        by (cases q) auto
      with boxed assms(3) Some init(1) show ?thesis
        using run_entry_kept [OF _ assms(2), of st1 n start ws r]
        by (auto simp: calynda_rt_start_process_def Let_def intro: kept_trans split: if_splits)
    qed (use boxed assms(3) Some init(1) in \<open>auto simp: calynda_rt_start_process_def Let_def keeps_kept split: if_splits\<close>)
    then show ?thesis
      by (rule kept_trans [OF init(2)])
  qed
  then show ?thesis
    by (cases r) (auto simp: kept_def bridge_faults_def)
qed

text \<open>
  A registered object that is released to the last reference stays in the registry: the runtime still
  takes the word for an object, and every use of it reads freed memory.
\<close>

lemma released_object_dangles:
  assumes "rt_wf st" and "p \<in> set (cr_items st)" and "cr_refcounts st p = Some 1"
  shows "\<exists>st'. calynda_gc_release p st = Done st' \<and> calynda_rt_is_object st' p \<and> (\<forall>n > 0. rt_format_word_internal st' p n = Wild)"
  using assms
  by (auto simp: rt_wf_def calynda_gc_release_def calynda_rt_is_object_def calynda_rt_as_object_def
      rt_format_word_internal_def rt_object_def)

section \<open>A concrete image\<close>

fun sample_index :: "rt_static \<Rightarrow> nat" where
  "sample_index Pkg_stdlib = 1"
| "sample_index STDOUT_PRINT_CALLABLE = 2"
| "sample_index (Pkg P) = first_kind P + 99"
| "sample_index (Callable P i) = first_kind P + i"

definition sample_image :: CalyndaRt where
  "sample_image = \<lparr>cr_objects = map_of (List.map (\<lambda>s. (word_of_nat (sample_index s), static_object s)) all_statics),
     cr_refcounts = Map.empty, cr_items = [], cr_capacity = 0, cr_out = [], cr_address = \<lambda>s. word_of_nat (sample_index s)\<rparr>"

definition sample_memory :: "CalyndaRt \<Rightarrow> memory_answers" where
  "sample_memory st =
     (let p = 0x10000 + 16 * word_of_nat (length (cr_items st))
      in \<lparr>ma_block = (if p \<noteq> 0 \<and> cr_objects st p = None then Some p else None), ma_data = True, ma_grow = True\<rparr>)"

definition sample_environment :: rt_environment where
  "sample_environment = \<lparr>env_code = \<lambda>entry captures arguments. Return 0, env_memory = \<lambda>n. sample_memory,
     env_ogc = \<lambda>n. \<lparr>WPAD_Init = 0, WPAD_ScanPads = 0, WPAD_ButtonsDown = \<lambda>c. 0, WPAD_ButtonsHeld = \<lambda>c. 0,
       WPAD_ButtonsUp = \<lambda>c. 0, WPAD_Rumble = \<lambda>c on. 0, WPAD_Probe = \<lambda>c. 0, WPAD_BUTTON = \<lambda>b. 0\<rparr>,
     env_bridge = \<lambda>n P kind arguments. if kind = 325 then Answer_fault else Answer_word 0\<rparr>"

text \<open>It prints a text and returns 7.\<close>

definition sample_program :: "CalyndaRtWord \<Rightarrow> rt_program" where
  "sample_program a =
     Runtime (RT_MAKE_STRING_COPY (Some ''hi'')) (\<lambda>s.
     Runtime (RT_MEMBER_LOAD 1 (Some ''print'')) (\<lambda>f.
     Runtime (RT_CALL_CALLABLE f [s]) (\<lambda>u. Return 7)))"

lemma callable_bound: "i < length (package_callables P) \<Longrightarrow> i < 50"
  by (cases P) (auto simp: labels_length)

lemma all_statics_cases:
  assumes "s \<in> set all_statics"
  obtains "s = Pkg_stdlib" | "s = STDOUT_PRINT_CALLABLE" | P where "s = Pkg P" | P i where "s = Callable P i" "i < 50"
  using assms callable_bound by (auto simp: all_statics_def package_statics_def)

definition sample_static :: "nat \<Rightarrow> rt_static" where
  "sample_static n =
     (if n = 1 then Pkg_stdlib else if n = 2 then STDOUT_PRINT_CALLABLE
      else let P = all_packages ! (n div 100 - 1) in if n mod 100 = 99 then Pkg P else Callable P (n mod 100))"

lemma sample_static_Pkg: "sample_static (first_kind P + 99) = Pkg P"
  by (cases P) (simp_all add: sample_static_def all_packages_def)

lemma sample_static_Callable:
  assumes "i < 50"
  shows "sample_static (first_kind P + i) = Callable P i"
  using assms mod_mult_self3 [of 2 100 i] mod_mult_self3 [of 3 100 i] mod_mult_self3 [of 4 100 i] mod_mult_self3 [of 5 100 i]
  by (cases P) (simp_all add: sample_static_def all_packages_def)

lemma sample_index_inverse: "s \<in> set all_statics \<Longrightarrow> sample_static (sample_index s) = s"
  by (elim all_statics_cases) (simp_all add: sample_static_Pkg sample_static_Callable, simp_all add: sample_static_def)

lemma first_kind_bounds: "0 < first_kind P" "first_kind P \<le> 500"
  by (cases P; simp)+

lemma sample_index_bounds:
  assumes "s \<in> set all_statics"
  shows "0 < sample_index s" and "sample_index s < 1000"
proof -
  from assms show "0 < sample_index s"
    by (rule all_statics_cases) (simp_all add: first_kind_bounds(1))
  from assms show "sample_index s < 1000"
  proof (rule all_statics_cases)
    fix P
    assume "s = Pkg P"
    then show ?thesis
      using first_kind_bounds(2) [of P] by simp
  next
    fix P i
    assume "s = Callable P i" "i < 50"
    then show ?thesis
      using first_kind_bounds(2) [of P] by simp
  qed simp_all
qed

lemma sample_image_ok: "program_image sample_image"
proof -
  have distinct: "distinct all_statics"
    by (auto simp: all_statics_def all_packages_def package_statics_def distinct_map inj_on_def)
  have word: "unat (word_of_nat (sample_index s) :: u32) = sample_index s" if "s \<in> set all_statics" for s
    using sample_index_bounds(2) [OF that] by (simp add: unsigned_of_nat take_bit_nat_eq_self)
  have "inj_on (\<lambda>s. word_of_nat (sample_index s) :: u32) (set all_statics)"
    by (rule inj_on_inverseI [where g = "\<lambda>w. sample_static (unat w)"]) (simp add: word sample_index_inverse)
  then have keys: "distinct (List.map (\<lambda>s. word_of_nat (sample_index s) :: u32) all_statics)"
    using distinct by (simp add: distinct_map)
  then show ?thesis
    using word sample_index_bounds(1)
    by (force simp: program_image_def sample_image_def list_all_iff comp_def map_of_eq_Some_iff)
qed

lemma sample_environment_ok: "fresh_memory sample_environment"
  by (auto simp: sample_environment_def fresh_memory_def fresh_def sample_memory_def Let_def split: if_splits)

lemma sample_plain:
  "calynda_rt_as_object sample_image w = (if w \<in> {1, 2, 199, 399, 499, 599} then Some w else None)"
  by (auto simp: calynda_rt_as_object_def sample_image_def known_statics_def registry_contains_def)

lemma sample_free: "1000 \<le> unat p \<Longrightarrow> cr_objects sample_image p = None"
  using sample_index_bounds(2)
  by (auto simp: sample_image_def map_of_eq_None_iff unsigned_of_nat take_bit_nat_eq_self dest!: arg_cong [of _ _ unat])
    (metis less_imp_le_nat nat_neq_iff order_less_le_trans take_bit_nat_less_eq_self)

lemma printed: "print_nat 42 = ''42''" "print_nat 5 = ''5''" "print_nat 4294967295 = ''4294967295''"
  by (simp_all add: print_nat.simps char_of_def bit_Suc_0_iff)

lemma sample_answers: "fresh \<lparr>ma_block = Some 0x10000, ma_data = True, ma_grow = True\<rparr> sample_image"
  by (simp add: fresh_def sample_free)

theorem template_text_witness:
  "\<exists>st'. rt_template_build \<lparr>ma_block = Some 0x10000, ma_data = True, ma_grow = True\<rparr>
      [Template_text (Some ''n = ''), Template_value 42, Template_text None, Template_value 1] sample_image = Done (0x10000, st') \<and>
    persists sample_image st' \<and> rt_wf st' \<and>
    calynda_rt_string_bytes st' 0x10000 = Done (Some ''n = 42<package:stdlib>'')"
proof -
  have stdlib: "cr_objects sample_image 1 = Some (CalyndaRtPackage ''stdlib'')"
    using program_image_static [OF sample_image_ok, of Pkg_stdlib] by (simp add: all_statics_def sample_image_def)
  show ?thesis
    using template_text [OF program_image_wf [OF sample_image_ok] sample_answers, of "0x10000"
        "[Template_text (Some ''n = ''), Template_value 42, Template_text None, Template_value 1]"]
    by (simp add: word_text_def sample_plain stdlib print_int_def printed)
qed

theorem cast_roundtrip_witness:
  "\<exists>st'. rt_cast_value \<lparr>ma_block = Some 0x10000, ma_data = True, ma_grow = True\<rparr> (- 5) CALYNDA_RT_TYPE_STRING sample_image =
      Done (0x10000, st') \<and>
    calynda_rt_string_bytes st' 0x10000 = Done (Some ''-5'') \<and>
    (\<forall>ma'. rt_cast_value ma' 0x10000 CALYNDA_RT_TYPE_INT32 st' = Done (- 5, st'))"
  using cast_roundtrip [OF program_image_wf [OF sample_image_ok] sample_answers, of "0x10000" "- 5"]
  by (simp add: calynda_rt_is_object_def sample_plain print_int_def printed)

theorem package_members_routed_witness:
  "\<exists>w. rt_member_load 399 (Some ''setup_3d'') (calynda_rt_init (\<lambda>p. True) sample_image) = Done w \<and>
    callable_target w (calynda_rt_init (\<lambda>p. True) sample_image) = Done (Target_extern 303) \<and>
    package_of_kind 303 = Some Package_gfx"
  using package_members_routed [OF sample_image_ok, of "\<lambda>p. True" "calynda_rt_init (\<lambda>p. True) sample_image" 3 Package_gfx]
  by (simp add: labels_length) (simp add: all_gfx_callables_def sample_image_def)

theorem array_access_witness:
  "let st = sample_image\<lparr>cr_objects := [0x10000 \<mapsto> CalyndaRtArray [10, 20, 30]], cr_items := [0x10000]\<rparr>
   in rt_index_load 0x10000 2 st = Done 30 \<and>
     (\<exists>st'. rt_store_index 0x10000 2 7 st = Done st' \<and> rt_index_load 0x10000 2 st' = Done 7 \<and>
        rt_index_load 0x10000 0 st' = Done 10) \<and>
     rt_store_index 0x10000 0xFFFFFFFF 7 st = Abort ''runtime: array index out of bounds (4294967295)''"
proof -
  let ?st = "sample_image\<lparr>cr_objects := [0x10000 \<mapsto> CalyndaRtArray [10, 20, 30]], cr_items := [0x10000]\<rparr>"
  have "rt_object ?st 0x10000 = Done (Some (CalyndaRtArray [10, 20, 30]))"
    by (simp add: rt_object_def calynda_rt_as_object_def registry_contains_def)
  note access = array_access [OF this]
  from access [of 2 7] obtain st' where "rt_index_load 0x10000 2 ?st = Done 30" "rt_store_index 0x10000 2 7 ?st = Done st'"
    "\<And>j. unat j < 3 \<Longrightarrow> rt_index_load 0x10000 j st' = Done (if j = 2 then 7 else [10, 20, 30] ! unat j)"
    by auto
  moreover from this(3) [of 2] this(3) [of 0]
  have "rt_index_load 0x10000 2 st' = Done 7" "rt_index_load 0x10000 0 st' = Done 10"
    by simp_all
  moreover from access [of "0xFFFFFFFF" 7]
  have "rt_store_index 0x10000 0xFFFFFFFF 7 ?st = Abort ''runtime: array index out of bounds (4294967295)''"
    by (simp add: out_of_bounds_def printed)
  ultimately show ?thesis
    unfolding Let_def by blast
qed

theorem process_arguments_witness:
  "(\<exists>message \<in> {''runtime: out of memory while creating string'', ''runtime: out of memory creating array''}.
      calynda_rt_start_process sample_environment (\<lambda>p. True) True 9 (Some sample_program) [''game'', ''fast''] sample_image =
        Some (Abort message)) \<or>
    (\<exists>a w st'. calynda_rt_start_process sample_environment (\<lambda>p. True) True 9 (Some sample_program) [''game'', ''fast''] sample_image =
        map_option (\<lambda>r. and_then r (\<lambda>(w, st). Done (sint w, st))) (run_program sample_environment 9 (sample_program a) st') \<and>
      rt_wf st' \<and> rt_object st' a = Done (Some (CalyndaRtArray [w])) \<and> cr_objects st' w = Some (CalyndaRtString ''fast''))"
  using process_arguments [OF sample_image_ok sample_environment_ok, of "\<lambda>p. True" True 9 sample_program "[''game'', ''fast'']"]
  by (auto simp: list_all2_Cons2)

theorem process_never_wild_witness:
  "\<exists>r. calynda_rt_start_process sample_environment (\<lambda>p. True) True 9 (Some sample_program) [''game'', ''fast''] sample_image = Some r \<and>
    r \<noteq> Wild \<and> (\<forall>code st'. r = Done (code, st') \<longrightarrow> rt_wf st' \<and> persists sample_image st')"
proof -
  have "\<exists>r. calynda_rt_start_process sample_environment (\<lambda>p. True) True 9 (Some sample_program) [''game'', ''fast''] sample_image = Some r"
    by (simp add: calynda_rt_start_process_def run_entry_def sample_program_def Let_def numeral_eq_Suc sample_environment_def
        split: outcome.split prod.split rt_target.split)
  then show ?thesis
    using process_never_wild [OF sample_image_ok sample_environment_ok] by blast
qed

end
