(* ===== verification/TokenTypes.thy ===== *)
theory TokenTypes
  imports Main
begin

text \<open>
  The token vocabulary of the Calynda compiler: the enumeration \<open>TokenType\<close> of
  compiler/src/tokenizer/tokenizer.h, in the order of the header, the names that
  \<open>token_type_name\<close> of tokenizer.c gives them, and the keyword table of
  tokenizer_keywords.c with its lookup.  The enumeration is kept in a theory of its own
  because it is the slowest declaration of the development; its equality is instantiated
  by hand and decided by the simplifier, not by a code equation.
\<close>

datatype (plugins only: size) TokenType =
    TOK_EOF | TOK_ERROR | TOK_INT_LIT | TOK_FLOAT_LIT | TOK_CHAR_LIT | TOK_STRING_LIT
  | TOK_TEMPLATE_START | TOK_TEMPLATE_MIDDLE | TOK_TEMPLATE_END | TOK_TEMPLATE_FULL
  | TOK_IDENTIFIER | TOK_PACKAGE | TOK_IMPORT | TOK_START | TOK_BOOT | TOK_EXTERN
  | TOK_VAR | TOK_PUBLIC | TOK_PRIVATE | TOK_FINAL | TOK_VOID | TOK_RETURN | TOK_EXIT
  | TOK_THROW | TOK_TRUE | TOK_FALSE | TOK_NULL | TOK_EXPORT | TOK_AS | TOK_INTERNAL
  | TOK_STATIC | TOK_UNION | TOK_MANUAL | TOK_ARR | TOK_MALLOC | TOK_CALLOC | TOK_REALLOC
  | TOK_FREE | TOK_INT8 | TOK_INT16 | TOK_INT32 | TOK_INT64 | TOK_UINT8 | TOK_UINT16
  | TOK_UINT32 | TOK_UINT64 | TOK_FLOAT32 | TOK_FLOAT64 | TOK_BOOL | TOK_CHAR
  | TOK_STRING | TOK_BYTE | TOK_SBYTE | TOK_SHORT | TOK_INT | TOK_LONG | TOK_ULONG
  | TOK_UINT | TOK_FLOAT | TOK_DOUBLE | TOK_LPAREN | TOK_RPAREN | TOK_LBRACE | TOK_RBRACE
  | TOK_LBRACKET | TOK_RBRACKET | TOK_SEMICOLON | TOK_COMMA | TOK_DOT | TOK_ELLIPSIS
  | TOK_ARROW | TOK_QUESTION | TOK_COLON | TOK_UNDERSCORE | TOK_DOLLAR_LBRACE
  | TOK_ASSIGN | TOK_PLUS_ASSIGN | TOK_MINUS_ASSIGN | TOK_STAR_ASSIGN | TOK_SLASH_ASSIGN
  | TOK_PERCENT_ASSIGN | TOK_AMP_ASSIGN | TOK_PIPE_ASSIGN | TOK_CARET_ASSIGN
  | TOK_LSHIFT_ASSIGN | TOK_RSHIFT_ASSIGN | TOK_EQ | TOK_NEQ | TOK_LT | TOK_GT | TOK_LTE
  | TOK_GTE | TOK_LOGIC_OR | TOK_LOGIC_AND | TOK_PIPE | TOK_AMP | TOK_CARET | TOK_TILDE
  | TOK_TILDE_AMP | TOK_TILDE_CARET | TOK_LSHIFT | TOK_RSHIFT | TOK_PLUS | TOK_PLUS_PLUS
  | TOK_MINUS | TOK_MINUS_MINUS | TOK_STAR | TOK_SLASH | TOK_PERCENT | TOK_BANG
  | TOK_COMPONENT | TOK_SIGNAL | TOK_COUNT

instantiation TokenType :: equal
begin

definition equal_TokenType :: "TokenType \<Rightarrow> TokenType \<Rightarrow> bool" where
  "equal_TokenType a b \<longleftrightarrow> a = b"

instance
  by standard (simp add: equal_TokenType_def)

end

declare equal_TokenType_def [code del]

primrec token_type_name :: "TokenType \<Rightarrow> string" where
  "token_type_name TOK_EOF = ''EOF''"
| "token_type_name TOK_ERROR = ''ERROR''"
| "token_type_name TOK_INT_LIT = ''INT_LIT''"
| "token_type_name TOK_FLOAT_LIT = ''FLOAT_LIT''"
| "token_type_name TOK_CHAR_LIT = ''CHAR_LIT''"
| "token_type_name TOK_STRING_LIT = ''STRING_LIT''"
| "token_type_name TOK_TEMPLATE_START = ''TEMPLATE_START''"
| "token_type_name TOK_TEMPLATE_MIDDLE = ''TEMPLATE_MIDDLE''"
| "token_type_name TOK_TEMPLATE_END = ''TEMPLATE_END''"
| "token_type_name TOK_TEMPLATE_FULL = ''TEMPLATE_FULL''"
| "token_type_name TOK_IDENTIFIER = ''IDENTIFIER''"
| "token_type_name TOK_PACKAGE = ''PACKAGE''"
| "token_type_name TOK_IMPORT = ''IMPORT''"
| "token_type_name TOK_START = ''START''"
| "token_type_name TOK_BOOT = ''BOOT''"
| "token_type_name TOK_EXTERN = ''EXTERN''"
| "token_type_name TOK_VAR = ''VAR''"
| "token_type_name TOK_PUBLIC = ''PUBLIC''"
| "token_type_name TOK_PRIVATE = ''PRIVATE''"
| "token_type_name TOK_FINAL = ''FINAL''"
| "token_type_name TOK_VOID = ''VOID''"
| "token_type_name TOK_RETURN = ''RETURN''"
| "token_type_name TOK_EXIT = ''EXIT''"
| "token_type_name TOK_THROW = ''THROW''"
| "token_type_name TOK_TRUE = ''TRUE''"
| "token_type_name TOK_FALSE = ''FALSE''"
| "token_type_name TOK_NULL = ''NULL''"
| "token_type_name TOK_EXPORT = ''EXPORT''"
| "token_type_name TOK_AS = ''AS''"
| "token_type_name TOK_INTERNAL = ''INTERNAL''"
| "token_type_name TOK_STATIC = ''STATIC''"
| "token_type_name TOK_UNION = ''UNION''"
| "token_type_name TOK_MANUAL = ''MANUAL''"
| "token_type_name TOK_ARR = ''ARR''"
| "token_type_name TOK_MALLOC = ''MALLOC''"
| "token_type_name TOK_CALLOC = ''CALLOC''"
| "token_type_name TOK_REALLOC = ''REALLOC''"
| "token_type_name TOK_FREE = ''FREE''"
| "token_type_name TOK_INT8 = ''INT8''"
| "token_type_name TOK_INT16 = ''INT16''"
| "token_type_name TOK_INT32 = ''INT32''"
| "token_type_name TOK_INT64 = ''INT64''"
| "token_type_name TOK_UINT8 = ''UINT8''"
| "token_type_name TOK_UINT16 = ''UINT16''"
| "token_type_name TOK_UINT32 = ''UINT32''"
| "token_type_name TOK_UINT64 = ''UINT64''"
| "token_type_name TOK_FLOAT32 = ''FLOAT32''"
| "token_type_name TOK_FLOAT64 = ''FLOAT64''"
| "token_type_name TOK_BOOL = ''BOOL''"
| "token_type_name TOK_CHAR = ''CHAR''"
| "token_type_name TOK_STRING = ''STRING''"
| "token_type_name TOK_BYTE = ''BYTE''"
| "token_type_name TOK_SBYTE = ''SBYTE''"
| "token_type_name TOK_SHORT = ''SHORT''"
| "token_type_name TOK_INT = ''INT''"
| "token_type_name TOK_LONG = ''LONG''"
| "token_type_name TOK_ULONG = ''ULONG''"
| "token_type_name TOK_UINT = ''UINT''"
| "token_type_name TOK_FLOAT = ''FLOAT''"
| "token_type_name TOK_DOUBLE = ''DOUBLE''"
| "token_type_name TOK_LPAREN = ''LPAREN''"
| "token_type_name TOK_RPAREN = ''RPAREN''"
| "token_type_name TOK_LBRACE = ''LBRACE''"
| "token_type_name TOK_RBRACE = ''RBRACE''"
| "token_type_name TOK_LBRACKET = ''LBRACKET''"
| "token_type_name TOK_RBRACKET = ''RBRACKET''"
| "token_type_name TOK_SEMICOLON = ''SEMICOLON''"
| "token_type_name TOK_COMMA = ''COMMA''"
| "token_type_name TOK_DOT = ''DOT''"
| "token_type_name TOK_ELLIPSIS = ''ELLIPSIS''"
| "token_type_name TOK_ARROW = ''ARROW''"
| "token_type_name TOK_QUESTION = ''QUESTION''"
| "token_type_name TOK_COLON = ''COLON''"
| "token_type_name TOK_UNDERSCORE = ''UNDERSCORE''"
| "token_type_name TOK_DOLLAR_LBRACE = ''DOLLAR_LBRACE''"
| "token_type_name TOK_ASSIGN = ''ASSIGN''"
| "token_type_name TOK_PLUS_ASSIGN = ''PLUS_ASSIGN''"
| "token_type_name TOK_MINUS_ASSIGN = ''MINUS_ASSIGN''"
| "token_type_name TOK_STAR_ASSIGN = ''STAR_ASSIGN''"
| "token_type_name TOK_SLASH_ASSIGN = ''SLASH_ASSIGN''"
| "token_type_name TOK_PERCENT_ASSIGN = ''PERCENT_ASSIGN''"
| "token_type_name TOK_AMP_ASSIGN = ''AMP_ASSIGN''"
| "token_type_name TOK_PIPE_ASSIGN = ''PIPE_ASSIGN''"
| "token_type_name TOK_CARET_ASSIGN = ''CARET_ASSIGN''"
| "token_type_name TOK_LSHIFT_ASSIGN = ''LSHIFT_ASSIGN''"
| "token_type_name TOK_RSHIFT_ASSIGN = ''RSHIFT_ASSIGN''"
| "token_type_name TOK_EQ = ''EQ''"
| "token_type_name TOK_NEQ = ''NEQ''"
| "token_type_name TOK_LT = ''LT''"
| "token_type_name TOK_GT = ''GT''"
| "token_type_name TOK_LTE = ''LTE''"
| "token_type_name TOK_GTE = ''GTE''"
| "token_type_name TOK_LOGIC_OR = ''LOGIC_OR''"
| "token_type_name TOK_LOGIC_AND = ''LOGIC_AND''"
| "token_type_name TOK_PIPE = ''PIPE''"
| "token_type_name TOK_AMP = ''AMP''"
| "token_type_name TOK_CARET = ''CARET''"
| "token_type_name TOK_TILDE = ''TILDE''"
| "token_type_name TOK_TILDE_AMP = ''TILDE_AMP''"
| "token_type_name TOK_TILDE_CARET = ''TILDE_CARET''"
| "token_type_name TOK_LSHIFT = ''LSHIFT''"
| "token_type_name TOK_RSHIFT = ''RSHIFT''"
| "token_type_name TOK_PLUS = ''PLUS''"
| "token_type_name TOK_PLUS_PLUS = ''PLUS_PLUS''"
| "token_type_name TOK_MINUS = ''MINUS''"
| "token_type_name TOK_MINUS_MINUS = ''MINUS_MINUS''"
| "token_type_name TOK_STAR = ''STAR''"
| "token_type_name TOK_SLASH = ''SLASH''"
| "token_type_name TOK_PERCENT = ''PERCENT''"
| "token_type_name TOK_BANG = ''BANG''"
| "token_type_name TOK_COMPONENT = ''COMPONENT''"
| "token_type_name TOK_SIGNAL = ''SIGNAL''"
| "token_type_name TOK_COUNT = ''COUNT''"

text \<open>The keyword table, without its \<open>NULL\<close> sentinel.\<close>

definition keyword_table :: "(string \<times> TokenType) list" where
  "keyword_table =
    [(''package'', TOK_PACKAGE), (''import'', TOK_IMPORT), (''start'', TOK_START)
     , (''boot'', TOK_BOOT), (''extern'', TOK_EXTERN), (''var'', TOK_VAR)
     , (''public'', TOK_PUBLIC), (''private'', TOK_PRIVATE), (''final'', TOK_FINAL)
     , (''void'', TOK_VOID), (''return'', TOK_RETURN), (''exit'', TOK_EXIT)
     , (''throw'', TOK_THROW), (''true'', TOK_TRUE), (''false'', TOK_FALSE)
     , (''null'', TOK_NULL), (''export'', TOK_EXPORT), (''as'', TOK_AS)
     , (''internal'', TOK_INTERNAL), (''static'', TOK_STATIC), (''union'', TOK_UNION)
     , (''manual'', TOK_MANUAL), (''arr'', TOK_ARR), (''malloc'', TOK_MALLOC)
     , (''calloc'', TOK_CALLOC), (''realloc'', TOK_REALLOC), (''free'', TOK_FREE)
     , (''int8'', TOK_INT8), (''int16'', TOK_INT16), (''int32'', TOK_INT32)
     , (''uint8'', TOK_UINT8), (''uint16'', TOK_UINT16), (''uint32'', TOK_UINT32)
     , (''float32'', TOK_FLOAT32), (''bool'', TOK_BOOL), (''char'', TOK_CHAR)
     , (''string'', TOK_STRING), (''byte'', TOK_BYTE), (''sbyte'', TOK_SBYTE)
     , (''short'', TOK_SHORT), (''int'', TOK_INT), (''uint'', TOK_UINT)
     , (''float'', TOK_FLOAT), (''component'', TOK_COMPONENT), (''signal'', TOK_SIGNAL)]"

text \<open>
  \<open>check_keyword\<close>: the first entry whose text has the length of the lexeme and its
  bytes (\<open>strlen\<close> and \<open>memcmp\<close>), and \<open>TOK_IDENTIFIER\<close> when the scan reaches the
  sentinel.
\<close>

fun keyword_scan :: "(string \<times> TokenType) list \<Rightarrow> string \<Rightarrow> TokenType" where
  "keyword_scan [] lexeme = TOK_IDENTIFIER"
| "keyword_scan ((text, type) # table) lexeme =
     (if length text = length lexeme \<and> text = lexeme then type
      else keyword_scan table lexeme)"

definition check_keyword :: "string \<Rightarrow> TokenType" where
  "check_keyword lexeme = keyword_scan keyword_table lexeme"

lemma keyword_scan_map_of:
  "keyword_scan table lexeme =
     (case map_of table lexeme of None \<Rightarrow> TOK_IDENTIFIER | Some type \<Rightarrow> type)"
  by (induction table) auto

lemma check_keyword_map_of:
  "check_keyword lexeme =
     (case map_of keyword_table lexeme of None \<Rightarrow> TOK_IDENTIFIER | Some type \<Rightarrow> type)"
  by (simp add: check_keyword_def keyword_scan_map_of)

lemma distinct_keyword_texts: "distinct (map fst keyword_table)"
  by (simp add: keyword_table_def)

lemma distinct_keyword_types: "distinct (map snd keyword_table)"
  by (simp add: keyword_table_def)

lemma identifier_not_keyword: "TOK_IDENTIFIER \<notin> snd ` set keyword_table"
  by (simp add: keyword_table_def)

end
