(* ===== verification/Tokenizer.thy ===== *)
theory Tokenizer
  imports Prelude TokenTypes
begin

text \<open>
  The tokenizer of the compiler (compiler/src/tokenizer): its state, the character
  operations of tokenizer_internal.h, whitespace and comments, numbers, escapes, character,
  string and template literals, identifiers and punctuation, and \<open>tokenizer_next\<close>.
  A pointer into the source is an offset; the loops of the code are recursive functions
  whose termination rests on the offset moving towards the terminator.
\<close>

section \<open>State and tokens\<close>

text \<open>
  \<open>const char *start\<close> of a token points into the source or at the message of an error.
\<close>

datatype text_ptr = Src nat | Msg string

record Token =
  tok_type :: TokenType
  tok_start :: text_ptr
  tok_length :: nat
  tok_line :: nat
  tok_column :: nat

record Tokenizer =
  tk_source :: string
  tk_current :: nat
  tk_line :: nat
  tk_column :: nat
  tk_template_depth :: nat
  tk_brace_depth :: "nat list"

definition TOKENIZER_MAX_TEMPLATE_DEPTH :: nat where
  "TOKENIZER_MAX_TEMPLATE_DEPTH = 32"

definition tokenizer_init :: "string \<Rightarrow> Tokenizer" where
  "tokenizer_init source =
     \<lparr>tk_source = source, tk_current = 0, tk_line = 1, tk_column = 1,
      tk_template_depth = 0,
      tk_brace_depth = replicate TOKENIZER_MAX_TEMPLATE_DEPTH 0\<rparr>"

section \<open>Character operations\<close>

definition peek :: "Tokenizer \<Rightarrow> char" where
  "peek t = char_at (tk_source t) (tk_current t)"

definition is_at_end :: "Tokenizer \<Rightarrow> bool" where
  "is_at_end t \<longleftrightarrow> peek t = NUL"

definition peek_next :: "Tokenizer \<Rightarrow> char" where
  "peek_next t =
     (if is_at_end t then NUL else char_at (tk_source t) (Suc (tk_current t)))"

definition advance_char :: "Tokenizer \<Rightarrow> char \<times> Tokenizer" where
  "advance_char t =
     (let c = peek t; t1 = t\<lparr>tk_current := Suc (tk_current t)\<rparr>
      in (c, if c = newline then t1\<lparr>tk_line := Suc (tk_line t), tk_column := 1\<rparr>
             else t1\<lparr>tk_column := Suc (tk_column t)\<rparr>))"

text \<open>Most calls of the code drop the returned character.\<close>

definition advance :: "Tokenizer \<Rightarrow> Tokenizer" where
  "advance t = snd (advance_char t)"

definition match_char :: "Tokenizer \<Rightarrow> char \<Rightarrow> bool \<times> Tokenizer" where
  "match_char t expected =
     (if is_at_end t \<or> peek t \<noteq> expected then (False, t) else (True, advance t))"

definition make_token :: "Tokenizer \<Rightarrow> TokenType \<Rightarrow> nat \<Rightarrow> nat \<Rightarrow> nat \<Rightarrow> Token" where
  "make_token t type start line col =
     \<lparr>tok_type = type, tok_start = Src start, tok_length = tk_current t - start,
      tok_line = line, tok_column = col\<rparr>"

definition error_token :: "string \<Rightarrow> nat \<Rightarrow> nat \<Rightarrow> Token" where
  "error_token msg line col =
     \<lparr>tok_type = TOK_ERROR, tok_start = Msg msg, tok_length = length msg,
      tok_line = line, tok_column = col\<rparr>"

lemma fst_advance_char [simp]: "fst (advance_char t) = peek t"
  by (simp add: advance_char_def Let_def)

lemma advance_fields [simp]:
  "tk_source (advance t) = tk_source t"
  "tk_current (advance t) = Suc (tk_current t)"
  "tk_template_depth (advance t) = tk_template_depth t"
  "tk_brace_depth (advance t) = tk_brace_depth t"
  by (simp_all add: advance_def advance_char_def Let_def)

lemma not_at_end_less: "\<not> is_at_end t \<Longrightarrow> tk_current t < length (tk_source t)"
  by (auto simp: is_at_end_def peek_def)

text \<open>The loops \<open>while (!is_at_end(t) && p(peek(t))) advance_char(t)\<close>.\<close>

function advance_while :: "(char \<Rightarrow> bool) \<Rightarrow> Tokenizer \<Rightarrow> Tokenizer" where
  "advance_while p t =
     (if \<not> is_at_end t \<and> p (peek t) then advance_while p (advance t) else t)"
  by pat_completeness auto
termination
  by (relation "measure (\<lambda>(p, t). length (tk_source t) - tk_current t)")
    (auto dest: not_at_end_less)

declare advance_while.simps [simp del]

section \<open>Whitespace and comments\<close>

text \<open>The body of a block comment, up to and including the closing marker or to the end.\<close>

function block_comment_loop :: "Tokenizer \<Rightarrow> Tokenizer" where
  "block_comment_loop t =
     (if is_at_end t then t
      else if peek t = CHR ''*'' \<and> peek_next t = CHR ''/'' then advance (advance t)
      else block_comment_loop (advance t))"
  by pat_completeness auto
termination
  by (relation "measure (\<lambda>t. length (tk_source t) - tk_current t)")
    (auto dest: not_at_end_less)

declare block_comment_loop.simps [simp del]

section \<open>Moving along the source\<close>

text \<open>
  A state is positioned when its offset does not lie behind the terminator and its line
  and column are those of the offset.  \<open>moves t t'\<close> says that \<open>t'\<close> was reached from \<open>t\<close>
  by reading forward: the source is the same, the offset did not decrease, and a
  positioned state stays positioned.
\<close>

definition positioned :: "Tokenizer \<Rightarrow> bool" where
  "positioned t \<longleftrightarrow>
     tk_current t \<le> length (tk_source t) \<and>
     tk_line t = line_at (tk_source t) (tk_current t) \<and>
     tk_column t = column_at (tk_source t) (tk_current t)"

definition moves :: "Tokenizer \<Rightarrow> Tokenizer \<Rightarrow> bool" where
  "moves t t' \<longleftrightarrow>
     tk_source t' = tk_source t \<and> tk_current t \<le> tk_current t' \<and>
     (positioned t \<longrightarrow> positioned t')"

text \<open>The template state of the tokenizer, which only few operations change.\<close>

definition same_template :: "Tokenizer \<Rightarrow> Tokenizer \<Rightarrow> bool" where
  "same_template t t' \<longleftrightarrow>
     tk_template_depth t' = tk_template_depth t \<and> tk_brace_depth t' = tk_brace_depth t"

lemma moves_refl [simp, scan_intros]: "moves t t"
  by (simp add: moves_def)

lemma moves_trans [trans]: "moves t u \<Longrightarrow> moves u v \<Longrightarrow> moves t v"
  by (auto simp: moves_def)

lemma moves_source: "moves t t' \<Longrightarrow> tk_source t' = tk_source t"
  by (simp add: moves_def)

lemma moves_current: "moves t t' \<Longrightarrow> tk_current t \<le> tk_current t'"
  by (simp add: moves_def)

lemma moves_positioned: "moves t t' \<Longrightarrow> positioned t \<Longrightarrow> positioned t'"
  by (simp add: moves_def)

lemma positioned_advance:
  assumes "positioned t" and "\<not> is_at_end t"
  shows "positioned (advance t)"
  using assms not_at_end_less [OF assms(2)]
  by (auto simp: positioned_def advance_def advance_char_def Let_def peek_def
      char_at_nth line_at_Suc column_at_Suc)

lemma moves_advance [scan_intros]: "\<not> is_at_end t \<Longrightarrow> moves t (advance t)"
  by (auto simp: moves_def intro: positioned_advance)

lemma moves_advance_trans: "\<not> is_at_end t \<Longrightarrow> moves (advance t) u \<Longrightarrow> moves t u"
  using moves_advance moves_trans by blast

lemma moves_then_advance [scan_intros]:
  "moves t u \<Longrightarrow> \<not> is_at_end u \<Longrightarrow> moves t (advance u)"
  by (rule moves_trans [OF _ moves_advance])

lemma moves_update_template [simp]:
  "moves t (u\<lparr>tk_template_depth := d\<rparr>) \<longleftrightarrow> moves t u"
  "moves t (u\<lparr>tk_brace_depth := b\<rparr>) \<longleftrightarrow> moves t u"
  by (simp_all add: moves_def positioned_def)

lemma moves_from_template [simp]:
  "moves (t\<lparr>tk_template_depth := d\<rparr>) u \<longleftrightarrow> moves t u"
  "moves (t\<lparr>tk_brace_depth := b\<rparr>) u \<longleftrightarrow> moves t u"
  by (simp_all add: moves_def positioned_def)

lemma same_template_refl [simp, intro]: "same_template t t"
  by (simp add: same_template_def)

lemma same_template_trans [trans]: "same_template t u \<Longrightarrow> same_template u v \<Longrightarrow> same_template t v"
  by (simp add: same_template_def)

lemma same_template_advance [simp]: "same_template t (advance u) \<longleftrightarrow> same_template t u"
  by (simp add: same_template_def)

lemma peek_advance: "\<not> is_at_end t \<Longrightarrow> peek (advance t) = peek_next t"
  by (simp add: peek_def peek_next_def)

text \<open>
  From here on the simplifier decides the end test by the character under the cursor; one
  character of lookahead is \<open>peek_next\<close>.
\<close>

declare is_at_end_def [simp] peek_advance [simp]

lemma peek_next_NUL [simp]: "peek t = NUL \<Longrightarrow> peek_next t = NUL"
  by (simp add: peek_next_def)

lemma moves_advance_while: "moves t (advance_while p t)"
proof (induction p t rule: advance_while.induct)
  case (1 p t)
  show ?case
  proof (cases "\<not> is_at_end t \<and> p (peek t)")
    case True
    with 1 have "moves (advance t) (advance_while p (advance t))"
      by simp
    with True have "moves t (advance_while p (advance t))"
      using moves_advance moves_trans by blast
    with True show ?thesis
      by (simp add: advance_while.simps [of p t])
  qed (auto simp: advance_while.simps [of p t])
qed

lemma moves_then_advance_while [scan_intros]: "moves t u \<Longrightarrow> moves t (advance_while p u)"
  by (rule moves_trans [OF _ moves_advance_while])

lemma same_template_advance_while [simp]:
  "same_template t (advance_while p u) \<longleftrightarrow> same_template t u"
proof (induction p u rule: advance_while.induct)
  case (1 p u)
  then show ?case
    by (simp add: advance_while.simps [of p u])
qed

lemma moves_block_comment_loop: "moves t (block_comment_loop t)"
proof (induction t rule: block_comment_loop.induct)
  case (1 t)
  consider "is_at_end t"
    | "\<not> is_at_end t" "peek t = CHR ''*'' \<and> peek_next t = CHR ''/''"
    | "\<not> is_at_end t" "\<not> (peek t = CHR ''*'' \<and> peek_next t = CHR ''/'')"
    by blast
  then show ?case
  proof cases
    case 3
    then have "moves t (block_comment_loop (advance t))"
      using 1 moves_advance moves_trans by blast
    with 3 show ?thesis
      by (auto simp: block_comment_loop.simps [of t])
  qed (auto simp: block_comment_loop.simps [of t] intro!: scan_intros)
qed

lemma moves_then_block_comment_loop [scan_intros]:
  "moves t u \<Longrightarrow> moves t (block_comment_loop u)"
  by (rule moves_trans [OF _ moves_block_comment_loop])

lemma same_template_block_comment_loop [simp]:
  "same_template t (block_comment_loop u) \<longleftrightarrow> same_template t u"
proof (induction u rule: block_comment_loop.induct)
  case (1 u)
  then show ?case
    by (simp add: block_comment_loop.simps [of u])
qed

section \<open>Skipping whitespace and comments\<close>

text \<open>
  One turn of the loop of \<open>skip_whitespace\<close>: \<open>None\<close> is the \<open>return\<close> of the code.
\<close>

definition skip_whitespace_step :: "Tokenizer \<Rightarrow> Tokenizer option" where
  "skip_whitespace_step t =
     (let c = peek t in
      if c = CHR '' '' \<or> c = CHR 0x09 \<or> c = CHR 0x0D \<or> c = newline then Some (advance t)
      else if c = CHR ''/'' then
        (if peek_next t = CHR ''/'' then Some (advance_while (\<lambda>d. d \<noteq> newline) t)
         else if peek_next t = CHR ''*'' then Some (block_comment_loop (advance (advance t)))
         else None)
      else None)"

lemma advance_while_first:
  "\<not> is_at_end t \<Longrightarrow> p (peek t) \<Longrightarrow> advance_while p t = advance_while p (advance t)"
  by (simp add: advance_while.simps [of p t])

lemma skip_whitespace_step_moves:
  "skip_whitespace_step t = Some t' \<Longrightarrow> moves t t' \<and> same_template t t'"
  by (auto simp: skip_whitespace_step_def Let_def split: if_splits intro!: scan_intros)

lemma skip_whitespace_step_progress:
  assumes "skip_whitespace_step t = Some t'"
  shows "\<not> is_at_end t" and "tk_current t < tk_current t'"
proof -
  show not_end: "\<not> is_at_end t"
    using assms by (auto simp: skip_whitespace_step_def Let_def is_at_end_def split: if_splits)
  consider "t' = advance t"
    | "t' = advance_while (\<lambda>d. d \<noteq> newline) (advance t)"
    | "t' = block_comment_loop (advance (advance t))"
    using assms not_end advance_while_first [of t "\<lambda>d. d \<noteq> newline"]
    by (auto simp: skip_whitespace_step_def Let_def split: if_splits)
  then show "tk_current t < tk_current t'"
    using moves_current [OF moves_advance_while [of "advance t" "\<lambda>d. d \<noteq> newline"]]
      moves_current [OF moves_block_comment_loop [of "advance (advance t)"]]
    by cases auto
qed

function skip_whitespace :: "Tokenizer \<Rightarrow> Tokenizer" where
  "skip_whitespace t =
     (case skip_whitespace_step t of None \<Rightarrow> t | Some t' \<Rightarrow> skip_whitespace t')"
  by pat_completeness auto
termination
proof (relation "measure (\<lambda>t. length (tk_source t) - tk_current t)")
  fix t t'
  assume step: "skip_whitespace_step t = Some t'"
  then have "tk_source t' = tk_source t"
    using skip_whitespace_step_moves moves_source by blast
  with skip_whitespace_step_progress [OF step] not_at_end_less [of t]
  show "(t', t) \<in> measure (\<lambda>t. length (tk_source t) - tk_current t)"
    by simp
qed simp

declare skip_whitespace.simps [simp del]

lemma skip_whitespace_moves: "moves t (skip_whitespace t) \<and> same_template t (skip_whitespace t)"
proof (induction t rule: skip_whitespace.induct)
  case (1 t)
  show ?case
  proof (cases "skip_whitespace_step t")
    case (Some t')
    with 1 have "moves t' (skip_whitespace t')" "same_template t' (skip_whitespace t')"
      by auto
    with Some skip_whitespace_step_moves [OF Some] show ?thesis
      using moves_trans same_template_trans by (simp add: skip_whitespace.simps [of t]) blast
  qed (simp add: skip_whitespace.simps [of t])
qed

lemma skip_whitespace_stops: "skip_whitespace_step (skip_whitespace t) = None"
proof (induction t rule: skip_whitespace.induct)
  case (1 t)
  then show ?case
    by (cases "skip_whitespace_step t") (simp_all add: skip_whitespace.simps [of t])
qed

section \<open>Number literals\<close>

text \<open>
  The three branches of \<open>tokenizer_scan_number\<close> for \<open>0b\<close>, \<open>0o\<close> and \<open>0x\<close> differ in the digit
  test and in the message only.
\<close>

definition scan_prefixed ::
  "(char \<Rightarrow> bool) \<Rightarrow> string \<Rightarrow> Tokenizer \<Rightarrow> nat \<Rightarrow> nat \<Rightarrow> nat \<Rightarrow> Token \<times> Tokenizer" where
  "scan_prefixed digit msg t start line col =
     (let t = advance t in
      if is_at_end t \<or> \<not> digit (peek t) then (error_token msg line col, t)
      else let t = advance_while digit t in (make_token t TOK_INT_LIT start line col, t))"

definition is_binary_digit :: "char \<Rightarrow> bool" where
  "is_binary_digit c \<longleftrightarrow> c = CHR ''0'' \<or> c = CHR ''1''"

definition is_octal_digit :: "char \<Rightarrow> bool" where
  "is_octal_digit c \<longleftrightarrow> (let n = (of_char c :: nat) in 48 \<le> n \<and> n \<le> 55)"

definition scan_fraction :: "Tokenizer \<Rightarrow> bool \<times> Tokenizer" where
  "scan_fraction t =
     (if \<not> is_at_end t \<and> peek t = CHR ''.'' \<and> isdigit (peek_next t)
      then (True, advance_while isdigit (advance t)) else (False, t))"

definition scan_exponent ::
  "bool \<Rightarrow> Tokenizer \<Rightarrow> nat \<Rightarrow> nat \<Rightarrow> nat \<Rightarrow> Token \<times> Tokenizer" where
  "scan_exponent is_float t start line col =
     (if \<not> is_at_end t \<and> (peek t = CHR ''e'' \<or> peek t = CHR ''E'') then
        let t = advance t;
            t = (if \<not> is_at_end t \<and> (peek t = CHR ''+'' \<or> peek t = CHR ''-'') then advance t else t)
        in if is_at_end t \<or> \<not> isdigit (peek t)
           then (error_token ''Expected digit in exponent'' line col, t)
           else let t = advance_while isdigit t
                in (make_token t TOK_FLOAT_LIT start line col, t)
      else (make_token t (if is_float then TOK_FLOAT_LIT else TOK_INT_LIT) start line col, t))"

definition tokenizer_scan_number ::
  "Tokenizer \<Rightarrow> nat \<Rightarrow> nat \<Rightarrow> nat \<Rightarrow> Token \<times> Tokenizer" where
  "tokenizer_scan_number t start line col =
     (if char_at (tk_source t) start = CHR ''0'' \<and> \<not> is_at_end t \<and> peek t \<in> {CHR ''b'', CHR ''B''}
      then scan_prefixed is_binary_digit ''Expected binary digit after 0b'' t start line col
      else if char_at (tk_source t) start = CHR ''0'' \<and> \<not> is_at_end t \<and> peek t \<in> {CHR ''o'', CHR ''O''}
      then scan_prefixed is_octal_digit ''Expected octal digit after 0o'' t start line col
      else if char_at (tk_source t) start = CHR ''0'' \<and> \<not> is_at_end t \<and> peek t \<in> {CHR ''x'', CHR ''X''}
      then scan_prefixed isxdigit ''Expected hex digit after 0x'' t start line col
      else case scan_fraction (advance_while isdigit t) of
             (is_float, t) \<Rightarrow> scan_exponent is_float t start line col)"

section \<open>Escapes, character and string literals\<close>

fun scan_hex_digits :: "nat \<Rightarrow> Tokenizer \<Rightarrow> bool \<times> Tokenizer" where
  "scan_hex_digits 0 t = (True, t)"
| "scan_hex_digits (Suc n) t =
     (if is_at_end t \<or> \<not> isxdigit (peek t) then (False, t)
      else scan_hex_digits n (advance t))"

definition scan_escape :: "Tokenizer \<Rightarrow> bool \<times> Tokenizer" where
  "scan_escape t =
     (if is_at_end t then (False, t)
      else case advance_char t of (c, t) \<Rightarrow>
        if c \<in> {CHR ''n'', CHR ''t'', CHR ''r'', CHR 0x5C, CHR 0x27, CHR 0x22, CHR 0x60,
                CHR ''$'', CHR ''0''} then (True, t)
        else if c = CHR ''u'' then scan_hex_digits 4 t
        else (False, t))"

definition tokenizer_scan_char :: "Tokenizer \<Rightarrow> nat \<Rightarrow> nat \<Rightarrow> nat \<Rightarrow> Token \<times> Tokenizer" where
  "tokenizer_scan_char t start line col =
     (if is_at_end t \<or> peek t = newline
      then (error_token ''Unterminated char literal'' line col, t)
      else if peek t = CHR 0x5C \<and> \<not> fst (scan_escape (advance t))
      then (error_token ''Invalid escape in char literal'' line col, snd (scan_escape (advance t)))
      else if peek t = CHR 0x27
      then (error_token ''Empty char literal'' line col, t)
      else
        let t = (if peek t = CHR 0x5C then snd (scan_escape (advance t)) else advance t)
        in if is_at_end t \<or> peek t \<noteq> CHR 0x27
           then (error_token ''Unterminated char literal'' line col, t)
           else let t = advance t in (make_token t TOK_CHAR_LIT start line col, t))"

lemma scan_hex_digits_moves: "moves t (snd (scan_hex_digits n t)) \<and> same_template t (snd (scan_hex_digits n t))"
proof (induction n arbitrary: t)
  case (Suc n)
  from Suc.IH [of "advance t"] show ?case
    by (auto simp: same_template_def intro: moves_advance_trans)
qed simp

lemma advance_char_eq [simp]: "advance_char t = (peek t, advance t)"
  by (simp add: prod_eq_iff advance_def)

lemma scan_escape_moves: "moves t (snd (scan_escape t)) \<and> same_template t (snd (scan_escape t))"
  using scan_hex_digits_moves [of "advance t" 4]
  by (auto simp: scan_escape_def same_template_def intro: moves_advance_trans scan_intros)

lemma moves_then_scan_escape [scan_intros]:
  "moves t u \<Longrightarrow> moves t (snd (scan_escape u))"
  using scan_escape_moves moves_trans by blast

lemma same_template_scan_escape [simp]:
  "same_template t (snd (scan_escape u)) \<longleftrightarrow> same_template t u"
  using scan_escape_moves [of u] by (auto simp: same_template_def)

lemma scan_escape_step:
  assumes "\<not> is_at_end t"
  shows "tk_current t < tk_current (snd (scan_escape (advance t)))"
    and "tk_source (snd (scan_escape (advance t))) = tk_source t"
  using moves_current [of "advance t" "snd (scan_escape (advance t))"]
    moves_source [of "advance t" "snd (scan_escape (advance t))"] scan_escape_moves [of "advance t"]
  by auto

text \<open>The loop of \<open>tokenizer_scan_string\<close>, up to the closing quote or the failure.\<close>

function string_loop :: "Tokenizer \<Rightarrow> string option \<times> Tokenizer" where
  "string_loop t =
     (if is_at_end t \<or> peek t = CHR 0x22 then (None, t)
      else if peek t = newline then (Some ''Unterminated string literal'', t)
      else if peek t = CHR 0x5C then
        (if fst (scan_escape (advance t)) then string_loop (snd (scan_escape (advance t)))
         else (Some ''Invalid escape in string'', snd (scan_escape (advance t))))
      else string_loop (advance t))"
  by pat_completeness auto
termination
proof (relation "measure (\<lambda>t. length (tk_source t) - tk_current t)")
  fix t
  assume "\<not> (is_at_end t \<or> peek t = CHR 0x22)"
  then show "(snd (scan_escape (advance t)), t) \<in> measure (\<lambda>t. length (tk_source t) - tk_current t)"
    using scan_escape_step [of t] not_at_end_less [of t] by auto
next
  fix t
  assume "\<not> (is_at_end t \<or> peek t = CHR 0x22)"
  then show "(advance t, t) \<in> measure (\<lambda>t. length (tk_source t) - tk_current t)"
    using not_at_end_less [of t] by auto
qed simp

declare string_loop.simps [simp del]

definition tokenizer_scan_string :: "Tokenizer \<Rightarrow> nat \<Rightarrow> nat \<Rightarrow> nat \<Rightarrow> Token \<times> Tokenizer" where
  "tokenizer_scan_string t start line col =
     (case string_loop t of
        (Some msg, t) \<Rightarrow> (error_token msg line col, t)
      | (None, t) \<Rightarrow>
          if is_at_end t then (error_token ''Unterminated string literal'' line col, t)
          else let t = advance t in (make_token t TOK_STRING_LIT start line col, t))"

section \<open>Template literals\<close>

function tokenizer_scan_template_body ::
  "Tokenizer \<Rightarrow> nat \<Rightarrow> nat \<Rightarrow> nat \<Rightarrow> TokenType \<Rightarrow> TokenType \<Rightarrow> Token \<times> Tokenizer" where
  "tokenizer_scan_template_body t start line col on_interp on_end =
     (if is_at_end t then (error_token ''Unterminated template literal'' line col, t)
      else if peek t = CHR 0x5C then
        (if fst (scan_escape (advance t))
         then tokenizer_scan_template_body (snd (scan_escape (advance t))) start line col
                on_interp on_end
         else (error_token ''Invalid escape in template literal'' line col,
               snd (scan_escape (advance t))))
      else if peek t = CHR ''$'' \<and> peek_next t = CHR ''{'' then
        (if tk_template_depth t \<ge> TOKENIZER_MAX_TEMPLATE_DEPTH
         then (error_token ''Template interpolation nesting too deep'' line col, t)
         else (make_token t on_interp start line col,
               let u = advance (advance t)
               in u\<lparr>tk_brace_depth := (tk_brace_depth u)[tk_template_depth u := 0],
                    tk_template_depth := Suc (tk_template_depth u)\<rparr>))
      else if peek t = CHR 0x60 then
        (let u = advance t in (make_token u on_end start line col, u))
      else tokenizer_scan_template_body (advance t) start line col on_interp on_end)"
  by pat_completeness auto
termination
proof (relation "measure (\<lambda>(t, _). length (tk_source t) - tk_current t)", goal_cases)
  case (2 t start line col on_interp on_end)
  then show ?case
    using scan_escape_step [of t] not_at_end_less [of t] by auto
next
  case (3 t start line col on_interp on_end)
  then show ?case
    using not_at_end_less [of t] by auto
qed simp

declare tokenizer_scan_template_body.simps [simp del]

section \<open>Identifiers and keywords\<close>

definition ident_char :: "char \<Rightarrow> bool" where
  "ident_char c \<longleftrightarrow> isalnum c \<or> c = CHR ''_''"

definition tokenizer_scan_identifier :: "Tokenizer \<Rightarrow> nat \<Rightarrow> nat \<Rightarrow> nat \<Rightarrow> Token \<times> Tokenizer" where
  "tokenizer_scan_identifier t start line col =
     (let t = advance_while ident_char t;
          len = tk_current t - start
      in if len = 1 \<and> char_at (tk_source t) start = CHR ''_''
         then (make_token t TOK_UNDERSCORE start line col, t)
         else (make_token t (check_keyword (slice (tk_source t) start len)) start line col, t))"

section \<open>Punctuation and operators\<close>

text \<open>
  A run of \<open>if (match_char(t, c)) return make_token(...)\<close> lines, closed by an unconditional
  \<open>return make_token(...)\<close>.
\<close>

fun match_table ::
  "(char \<times> TokenType) list \<Rightarrow> TokenType \<Rightarrow> Tokenizer \<Rightarrow> nat \<Rightarrow> nat \<Rightarrow> nat \<Rightarrow> Token \<times> Tokenizer" where
  "match_table [] otherwise t start line col = (make_token t otherwise start line col, t)"
| "match_table ((c, type) # table) otherwise t start line col =
     (case match_char t c of
        (True, t') \<Rightarrow> (make_token t' type start line col, t')
      | (False, _) \<Rightarrow> match_table table otherwise t start line col)"

definition open_brace :: "Tokenizer \<Rightarrow> Tokenizer" where
  "open_brace t =
     (if tk_template_depth t > 0
      then t\<lparr>tk_brace_depth := (tk_brace_depth t)
               [tk_template_depth t - 1 := Suc (tk_brace_depth t ! (tk_template_depth t - 1))]\<rparr>
      else t)"

definition close_brace :: "Tokenizer \<Rightarrow> Tokenizer" where
  "close_brace t =
     (if tk_template_depth t > 0 \<and> tk_brace_depth t ! (tk_template_depth t - 1) > 0
      then t\<lparr>tk_brace_depth := (tk_brace_depth t)
               [tk_template_depth t - 1 := tk_brace_depth t ! (tk_template_depth t - 1) - 1]\<rparr>
      else t)"

definition tokenizer_scan_punctuation ::
  "Tokenizer \<Rightarrow> char \<Rightarrow> nat \<Rightarrow> nat \<Rightarrow> nat \<Rightarrow> Token \<times> Tokenizer" where
  "tokenizer_scan_punctuation t c start line col =
     (let single = (\<lambda>type. (make_token t type start line col, t));
          table = (\<lambda>entries otherwise. match_table entries otherwise t start line col)
      in if c = CHR ''('' then single TOK_LPAREN
      else if c = CHR '')'' then single TOK_RPAREN
      else if c = CHR ''{'' then
        (let t = open_brace t in (make_token t TOK_LBRACE start line col, t))
      else if c = CHR ''}'' then
        (let t = close_brace t in (make_token t TOK_RBRACE start line col, t))
      else if c = CHR ''['' then single TOK_LBRACKET
      else if c = CHR '']'' then single TOK_RBRACKET
      else if c = CHR '';'' then single TOK_SEMICOLON
      else if c = CHR '','' then single TOK_COMMA
      else if c = CHR ''.'' then
        (if peek t = CHR ''.'' \<and> peek_next t = CHR ''.''
         then let t = advance (advance t) in (make_token t TOK_ELLIPSIS start line col, t)
         else single TOK_DOT)
      else if c = CHR ''?'' then single TOK_QUESTION
      else if c = CHR '':'' then single TOK_COLON
      else if c = CHR ''-'' then
        table [(CHR ''>'', TOK_ARROW), (CHR ''-'', TOK_MINUS_MINUS), (CHR ''='', TOK_MINUS_ASSIGN)]
          TOK_MINUS
      else if c = CHR ''+'' then
        table [(CHR ''+'', TOK_PLUS_PLUS), (CHR ''='', TOK_PLUS_ASSIGN)] TOK_PLUS
      else if c = CHR ''*'' then table [(CHR ''='', TOK_STAR_ASSIGN)] TOK_STAR
      else if c = CHR ''/'' then table [(CHR ''='', TOK_SLASH_ASSIGN)] TOK_SLASH
      else if c = CHR ''%'' then table [(CHR ''='', TOK_PERCENT_ASSIGN)] TOK_PERCENT
      else if c = CHR ''='' then table [(CHR ''='', TOK_EQ)] TOK_ASSIGN
      else if c = CHR ''!'' then table [(CHR ''='', TOK_NEQ)] TOK_BANG
      else if c = CHR ''<'' then
        (case match_char t (CHR ''<'') of
           (True, t') \<Rightarrow> match_table [(CHR ''='', TOK_LSHIFT_ASSIGN)] TOK_LSHIFT t' start line col
         | (False, _) \<Rightarrow> table [(CHR ''='', TOK_LTE)] TOK_LT)
      else if c = CHR ''>'' then
        (case match_char t (CHR ''>'') of
           (True, t') \<Rightarrow> match_table [(CHR ''='', TOK_RSHIFT_ASSIGN)] TOK_RSHIFT t' start line col
         | (False, _) \<Rightarrow> table [(CHR ''='', TOK_GTE)] TOK_GT)
      else if c = CHR ''&'' then
        table [(CHR ''&'', TOK_LOGIC_AND), (CHR ''='', TOK_AMP_ASSIGN)] TOK_AMP
      else if c = CHR ''|'' then
        table [(CHR ''|'', TOK_LOGIC_OR), (CHR ''='', TOK_PIPE_ASSIGN)] TOK_PIPE
      else if c = CHR ''^'' then table [(CHR ''='', TOK_CARET_ASSIGN)] TOK_CARET
      else if c = CHR ''~'' then
        table [(CHR ''&'', TOK_TILDE_AMP), (CHR ''^'', TOK_TILDE_CARET)] TOK_TILDE
      else if c = CHR ''$'' then
        (case match_char t (CHR ''{'') of
           (True, t') \<Rightarrow> (make_token t' TOK_DOLLAR_LBRACE start line col, t')
         | (False, _) \<Rightarrow> (error_token (''Unexpected character '' @ [CHR 0x27, CHR ''$'', CHR 0x27]) line col, t))
      else if c = CHR 0x27 then tokenizer_scan_char t start line col
      else if c = CHR 0x22 then tokenizer_scan_string t start line col
      else if c = CHR 0x60 then
        tokenizer_scan_template_body t start line col TOK_TEMPLATE_START TOK_TEMPLATE_FULL
      else (error_token ''Unexpected character'' line col, t))"

section \<open>The main scanning function\<close>

definition tokenizer_next :: "Tokenizer \<Rightarrow> Token \<times> Tokenizer" where
  "tokenizer_next t =
     (let t = skip_whitespace t;
          start = tk_current t; line = tk_line t; col = tk_column t
      in if tk_template_depth t > 0 \<and> tk_brace_depth t ! (tk_template_depth t - 1) = 0
            \<and> peek t = CHR ''}''
         then let t = advance t;
                  t = t\<lparr>tk_template_depth := tk_template_depth t - 1\<rparr>
              in tokenizer_scan_template_body t start line col TOK_TEMPLATE_MIDDLE TOK_TEMPLATE_END
         else if is_at_end t
         then (make_token t TOK_EOF start line col, t)
         else case advance_char t of (c, t) \<Rightarrow>
           if isalpha c \<or> c = CHR ''_'' then tokenizer_scan_identifier t start line col
           else if isdigit c then tokenizer_scan_number t start line col
           else tokenizer_scan_punctuation t c start line col)"

section \<open>What every scanner returns\<close>

text \<open>
  A token that is not an error spans the source from its start to the offset the
  tokenizer has reached; a token that opens an interpolation leaves out the two
  characters \<open>${\<close> that were consumed with it.
\<close>

definition opens_interpolation :: "TokenType \<Rightarrow> bool" where
  "opens_interpolation type \<longleftrightarrow> type = TOK_TEMPLATE_START \<or> type = TOK_TEMPLATE_MIDDLE"

definition consumed_after :: "TokenType \<Rightarrow> nat" where
  "consumed_after type = (if opens_interpolation type then 2 else 0)"

definition token_spans :: "Token \<Rightarrow> nat \<Rightarrow> nat \<Rightarrow> bool" where
  "token_spans tok start stop \<longleftrightarrow>
     (if tok_type tok = TOK_ERROR
      then \<exists>msg. tok_start tok = Msg msg \<and> tok_length tok = length msg
      else tok_start tok = Src start \<and>
           start + tok_length tok + consumed_after (tok_type tok) = stop)"

definition scanned ::
  "Tokenizer \<Rightarrow> nat \<Rightarrow> nat \<Rightarrow> nat \<Rightarrow> Token \<times> Tokenizer \<Rightarrow> bool" where
  "scanned t start line col r \<longleftrightarrow>
     moves t (snd r) \<and> tok_line (fst r) = line \<and> tok_column (fst r) = col \<and>
     token_spans (fst r) start (tk_current (snd r))"

lemma scanned_error [scan_intros]:
  "moves t t' \<Longrightarrow> scanned t start line col (error_token msg line col, t')"
  by (simp add: scanned_def error_token_def token_spans_def)

lemma scanned_make_token [scan_intros]:
  assumes "start \<le> tk_current t" and "moves t t'"
    and "type \<noteq> TOK_ERROR" and "\<not> opens_interpolation type"
  shows "scanned t start line col (make_token t' type start line col, t')"
  using assms moves_current [of t t']
  by (simp add: scanned_def make_token_def token_spans_def consumed_after_def)

lemma scanned_from:
  assumes "moves t u" and "scanned u start line col r"
  shows "scanned t start line col r"
  using assms moves_trans by (auto simp: scanned_def)

lemma not_opens_interpolation [simp]:
  "\<not> opens_interpolation TOK_INT_LIT" "\<not> opens_interpolation TOK_FLOAT_LIT"
  "\<not> opens_interpolation TOK_CHAR_LIT" "\<not> opens_interpolation TOK_STRING_LIT"
  "\<not> opens_interpolation TOK_TEMPLATE_END" "\<not> opens_interpolation TOK_TEMPLATE_FULL"
  "\<not> opens_interpolation TOK_UNDERSCORE" "\<not> opens_interpolation TOK_EOF"
  by (simp_all add: opens_interpolation_def)

lemma scan_prefixed_scanned:
  "start \<le> tk_current t \<Longrightarrow> \<not> is_at_end t \<Longrightarrow>
   scanned t start line col (scan_prefixed digit msg t start line col)"
  by (auto simp: scan_prefixed_def Let_def intro!: scan_intros)

lemma scan_fraction_moves: "moves t (snd (scan_fraction t)) \<and> same_template t (snd (scan_fraction t))"
  by (auto simp: scan_fraction_def intro!: scan_intros)

lemma scan_exponent_scanned:
  "start \<le> tk_current t \<Longrightarrow>
   scanned t start line col (scan_exponent is_float t start line col)"
  by (auto simp: scan_exponent_def Let_def intro!: scan_intros)

lemma scan_number_scanned:
  assumes "start \<le> tk_current t"
  shows "scanned t start line col (tokenizer_scan_number t start line col)"
proof -
  obtain f u where u: "scan_fraction (advance_while isdigit t) = (f, u)"
    by (cases "scan_fraction (advance_while isdigit t)")
  then have tu: "moves t u"
    using scan_fraction_moves [of "advance_while isdigit t"] moves_advance_while moves_trans
    by fastforce
  then have "scanned t start line col (scan_exponent f u start line col)"
    using assms moves_current [OF tu] by (intro scanned_from [OF tu] scan_exponent_scanned) simp
  with u assms show ?thesis
    by (auto simp: tokenizer_scan_number_def intro: scan_prefixed_scanned)
qed

lemma scan_char_scanned:
  "start \<le> tk_current t \<Longrightarrow> scanned t start line col (tokenizer_scan_char t start line col)"
  by (auto simp: tokenizer_scan_char_def Let_def intro!: scan_intros)

lemma string_loop_moves: "moves t (snd (string_loop t)) \<and> same_template t (snd (string_loop t))"
proof (induction t rule: string_loop.induct)
  case (1 t)
  let ?e = "snd (scan_escape (advance t))"
  consider "is_at_end t \<or> peek t = CHR 0x22 \<or> peek t = newline"
    | "\<not> is_at_end t" "peek t = CHR 0x5C" "\<not> fst (scan_escape (advance t))"
    | "\<not> is_at_end t" "peek t = CHR 0x5C" "fst (scan_escape (advance t))"
    | "\<not> is_at_end t" "peek t \<notin> {CHR 0x22, newline, CHR 0x5C}"
    by blast
  then show ?case
  proof cases
    case 3
    then have "moves ?e (snd (string_loop ?e))" "same_template ?e (snd (string_loop ?e))"
      using 1 by auto
    moreover have "moves t ?e" "same_template t ?e"
      using 3 by (auto intro!: scan_intros)
    ultimately show ?thesis
      using 3 moves_trans by (auto simp: string_loop.simps [of t] same_template_def)
  next
    case 4
    then show ?thesis
      using 1 by (auto simp: string_loop.simps [of t] same_template_def intro: moves_advance_trans)
  qed (auto simp: string_loop.simps [of t] intro!: scan_intros)
qed

lemma scan_string_scanned:
  assumes "start \<le> tk_current t"
  shows "scanned t start line col (tokenizer_scan_string t start line col)"
proof -
  obtain m u where "string_loop t = (m, u)" "moves t u"
    using string_loop_moves [of t] by (cases "string_loop t") auto
  with assms show ?thesis
    by (auto simp: tokenizer_scan_string_def Let_def split: option.splits intro!: scan_intros)
qed

lemma scan_template_scanned:
  assumes "start \<le> tk_current t" and "opens_interpolation on_interp"
    and "on_end \<noteq> TOK_ERROR" and "\<not> opens_interpolation on_end"
  shows "scanned t start line col (tokenizer_scan_template_body t start line col on_interp on_end)"
  using assms
proof (induction t start line col on_interp on_end rule: tokenizer_scan_template_body.induct)
  case (1 t start line col on_interp on_end)
  note simps = tokenizer_scan_template_body.simps [of t]
  let ?e = "snd (scan_escape (advance t))"
  have interp: "on_interp \<noteq> TOK_ERROR" "consumed_after on_interp = 2"
    using 1(4) by (auto simp: opens_interpolation_def consumed_after_def)
  consider "is_at_end t"
    | "\<not> is_at_end t" "peek t = CHR 0x5C" "\<not> fst (scan_escape (advance t))"
    | "\<not> is_at_end t" "peek t = CHR 0x5C" "fst (scan_escape (advance t))"
    | "\<not> is_at_end t" "peek t = CHR ''$''" "peek_next t = CHR ''{''"
    | "\<not> is_at_end t" "peek t = CHR 0x60"
    | "\<not> is_at_end t" "peek t \<notin> {CHR 0x5C, CHR 0x60}" "\<not> (peek t = CHR ''$'' \<and> peek_next t = CHR ''{'')"
    by blast
  then show ?case
  proof cases
    case 3
    then have "scanned ?e start line col (tokenizer_scan_template_body ?e start line col on_interp on_end)"
      using 1 scan_escape_step [of t] by simp
    moreover have "moves t ?e"
      using 3 by (auto intro!: scan_intros)
    ultimately show ?thesis
      using 3 scanned_from by (simp add: simps)
  next
    case 4
    then have "moves t (advance (advance t))"
      by (auto intro!: scan_intros)
    with 4 1(3) interp show ?thesis
      by (auto simp: simps Let_def scanned_def make_token_def error_token_def token_spans_def)
  next
    case 6
    then have "scanned (advance t) start line col
        (tokenizer_scan_template_body (advance t) start line col on_interp on_end)"
      using 1 by simp
    with 6 show ?thesis
      using scanned_from [OF moves_advance] by (auto simp: simps)
  qed (use 1 in \<open>auto simp: simps Let_def intro!: scan_intros\<close>)
qed

text \<open>Token types that stand for the text from their start to the current offset.\<close>

definition plain_type :: "TokenType \<Rightarrow> bool" where
  "plain_type type \<longleftrightarrow> type \<noteq> TOK_ERROR \<and> \<not> opens_interpolation type"

lemma scanned_plain [scan_intros]:
  "start \<le> tk_current t \<Longrightarrow> moves t t' \<Longrightarrow> plain_type type \<Longrightarrow>
   scanned t start line col (make_token t' type start line col, t')"
  by (simp add: plain_type_def scanned_make_token)

lemma plain_types_list:
  "list_all plain_type
     [TOK_LPAREN, TOK_RPAREN, TOK_LBRACE, TOK_RBRACE, TOK_LBRACKET, TOK_RBRACKET,
      TOK_SEMICOLON, TOK_COMMA, TOK_DOT, TOK_ELLIPSIS, TOK_QUESTION, TOK_COLON, TOK_ARROW,
      TOK_MINUS_MINUS, TOK_MINUS_ASSIGN, TOK_MINUS, TOK_PLUS_PLUS, TOK_PLUS_ASSIGN, TOK_PLUS,
      TOK_STAR_ASSIGN, TOK_STAR, TOK_SLASH_ASSIGN, TOK_SLASH, TOK_PERCENT_ASSIGN, TOK_PERCENT,
      TOK_EQ, TOK_ASSIGN, TOK_NEQ, TOK_BANG, TOK_LSHIFT_ASSIGN, TOK_LSHIFT, TOK_LTE, TOK_LT,
      TOK_RSHIFT_ASSIGN, TOK_RSHIFT, TOK_GTE, TOK_GT, TOK_LOGIC_AND, TOK_AMP_ASSIGN, TOK_AMP,
      TOK_LOGIC_OR, TOK_PIPE_ASSIGN, TOK_PIPE, TOK_CARET_ASSIGN, TOK_CARET, TOK_TILDE_AMP,
      TOK_TILDE_CARET, TOK_TILDE, TOK_DOLLAR_LBRACE, TOK_UNDERSCORE, TOK_EOF,
      TOK_INT_LIT, TOK_FLOAT_LIT, TOK_CHAR_LIT, TOK_STRING_LIT, TOK_TEMPLATE_END,
      TOK_TEMPLATE_FULL]"
  by (simp add: plain_type_def opens_interpolation_def)

lemmas plain_types [simp] = plain_types_list [simplified]

lemma check_keyword_range:
  "check_keyword lexeme \<in> insert TOK_IDENTIFIER (snd ` set keyword_table)"
  by (auto simp: check_keyword_map_of dest: map_of_SomeD split: option.split)
    (metis image_eqI map_of_SomeD snd_conv)

lemma plain_keyword: "plain_type (check_keyword lexeme)"
proof -
  have "list_all plain_type (TOK_IDENTIFIER # map snd keyword_table)"
    by (simp add: keyword_table_def plain_type_def opens_interpolation_def)
  then show ?thesis
    using check_keyword_range [of lexeme] by (auto simp: list_all_iff)
qed

lemma scan_identifier_scanned:
  "start \<le> tk_current t \<Longrightarrow>
   scanned t start line col (tokenizer_scan_identifier t start line col)"
  by (auto simp: tokenizer_scan_identifier_def Let_def plain_keyword intro!: scan_intros)

lemma match_char_moves:
  "match_char t c = (b, t') \<Longrightarrow> moves t t' \<and> same_template t t'"
  by (auto simp: match_char_def split: if_splits intro!: scan_intros)

lemma match_table_scanned:
  assumes "start \<le> tk_current t" and "list_all (\<lambda>(c, type). plain_type type) table"
    and "plain_type otherwise"
  shows "scanned t start line col (match_table table otherwise t start line col)"
  using assms(2)
proof (induction table)
  case Nil
  then show ?case
    using assms by (auto intro!: scan_intros)
next
  case (Cons entry table)
  obtain c type where entry: "entry = (c, type)"
    by (cases entry)
  show ?case
    using Cons assms match_char_moves [of t c]
    by (auto simp: entry split: prod.split bool.split intro!: scanned_plain)
qed

lemma open_brace_moves [simp]: "moves t (open_brace u) \<longleftrightarrow> moves t u"
  by (simp add: open_brace_def)

lemma close_brace_moves [simp]: "moves t (close_brace u) \<longleftrightarrow> moves t u"
  by (simp add: close_brace_def)

lemma scanned_if:
  "(b \<Longrightarrow> scanned t start line col x) \<Longrightarrow> (\<not> b \<Longrightarrow> scanned t start line col y) \<Longrightarrow>
   scanned t start line col (if b then x else y)"
  by simp

lemma scan_punctuation_scanned:
  assumes "start \<le> tk_current t"
  shows "scanned t start line col (tokenizer_scan_punctuation t c start line col)"
proof -
  have shift: "scanned t start line col
      (case match_char t d of
         (True, t') \<Rightarrow> match_table [(e, type1)] type2 t' start line col
       | (False, _) \<Rightarrow> match_table [(f, type3)] type4 t start line col)"
    if "plain_type type1" "plain_type type2" "plain_type type3" "plain_type type4"
    for d e f type1 type2 type3 type4
  proof (cases "match_char t d")
    case (Pair b t')
    then have "moves t t'" and "start \<le> tk_current t'"
      using match_char_moves [of t d] assms moves_current le_trans by blast+
    with Pair that assms show ?thesis
      using scanned_from [of t t' start line col, OF _ match_table_scanned]
      by (cases b) (auto intro!: match_table_scanned simp del: match_table.simps)
  qed
  have dollar: "scanned t start line col
      (case match_char t d of
         (True, t') \<Rightarrow> (make_token t' TOK_DOLLAR_LBRACE start line col, t')
       | (False, _) \<Rightarrow> (error_token msg line col, t))" for d msg
    using assms match_char_moves [of t d]
    by (auto split: prod.split bool.split intro!: scanned_plain scanned_error)
  have ellipsis: "moves t (advance (advance t))" if "peek t = d \<and> peek_next t = d" "d \<noteq> NUL" for d
    using that by (auto intro!: scan_intros)
  have template: "scanned t start line col
      (tokenizer_scan_template_body t start line col TOK_TEMPLATE_START TOK_TEMPLATE_FULL)"
    using assms by (intro scan_template_scanned) (simp_all add: opens_interpolation_def)
  show ?thesis
    unfolding tokenizer_scan_punctuation_def Let_def
    by (intro scanned_if shift dollar template scan_char_scanned scan_string_scanned
        match_table_scanned scanned_plain scanned_error)
      (use assms ellipsis in \<open>simp_all del: match_table.simps\<close>)
qed

section \<open>The contract of the tokenizer\<close>

text \<open>
  One call of \<open>tokenizer_next\<close>: the token starts where the whitespace ends, carries the
  line and column of that place, and spans the text up to the offset of the next call;
  only the end-of-file token leaves the offset where the whitespace ended.
\<close>

lemma scanned_unbrace:
  "scanned (u\<lparr>tk_template_depth := d\<rparr>) start line col r \<Longrightarrow> scanned u start line col r"
  by (simp add: scanned_def)

lemma tokenizer_next_scanned:
  fixes t
  defines "u \<equiv> skip_whitespace t"
  shows "scanned u (tk_current u) (tk_line u) (tk_column u) (tokenizer_next t) \<and>
    (tok_type (fst (tokenizer_next t)) \<noteq> TOK_EOF \<longrightarrow>
       tk_current u < tk_current (snd (tokenizer_next t)))"
proof -
  let ?s = "tk_current u" and ?l = "tk_line u" and ?c = "tk_column u"
  let ?v = "(advance u)\<lparr>tk_template_depth := tk_template_depth (advance u) - 1\<rparr>"
  note next_def = tokenizer_next_def [of t, folded u_def]
  have past: "scanned u ?s ?l ?c r \<and> ?s < tk_current (snd r)"
    if "\<not> is_at_end u" "scanned (advance u) ?s ?l ?c r" for r
    using that moves_current [of "advance u" "snd r"] scanned_from [OF moves_advance]
    by (auto simp: scanned_def)
  have "\<not> is_at_end u" if "peek u = CHR ''}''"
    using that by simp
  then consider
      (brace) "tk_template_depth u > 0 \<and> tk_brace_depth u ! (tk_template_depth u - 1) = 0
        \<and> peek u = CHR ''}''"
    | (stop) "is_at_end u" "peek u \<noteq> CHR ''}''"
    | (other) "\<not> is_at_end u" "\<not> (tk_template_depth u > 0
        \<and> tk_brace_depth u ! (tk_template_depth u - 1) = 0 \<and> peek u = CHR ''}'')"
    by blast
  then show ?thesis
  proof cases
    case brace
    let ?r = "tokenizer_scan_template_body ?v ?s ?l ?c TOK_TEMPLATE_MIDDLE TOK_TEMPLATE_END"
    have "tokenizer_next t = ?r"
      using brace by (simp add: next_def Let_def)
    moreover have "scanned ?v ?s ?l ?c ?r"
      by (intro scan_template_scanned) (simp_all add: opens_interpolation_def)
    then have "scanned (advance u) ?s ?l ?c ?r"
      by (rule scanned_unbrace)
    ultimately show ?thesis
      using brace past by simp
  next
    case stop
    then show ?thesis
      by (simp add: next_def Let_def scanned_make_token) (simp add: make_token_def)
  next
    case other
    have "scanned (advance u) ?s ?l ?c (tokenizer_next t)"
      using other
      by (auto simp: next_def Let_def intro: scan_identifier_scanned scan_number_scanned
          scan_punctuation_scanned)
    with other past show ?thesis
      by blast
  qed
qed

lemma tokenizer_next_moves: "moves t (snd (tokenizer_next t))"
  using tokenizer_next_scanned [of t] skip_whitespace_moves [of t] moves_trans
  by (auto simp: scanned_def)

lemma tokenizer_next_progress:
  assumes "tok_type (fst (tokenizer_next t)) \<noteq> TOK_EOF"
  shows "tk_current t < tk_current (snd (tokenizer_next t))"
  using assms tokenizer_next_scanned [of t] moves_current skip_whitespace_moves [of t]
  by (meson le_less_trans)

end
