(* ===== verification/TokenizerLaws.thy ===== *)
theory TokenizerLaws
  imports Tokenizer "HOL-Library.Sublist"
begin

text \<open>
  Laws of the tokenizer: the text it skips is blank, identifiers and operators are scanned
  by maximal munch, positions are exact, and the nesting depth of template literals follows
  the template tokens and never exceeds the capacity of the brace-depth array.
\<close>

section \<open>Scanning loops and the remaining input\<close>

definition rest :: "Tokenizer \<Rightarrow> string" where
  "rest t = drop (tk_current t) (tk_source t)"

text \<open>The part of a string before its terminator.\<close>

definition c_str :: "string \<Rightarrow> string" where
  "c_str s = takeWhile (\<lambda>c. c \<noteq> NUL) s"

lemma rest_not_end: "\<not> is_at_end t \<Longrightarrow> rest t = peek t # rest (advance t)"
  unfolding rest_def peek_def advance_fields
  by (drule not_at_end_less) (simp only: char_at_nth Cons_nth_drop_Suc)

lemma rest_at_end: "is_at_end t \<Longrightarrow> rest t = [] \<or> hd (rest t) = NUL"
  by (cases "tk_current t < length (tk_source t)")
    (simp_all add: is_at_end_def peek_def char_at_nth rest_def hd_drop_conv_nth)


lemma advance_while_munch:
  "\<not> p NUL \<Longrightarrow>
   tk_current (advance_while p t) = tk_current t + length (takeWhile p (rest t)) \<and>
   tk_source (advance_while p t) = tk_source t"
proof (induction p t rule: advance_while.induct)
  case (1 p t)
  consider "\<not> is_at_end t" "p (peek t)" | "\<not> is_at_end t" "\<not> p (peek t)" | "is_at_end t"
    by blast
  then show ?case
  proof cases
    case 1
    then show ?thesis
      using "1.IH" "1.prems" by (simp add: advance_while.simps [of p t] rest_not_end [of t])
  next
    case 2
    then show ?thesis
      by (simp add: advance_while.simps [of p t] rest_not_end [of t])
  next
    case 3
    then have "takeWhile p (rest t) = []"
      using rest_at_end [of t] "1.prems" by (cases "rest t") auto
    with 3 show ?thesis
      by (simp add: advance_while.simps [of p t])
  qed
qed

lemma slice_takeWhile: "slice s k (length (takeWhile p (drop k s))) = takeWhile p (drop k s)"
  by (simp add: slice_def takeWhile_eq_take [symmetric])

section \<open>Identifiers and keywords\<close>

lemma ident_char_NUL [simp]: "\<not> ident_char NUL"
  by (simp add: ident_char_def)

text \<open>The lexeme that starts at the current offset: the longest run of identifier characters.\<close>

definition identifier_lexeme :: "Tokenizer \<Rightarrow> string" where
  "identifier_lexeme t = takeWhile ident_char (rest t)"

lemma scan_identifier_munch:
  assumes "\<not> is_at_end t" and "ident_char (peek t)"
  shows "tokenizer_scan_identifier (advance t) (tk_current t) line col =
    (\<lparr>tok_type = (if identifier_lexeme t = ''_'' then TOK_UNDERSCORE
                  else check_keyword (identifier_lexeme t)),
       tok_start = Src (tk_current t), tok_length = length (identifier_lexeme t),
       tok_line = line, tok_column = col\<rparr>,
     advance_while ident_char (advance t))"
proof -
  let ?u = "advance_while ident_char (advance t)"
  have lexeme: "identifier_lexeme t = peek t # takeWhile ident_char (rest (advance t))"
    using assms by (simp add: identifier_lexeme_def rest_not_end [of t])
  then have stop: "tk_current ?u - tk_current t = length (identifier_lexeme t)"
    by (simp add: advance_while_munch)
  have "slice (tk_source t) (tk_current t) (length (identifier_lexeme t)) = identifier_lexeme t"
    by (simp add: identifier_lexeme_def rest_def slice_takeWhile)
  moreover have "(length (identifier_lexeme t) = 1 \<and> peek t = CHR ''_'') =
      (identifier_lexeme t = ''_'')"
    by (cases "takeWhile ident_char (rest (advance t))") (simp_all add: lexeme)
  ultimately show ?thesis
    unfolding tokenizer_scan_identifier_def Let_def make_token_def stop
    by (simp add: advance_while_munch flip: peek_def)
qed

section \<open>Operators\<close>

text \<open>
  The operators and punctuators of the language by decreasing length, with their token
  types.  \<open>munch\<close> is the reference scanner: the first, hence longest, spelling the input
  starts with.  A lone \<open>$\<close> and the characters that open literals are not in the table.
\<close>

definition punctuators :: "(string \<times> TokenType) list" where
  "punctuators =
    [(''<<='', TOK_LSHIFT_ASSIGN), (''>>='', TOK_RSHIFT_ASSIGN), (''...'', TOK_ELLIPSIS),
     (''->'', TOK_ARROW), (''--'', TOK_MINUS_MINUS), (''-='', TOK_MINUS_ASSIGN),
     (''++'', TOK_PLUS_PLUS), (''+='', TOK_PLUS_ASSIGN), (''*='', TOK_STAR_ASSIGN),
     (''/='', TOK_SLASH_ASSIGN), (''%='', TOK_PERCENT_ASSIGN), (''=='', TOK_EQ),
     (''!='', TOK_NEQ), (''<<'', TOK_LSHIFT), (''<='', TOK_LTE), (''>>'', TOK_RSHIFT),
     (''>='', TOK_GTE), (''&&'', TOK_LOGIC_AND), (''&='', TOK_AMP_ASSIGN),
     (''||'', TOK_LOGIC_OR), (''|='', TOK_PIPE_ASSIGN), (''^='', TOK_CARET_ASSIGN),
     (''~&'', TOK_TILDE_AMP), (''~^'', TOK_TILDE_CARET), (''${'', TOK_DOLLAR_LBRACE),
     (''('', TOK_LPAREN), ('')'', TOK_RPAREN), (''{'', TOK_LBRACE), (''}'', TOK_RBRACE),
     (''['', TOK_LBRACKET), ('']'', TOK_RBRACKET), ('';'', TOK_SEMICOLON),
     ('','', TOK_COMMA), (''.'', TOK_DOT), (''?'', TOK_QUESTION), ('':'', TOK_COLON),
     (''-'', TOK_MINUS), (''+'', TOK_PLUS), (''*'', TOK_STAR), (''/'', TOK_SLASH),
     (''%'', TOK_PERCENT), (''='', TOK_ASSIGN), (''!'', TOK_BANG), (''<'', TOK_LT),
     (''>'', TOK_GT), (''&'', TOK_AMP), (''|'', TOK_PIPE), (''^'', TOK_CARET),
     (''~'', TOK_TILDE)]"

definition munch :: "string \<Rightarrow> (string \<times> TokenType) option" where
  "munch input = find (\<lambda>(spelling, type). prefix spelling input) punctuators"

definition opens_literal :: "char \<Rightarrow> bool" where
  "opens_literal c \<longleftrightarrow> c = CHR 0x27 \<or> c = CHR 0x22 \<or> c = CHR 0x60"

lemma punctuators_by_length:
  "sorted_wrt (\<lambda>a b. length (fst b) \<le> length (fst a)) punctuators"
proof -
  have "transp (\<lambda>a b :: string \<times> TokenType. length (fst b) \<le> length (fst a))"
    by (auto intro: transpI)
  then show ?thesis
    by (simp add: punctuators_def sorted_wrt2 del: sorted_wrt.simps(2)) (simp add: sorted_wrt1)
qed

lemma distinct_punctuators: "distinct (map fst punctuators) \<and> distinct (map snd punctuators)"
  by (simp add: punctuators_def)

lemma find_sorted_longest:
  assumes "sorted_wrt (\<lambda>a b. length (fst b) \<le> length (fst a)) table"
    and "find (\<lambda>(w, type). prefix w input) table = Some (w, type)"
  shows "(w, type) \<in> set table \<and> prefix w input \<and>
    (\<forall>(w', type') \<in> set table. prefix w' input \<longrightarrow> length w' \<le> length w)"
  using assms by (induction table) (auto split: if_splits prod.splits)

lemma munch_longest:
  "munch input = Some (w, type) \<Longrightarrow>
   (w, type) \<in> set punctuators \<and> prefix w input \<and>
   (\<forall>(w', type') \<in> set punctuators. prefix w' input \<longrightarrow> length w' \<le> length w)"
  unfolding munch_def using find_sorted_longest [OF punctuators_by_length] by blast

text \<open>The next character of the input, or the terminator.\<close>

definition next_char :: "string \<Rightarrow> char" where
  "next_char s = char_at s 0"

lemma peek_next_char: "peek t = next_char (rest t)"
  by (simp add: peek_def next_char_def rest_def char_at_def)

lemma peek_advance_next_char: "peek (advance t) = next_char (tl (rest t))"
  by (simp add: peek_next_char rest_def drop_Suc tl_drop)

lemma prefix_Cons_next:
  "c \<noteq> NUL \<Longrightarrow> prefix (c # w) s \<longleftrightarrow> next_char s = c \<and> prefix w (tl s)"
  by (cases s) (auto simp: next_char_def char_at_def)

text \<open>The token the punctuation scanner returns for a spelling of the table.\<close>

definition punct_token :: "(string \<times> TokenType) option \<Rightarrow> Token \<Rightarrow> bool" where
  "punct_token m tok \<longleftrightarrow>
     (case m of None \<Rightarrow> tok_type tok = TOK_ERROR
      | Some (spelling, type) \<Rightarrow> tok_type tok = type \<and> tok_length tok = length spelling)"

lemma punct_token_simps [simp]:
  "punct_token None (error_token msg line col)"
  "punct_token (Some (w, type)) (make_token t type' start line col) \<longleftrightarrow>
     type' = type \<and> tk_current t - start = length w"
  by (auto simp: punct_token_def error_token_def make_token_def)

lemma find_filter:
  "(\<And>x. P x \<Longrightarrow> Q x) \<Longrightarrow> find P (filter Q xs) = find P xs"
  by (induction xs) auto

text \<open>Only the entries with the first character of the input matter.\<close>

lemma punctuators_not_empty: "list_all (\<lambda>(w, type). w \<noteq> []) punctuators"
  by (simp add: punctuators_def)

lemma munch_Cons:
  "munch (c # r) =
     find (\<lambda>(w, type). prefix (tl w) r) (filter (\<lambda>(w, type). hd w = c) punctuators)"
proof -
  have "find (\<lambda>(w, type). prefix (tl w) r) (filter (\<lambda>(w, type). hd w = c) table) =
      find (\<lambda>(w, type). prefix w (c # r)) table"
    if "list_all (\<lambda>(w :: string, type :: TokenType). w \<noteq> []) table" for table
    using that by (induction table) (auto simp: neq_Nil_conv)
  then show ?thesis
    using punctuators_not_empty by (simp add: munch_def)
qed

definition punctuator_heads :: string where
  "punctuator_heads = ''.-+*/%=!<>&|^~$(){}[];,?:''"

lemma punctuator_heads_cover: "list_all (\<lambda>(w, type). hd w \<in> set punctuator_heads) punctuators"
  by (simp add: punctuators_def punctuator_heads_def)

lemma munch_other: "c \<notin> set punctuator_heads \<Longrightarrow> munch (c # r) = None"
  unfolding munch_Cons find_None_iff
  using punctuator_heads_cover by (auto simp: list_all_iff)

lemma scan_punctuation_heads:
  "c \<notin> set punctuator_heads \<Longrightarrow> \<not> opens_literal c \<Longrightarrow>
   tokenizer_scan_punctuation t c start line col =
     (error_token ''Unexpected character'' line col, t)"
  by (simp add: tokenizer_scan_punctuation_def opens_literal_def punctuator_heads_def Let_def)

lemma peek_next_peek: "peek_next t = (if is_at_end t then NUL else peek (advance t))"
  by (simp add: peek_next_def peek_def)

lemma match_char_fields:
  "match_char t d = (if \<not> is_at_end t \<and> peek t = d then (True, advance t) else (False, t))"
  by (simp add: match_char_def)

lemma brace_current [simp]:
  "tk_current (open_brace t) = tk_current t" "tk_current (close_brace t) = tk_current t"
  by (simp_all add: open_brace_def close_brace_def)

lemma punctuation_munch:
  assumes "\<not> is_at_end t" and "\<not> opens_literal (peek t)"
  shows "punct_token (munch (rest t))
    (fst (tokenizer_scan_punctuation (advance t) (peek t) (tk_current t) line col))"
proof (cases "peek t \<in> set punctuator_heads")
  case False
  with assms show ?thesis
    by (simp add: rest_not_end munch_other scan_punctuation_heads)
next
  case True
  define u where "u = advance t"
  define r where "r = rest u"
  have look: "peek u = next_char r" "peek (advance u) = next_char (tl r)"
      "peek_next u = (if next_char r = NUL then NUL else next_char (tl r))"
      "is_at_end u \<longleftrightarrow> next_char r = NUL" "is_at_end (advance u) \<longleftrightarrow> next_char (tl r) = NUL"
      "tk_current u = Suc (tk_current t)"
    using peek_next_char [of u] peek_advance_next_char [of u]
    by (simp_all add: r_def peek_next_peek is_at_end_def u_def)
  from True show ?thesis
    unfolding rest_not_end [OF assms(1)] u_def [symmetric] r_def [symmetric] punctuator_heads_def
      list.set insert_iff empty_iff simp_thms
    by (elim disjE; simp only: munch_Cons)
      (simp_all add: punctuators_def tokenizer_scan_punctuation_def Let_def match_char_fields
        look prefix_Cons_next)
qed

section \<open>Template nesting\<close>

text \<open>
  The depth and the array of brace counters stay within the capacity of the array, and
  each token changes the depth by a fixed amount: a template start enters an
  interpolation, a template end leaves one, a middle part leaves one and enters the next.
\<close>

definition template_ok :: "Tokenizer \<Rightarrow> bool" where
  "template_ok t \<longleftrightarrow>
     tk_template_depth t \<le> TOKENIZER_MAX_TEMPLATE_DEPTH \<and>
     length (tk_brace_depth t) = TOKENIZER_MAX_TEMPLATE_DEPTH"

definition depth_change :: "TokenType \<Rightarrow> int" where
  "depth_change type =
     (if type = TOK_TEMPLATE_START then 1 else if type = TOK_TEMPLATE_END then -1 else 0)"

definition flat :: "Tokenizer \<Rightarrow> Token \<times> Tokenizer \<Rightarrow> bool" where
  "flat t r \<longleftrightarrow>
     (template_ok t \<longrightarrow> template_ok (snd r)) \<and>
     tk_template_depth (snd r) = tk_template_depth t \<and>
     tok_type (fst r) \<notin> {TOK_TEMPLATE_START, TOK_TEMPLATE_MIDDLE, TOK_TEMPLATE_END, TOK_EOF}"

lemma template_ok_same: "same_template t t' \<Longrightarrow> template_ok t' = template_ok t"
  by (simp add: same_template_def template_ok_def)

lemma flat_error: "same_template t t' \<Longrightarrow> flat t (error_token msg line col, t')"
  by (simp add: flat_def error_token_def template_ok_same) (simp add: same_template_def)

lemma flat_make_token:
  "same_template t t' \<Longrightarrow>
   type \<notin> {TOK_TEMPLATE_START, TOK_TEMPLATE_MIDDLE, TOK_TEMPLATE_END, TOK_EOF} \<Longrightarrow>
   flat t (make_token t' type start line col, t')"
  by (simp add: flat_def make_token_def template_ok_same) (simp add: same_template_def)

lemma flat_if:
  "(b \<Longrightarrow> flat t x) \<Longrightarrow> (\<not> b \<Longrightarrow> flat t y) \<Longrightarrow> flat t (if b then x else y)"
  by simp

lemma flat_same: "same_template t u \<Longrightarrow> flat u r \<Longrightarrow> flat t r"
  by (auto simp: flat_def template_ok_same) (auto simp: same_template_def)

lemma scan_identifier_flat: "flat t (tokenizer_scan_identifier t start line col)"
proof -
  have "list_all (\<lambda>type. type \<notin> {TOK_TEMPLATE_START, TOK_TEMPLATE_MIDDLE, TOK_TEMPLATE_END, TOK_EOF})
      (TOK_IDENTIFIER # map snd keyword_table)"
    by (simp add: keyword_table_def)
  then have "check_keyword w \<notin> {TOK_TEMPLATE_START, TOK_TEMPLATE_MIDDLE, TOK_TEMPLATE_END, TOK_EOF}" for w
    using check_keyword_range [of w] unfolding list_all_iff by auto
  then show ?thesis
    by (simp add: tokenizer_scan_identifier_def Let_def flat_make_token)
qed

lemma scan_prefixed_flat: "flat t (scan_prefixed digit msg t start line col)"
  by (auto simp: scan_prefixed_def Let_def intro!: flat_error flat_make_token)

lemma scan_exponent_flat: "flat t (scan_exponent is_float t start line col)"
  unfolding scan_exponent_def Let_def
  by (intro flat_if flat_error flat_make_token) simp_all

lemma scan_number_flat: "flat t (tokenizer_scan_number t start line col)"
proof -
  obtain f u where u: "scan_fraction (advance_while isdigit t) = (f, u)"
    by (cases "scan_fraction (advance_while isdigit t)")
  then have "same_template t u"
    using scan_fraction_moves [of "advance_while isdigit t"]
      same_template_trans [of t "advance_while isdigit t" u] by simp
  then show ?thesis
    unfolding tokenizer_scan_number_def u prod.case
    by (intro flat_if scan_prefixed_flat flat_same [OF _ scan_exponent_flat])
qed

lemma scan_char_flat: "flat t (tokenizer_scan_char t start line col)"
  by (auto simp: tokenizer_scan_char_def Let_def intro!: flat_error flat_make_token)

lemma scan_string_flat: "flat t (tokenizer_scan_string t start line col)"
  using string_loop_moves [of t]
  by (auto simp: tokenizer_scan_string_def Let_def split: prod.split option.split
      intro!: flat_error flat_make_token)

lemma match_table_flat:
  "list_all (\<lambda>type. type \<notin> {TOK_TEMPLATE_START, TOK_TEMPLATE_MIDDLE, TOK_TEMPLATE_END, TOK_EOF})
     (otherwise # map snd table) \<Longrightarrow>
   flat t (match_table table otherwise t start line col)"
proof (induction table)
  case (Cons entry table)
  then show ?case
    by (cases entry) (auto simp: match_char_fields intro!: flat_make_token)
qed (simp add: flat_make_token)

text \<open>Scanning a template body opens an interpolation exactly when it returns \<open>on_interp\<close>.\<close>

definition nests :: "TokenType \<Rightarrow> TokenType \<Rightarrow> Tokenizer \<Rightarrow> Token \<times> Tokenizer \<Rightarrow> bool" where
  "nests on_interp on_end t r \<longleftrightarrow>
     template_ok (snd r) \<and> tok_type (fst r) \<in> {on_interp, on_end, TOK_ERROR} \<and>
     tk_template_depth (snd r) =
       (if tok_type (fst r) = on_interp then Suc (tk_template_depth t) else tk_template_depth t)"

lemma scan_template_nests:
  "template_ok t \<Longrightarrow> on_interp \<noteq> TOK_ERROR \<Longrightarrow> on_end \<noteq> on_interp \<Longrightarrow>
   nests on_interp on_end t (tokenizer_scan_template_body t start line col on_interp on_end)"
proof (induction t start line col on_interp on_end rule: tokenizer_scan_template_body.induct)
  case (1 t start line col on_interp on_end)
  note simps = tokenizer_scan_template_body.simps [of t]
  let ?e = "snd (scan_escape (advance t))"
  have esc: "template_ok ?e" "tk_template_depth ?e = tk_template_depth t"
    using same_template_scan_escape [of t "advance t"] template_ok_same [of t ?e] "1.prems"(1)
    by (auto simp: same_template_def)
  have adv: "template_ok (advance t)"
    using template_ok_same [of t "advance t"] "1.prems"(1) by simp
  consider "is_at_end t"
    | "\<not> is_at_end t" "peek t = CHR 0x5C" "\<not> fst (scan_escape (advance t))"
    | "\<not> is_at_end t" "peek t = CHR 0x5C" "fst (scan_escape (advance t))"
    | "\<not> is_at_end t" "peek t = CHR ''$''" "peek_next t = CHR ''{''"
    | "\<not> is_at_end t" "peek t = CHR 0x60"
    | "\<not> is_at_end t" "peek t \<notin> {CHR 0x5C, CHR 0x60}" "\<not> (peek t = CHR ''$'' \<and> peek_next t = CHR ''{'')"
    by blast
  then show ?case
  proof cases
    case 3
    then show ?thesis
      using 1 esc by (simp add: simps nests_def)
  next
    case 4
    then show ?thesis
      using 1 by (auto simp: simps Let_def make_token_def error_token_def template_ok_def nests_def)
  next
    case 6
    then show ?thesis
      using 1 adv by (auto simp: simps nests_def)
  qed (use 1 esc adv in \<open>auto simp: simps Let_def make_token_def error_token_def nests_def\<close>)
qed

text \<open>A token other than an error changes the depth by the amount of its type.\<close>

definition tracks_depth :: "Tokenizer \<Rightarrow> Token \<times> Tokenizer \<Rightarrow> bool" where
  "tracks_depth t r \<longleftrightarrow>
     template_ok (snd r) \<and>
     (if tok_type (fst r) = TOK_ERROR
      then tk_template_depth (snd r) \<in> {tk_template_depth t, tk_template_depth t - 1}
      else int (tk_template_depth (snd r)) =
             int (tk_template_depth t) + depth_change (tok_type (fst r)))"

lemma flat_tracks: "template_ok t \<Longrightarrow> flat t r \<Longrightarrow> tracks_depth t r"
  by (auto simp: flat_def tracks_depth_def depth_change_def)

lemma flat_match_char:
  "(\<And>u. same_template t u \<Longrightarrow> flat t (f u)) \<Longrightarrow> flat t g \<Longrightarrow>
   flat t (case match_char t d of (True, u) \<Rightarrow> f u | (False, _) \<Rightarrow> g)"
  by (simp add: match_char_fields)

lemma flat_brace:
  "flat t (make_token (open_brace t) TOK_LBRACE start line col, open_brace t)"
  "flat t (make_token (close_brace t) TOK_RBRACE start line col, close_brace t)"
  by (simp_all add: flat_def make_token_def open_brace_def close_brace_def template_ok_def)

lemma scan_punctuation_flat:
  "c \<noteq> CHR 0x60 \<Longrightarrow> flat t (tokenizer_scan_punctuation t c start line col)"
  unfolding tokenizer_scan_punctuation_def Let_def
  by (intro flat_if flat_match_char flat_brace scan_char_flat scan_string_flat match_table_flat
      flat_make_token flat_error flat_same [OF _ match_table_flat]) simp_all

lemma scan_punctuation_tracks:
  assumes "template_ok t"
  shows "tracks_depth t (tokenizer_scan_punctuation t c start line col)"
proof (cases "c = CHR 0x60")
  case True
  then show ?thesis
    using scan_template_nests [OF assms, of TOK_TEMPLATE_START TOK_TEMPLATE_FULL start line col]
    by (auto simp: tokenizer_scan_punctuation_def Let_def nests_def tracks_depth_def
        depth_change_def)
qed (rule flat_tracks [OF assms scan_punctuation_flat])

lemma skip_whitespace_template: "same_template t (skip_whitespace t)"
  using skip_whitespace_moves by blast

lemma tracks_same: "same_template t u \<Longrightarrow> tracks_depth t r = tracks_depth u r"
  by (simp add: tracks_depth_def same_template_def)

lemma tokenizer_next_tracks:
  assumes "template_ok t"
  shows "tracks_depth t (tokenizer_next t)"
proof -
  define u where "u = skip_whitespace t"
  let ?s = "tk_current u" and ?l = "tk_line u" and ?c = "tk_column u"
  define v where "v = (advance u)\<lparr>tk_template_depth := tk_template_depth (advance u) - 1\<rparr>"
  have same: "same_template t u" "same_template t (advance u)"
    by (simp_all add: u_def skip_whitespace_template)
  then have ok: "template_ok u" "template_ok (advance u)" "template_ok v"
    using assms template_ok_same [OF same(1)] template_ok_same [OF same(2)]
    by (auto simp: v_def template_ok_def)
  note next_def = tokenizer_next_def [of t, folded u_def]
  show ?thesis
  proof (cases "tk_template_depth u > 0 \<and> tk_brace_depth u ! (tk_template_depth u - 1) = 0
      \<and> peek u = CHR ''}''")
    case True
    then have "tokenizer_next t =
        tokenizer_scan_template_body v ?s ?l ?c TOK_TEMPLATE_MIDDLE TOK_TEMPLATE_END"
      by (simp add: next_def Let_def v_def)
    moreover have "tk_template_depth v = tk_template_depth t - 1" "tk_template_depth t > 0"
      using True same by (simp_all add: v_def same_template_def)
    ultimately show ?thesis
      using scan_template_nests [OF ok(3), of TOK_TEMPLATE_MIDDLE TOK_TEMPLATE_END ?s ?l ?c]
      by (auto simp: nests_def tracks_depth_def depth_change_def)
  next
    case False
    have "tracks_depth t (tokenizer_scan_identifier (advance u) ?s ?l ?c)"
      "tracks_depth t (tokenizer_scan_number (advance u) ?s ?l ?c)"
      "tracks_depth t (tokenizer_scan_punctuation (advance u) (peek u) ?s ?l ?c)"
      unfolding tracks_same [OF same(2)]
      using ok(2) by (simp_all add: flat_tracks scan_identifier_flat scan_number_flat
          scan_punctuation_tracks)
    moreover have "tracks_depth t (make_token u TOK_EOF ?s ?l ?c, u)"
      unfolding tracks_same [OF same(1)] using ok(1) by (simp add: tracks_depth_def depth_change_def make_token_def)
    ultimately show ?thesis
      using False unfolding next_def Let_def if_not_P [OF False] by simp
  qed
qed

lemma scan_punctuation_not_eof:
  "template_ok t \<Longrightarrow> tok_type (fst (tokenizer_scan_punctuation t c start line col)) \<noteq> TOK_EOF"
  using scan_punctuation_flat [of c t start line col]
    scan_template_nests [of t TOK_TEMPLATE_START TOK_TEMPLATE_FULL start line col]
  by (cases "c = CHR 0x60")
    (auto simp: flat_def nests_def, auto simp: tokenizer_scan_punctuation_def Let_def)

lemma tokenizer_next_eof:
  assumes "template_ok t"
  shows "tok_type (fst (tokenizer_next t)) = TOK_EOF \<longleftrightarrow> is_at_end (skip_whitespace t)"
proof -
  define u where "u = skip_whitespace t"
  let ?s = "tk_current u" and ?l = "tk_line u" and ?c = "tk_column u"
  define v where "v = (advance u)\<lparr>tk_template_depth := tk_template_depth (advance u) - 1\<rparr>"
  have same: "same_template t u" "same_template t (advance u)"
    by (simp_all add: u_def skip_whitespace_template)
  then have ok: "template_ok (advance u)" "template_ok v"
    using assms template_ok_same [OF same(1)] template_ok_same [OF same(2)]
    by (auto simp: v_def template_ok_def)
  note next_def = tokenizer_next_def [of t, folded u_def]
  show ?thesis
  proof (cases "tk_template_depth u > 0 \<and> tk_brace_depth u ! (tk_template_depth u - 1) = 0
      \<and> peek u = CHR ''}''")
    case True
    then have "tokenizer_next t =
        tokenizer_scan_template_body v ?s ?l ?c TOK_TEMPLATE_MIDDLE TOK_TEMPLATE_END"
      by (simp add: next_def Let_def v_def)
    then show ?thesis
      using True scan_template_nests [OF ok(2), of TOK_TEMPLATE_MIDDLE TOK_TEMPLATE_END ?s ?l ?c]
      by (auto simp: nests_def u_def)
  next
    case False
    have "tok_type (fst (tokenizer_scan_identifier (advance u) ?s ?l ?c)) \<noteq> TOK_EOF"
      "tok_type (fst (tokenizer_scan_number (advance u) ?s ?l ?c)) \<noteq> TOK_EOF"
      using scan_identifier_flat [of "advance u" ?s ?l ?c] scan_number_flat [of "advance u" ?s ?l ?c]
      by (simp_all add: flat_def)
    then show ?thesis
      using False scan_punctuation_not_eof [OF ok(1)]
      unfolding next_def Let_def if_not_P [OF False] u_def [symmetric]
      by (simp add: make_token_def)
  qed
qed

section \<open>The skipped text\<close>

text \<open>
  The text between two tokens: white space, line comments up to the end of their line, and
  block comments, which do not nest; only at the end of the input may one be left open.
\<close>

inductive blank :: "string \<Rightarrow> bool" where
  Empty: "blank []"
| White: "c \<in> {CHR '' '', CHR 0x09, CHR 0x0D, newline} \<Longrightarrow> blank s \<Longrightarrow> blank (c # s)"
| Line: "newline \<notin> set body \<Longrightarrow> blank s \<Longrightarrow> blank (''//'' @ body @ s)"
| Block: "\<not> sublist ''*/'' body \<Longrightarrow> blank s \<Longrightarrow> blank (''/*'' @ body @ ''*/'' @ s)"
| Open: "\<not> sublist ''*/'' body \<Longrightarrow> blank (''/*'' @ body)"

definition gap :: "Tokenizer \<Rightarrow> Tokenizer \<Rightarrow> string" where
  "gap t t' = slice (tk_source t) (tk_current t) (tk_current t' - tk_current t)"

lemma gap_trans: "moves t u \<Longrightarrow> moves u v \<Longrightarrow> gap t v = gap t u @ gap u v"
  by (auto simp: gap_def moves_def slice_append dest!: le_Suc_ex)

lemma gap_refl [simp]: "gap t t = []"
  by (simp add: gap_def)

lemma gap_advance [simp]: "\<not> is_at_end t \<Longrightarrow> gap t (advance t) = [peek t]"
  unfolding gap_def peek_def advance_fields
  by (drule not_at_end_less) (simp add: slice_def take_Suc_conv_app_nth char_at_nth hd_drop_conv_nth take_Suc)

lemma gap_Cons: "\<not> is_at_end t \<Longrightarrow> moves (advance t) u \<Longrightarrow> gap t u = peek t # gap (advance t) u"
  using gap_trans [OF moves_advance, of t u] by simp

lemma gap_hd:
  assumes "gap t u = c # cs"
  shows "peek t = c"
proof (cases "rest t")
  case (Cons d ds)
  then show ?thesis
    using assms by (cases "tk_current u - tk_current t")
      (simp_all add: gap_def slice_def rest_def [symmetric] peek_next_char next_char_def char_at_def)
qed (use assms in \<open>simp add: gap_def slice_def rest_def\<close>)

lemma block_comment_gap:
  "\<exists>body. \<not> sublist ''*/'' body \<and>
     (gap t (block_comment_loop t) = body @ ''*/'' \<or>
      gap t (block_comment_loop t) = body \<and> is_at_end (block_comment_loop t))"
proof (induction t rule: block_comment_loop.induct)
  case (1 t)
  note simps = block_comment_loop.simps [of t]
  consider "is_at_end t"
    | "\<not> is_at_end t" "peek t = CHR ''*'' \<and> peek_next t = CHR ''/''"
    | "\<not> is_at_end t" "\<not> (peek t = CHR ''*'' \<and> peek_next t = CHR ''/'')"
    by blast
  then show ?case
  proof cases
    case 1
    then show ?thesis
      by (intro exI [of _ "[]"]) (simp add: simps)
  next
    case 2
    then have "gap t (advance (advance t)) = ''*/''"
      by (subst gap_Cons) (auto intro!: scan_intros)
    with 2 show ?thesis
      by (intro exI [of _ "[]"]) (simp add: simps)
  next
    case 3
    let ?u = "block_comment_loop (advance t)"
    obtain body where body: "\<not> sublist ''*/'' body"
      "gap (advance t) ?u = body @ ''*/'' \<or> gap (advance t) ?u = body \<and> is_at_end ?u"
      using 1 3 by blast
    have step: "gap t ?u = peek t # gap (advance t) ?u" "block_comment_loop t = ?u"
      using 3 gap_Cons [OF _ moves_block_comment_loop] by (auto simp: simps)
    have "peek (advance t) = CHR ''/''" if "prefix ''/'' body"
      using that body(2) by (auto simp: prefix_def intro: gap_hd)
    then have "\<not> sublist ''*/'' (peek t # body)"
      using 3 body(1) by (auto simp: sublist_Cons_right)
    with body step show ?thesis
      by (intro exI [of _ "peek t # body"]) auto
  qed
qed

lemma advance_while_gap: "\<forall>c \<in> set (gap t (advance_while p t)). p c"
proof (induction p t rule: advance_while.induct)
  case (1 p t)
  then show ?case
    by (cases "\<not> is_at_end t \<and> p (peek t)")
      (auto simp: advance_while.simps [of p t] gap_Cons moves_advance_while simp del: is_at_end_def)
qed

lemma line_comment_gap:
  assumes "\<not> is_at_end t" and "peek t = CHR ''/''" and "peek_next t = CHR ''/''"
  shows "\<exists>body. newline \<notin> set body \<and> gap t (advance_while (\<lambda>d. d \<noteq> newline) t) = ''//'' @ body"
proof -
  let ?u = "advance (advance t)" and ?v = "advance_while (\<lambda>d. d \<noteq> newline)"
  have ends: "\<not> is_at_end (advance t)" "?v t = ?v ?u"
    using assms by (simp_all add: advance_while_first)
  have "moves (advance t) (?v ?u)" "moves ?u (?v ?u)"
    using ends(1) by (auto intro: moves_advance_while moves_advance_trans)
  then have "gap t (?v t) = ''//'' @ gap ?u (?v ?u)"
    unfolding ends(2) using assms gap_Cons [OF assms(1)] gap_Cons [OF ends(1)] by simp
  moreover have "newline \<notin> set (gap ?u (?v ?u))"
    using advance_while_gap [of ?u "\<lambda>d. d \<noteq> newline"] by blast
  ultimately show ?thesis
    by blast
qed

lemma blank_step:
  assumes "skip_whitespace_step t = Some u" and "blank s" and "is_at_end u \<longrightarrow> s = []"
  shows "blank (gap t u @ s)"
proof -
  have not_end: "\<not> is_at_end t"
    using assms(1) skip_whitespace_step_progress(1) by blast
  consider "peek t \<in> {CHR '' '', CHR 0x09, CHR 0x0D, newline}" "u = advance t"
    | "peek t = CHR ''/''" "peek_next t = CHR ''/''" "u = advance_while (\<lambda>d. d \<noteq> newline) t"
    | "peek t = CHR ''/''" "peek_next t = CHR ''*''" "u = block_comment_loop (advance (advance t))"
    using assms(1) by (auto simp: skip_whitespace_step_def Let_def split: if_splits)
  then show ?thesis
  proof cases
    case 1
    then show ?thesis
      using not_end assms(2) by (auto intro: blank.White)
  next
    case 2
    then show ?thesis
      using line_comment_gap [OF not_end] blank.Line [OF _ assms(2)] by fastforce
  next
    case 3
    let ?v = "advance (advance t)"
    obtain body where body: "\<not> sublist ''*/'' body"
      "gap ?v u = body @ ''*/'' \<or> gap ?v u = body \<and> is_at_end u"
      using block_comment_gap [of ?v] 3(3) by blast
    have "\<not> is_at_end (advance t)"
      using 3 by simp
    then have "gap t u = ''/*'' @ gap ?v u"
      using 3 not_end moves_advance_trans [OF _ moves_block_comment_loop]
      by (simp add: gap_Cons moves_block_comment_loop)
    then show ?thesis
      using body blank.Block [OF body(1) assms(2)] blank.Open [OF body(1)] assms(3) by auto
  qed
qed

lemma skip_whitespace_at_end: "is_at_end t \<Longrightarrow> skip_whitespace t = t"
  by (simp add: skip_whitespace.simps [of t] skip_whitespace_step_def)

lemma skip_whitespace_blank: "blank (gap t (skip_whitespace t))"
proof (induction t rule: skip_whitespace.induct)
  case (1 t)
  show ?case
  proof (cases "skip_whitespace_step t")
    case None
    then show ?thesis
      by (simp add: skip_whitespace.simps [of t] blank.Empty)
  next
    case (Some u)
    have "gap t (skip_whitespace u) = gap t u @ gap u (skip_whitespace u)"
      using skip_whitespace_step_moves [OF Some] skip_whitespace_moves [of u] by (blast intro: gap_trans)
    then show ?thesis
      using 1 [OF Some] blank_step [OF Some] skip_whitespace_at_end [of u] Some
      by (simp add: skip_whitespace.simps [of t] del: is_at_end_def)
  qed
qed

section \<open>The text between template parts\<close>

text \<open>A template part that opens an interpolation ends before a dollar sign and a brace.\<close>

definition marks :: "Token \<times> Tokenizer \<Rightarrow> bool" where
  "marks r \<longleftrightarrow>
     (opens_interpolation (tok_type (fst r)) \<longrightarrow>
        slice (tk_source (snd r)) (tk_current (snd r) - 2) 2 = ''${'')"

lemma flat_marks: "flat t r \<Longrightarrow> marks r"
  by (auto simp: flat_def marks_def opens_interpolation_def)

lemma slice_two_peeks:
  assumes "peek t = c" and "peek_next t = d" and "d \<noteq> NUL"
  shows "slice (tk_source t) (tk_current t) 2 = [c, d]"
proof -
  have "\<not> is_at_end t" "\<not> is_at_end (advance t)"
    using assms by (auto simp: peek_next_def split: if_splits)
  then have "gap t (advance (advance t)) = [peek t, peek (advance t)]"
    by (simp add: gap_Cons [OF _ moves_advance] del: is_at_end_def peek_advance)
  then show ?thesis
    using assms \<open>\<not> is_at_end t\<close> by (simp add: gap_def numeral_2_eq_2)
qed

lemma scan_template_marks:
  "\<not> opens_interpolation on_end \<Longrightarrow>
   marks (tokenizer_scan_template_body t start line col on_interp on_end)"
proof (induction t start line col on_interp on_end rule: tokenizer_scan_template_body.induct)
  case (1 t start line col on_interp on_end)
  note simps = tokenizer_scan_template_body.simps [of t]
  have error: "\<not> opens_interpolation TOK_ERROR"
    by (simp add: opens_interpolation_def)
  consider "is_at_end t"
    | "\<not> is_at_end t" "peek t = CHR 0x5C" "\<not> fst (scan_escape (advance t))"
    | "\<not> is_at_end t" "peek t = CHR 0x5C" "fst (scan_escape (advance t))"
    | "\<not> is_at_end t" "peek t = CHR ''$''" "peek_next t = CHR ''{''"
    | "\<not> is_at_end t" "peek t = CHR 0x60"
    | "\<not> is_at_end t" "peek t \<notin> {CHR 0x5C, CHR 0x60}" "\<not> (peek t = CHR ''$'' \<and> peek_next t = CHR ''{'')"
    by blast
  then show ?case
  proof cases
    case 3
    then show ?thesis
      using 1 by (simp add: simps)
  next
    case 4
    then show ?thesis
      using error slice_two_peeks [of t]
      by (auto simp: simps Let_def marks_def make_token_def error_token_def)
  next
    case 6
    then show ?thesis
      using 1 by (auto simp: simps)
  qed (use 1 error in \<open>auto simp: simps Let_def make_token_def error_token_def marks_def\<close>)
qed

lemma scan_punctuation_marks: "marks (tokenizer_scan_punctuation t c start line col)"
proof (cases "c = CHR 0x60")
  case True
  then show ?thesis
    by (simp add: tokenizer_scan_punctuation_def Let_def scan_template_marks)
qed (rule flat_marks [OF scan_punctuation_flat])

lemma tokenizer_next_marks: "marks (tokenizer_next t)"
proof -
  have "marks (make_token u TOK_EOF start line col, v)" for u v start line col
    by (simp add: marks_def make_token_def)
  then show ?thesis
    unfolding tokenizer_next_def Let_def
    by (auto simp: scan_template_marks flat_marks [OF scan_identifier_flat]
        flat_marks [OF scan_number_flat] scan_punctuation_marks)
qed

section \<open>Properties of one call of the tokenizer\<close>

lemma tokenizer_init_positioned: "positioned (tokenizer_init s)"
  by (simp add: positioned_def tokenizer_init_def)

lemma tokenizer_init_template_ok: "template_ok (tokenizer_init s)"
  by (simp add: template_ok_def tokenizer_init_def)

text \<open>
  C1 Exact tokens.  From a state whose line and column are those of its offset,
  \<open>tokenizer_next\<close> skips only white space and comments and returns a token that carries
  the line and column of the place where it starts and spans the text from there to the
  new offset (an error token points at its message instead, a template part leaves out the
  two characters that open the interpolation); the new state is positioned again and its
  offset does not pass the terminator.
\<close>

theorem tokenizer_next_exact:
  assumes "positioned t" and "tokenizer_next t = (tok, t')"
  shows "\<exists>start. tk_current t \<le> start \<and> start \<le> tk_current t' \<and>
    blank (slice (tk_source t) (tk_current t) (start - tk_current t)) \<and>
    tok_line tok = line_at (tk_source t) start \<and>
    tok_column tok = column_at (tk_source t) start \<and>
    token_spans tok start (tk_current t') \<and>
    tk_source t' = tk_source t \<and> positioned t' \<and> tk_current t' \<le> length (tk_source t)"
proof -
  let ?u = "skip_whitespace t"
  have u: "moves t ?u" "blank (gap t ?u)" "moves ?u t'"
    using skip_whitespace_moves [of t] skip_whitespace_blank [of t] tokenizer_next_scanned [of t]
      assms(2) by (auto simp: scanned_def)
  then have "positioned ?u" "positioned t'"
    using assms(1) moves_positioned by blast+
  then show ?thesis
    using u tokenizer_next_scanned [of t] assms(2) tokenizer_next_moves [of t]
    by (intro exI [of _ "tk_current ?u"])
      (auto simp: scanned_def gap_def positioned_def moves_source moves_current)
qed

theorem tokenizer_next_exact_witness:
  "\<exists>start. token_spans (fst (tokenizer_next (tokenizer_init ''/*c*/ab ''))) start 7"
proof -
  have eval: "tk_current (snd (tokenizer_next (tokenizer_init ''/*c*/ab ''))) = 7"
    by code_simp
  show ?thesis
    using tokenizer_next_exact [OF tokenizer_init_positioned [of "''/*c*/ab ''"] prod.collapse [symmetric]]
    unfolding eval by blast
qed

text \<open>
  C2 Template nesting.  The template depth and the array of brace counters stay within the
  capacity of the array, and every token other than an error changes the depth by the amount
  of its type: a template start enters an interpolation, a template end leaves one, any
  other token keeps the depth.  The end-of-file token is returned exactly at the end of the
  input.
\<close>

theorem tokenizer_next_depth:
  assumes "template_ok t" and "tokenizer_next t = (tok, t')"
  shows "template_ok t' \<and>
    (tok_type tok \<noteq> TOK_ERROR \<longrightarrow>
       int (tk_template_depth t') = int (tk_template_depth t) + depth_change (tok_type tok)) \<and>
    (tok_type tok = TOK_EOF \<longleftrightarrow> is_at_end (skip_whitespace t))"
  using tokenizer_next_tracks [OF assms(1)] tokenizer_next_eof [OF assms(1)] assms(2)
  by (auto simp: tracks_depth_def simp del: is_at_end_def)

theorem tokenizer_next_depth_witness:
  "tk_template_depth (snd (tokenizer_next (tokenizer_init (CHR 0x60 # ''a${b'')))) = 1 \<and>
   template_ok (snd (tokenizer_next (tokenizer_init (CHR 0x60 # ''a${b''))))"
proof -
  have "tk_template_depth (snd (tokenizer_next (tokenizer_init (CHR 0x60 # ''a${b'')))) = 1"
    by code_simp
  then show ?thesis
    using tokenizer_next_depth [OF tokenizer_init_template_ok prod.collapse [symmetric]] by blast
qed

text \<open>
  Identifiers.  At a letter or an underscore \<open>tokenizer_next\<close> consumes the longest run of
  letters, digits and underscores and classifies it: a lone underscore is the discard
  pattern, a word of the keyword table is its keyword, any other word an identifier.
\<close>

theorem tokenizer_next_identifier:
  assumes "isalpha (peek (skip_whitespace t)) \<or> peek (skip_whitespace t) = CHR ''_''"
    and "tokenizer_next t = (tok, t')"
  shows "let word = identifier_lexeme (skip_whitespace t) in
    tok_type tok =
      (if word = ''_'' then TOK_UNDERSCORE
       else case map_of keyword_table word of Some k \<Rightarrow> k | None \<Rightarrow> TOK_IDENTIFIER) \<and>
    tok_length tok = length word \<and>
    tk_current t' = tk_current (skip_whitespace t) + length word"
proof -
  define u where "u = skip_whitespace t"
  have u: "\<not> is_at_end u" "ident_char (peek u)" "peek u \<noteq> CHR ''}''"
    using assms(1) by (auto simp: u_def ident_char_def isalnum_def isalpha_def)
  then have "tokenizer_next t =
      tokenizer_scan_identifier (advance u) (tk_current u) (tk_line u) (tk_column u)"
    using assms(1) unfolding tokenizer_next_def [of t, folded u_def] Let_def by (simp add: u_def)
  moreover have "length (identifier_lexeme u) = Suc (length (takeWhile ident_char (rest (advance u))))"
    using u by (simp add: identifier_lexeme_def rest_not_end [of u])
  ultimately show ?thesis
    using scan_identifier_munch [OF u(1,2)] advance_while_munch [of ident_char "advance u"] assms(2)
    by (auto simp: Let_def check_keyword_map_of u_def [symmetric] split: option.split)
qed

theorem tokenizer_next_identifier_witness:
  "tok_type (fst (tokenizer_next (tokenizer_init ''  return x''))) = TOK_RETURN"
proof -
  have word: "identifier_lexeme (skip_whitespace (tokenizer_init ''  return x'')) = ''return''"
    "isalpha (peek (skip_whitespace (tokenizer_init ''  return x'')))"
    by code_simp+
  have "map_of keyword_table ''return'' = Some TOK_RETURN"
    by code_simp
  then show ?thesis
    using tokenizer_next_identifier [OF disjI1 [OF word(2)] prod.collapse [symmetric]]
    by (simp add: word Let_def)
qed

text \<open>
  C3 Operators.  At any other character that opens no literal, the nested switches of the
  punctuation scanner find the longest spelling of the operator table that the input starts
  with, and return its token type and length; they report an error exactly when the input
  starts with no spelling of the table.
\<close>

theorem tokenizer_next_operator:
  assumes "\<not> is_at_end (skip_whitespace t)"
    and "\<not> ident_char (peek (skip_whitespace t))" and "\<not> opens_literal (peek (skip_whitespace t))"
    and "tk_template_depth t = 0"
  shows "case munch (rest (skip_whitespace t)) of
      None \<Rightarrow> tok_type (fst (tokenizer_next t)) = TOK_ERROR
    | Some (spelling, type) \<Rightarrow>
        tok_type (fst (tokenizer_next t)) = type \<and>
        tok_length (fst (tokenizer_next t)) = length spelling \<and>
        (\<forall>(spelling', type') \<in> set punctuators.
           prefix spelling' (rest (skip_whitespace t)) \<longrightarrow> length spelling' \<le> length spelling)"
proof -
  define u where "u = skip_whitespace t"
  have "tk_template_depth u = 0"
    using assms(4) skip_whitespace_template [of t] by (simp add: u_def same_template_def)
  then have "tokenizer_next t = tokenizer_scan_punctuation (advance u) (peek u) (tk_current u)
      (tk_line u) (tk_column u)"
    using assms(1-3) unfolding tokenizer_next_def [of t, folded u_def] Let_def
    by (auto simp: u_def [symmetric] ident_char_def isalnum_def)
  moreover have "punct_token (munch (rest u))
      (fst (tokenizer_scan_punctuation (advance u) (peek u) (tk_current u) (tk_line u) (tk_column u)))"
    using assms by (intro punctuation_munch) (simp_all add: u_def)
  ultimately show ?thesis
    using munch_longest [of "rest u"]
    by (auto simp: punct_token_def u_def [symmetric] split: option.split)
qed

theorem tokenizer_next_operator_witness:
  "tok_type (fst (tokenizer_next (tokenizer_init '' >>=1''))) = TOK_RSHIFT_ASSIGN"
proof -
  let ?t = "tokenizer_init '' >>=1''"
  have "\<not> is_at_end (skip_whitespace ?t)" "\<not> ident_char (peek (skip_whitespace ?t))"
    "\<not> opens_literal (peek (skip_whitespace ?t))" "tk_template_depth ?t = 0"
    by code_simp+
  moreover have "munch (rest (skip_whitespace ?t)) = Some (''>>='', TOK_RSHIFT_ASSIGN)"
    by code_simp
  ultimately show ?thesis
    using tokenizer_next_operator [of ?t] by simp
qed

end
