(* ===== verification/TokenStream.thy ===== *)
theory TokenStream
  imports TokenizerLaws
begin

text \<open>
  The token buffer of the parser (compiler/src/parser/parser.c and parser_utils.c):
  \<open>parser_init\<close> reads all tokens up to the end of the input or the first error, the other
  operations look at, match and consume the buffered tokens and record the first error.
  Allocation always succeeds in the model, so the out-of-memory branches are not in it.
  The loop of \<open>parser_init\<close> is a partial function; the interface \<open>token_source\<close> gives the
  laws under which such a loop returns, and the tokenizer satisfies them.
\<close>

section \<open>State\<close>

record ParserError =
  err_token :: Token
  err_message :: string

record Parser =
  ps_tokenizer :: Tokenizer
  ps_tokens :: "Token list"
  ps_token_capacity :: nat
  ps_current :: nat
  ps_pending_gt :: bool
  ps_error :: ParserError
  ps_has_error :: bool

record AstSourceSpan =
  start_line :: nat
  start_column :: nat
  end_line :: nat
  end_column :: nat

text \<open>The static token of \<open>parser_token_at\<close> and the all-zero state of \<open>memset\<close>.\<close>

definition eof_token :: Token where
  "eof_token = \<lparr>tok_type = TOK_EOF, tok_start = Msg [], tok_length = 0, tok_line = 1, tok_column = 1\<rparr>"

definition zero_token :: Token where
  "zero_token = \<lparr>tok_type = TOK_EOF, tok_start = Msg [], tok_length = 0, tok_line = 0, tok_column = 0\<rparr>"

definition zero_span :: AstSourceSpan where
  "zero_span = \<lparr>start_line = 0, start_column = 0, end_line = 0, end_column = 0\<rparr>"

definition empty_parser :: "string \<Rightarrow> Parser" where
  "empty_parser source =
     \<lparr>ps_tokenizer = tokenizer_init source, ps_tokens = [], ps_token_capacity = 0,
      ps_current = 0, ps_pending_gt = False,
      ps_error = \<lparr>err_token = zero_token, err_message = []\<rparr>, ps_has_error = False\<rparr>"

text \<open>
  The characters a token points at.  The tokenizer keeps the source, which both live as
  long as the parser.
\<close>

definition token_text :: "string \<Rightarrow> Token \<Rightarrow> string" where
  "token_text source tok =
     (case tok_start tok of
        Src i \<Rightarrow> slice source i (tok_length tok)
      | Msg msg \<Rightarrow> take (tok_length tok) msg)"

section \<open>Errors and the token buffer\<close>

text \<open>The first error wins; \<open>vsnprintf\<close> keeps 255 characters of the message.\<close>

definition parser_set_error :: "Parser \<Rightarrow> Token \<Rightarrow> string \<Rightarrow> Parser" where
  "parser_set_error p token message =
     (if ps_has_error p then p
      else p\<lparr>ps_has_error := True,
             ps_error := \<lparr>err_token = token, err_message = take 255 message\<rparr>\<rparr>)"

definition parser_append_token :: "Parser \<Rightarrow> Token \<Rightarrow> Parser" where
  "parser_append_token p token =
     (if length (ps_tokens p) < ps_token_capacity p
      then p\<lparr>ps_tokens := ps_tokens p @ [token]\<rparr>
      else p\<lparr>ps_tokens := ps_tokens p @ [token],
             ps_token_capacity :=
               (if ps_token_capacity p = 0 then 32 else ps_token_capacity p * 2)\<rparr>)"

definition parser_token_at :: "Parser \<Rightarrow> nat \<Rightarrow> Token" where
  "parser_token_at p index =
     (if ps_tokens p = [] then eof_token
      else if index \<ge> length (ps_tokens p) then ps_tokens p ! (length (ps_tokens p) - 1)
      else ps_tokens p ! index)"

definition parser_current_token :: "Parser \<Rightarrow> Token" where
  "parser_current_token p = parser_token_at p (ps_current p)"

definition parser_previous_token :: "Parser \<Rightarrow> Token" where
  "parser_previous_token p =
     (if ps_current p = 0 then parser_current_token p
      else parser_token_at p (ps_current p - 1))"

definition parser_is_at_end :: "Parser \<Rightarrow> bool" where
  "parser_is_at_end p \<longleftrightarrow> tok_type (parser_current_token p) = TOK_EOF"

definition parser_advance :: "Parser \<Rightarrow> Token \<times> Parser" where
  "parser_advance p =
     (let p = (if \<not> parser_is_at_end p then p\<lparr>ps_current := Suc (ps_current p)\<rparr> else p)
      in (parser_previous_token p, p))"

definition parser_check :: "Parser \<Rightarrow> TokenType \<Rightarrow> bool" where
  "parser_check p type \<longleftrightarrow> tok_type (parser_current_token p) = type"

definition parser_match :: "Parser \<Rightarrow> TokenType \<Rightarrow> bool \<times> Parser" where
  "parser_match p type =
     (if \<not> parser_check p type then (False, p) else (True, snd (parser_advance p)))"

definition parser_consume :: "Parser \<Rightarrow> TokenType \<Rightarrow> string \<Rightarrow> bool \<times> Parser" where
  "parser_consume p type message =
     (if parser_check p type then (True, snd (parser_advance p))
      else (False, parser_set_error p (parser_current_token p) message))"

text \<open>
  A \<open>>>\<close> that closes two generic argument lists: the first call turns the token into the
  second \<open>>\<close> in place (the intermediate store of the first \<open>>\<close> is overwritten).
\<close>

definition next_pointer :: "text_ptr \<Rightarrow> text_ptr" where
  "next_pointer ptr = (case ptr of Src i \<Rightarrow> Src (Suc i) | Msg msg \<Rightarrow> Msg (tl msg))"

definition parser_consume_gt :: "Parser \<Rightarrow> string \<Rightarrow> bool \<times> Parser" where
  "parser_consume_gt p message =
     (case parser_match p TOK_GT of
        (True, p') \<Rightarrow> (True, p')
      | (False, _) \<Rightarrow>
          if parser_check p TOK_RSHIFT
          then let fixed = (parser_current_token p)\<lparr>tok_type := TOK_GT, tok_length := 1\<rparr>;
                   p = p\<lparr>ps_tokens := (ps_tokens p)[ps_current p := fixed]\<rparr>;
                   remainder = fixed\<lparr>tok_start := next_pointer (tok_start fixed),
                                     tok_column := tok_column fixed + 1\<rparr>;
                   p = p\<lparr>ps_tokens := (ps_tokens p)[ps_current p := remainder]\<rparr>
               in (True, p)
          else (False, parser_set_error p (parser_current_token p) message))"

definition parser_source_span :: "Token \<Rightarrow> AstSourceSpan" where
  "parser_source_span token =
     \<lparr>start_line = tok_line token, start_column = tok_column token,
      end_line = tok_line token,
      end_column = tok_column token + (if tok_length token > 0 then tok_length token - 1 else 0)\<rparr>"

definition parser_extend_source_span :: "AstSourceSpan \<Rightarrow> Token \<Rightarrow> AstSourceSpan" where
  "parser_extend_source_span span token =
     (let token_span = parser_source_span token
      in if start_line span = 0 \<or> start_column span = 0 then token_span
         else span\<lparr>end_line := end_line token_span, end_column := end_column token_span\<rparr>)"

definition parser_source :: "Parser \<Rightarrow> string" where
  "parser_source p = tk_source (ps_tokenizer p)"

definition parser_copy_token_text :: "Parser \<Rightarrow> Token \<Rightarrow> string" where
  "parser_copy_token_text p token = token_text (parser_source p) token"

definition parser_consume_identifier :: "Parser \<Rightarrow> string \<Rightarrow> string option \<times> Parser" where
  "parser_consume_identifier p message =
     (if \<not> parser_check p TOK_IDENTIFIER
      then (None, parser_set_error p (parser_current_token p) message)
      else (Some (parser_copy_token_text p (parser_current_token p)), snd (parser_advance p)))"

section \<open>Reading all tokens\<close>

partial_function (option) parser_init_loop :: "Parser \<Rightarrow> Parser option" where
  "parser_init_loop p =
     (let (token, tokenizer) = tokenizer_next (ps_tokenizer p);
          p = p\<lparr>ps_tokenizer := tokenizer\<rparr>
      in if tok_type token = TOK_ERROR
         then Some (parser_set_error p token (token_text (parser_source p) token))
         else let p = parser_append_token p token
              in if tok_type token \<noteq> TOK_EOF then parser_init_loop p else Some p)"

lemma parser_init_loop_code [code]:
  "parser_init_loop p =
     (if tok_type (fst (tokenizer_next (ps_tokenizer p))) = TOK_ERROR
      then Some (parser_set_error (p\<lparr>ps_tokenizer := snd (tokenizer_next (ps_tokenizer p))\<rparr>)
             (fst (tokenizer_next (ps_tokenizer p)))
             (token_text (tk_source (snd (tokenizer_next (ps_tokenizer p))))
                (fst (tokenizer_next (ps_tokenizer p)))))
      else if tok_type (fst (tokenizer_next (ps_tokenizer p))) = TOK_EOF
      then Some (parser_append_token (p\<lparr>ps_tokenizer := snd (tokenizer_next (ps_tokenizer p))\<rparr>)
             (fst (tokenizer_next (ps_tokenizer p))))
      else parser_init_loop (parser_append_token
             (p\<lparr>ps_tokenizer := snd (tokenizer_next (ps_tokenizer p))\<rparr>)
             (fst (tokenizer_next (ps_tokenizer p)))))"
  by (subst parser_init_loop.simps) (simp add: Let_def parser_source_def split: prod.split)

definition parser_init :: "string \<Rightarrow> Parser option" where
  "parser_init source = parser_init_loop (empty_parser source)"

section \<open>Loops that read until a stop\<close>

text \<open>\<open>pull get n s\<close> reads \<open>n\<close> items one after the other.\<close>

primrec pull :: "('s \<Rightarrow> 'a \<times> 's) \<Rightarrow> nat \<Rightarrow> 's \<Rightarrow> 'a list \<times> 's" where
  "pull get 0 s = ([], s)"
| "pull get (Suc n) s =
     (fst (get s) # fst (pull get n (snd (get s))), snd (pull get n (snd (get s))))"

text \<open>
  The interface between the parser and its source of tokens: reading keeps the invariant,
  and every item that does not stop the loop uses up some of the input.
\<close>

locale token_source =
  fixes get :: "'s \<Rightarrow> 'a \<times> 's"
    and stops :: "'a \<Rightarrow> bool"
    and valid :: "'s \<Rightarrow> bool"
    and remaining :: "'s \<Rightarrow> nat"
  assumes get_valid: "valid s \<Longrightarrow> valid (snd (get s))"
    and get_progress: "valid s \<Longrightarrow> \<not> stops (fst (get s)) \<Longrightarrow> remaining (snd (get s)) < remaining s"
begin

lemma pull_valid: "valid s \<Longrightarrow> valid (snd (pull get n s))"
  by (induction n arbitrary: s) (simp_all add: get_valid)

lemma reaches_stop:
  "valid s \<Longrightarrow> \<exists>n \<le> remaining s.
     list_all (\<lambda>a. \<not> stops a) (fst (pull get n s)) \<and> stops (fst (get (snd (pull get n s))))"
proof (induction "remaining s" arbitrary: s rule: less_induct)
  case less
  show ?case
  proof (cases "stops (fst (get s))")
    case True
    then show ?thesis
      by (intro exI [of _ 0]) simp
  next
    case False
    let ?s = "snd (get s)"
    have "remaining ?s < remaining s" "valid ?s"
      using less.prems False get_valid get_progress by blast+
    then obtain n where n: "n \<le> remaining ?s"
      "list_all (\<lambda>a. \<not> stops a) (fst (pull get n ?s))" "stops (fst (get (snd (pull get n ?s))))"
      using less.hyps by blast
    with False \<open>remaining ?s < remaining s\<close> show ?thesis
      by (intro exI [of _ "Suc n"]) simp
  qed
qed

end

lemma length_pull [simp]: "length (fst (pull get n s)) = n"
  by (induction n arbitrary: s) simp_all

section \<open>The tokenizer as a source of tokens\<close>

definition stop_token :: "Token \<Rightarrow> bool" where
  "stop_token tok \<longleftrightarrow> tok_type tok = TOK_EOF \<or> tok_type tok = TOK_ERROR"

definition tokenizer_valid :: "string \<Rightarrow> Tokenizer \<Rightarrow> bool" where
  "tokenizer_valid source t \<longleftrightarrow> tk_source t = source \<and> positioned t \<and> template_ok t"

definition tokenizer_remaining :: "Tokenizer \<Rightarrow> nat" where
  "tokenizer_remaining t = length (tk_source t) - tk_current t"

lemma tokenizer_next_template_ok: "template_ok t \<Longrightarrow> template_ok (snd (tokenizer_next t))"
  using tokenizer_next_tracks [of t] by (simp add: tracks_depth_def)

lemma tokenizer_next_valid:
  "tokenizer_valid source t \<Longrightarrow> tokenizer_valid source (snd (tokenizer_next t))"
  using tokenizer_next_moves [of t] tokenizer_next_template_ok [of t]
  by (auto simp: tokenizer_valid_def moves_source moves_positioned)

interpretation tokens: token_source tokenizer_next stop_token "tokenizer_valid source"
  tokenizer_remaining for source
proof
  fix t
  assume "tokenizer_valid source t" and "\<not> stop_token (fst (tokenizer_next t))"
  then have "tk_current t < tk_current (snd (tokenizer_next t))"
    "tokenizer_valid source (snd (tokenizer_next t))" "tk_source t = source"
    using tokenizer_next_progress tokenizer_next_valid
    by (auto simp: stop_token_def tokenizer_valid_def)
  then show "tokenizer_remaining (snd (tokenizer_next t)) < tokenizer_remaining t"
    by (auto simp: tokenizer_remaining_def tokenizer_valid_def positioned_def)
qed (rule tokenizer_next_valid)

section \<open>The loop of parser_init\<close>

definition append_tokens :: "Parser \<Rightarrow> Token list \<Rightarrow> Parser" where
  "append_tokens p toks = foldl parser_append_token p toks"

lemma parser_append_token_fields [simp]:
  "ps_tokens (parser_append_token p tok) = ps_tokens p @ [tok]"
  "ps_tokenizer (parser_append_token p tok) = ps_tokenizer p"
  "ps_current (parser_append_token p tok) = ps_current p"
  "ps_error (parser_append_token p tok) = ps_error p"
  "ps_has_error (parser_append_token p tok) = ps_has_error p"
  by (simp_all add: parser_append_token_def)

lemma parser_append_token_tokenizer:
  "parser_append_token (p\<lparr>ps_tokenizer := t\<rparr>) tok = (parser_append_token p tok)\<lparr>ps_tokenizer := t\<rparr>"
  by (simp add: parser_append_token_def)

lemma append_tokens_fields [simp]:
  "ps_tokens (append_tokens p toks) = ps_tokens p @ toks"
  "ps_current (append_tokens p toks) = ps_current p"
  "ps_has_error (append_tokens p toks) = ps_has_error p"
  by (induction toks arbitrary: p) (simp_all add: append_tokens_def)

lemma append_tokens_tokenizer:
  "append_tokens (p\<lparr>ps_tokenizer := t\<rparr>) toks = (append_tokens p toks)\<lparr>ps_tokenizer := t\<rparr>"
  by (induction toks arbitrary: p) (simp_all add: append_tokens_def parser_append_token_tokenizer)

definition finish_loop :: "Parser \<Rightarrow> Token \<Rightarrow> Parser" where
  "finish_loop p tok =
     (if tok_type tok = TOK_ERROR
      then parser_set_error p tok (token_text (parser_source p) tok)
      else parser_append_token p tok)"

lemma parser_init_loop_pull:
  assumes "pull tokenizer_next n (ps_tokenizer p) = (toks, t)"
    and "list_all (\<lambda>tok. \<not> stop_token tok) toks"
    and "tokenizer_next t = (tok, t')" and "stop_token tok"
  shows "parser_init_loop p = Some (finish_loop ((append_tokens p toks)\<lparr>ps_tokenizer := t'\<rparr>) tok)"
  using assms(1,2)
proof (induction n arbitrary: p toks)
  case 0
  then show ?case
    using assms(3,4)
    by (subst parser_init_loop.simps) (auto simp: finish_loop_def append_tokens_def stop_token_def Let_def)
next
  case (Suc n)
  obtain tok1 t1 where read: "tokenizer_next (ps_tokenizer p) = (tok1, t1)"
    by fastforce
  with Suc.prems obtain toks1 where toks: "toks = tok1 # toks1" "\<not> stop_token tok1"
      "pull tokenizer_next n t1 = (toks1, t)" "list_all (\<lambda>tok. \<not> stop_token tok) toks1"
    by (cases toks) auto
  let ?p = "parser_append_token (p\<lparr>ps_tokenizer := t1\<rparr>) tok1"
  have "parser_init_loop p = parser_init_loop ?p"
    using read toks(2) by (subst parser_init_loop.simps) (simp add: stop_token_def Let_def)
  then show ?case
    using Suc.IH [of ?p toks1] toks
    by (simp add: append_tokens_def parser_append_token_tokenizer
        append_tokens_tokenizer [unfolded append_tokens_def])
qed

section \<open>The tokens cover the source\<close>

text \<open>
  \<open>covers source i toks j\<close>: the tokens lie one behind the other between the offsets \<open>i\<close>
  and \<open>j\<close>, with only blanks between them and the opening marks of interpolations after the
  template parts, and each carries the line and column of its start.
\<close>

fun covers :: "string \<Rightarrow> nat \<Rightarrow> Token list \<Rightarrow> nat \<Rightarrow> bool" where
  "covers source i [] j \<longleftrightarrow> i = j"
| "covers source i (tok # toks) j \<longleftrightarrow>
     (\<exists>start. i \<le> start \<and> blank (slice source i (start - i)) \<and>
        tok_start tok = Src start \<and>
        tok_line tok = line_at source start \<and> tok_column tok = column_at source start \<and>
        (opens_interpolation (tok_type tok) \<longrightarrow> slice source (start + tok_length tok) 2 = ''${'') \<and>
        start + tok_length tok + consumed_after (tok_type tok) \<le> j \<and>
        covers source (start + tok_length tok + consumed_after (tok_type tok)) toks j)"

lemma covers_le: "covers source i toks j \<Longrightarrow> i \<le> j"
  by (cases toks) auto

lemma tokenizer_next_covers:
  assumes "tokenizer_valid source t" and "tok_type (fst (tokenizer_next t)) \<noteq> TOK_ERROR"
    and "covers source (tk_current (snd (tokenizer_next t))) toks j"
  shows "covers source (tk_current t) (fst (tokenizer_next t) # toks) j"
proof -
  let ?u = "skip_whitespace t" and ?tok = "fst (tokenizer_next t)" and ?v = "snd (tokenizer_next t)"
  have u: "moves t ?u" "blank (gap t ?u)"
    using skip_whitespace_moves [of t] skip_whitespace_blank [of t] by auto
  have "moves t ?v" "marks (tokenizer_next t)"
    using tokenizer_next_moves tokenizer_next_marks by blast+
  then have "tk_source ?v = source" "positioned ?u" "tk_source t = source"
    using assms(1) u moves_positioned by (auto simp: tokenizer_valid_def moves_source)
  moreover have "tk_source ?u = source"
    using u calculation by (simp add: moves_source)
  moreover have "tk_current t \<le> tk_current ?u"
    using u(1) by (rule moves_current)
  moreover have "tk_current ?u + tok_length ?tok = tk_current ?v - 2"
    if "opens_interpolation (tok_type ?tok)"
    using that assms(2) tokenizer_next_scanned [of t]
    by (auto simp: scanned_def token_spans_def consumed_after_def)
  ultimately show ?thesis
    using assms(2,3) u(2) tokenizer_next_scanned [of t] covers_le [OF assms(3)]
      \<open>marks (tokenizer_next t)\<close>
    by (intro covers.simps(2) [THEN iffD2] exI [of _ "tk_current ?u"])
      (auto simp: scanned_def token_spans_def gap_def positioned_def marks_def consumed_after_def)
qed

lemma pull_covers:
  assumes "tokenizer_valid source t" and "list_all (\<lambda>tok. \<not> stop_token tok) (fst (pull tokenizer_next n t))"
    and "covers source (tk_current (snd (pull tokenizer_next n t))) toks j"
  shows "covers source (tk_current t) (fst (pull tokenizer_next n t) @ toks) j"
  using assms
proof (induction n arbitrary: t)
  case (Suc n)
  then show ?case
    using tokenizer_next_covers [of source t] tokenizer_next_valid [of source t]
    by (simp add: stop_token_def del: covers.simps)
qed simp

text \<open>The source text again, from the tokens and the blanks between them.\<close>

definition token_piece :: "string \<Rightarrow> Token \<Rightarrow> string" where
  "token_piece source tok =
     token_text source tok @ (if opens_interpolation (tok_type tok) then ''${'' else [])"

lemma covers_pieces:
  "covers source i toks j \<Longrightarrow>
   \<exists>gaps. length gaps = length toks \<and> list_all blank gaps \<and>
     concat (map2 (\<lambda>g tok. g @ token_piece source tok) gaps toks) = slice source i (j - i)"
proof (induction toks arbitrary: i)
  case Nil
  then show ?case
    by simp
next
  case (Cons tok toks)
  then obtain start where start: "i \<le> start" "blank (slice source i (start - i))"
    "tok_start tok = Src start"
    "opens_interpolation (tok_type tok) \<longrightarrow> slice source (start + tok_length tok) 2 = ''${''"
    "start + tok_length tok + consumed_after (tok_type tok) \<le> j"
    "covers source (start + tok_length tok + consumed_after (tok_type tok)) toks j"
    by auto
  let ?k = "start + tok_length tok + consumed_after (tok_type tok)"
  obtain gaps where gaps: "length gaps = length toks" "list_all blank gaps"
    "concat (map2 (\<lambda>g tok. g @ token_piece source tok) gaps toks) = slice source ?k (j - ?k)"
    using Cons.IH [OF start(6)] by blast
  have "token_piece source tok = slice source start (tok_length tok + consumed_after (tok_type tok))"
    using start(3,4) by (simp add: token_piece_def token_text_def consumed_after_def slice_append [symmetric])
  moreover have "slice source i (j - i) =
      slice source i (start - i) @
      slice source start (tok_length tok + consumed_after (tok_type tok)) @ slice source ?k (j - ?k)"
    using start(1,5) slice_append [of source start "?k - start" "j - ?k"]
      slice_append [of source i "start - i" "j - start"] by (simp add: add.assoc)
  ultimately show ?case
    using gaps start(2)
    by (intro exI [of _ "slice source i (start - i) # gaps"]) simp
qed

section \<open>The buffer after parser_init\<close>

text \<open>
  A filled buffer ends with the end-of-file token, holds no other one and no error token,
  and the cursor points into it.
\<close>

definition parser_ok :: "Parser \<Rightarrow> bool" where
  "parser_ok p \<longleftrightarrow>
     ps_tokens p \<noteq> [] \<and> tok_type (last (ps_tokens p)) = TOK_EOF \<and>
     list_all (\<lambda>tok. \<not> stop_token tok) (butlast (ps_tokens p)) \<and>
     ps_current p < length (ps_tokens p)"

lemma tokenizer_init_valid: "tokenizer_valid source (tokenizer_init source)"
  by (simp add: tokenizer_valid_def tokenizer_init_positioned tokenizer_init_template_ok)
    (simp add: tokenizer_init_def)

lemma parser_init_result:
  obtains toks t tok t' where
    "pull tokenizer_next (length toks) (tokenizer_init source) = (toks, t)"
    "list_all (\<lambda>tok. \<not> stop_token tok) toks" "length toks \<le> length source"
    "tokenizer_next t = (tok, t')" "stop_token tok"
    "tokenizer_valid source t" "tokenizer_valid source t'"
    "parser_init source =
       Some (finish_loop ((append_tokens (empty_parser source) toks)\<lparr>ps_tokenizer := t'\<rparr>) tok)"
proof -
  let ?s = "tokenizer_init source"
  obtain n where n: "n \<le> tokenizer_remaining ?s"
    "list_all (\<lambda>tok. \<not> stop_token tok) (fst (pull tokenizer_next n ?s))"
    "stop_token (fst (tokenizer_next (snd (pull tokenizer_next n ?s))))"
    using tokens.reaches_stop [OF tokenizer_init_valid] by blast
  let ?toks = "fst (pull tokenizer_next n ?s)" and ?t = "snd (pull tokenizer_next n ?s)"
  have valid: "tokenizer_valid source ?t"
    by (rule tokens.pull_valid [OF tokenizer_init_valid])
  show thesis
  proof (rule that)
    show "tokenizer_next ?t = (fst (tokenizer_next ?t), snd (tokenizer_next ?t))"
      by simp
    show "pull tokenizer_next (length ?toks) ?s = (?toks, ?t)"
      by simp
    show "length ?toks \<le> length source"
      using n(1) by (simp add: tokenizer_remaining_def tokenizer_init_def)
    show "parser_init source = Some (finish_loop ((append_tokens (empty_parser source) ?toks)
        \<lparr>ps_tokenizer := snd (tokenizer_next ?t)\<rparr>) (fst (tokenizer_next ?t)))"
      unfolding parser_init_def
      by (rule parser_init_loop_pull [OF _ n(2) _ n(3)]) (simp_all add: empty_parser_def)
  qed (use n valid tokenizer_next_valid [OF valid] in auto)
qed

section \<open>The buffer operations\<close>

lemma parser_ok_nth: "parser_ok p \<Longrightarrow> parser_current_token p = ps_tokens p ! ps_current p"
  by (auto simp: parser_ok_def parser_current_token_def parser_token_at_def)

lemma parser_set_error_ok [simp]: "parser_ok (parser_set_error p tok msg) = parser_ok p"
  by (simp add: parser_ok_def parser_set_error_def)

text \<open>Before the last token no token stops, so a step from there stays in the buffer.\<close>

lemma parser_ok_inner:
  assumes "parser_ok p" and "tok_type (parser_current_token p) \<noteq> TOK_EOF"
  shows "Suc (ps_current p) < length (ps_tokens p)"
proof (rule ccontr)
  assume "\<not> Suc (ps_current p) < length (ps_tokens p)"
  then have "ps_current p = length (ps_tokens p) - 1"
    using assms(1) by (auto simp: parser_ok_def)
  with assms show False
    using parser_ok_nth [OF assms(1)] last_conv_nth [of "ps_tokens p"]
    by (auto simp: parser_ok_def)
qed

lemma parser_advance_eq:
  "snd (parser_advance p) = (if parser_is_at_end p then p else p\<lparr>ps_current := Suc (ps_current p)\<rparr>)"
  by (simp add: parser_advance_def Let_def)

lemma parser_advance_ok: "parser_ok p \<Longrightarrow> parser_ok (snd (parser_advance p))"
  using parser_ok_inner [of p] by (auto simp: parser_advance_eq parser_is_at_end_def parser_ok_def)

lemma parser_match_ok: "parser_ok p \<Longrightarrow> parser_ok (snd (parser_match p type))"
  by (simp add: parser_match_def parser_advance_ok)

lemma parser_consume_ok: "parser_ok p \<Longrightarrow> parser_ok (snd (parser_consume p type msg))"
  by (simp add: parser_consume_def parser_advance_ok)

lemma parser_consume_identifier_ok: "parser_ok p \<Longrightarrow> parser_ok (snd (parser_consume_identifier p msg))"
  by (simp add: parser_consume_identifier_def parser_advance_ok)

lemma parser_ok_replace:
  assumes "parser_ok p" and "tok_type (parser_current_token p) \<noteq> TOK_EOF" and "\<not> stop_token tok"
  shows "parser_ok (p\<lparr>ps_tokens := (ps_tokens p)[ps_current p := tok]\<rparr>)"
  using assms parser_ok_inner [OF assms(1,2)]
    set_update_subset_insert [of "butlast (ps_tokens p)" "ps_current p" tok]
  by (auto simp: parser_ok_def last_list_update butlast_list_update list_all_iff)

text \<open>The token \<open>parser_consume_gt\<close> leaves in place of a \<open>>>\<close>.\<close>

definition gt_remainder :: "Token \<Rightarrow> Token" where
  "gt_remainder tok =
     tok\<lparr>tok_type := TOK_GT, tok_length := 1, tok_start := next_pointer (tok_start tok),
         tok_column := tok_column tok + 1\<rparr>"

lemma parser_consume_gt_rshift:
  "parser_check p TOK_RSHIFT \<Longrightarrow>
   parser_consume_gt p msg =
     (True, p\<lparr>ps_tokens := (ps_tokens p)[ps_current p := gt_remainder (parser_current_token p)]\<rparr>)"
  by (simp add: parser_consume_gt_def parser_match_def parser_check_def gt_remainder_def Let_def)

lemma parser_consume_gt_ok: "parser_ok p \<Longrightarrow> parser_ok (snd (parser_consume_gt p msg))"
proof (cases "parser_check p TOK_RSHIFT")
  case True
  assume "parser_ok p"
  with True show ?thesis
    using parser_ok_replace [of p "gt_remainder (parser_current_token p)"]
    by (simp add: parser_consume_gt_rshift parser_check_def stop_token_def gt_remainder_def)
next
  case False
  assume "parser_ok p"
  with False show ?thesis
    using parser_match_ok [of p TOK_GT]
    by (auto simp: parser_consume_gt_def parser_match_def split: prod.split bool.split)
qed

lemma parser_init_returns_Some: "\<exists>p. parser_init source = Some p"
  by (rule parser_init_result [of source]) blast

section \<open>Properties of the token buffer\<close>

text \<open>
  Reading the tokens ends.  For every source \<open>parser_init\<close> returns, with at most one
  token more than the source has characters: either the buffer is complete (it ends with
  the only end-of-file token and the cursor is at its start), or the tokenizer reported an
  error, which is then the recorded error, and the buffer holds the tokens before it.
\<close>

theorem parser_init_returns:
  "\<exists>p. parser_init source = Some p \<and> ps_current p = 0 \<and>
     length (ps_tokens p) \<le> length source + 1 \<and>
     (parser_ok p \<and> \<not> ps_has_error p \<or>
      ps_has_error p \<and> tok_type (err_token (ps_error p)) = TOK_ERROR \<and>
        list_all (\<lambda>tok. \<not> stop_token tok) (ps_tokens p))"
proof -
  obtain toks t tok t' where r: "list_all (\<lambda>tok. \<not> stop_token tok) toks"
    "length toks \<le> length source" "stop_token tok"
    "parser_init source =
       Some (finish_loop ((append_tokens (empty_parser source) toks)\<lparr>ps_tokenizer := t'\<rparr>) tok)"
    by (rule parser_init_result)
  have empty: "ps_tokens (empty_parser source) = []" "ps_current (empty_parser source) = 0"
    "\<not> ps_has_error (empty_parser source)"
    by (simp_all add: empty_parser_def)
  show ?thesis
  proof (cases "tok_type tok = TOK_ERROR")
    case True
    with r empty show ?thesis
      by (auto simp: finish_loop_def parser_set_error_def)
  next
    case False
    with r empty show ?thesis
      by (auto simp: finish_loop_def parser_ok_def stop_token_def)
  qed
qed

text \<open>
  C4 Tokens lose nothing.  When \<open>parser_init\<close> reports no error, the source is the tokens'
  texts in order, with blanks before each and the two characters that open an interpolation
  behind each template part that opens one.
\<close>

theorem parser_init_lossless:
  assumes "NUL \<notin> set source" and "parser_init source = Some p" and "\<not> ps_has_error p"
  shows "\<exists>gaps. length gaps = length (ps_tokens p) \<and> list_all blank gaps \<and>
    concat (map2 (\<lambda>g tok. g @ token_text source tok @
        (if opens_interpolation (tok_type tok) then ''${'' else [])) gaps (ps_tokens p)) = source"
proof -
  obtain toks t tok t' where r:
    "pull tokenizer_next (length toks) (tokenizer_init source) = (toks, t)"
    "list_all (\<lambda>tok. \<not> stop_token tok) toks" "tokenizer_next t = (tok, t')" "stop_token tok"
    "tokenizer_valid source t" "tokenizer_valid source t'"
    "parser_init source =
       Some (finish_loop ((append_tokens (empty_parser source) toks)\<lparr>ps_tokenizer := t'\<rparr>) tok)"
    by (rule parser_init_result)
  have empty: "ps_tokens (empty_parser source) = []" "\<not> ps_has_error (empty_parser source)"
    by (simp_all add: empty_parser_def)
  have eof: "tok_type tok = TOK_EOF"
    using r(4,7) assms(2,3) empty
    by (auto simp: finish_loop_def parser_set_error_def stop_token_def split: if_splits)
  then have tokens: "ps_tokens p = toks @ [tok]"
    using r(7) assms(2) empty by (auto simp: finish_loop_def)
  let ?j = "tk_current t'"
  have end_of_source: "?j = length source"
  proof -
    have at_end: "is_at_end (skip_whitespace t)"
      using tokenizer_next_eof [of t] r(3,5) eof by (simp add: tokenizer_valid_def)
    then have "t' = skip_whitespace t"
      using r(3) by (auto simp: tokenizer_next_def Let_def)
    with at_end have "?j \<le> length source" "char_at source ?j = NUL"
      using r(6) by (auto simp: tokenizer_valid_def positioned_def peek_def)
    then show ?thesis
      using assms(1) by (metis char_at_nth le_neq_implies_less nth_mem)
  qed
  have "covers source (tk_current t) [tok] ?j"
    using tokenizer_next_covers [OF r(5), of "[]" ?j] r(3) eof by simp
  then have "covers source 0 (toks @ [tok]) ?j"
    using pull_covers [OF tokenizer_init_valid [of source], of "length toks" "[tok]" ?j] r(1,2)
    by (simp add: tokenizer_init_def)
  then show ?thesis
    using covers_pieces [of source 0 "toks @ [tok]" ?j]
    by (simp add: tokens end_of_source token_piece_def slice_def)
qed

text \<open>
  C5 Nested generic arguments.  At a \<open>>>\<close> two calls of \<open>parser_consume_gt\<close> succeed and move
  the cursor by one token, as if the source had two \<open>>\<close>: the token between them is a single
  \<open>>\<close> with the line, the next column and the second character of the \<open>>>\<close>.  Every operation
  keeps the cursor inside a complete buffer.
\<close>

theorem parser_consume_gt_twice:
  assumes "parser_ok p" and "tok_type (parser_current_token p) = TOK_RSHIFT"
    and "tok_start (parser_current_token p) = Src i"
    and "parser_consume_gt p message = (ok, q)" and "parser_consume_gt q message = (ok', q')"
  shows "ok \<and> ok' \<and> ps_current q = ps_current p \<and> ps_current q' = Suc (ps_current p) \<and>
    ps_current q' < length (ps_tokens q') \<and> parser_ok q' \<and>
    tok_type (parser_current_token q) = TOK_GT \<and>
    tok_start (parser_current_token q) = Src (Suc i) \<and>
    tok_length (parser_current_token q) = 1 \<and>
    tok_line (parser_current_token q) = tok_line (parser_current_token p) \<and>
    tok_column (parser_current_token q) = Suc (tok_column (parser_current_token p)) \<and>
    ps_tokens q' = (ps_tokens p)[ps_current p := parser_current_token q]"
proof -
  let ?tok = "gt_remainder (parser_current_token p)"
  have q: "ok" "q = p\<lparr>ps_tokens := (ps_tokens p)[ps_current p := ?tok]\<rparr>"
    using assms(2,4) parser_consume_gt_rshift [of p message] by (auto simp: parser_check_def)
  have ok: "parser_ok q"
    using parser_consume_gt_ok [OF assms(1), of message] assms(4) by simp
  have cur: "parser_current_token q = ?tok"
    using assms(1) by (simp add: parser_ok_nth [OF ok]) (simp add: q(2) parser_ok_def)
  then have "ok'" "q' = q\<lparr>ps_current := Suc (ps_current q)\<rparr>"
    using assms(5) by (auto simp: parser_consume_gt_def parser_match_def parser_check_def
        parser_advance_eq parser_is_at_end_def gt_remainder_def)
  moreover have "parser_ok q'"
    using parser_consume_gt_ok [OF ok, of message] assms(5) by simp
  ultimately show ?thesis
    using q cur assms(3) by (auto simp: gt_remainder_def next_pointer_def parser_ok_def)
qed

section \<open>Witnesses\<close>

definition sample_parser :: Parser where
  "sample_parser = (the (parser_init ''a>>''))\<lparr>ps_current := 1\<rparr>"

theorem parser_init_lossless_witness:
  "\<exists>gaps. length gaps = 3 \<and> concat (map2 (\<lambda>g tok. g @ token_text ''x /*c*/y'' tok @
      (if opens_interpolation (tok_type tok) then ''${'' else [])) gaps
      (ps_tokens (the (parser_init ''x /*c*/y'')))) = ''x /*c*/y''"
proof -
  have types: "map tok_type (ps_tokens (the (parser_init ''x /*c*/y''))) =
      [TOK_IDENTIFIER, TOK_IDENTIFIER, TOK_EOF]"
    by (code_simp, simp)+
  then have three: "length (ps_tokens (the (parser_init ''x /*c*/y''))) = 3"
    by (metis length_map length_Cons list.size(3) numeral_3_eq_3)
  have "ps_has_error (the (parser_init ''x /*c*/y'')) = False"
    by (code_simp, simp)+
  moreover obtain p where "parser_init ''x /*c*/y'' = Some p"
    using parser_init_returns_Some by blast
  moreover have "NUL \<notin> set ''x /*c*/y''"
    by simp
  ultimately show ?thesis
    using parser_init_lossless [of "''x /*c*/y''" p] unfolding three [symmetric] by auto
qed

theorem parser_consume_gt_twice_witness:
  "fst (parser_consume_gt (snd (parser_consume_gt sample_parser [])) [])"
proof -
  have types: "map tok_type (ps_tokens sample_parser) = [TOK_IDENTIFIER, TOK_RSHIFT, TOK_EOF]"
    by (code_simp, simp)+
  then have "parser_ok sample_parser"
    by (auto simp: parser_ok_def sample_parser_def stop_token_def map_eq_Cons_conv)
  moreover have "tok_type (parser_current_token sample_parser) = TOK_RSHIFT"
    by (code_simp, simp)+
  moreover have "tok_start (parser_current_token sample_parser) = Src 1"
    by (code_simp, simp)+
  ultimately show ?thesis
    using parser_consume_gt_twice [of sample_parser 1 "[]"] by (metis prod.collapse)
qed

end
