(* ===== verification/TypeAlgebra.thy ===== *)
theory TypeAlgebra
  imports CText TokenTypes
begin

text \<open>
  The types of the type checker (compiler/src/sema/type_checker_types.c,
  type_checker_convert.c, type_checker_ops.c, type_checker_names.c, type_checker_check.c and
  the constructors of type_resolution_helpers.c): equality, the numeric classification and
  promotion, assignability, the merge of inferred types, the result types of the binary
  operators and the printed form of a type.  A name is \<open>None\<close> where the code has a null
  pointer; an error that the checker reports is a value \<open>Inl\<close> with its message.
\<close>

section \<open>Enumerations\<close>

datatype AstPrimitiveType =
    AST_PRIMITIVE_INT8 | AST_PRIMITIVE_INT16 | AST_PRIMITIVE_INT32 | AST_PRIMITIVE_INT64
  | AST_PRIMITIVE_UINT8 | AST_PRIMITIVE_UINT16 | AST_PRIMITIVE_UINT32 | AST_PRIMITIVE_UINT64
  | AST_PRIMITIVE_FLOAT32 | AST_PRIMITIVE_FLOAT64 | AST_PRIMITIVE_BOOL | AST_PRIMITIVE_CHAR
  | AST_PRIMITIVE_STRING | AST_PRIMITIVE_BYTE | AST_PRIMITIVE_SBYTE | AST_PRIMITIVE_SHORT
  | AST_PRIMITIVE_INT | AST_PRIMITIVE_LONG | AST_PRIMITIVE_ULONG | AST_PRIMITIVE_UINT
  | AST_PRIMITIVE_FLOAT | AST_PRIMITIVE_DOUBLE

datatype AstAssignmentOperator =
    AST_ASSIGN_OP_ASSIGN | AST_ASSIGN_OP_ADD | AST_ASSIGN_OP_SUBTRACT
  | AST_ASSIGN_OP_MULTIPLY | AST_ASSIGN_OP_DIVIDE | AST_ASSIGN_OP_MODULO
  | AST_ASSIGN_OP_BIT_AND | AST_ASSIGN_OP_BIT_OR | AST_ASSIGN_OP_BIT_XOR
  | AST_ASSIGN_OP_SHIFT_LEFT | AST_ASSIGN_OP_SHIFT_RIGHT

datatype AstBinaryOperator =
    AST_BINARY_OP_LOGICAL_OR | AST_BINARY_OP_LOGICAL_AND | AST_BINARY_OP_BIT_OR
  | AST_BINARY_OP_BIT_NAND | AST_BINARY_OP_BIT_XOR | AST_BINARY_OP_BIT_XNOR
  | AST_BINARY_OP_BIT_AND | AST_BINARY_OP_EQUAL | AST_BINARY_OP_NOT_EQUAL
  | AST_BINARY_OP_LESS | AST_BINARY_OP_GREATER | AST_BINARY_OP_LESS_EQUAL
  | AST_BINARY_OP_GREATER_EQUAL | AST_BINARY_OP_SHIFT_LEFT | AST_BINARY_OP_SHIFT_RIGHT
  | AST_BINARY_OP_ADD | AST_BINARY_OP_SUBTRACT | AST_BINARY_OP_MULTIPLY
  | AST_BINARY_OP_DIVIDE | AST_BINARY_OP_MODULO

datatype CheckedTypeKind =
    CHECKED_TYPE_INVALID | CHECKED_TYPE_VOID | CHECKED_TYPE_NULL | CHECKED_TYPE_VALUE
  | CHECKED_TYPE_EXTERNAL | CHECKED_TYPE_NAMED | CHECKED_TYPE_TYPE_PARAM

datatype ResolvedTypeKind =
    RESOLVED_TYPE_INVALID | RESOLVED_TYPE_VOID | RESOLVED_TYPE_VALUE | RESOLVED_TYPE_NAMED

section \<open>Primitive types\<close>

fun tc_primitive_type_name :: "AstPrimitiveType \<Rightarrow> string" where
  "tc_primitive_type_name AST_PRIMITIVE_INT8 = ''int8''"
| "tc_primitive_type_name AST_PRIMITIVE_INT16 = ''int16''"
| "tc_primitive_type_name AST_PRIMITIVE_INT32 = ''int32''"
| "tc_primitive_type_name AST_PRIMITIVE_INT64 = ''int64''"
| "tc_primitive_type_name AST_PRIMITIVE_UINT8 = ''uint8''"
| "tc_primitive_type_name AST_PRIMITIVE_UINT16 = ''uint16''"
| "tc_primitive_type_name AST_PRIMITIVE_UINT32 = ''uint32''"
| "tc_primitive_type_name AST_PRIMITIVE_UINT64 = ''uint64''"
| "tc_primitive_type_name AST_PRIMITIVE_FLOAT32 = ''float32''"
| "tc_primitive_type_name AST_PRIMITIVE_FLOAT64 = ''float64''"
| "tc_primitive_type_name AST_PRIMITIVE_BOOL = ''bool''"
| "tc_primitive_type_name AST_PRIMITIVE_CHAR = ''char''"
| "tc_primitive_type_name AST_PRIMITIVE_STRING = ''string''"
| "tc_primitive_type_name AST_PRIMITIVE_BYTE = ''byte''"
| "tc_primitive_type_name AST_PRIMITIVE_SBYTE = ''sbyte''"
| "tc_primitive_type_name AST_PRIMITIVE_SHORT = ''short''"
| "tc_primitive_type_name AST_PRIMITIVE_INT = ''int''"
| "tc_primitive_type_name AST_PRIMITIVE_LONG = ''long''"
| "tc_primitive_type_name AST_PRIMITIVE_ULONG = ''ulong''"
| "tc_primitive_type_name AST_PRIMITIVE_UINT = ''uint''"
| "tc_primitive_type_name AST_PRIMITIVE_FLOAT = ''float''"
| "tc_primitive_type_name AST_PRIMITIVE_DOUBLE = ''double''"

definition tc_primitive_is_float :: "AstPrimitiveType \<Rightarrow> bool" where
  "tc_primitive_is_float primitive \<longleftrightarrow>
     primitive = AST_PRIMITIVE_FLOAT32 \<or> primitive = AST_PRIMITIVE_FLOAT64"

fun tc_primitive_is_integral :: "AstPrimitiveType \<Rightarrow> bool" where
  "tc_primitive_is_integral AST_PRIMITIVE_INT8 = True"
| "tc_primitive_is_integral AST_PRIMITIVE_INT16 = True"
| "tc_primitive_is_integral AST_PRIMITIVE_INT32 = True"
| "tc_primitive_is_integral AST_PRIMITIVE_INT64 = True"
| "tc_primitive_is_integral AST_PRIMITIVE_UINT8 = True"
| "tc_primitive_is_integral AST_PRIMITIVE_UINT16 = True"
| "tc_primitive_is_integral AST_PRIMITIVE_UINT32 = True"
| "tc_primitive_is_integral AST_PRIMITIVE_UINT64 = True"
| "tc_primitive_is_integral AST_PRIMITIVE_FLOAT32 = True"
| "tc_primitive_is_integral AST_PRIMITIVE_FLOAT64 = True"
| "tc_primitive_is_integral AST_PRIMITIVE_CHAR = True"
| "tc_primitive_is_integral AST_PRIMITIVE_BYTE = True"
| "tc_primitive_is_integral AST_PRIMITIVE_SBYTE = True"
| "tc_primitive_is_integral AST_PRIMITIVE_SHORT = True"
| "tc_primitive_is_integral AST_PRIMITIVE_INT = True"
| "tc_primitive_is_integral AST_PRIMITIVE_LONG = True"
| "tc_primitive_is_integral AST_PRIMITIVE_ULONG = True"
| "tc_primitive_is_integral AST_PRIMITIVE_UINT = True"
| "tc_primitive_is_integral AST_PRIMITIVE_FLOAT = True"
| "tc_primitive_is_integral AST_PRIMITIVE_DOUBLE = True"
| "tc_primitive_is_integral AST_PRIMITIVE_BOOL = False"
| "tc_primitive_is_integral AST_PRIMITIVE_STRING = False"

fun tc_primitive_width :: "AstPrimitiveType \<Rightarrow> nat" where
  "tc_primitive_width AST_PRIMITIVE_INT8 = 8"
| "tc_primitive_width AST_PRIMITIVE_UINT8 = 8"
| "tc_primitive_width AST_PRIMITIVE_CHAR = 8"
| "tc_primitive_width AST_PRIMITIVE_BYTE = 8"
| "tc_primitive_width AST_PRIMITIVE_SBYTE = 8"
| "tc_primitive_width AST_PRIMITIVE_INT16 = 16"
| "tc_primitive_width AST_PRIMITIVE_UINT16 = 16"
| "tc_primitive_width AST_PRIMITIVE_SHORT = 16"
| "tc_primitive_width AST_PRIMITIVE_INT32 = 32"
| "tc_primitive_width AST_PRIMITIVE_UINT32 = 32"
| "tc_primitive_width AST_PRIMITIVE_FLOAT32 = 32"
| "tc_primitive_width AST_PRIMITIVE_INT = 32"
| "tc_primitive_width AST_PRIMITIVE_UINT = 32"
| "tc_primitive_width AST_PRIMITIVE_FLOAT = 32"
| "tc_primitive_width AST_PRIMITIVE_INT64 = 64"
| "tc_primitive_width AST_PRIMITIVE_UINT64 = 64"
| "tc_primitive_width AST_PRIMITIVE_FLOAT64 = 64"
| "tc_primitive_width AST_PRIMITIVE_LONG = 64"
| "tc_primitive_width AST_PRIMITIVE_ULONG = 64"
| "tc_primitive_width AST_PRIMITIVE_DOUBLE = 64"
| "tc_primitive_width AST_PRIMITIVE_BOOL = 0"
| "tc_primitive_width AST_PRIMITIVE_STRING = 0"

fun tc_primitive_is_signed :: "AstPrimitiveType \<Rightarrow> bool" where
  "tc_primitive_is_signed AST_PRIMITIVE_INT8 = True"
| "tc_primitive_is_signed AST_PRIMITIVE_INT16 = True"
| "tc_primitive_is_signed AST_PRIMITIVE_INT32 = True"
| "tc_primitive_is_signed AST_PRIMITIVE_INT64 = True"
| "tc_primitive_is_signed AST_PRIMITIVE_FLOAT32 = True"
| "tc_primitive_is_signed AST_PRIMITIVE_FLOAT64 = True"
| "tc_primitive_is_signed AST_PRIMITIVE_CHAR = True"
| "tc_primitive_is_signed AST_PRIMITIVE_SBYTE = True"
| "tc_primitive_is_signed AST_PRIMITIVE_SHORT = True"
| "tc_primitive_is_signed AST_PRIMITIVE_INT = True"
| "tc_primitive_is_signed AST_PRIMITIVE_LONG = True"
| "tc_primitive_is_signed AST_PRIMITIVE_FLOAT = True"
| "tc_primitive_is_signed AST_PRIMITIVE_DOUBLE = True"
| "tc_primitive_is_signed AST_PRIMITIVE_UINT8 = False"
| "tc_primitive_is_signed AST_PRIMITIVE_UINT16 = False"
| "tc_primitive_is_signed AST_PRIMITIVE_UINT32 = False"
| "tc_primitive_is_signed AST_PRIMITIVE_UINT64 = False"
| "tc_primitive_is_signed AST_PRIMITIVE_BOOL = False"
| "tc_primitive_is_signed AST_PRIMITIVE_STRING = False"
| "tc_primitive_is_signed AST_PRIMITIVE_BYTE = False"
| "tc_primitive_is_signed AST_PRIMITIVE_ULONG = False"
| "tc_primitive_is_signed AST_PRIMITIVE_UINT = False"

definition tc_signed_primitive_for_width :: "nat \<Rightarrow> AstPrimitiveType" where
  "tc_signed_primitive_for_width width =
     (if width \<le> 8 then AST_PRIMITIVE_INT8
      else if width \<le> 16 then AST_PRIMITIVE_INT16
      else if width \<le> 32 then AST_PRIMITIVE_INT32
      else AST_PRIMITIVE_INT64)"

definition tc_unsigned_primitive_for_width :: "nat \<Rightarrow> AstPrimitiveType" where
  "tc_unsigned_primitive_for_width width =
     (if width \<le> 8 then AST_PRIMITIVE_UINT8
      else if width \<le> 16 then AST_PRIMITIVE_UINT16
      else if width \<le> 32 then AST_PRIMITIVE_UINT32
      else AST_PRIMITIVE_UINT64)"

section \<open>Checked types\<close>

record CheckedType =
  ct_kind :: CheckedTypeKind
  ct_primitive :: AstPrimitiveType
  ct_array_depth :: nat
  ct_name :: "string option"
  ct_generic_arg_count :: nat

text \<open>The all-zero value that every constructor starts from.\<close>

definition tc_checked_type_invalid :: CheckedType where
  "tc_checked_type_invalid =
     \<lparr>ct_kind = CHECKED_TYPE_INVALID, ct_primitive = AST_PRIMITIVE_INT8, ct_array_depth = 0,
      ct_name = None, ct_generic_arg_count = 0\<rparr>"

definition tc_checked_type_void :: CheckedType where
  "tc_checked_type_void = tc_checked_type_invalid\<lparr>ct_kind := CHECKED_TYPE_VOID\<rparr>"

definition tc_checked_type_null :: CheckedType where
  "tc_checked_type_null = tc_checked_type_invalid\<lparr>ct_kind := CHECKED_TYPE_NULL\<rparr>"

definition tc_checked_type_external :: CheckedType where
  "tc_checked_type_external = tc_checked_type_invalid\<lparr>ct_kind := CHECKED_TYPE_EXTERNAL\<rparr>"

definition tc_checked_type_value :: "AstPrimitiveType \<Rightarrow> nat \<Rightarrow> CheckedType" where
  "tc_checked_type_value primitive array_depth =
     tc_checked_type_invalid\<lparr>ct_kind := CHECKED_TYPE_VALUE, ct_primitive := primitive,
       ct_array_depth := array_depth\<rparr>"

definition tc_checked_type_named :: "string option \<Rightarrow> nat \<Rightarrow> nat \<Rightarrow> CheckedType" where
  "tc_checked_type_named name generic_arg_count array_depth =
     tc_checked_type_invalid\<lparr>ct_kind := CHECKED_TYPE_NAMED, ct_name := name,
       ct_generic_arg_count := generic_arg_count, ct_array_depth := array_depth\<rparr>"

definition tc_checked_type_type_param :: "string option \<Rightarrow> CheckedType" where
  "tc_checked_type_type_param name =
     tc_checked_type_invalid\<lparr>ct_kind := CHECKED_TYPE_TYPE_PARAM, ct_name := name\<rparr>"

definition tc_checked_type_is_hetero_array :: "CheckedType \<Rightarrow> bool" where
  "tc_checked_type_is_hetero_array type \<longleftrightarrow>
     ct_kind type = CHECKED_TYPE_NAMED \<and> ct_name type = Some ''arr'' \<and>
     ct_generic_arg_count type \<ge> 1 \<and> ct_array_depth type = 0"

definition tc_checked_type_equals :: "CheckedType \<Rightarrow> CheckedType \<Rightarrow> bool" where
  "tc_checked_type_equals left right =
     (if ct_kind left \<noteq> ct_kind right then False
      else if ct_kind left = CHECKED_TYPE_NAMED \<or> ct_kind left = CHECKED_TYPE_TYPE_PARAM
      then (case (ct_name left, ct_name right) of
              (Some l, Some r) \<Rightarrow>
                l = r \<and> ct_generic_arg_count left = ct_generic_arg_count right \<and>
                ct_array_depth left = ct_array_depth right
            | (l, r) \<Rightarrow> l = r)
      else ct_primitive left = ct_primitive right \<and> ct_array_depth left = ct_array_depth right)"

definition tc_checked_type_is_scalar_value :: "CheckedType \<Rightarrow> bool" where
  "tc_checked_type_is_scalar_value type \<longleftrightarrow>
     ct_kind type = CHECKED_TYPE_VALUE \<and> ct_array_depth type = 0"

definition tc_checked_type_is_bool :: "CheckedType \<Rightarrow> bool" where
  "tc_checked_type_is_bool type \<longleftrightarrow>
     tc_checked_type_is_scalar_value type \<and> ct_primitive type = AST_PRIMITIVE_BOOL"

definition tc_checked_type_is_string :: "CheckedType \<Rightarrow> bool" where
  "tc_checked_type_is_string type \<longleftrightarrow>
     tc_checked_type_is_scalar_value type \<and> ct_primitive type = AST_PRIMITIVE_STRING"

definition tc_checked_type_is_numeric :: "CheckedType \<Rightarrow> bool" where
  "tc_checked_type_is_numeric type \<longleftrightarrow>
     tc_checked_type_is_scalar_value type \<and> tc_primitive_is_integral (ct_primitive type)"

definition tc_checked_type_is_integral :: "CheckedType \<Rightarrow> bool" where
  "tc_checked_type_is_integral type \<longleftrightarrow>
     tc_checked_type_is_scalar_value type \<and> tc_primitive_is_integral (ct_primitive type) \<and>
     \<not> tc_primitive_is_float (ct_primitive type)"

definition tc_checked_type_is_reference_like :: "CheckedType \<Rightarrow> bool" where
  "tc_checked_type_is_reference_like type \<longleftrightarrow>
     (ct_kind type = CHECKED_TYPE_VALUE \<and>
        (ct_array_depth type > 0 \<or> ct_primitive type = AST_PRIMITIVE_STRING)) \<or>
     ct_kind type = CHECKED_TYPE_EXTERNAL"

section \<open>Conversions\<close>

definition tc_promote_numeric_types :: "CheckedType \<Rightarrow> CheckedType \<Rightarrow> CheckedType" where
  "tc_promote_numeric_types left right =
     (if \<not> tc_checked_type_is_numeric left \<or> \<not> tc_checked_type_is_numeric right
      then tc_checked_type_invalid
      else if tc_primitive_is_float (ct_primitive left) \<or> tc_primitive_is_float (ct_primitive right)
      then (if ct_primitive left = AST_PRIMITIVE_FLOAT64 \<or> ct_primitive right = AST_PRIMITIVE_FLOAT64
            then tc_checked_type_value AST_PRIMITIVE_FLOAT64 0
            else tc_checked_type_value AST_PRIMITIVE_FLOAT32 0)
      else let width = tc_primitive_width (ct_primitive left);
               width = (if tc_primitive_width (ct_primitive right) > width
                        then tc_primitive_width (ct_primitive right) else width)
           in if tc_primitive_is_signed (ct_primitive left) = tc_primitive_is_signed (ct_primitive right)
              then (if tc_primitive_is_signed (ct_primitive left)
                    then tc_checked_type_value (tc_signed_primitive_for_width width) 0
                    else tc_checked_type_value (tc_unsigned_primitive_for_width width) 0)
              else if width < 64 then tc_checked_type_value AST_PRIMITIVE_INT64 0
              else if \<not> tc_primitive_is_signed (ct_primitive left) \<or>
                      \<not> tc_primitive_is_signed (ct_primitive right)
              then tc_checked_type_value AST_PRIMITIVE_UINT64 0
              else tc_checked_type_value AST_PRIMITIVE_INT64 0)"

record ResolvedType =
  rt_kind :: ResolvedTypeKind
  rt_primitive :: AstPrimitiveType
  rt_array_depth :: nat
  rt_name :: "string option"
  rt_generic_arg_count :: nat

definition tc_checked_type_from_resolved_type :: "ResolvedType \<Rightarrow> CheckedType" where
  "tc_checked_type_from_resolved_type type =
     (case rt_kind type of
        RESOLVED_TYPE_INVALID \<Rightarrow> tc_checked_type_invalid
      | RESOLVED_TYPE_VOID \<Rightarrow> tc_checked_type_void
      | RESOLVED_TYPE_VALUE \<Rightarrow> tc_checked_type_value (rt_primitive type) (rt_array_depth type)
      | RESOLVED_TYPE_NAMED \<Rightarrow>
          tc_checked_type_named (rt_name type) (rt_generic_arg_count type) (rt_array_depth type))"

definition tc_checked_type_assignable :: "CheckedType \<Rightarrow> CheckedType \<Rightarrow> bool" where
  "tc_checked_type_assignable target source =
     (if ct_kind target = CHECKED_TYPE_INVALID \<or> ct_kind source = CHECKED_TYPE_INVALID then False
      else if tc_checked_type_equals target source then True
      else if ct_kind target = CHECKED_TYPE_VOID
      then ct_kind source = CHECKED_TYPE_VOID \<or> ct_kind source = CHECKED_TYPE_NULL \<or>
           ct_kind source = CHECKED_TYPE_EXTERNAL
      else if ct_kind source = CHECKED_TYPE_VOID then False
      else if ct_kind target = CHECKED_TYPE_EXTERNAL then ct_kind source \<noteq> CHECKED_TYPE_VOID
      else if ct_kind source = CHECKED_TYPE_EXTERNAL then ct_kind target \<noteq> CHECKED_TYPE_VOID
      else if ct_kind target = CHECKED_TYPE_VALUE \<and> ct_kind source = CHECKED_TYPE_NULL
      then tc_checked_type_is_reference_like target
      else if ct_kind target = CHECKED_TYPE_VALUE \<and> ct_kind source = CHECKED_TYPE_VALUE \<and>
              ct_array_depth target \<noteq> ct_array_depth source
      then False
      else if ct_kind target = CHECKED_TYPE_VALUE \<and> ct_kind source = CHECKED_TYPE_VALUE \<and>
              ct_array_depth target = 0 \<and>
              tc_checked_type_is_numeric target \<and> tc_checked_type_is_numeric source
      then True
      else if tc_checked_type_is_hetero_array target \<and>
              ct_kind source = CHECKED_TYPE_VALUE \<and> ct_array_depth source = 1
      then True
      else if tc_checked_type_is_hetero_array target \<and> tc_checked_type_is_hetero_array source
      then True
      else False)"

definition tc_merge_types_for_inference :: "CheckedType \<Rightarrow> CheckedType \<Rightarrow> CheckedType option" where
  "tc_merge_types_for_inference left right =
     (if tc_checked_type_equals left right then Some left
      else if ct_kind left = CHECKED_TYPE_EXTERNAL \<or> ct_kind right = CHECKED_TYPE_EXTERNAL
      then Some tc_checked_type_external
      else if ct_kind left = CHECKED_TYPE_VALUE \<and> ct_kind right = CHECKED_TYPE_VALUE \<and>
              ct_array_depth left = 0 \<and> ct_array_depth right = 0 \<and>
              tc_checked_type_is_numeric left \<and> tc_checked_type_is_numeric right
      then Some (tc_promote_numeric_types left right)
      else None)"

definition tc_merge_return_types :: "CheckedType \<Rightarrow> CheckedType \<Rightarrow> CheckedType option" where
  "tc_merge_return_types left right =
     (if (ct_kind left = CHECKED_TYPE_VOID \<and> ct_kind right = CHECKED_TYPE_NULL) \<or>
         (ct_kind left = CHECKED_TYPE_NULL \<and> ct_kind right = CHECKED_TYPE_VOID)
      then Some tc_checked_type_void
      else tc_merge_types_for_inference left right)"

section \<open>The printed form of a type\<close>

text \<open>
  \<open>checked_type_to_string\<close> writes into a buffer with \<open>snprintf\<close>: the result is the success
  flag and the text in the buffer, which a write cuts at \<open>buffer_size - 1\<close> characters.
\<close>

fun append_dimensions :: "nat \<Rightarrow> nat \<Rightarrow> string \<Rightarrow> bool \<times> string" where
  "append_dimensions buffer_size 0 written = (True, written)"
| "append_dimensions buffer_size (Suc n) written =
     (let written = written @ ''[]''
      in if length written \<ge> buffer_size then (False, snprintf buffer_size written)
         else append_dimensions buffer_size n written)"

definition checked_type_to_string :: "CheckedType \<Rightarrow> nat \<Rightarrow> bool \<times> string" where
  "checked_type_to_string type buffer_size =
     (if buffer_size = 0 then (False, [])
      else (case ct_kind type of
        CHECKED_TYPE_INVALID \<Rightarrow> (True, snprintf buffer_size ''<invalid>'')
      | CHECKED_TYPE_VOID \<Rightarrow> (True, snprintf buffer_size ''void'')
      | CHECKED_TYPE_NULL \<Rightarrow> (True, snprintf buffer_size ''null'')
      | CHECKED_TYPE_EXTERNAL \<Rightarrow> (True, snprintf buffer_size ''<external>'')
      | CHECKED_TYPE_VALUE \<Rightarrow>
          (let written = tc_primitive_type_name (ct_primitive type)
           in if length written \<ge> buffer_size then (False, snprintf buffer_size written)
              else append_dimensions buffer_size (ct_array_depth type) written)
      | CHECKED_TYPE_NAMED \<Rightarrow>
          (let written = (case ct_name type of Some name \<Rightarrow> name | None \<Rightarrow> ''?'')
           in if length written \<ge> buffer_size then (False, snprintf buffer_size written)
              else if ct_generic_arg_count type > 0
              then (let written = written @ ''<...'' @ print_nat (ct_generic_arg_count type) @ ''>''
                    in if length written \<ge> buffer_size then (False, snprintf buffer_size written)
                       else append_dimensions buffer_size (ct_array_depth type) written)
              else append_dimensions buffer_size (ct_array_depth type) written)
      | CHECKED_TYPE_TYPE_PARAM \<Rightarrow>
          (True, snprintf buffer_size (case ct_name type of Some name \<Rightarrow> name | None \<Rightarrow> ''?''))))"

section \<open>Operators\<close>

text \<open>
  The operand type that is not external, or the external type when both are: the result of
  an operator one of whose operands comes from outside the program.
\<close>

definition known_operand :: "CheckedType \<Rightarrow> CheckedType \<Rightarrow> CheckedType" where
  "known_operand left_type right_type =
     (if ct_kind left_type \<noteq> CHECKED_TYPE_EXTERNAL then left_type
      else if ct_kind right_type \<noteq> CHECKED_TYPE_EXTERNAL then right_type
      else tc_checked_type_external)"

definition has_external :: "CheckedType \<Rightarrow> CheckedType \<Rightarrow> bool" where
  "has_external left_type right_type \<longleftrightarrow>
     ct_kind left_type = CHECKED_TYPE_EXTERNAL \<or> ct_kind right_type = CHECKED_TYPE_EXTERNAL"

fun tc_binary_operator_name :: "AstBinaryOperator \<Rightarrow> string" where
  "tc_binary_operator_name AST_BINARY_OP_LOGICAL_OR = ''||''"
| "tc_binary_operator_name AST_BINARY_OP_LOGICAL_AND = ''&&''"
| "tc_binary_operator_name AST_BINARY_OP_BIT_OR = ''|''"
| "tc_binary_operator_name AST_BINARY_OP_BIT_NAND = ''~&''"
| "tc_binary_operator_name AST_BINARY_OP_BIT_XOR = ''^''"
| "tc_binary_operator_name AST_BINARY_OP_BIT_XNOR = ''~^''"
| "tc_binary_operator_name AST_BINARY_OP_BIT_AND = ''&''"
| "tc_binary_operator_name AST_BINARY_OP_EQUAL = ''==''"
| "tc_binary_operator_name AST_BINARY_OP_NOT_EQUAL = ''!=''"
| "tc_binary_operator_name AST_BINARY_OP_LESS = ''<''"
| "tc_binary_operator_name AST_BINARY_OP_GREATER = ''>''"
| "tc_binary_operator_name AST_BINARY_OP_LESS_EQUAL = ''<=''"
| "tc_binary_operator_name AST_BINARY_OP_GREATER_EQUAL = ''>=''"
| "tc_binary_operator_name AST_BINARY_OP_SHIFT_LEFT = ''<<''"
| "tc_binary_operator_name AST_BINARY_OP_SHIFT_RIGHT = ''>>''"
| "tc_binary_operator_name AST_BINARY_OP_ADD = ''+''"
| "tc_binary_operator_name AST_BINARY_OP_SUBTRACT = ''-''"
| "tc_binary_operator_name AST_BINARY_OP_MULTIPLY = ''*''"
| "tc_binary_operator_name AST_BINARY_OP_DIVIDE = ''/''"
| "tc_binary_operator_name AST_BINARY_OP_MODULO = ''%''"

text \<open>The message of the error that is reported when no rule applies.\<close>

definition operand_error :: "AstBinaryOperator \<Rightarrow> CheckedType \<Rightarrow> CheckedType \<Rightarrow> string" where
  "operand_error operator left_type right_type =
     (let left_text = snd (checked_type_to_string left_type 64);
          right_text = snd (checked_type_to_string right_type 64)
      in take 255 (''Operator '' @ [CHR 0x27] @ tc_binary_operator_name operator @ [CHR 0x27] @
           '' cannot be applied to types '' @ left_text @ '' and '' @ right_text @ ''.''))"


definition tc_check_binary_operator ::
  "AstBinaryOperator \<Rightarrow> CheckedType \<Rightarrow> CheckedType \<Rightarrow> string + CheckedType" where
  "tc_check_binary_operator operator left_type right_type =
     (let error = operand_error operator left_type right_type in
      if operator \<in> {AST_BINARY_OP_LOGICAL_OR, AST_BINARY_OP_LOGICAL_AND} then
        (if tc_checked_type_is_bool left_type \<and> tc_checked_type_is_bool right_type
         then Inr (tc_checked_type_value AST_PRIMITIVE_BOOL 0)
         else if has_external left_type right_type
         then Inr (tc_checked_type_value AST_PRIMITIVE_BOOL 0)
         else Inl error)
      else if operator \<in> {AST_BINARY_OP_BIT_OR, AST_BINARY_OP_BIT_NAND, AST_BINARY_OP_BIT_XOR,
                          AST_BINARY_OP_BIT_XNOR, AST_BINARY_OP_BIT_AND} then
        (if tc_checked_type_is_integral left_type \<and> tc_checked_type_is_integral right_type
         then Inr (tc_promote_numeric_types left_type right_type)
         else if has_external left_type right_type
         then Inr (known_operand left_type right_type)
         else Inl error)
      else if operator \<in> {AST_BINARY_OP_EQUAL, AST_BINARY_OP_NOT_EQUAL} then
        (if tc_checked_type_equals left_type right_type \<or>
            (tc_checked_type_is_numeric left_type \<and> tc_checked_type_is_numeric right_type) \<or>
            ((ct_kind left_type = CHECKED_TYPE_NULL \<and> tc_checked_type_is_reference_like right_type) \<or>
             (ct_kind right_type = CHECKED_TYPE_NULL \<and> tc_checked_type_is_reference_like left_type)) \<or>
            has_external left_type right_type
         then Inr (tc_checked_type_value AST_PRIMITIVE_BOOL 0)
         else Inl error)
      else if operator \<in> {AST_BINARY_OP_LESS, AST_BINARY_OP_GREATER, AST_BINARY_OP_LESS_EQUAL,
                          AST_BINARY_OP_GREATER_EQUAL} then
        (if tc_checked_type_is_numeric left_type \<and> tc_checked_type_is_numeric right_type
         then Inr (tc_checked_type_value AST_PRIMITIVE_BOOL 0)
         else if has_external left_type right_type
         then Inr (tc_checked_type_value AST_PRIMITIVE_BOOL 0)
         else Inl error)
      else if operator \<in> {AST_BINARY_OP_SHIFT_LEFT, AST_BINARY_OP_SHIFT_RIGHT} then
        (if tc_checked_type_is_integral left_type \<and> tc_checked_type_is_integral right_type
         then Inr left_type
         else if has_external left_type right_type
         then Inr (known_operand left_type right_type)
         else Inl error)
      else if operator = AST_BINARY_OP_ADD then
        (if tc_checked_type_is_string left_type \<and> tc_checked_type_is_string right_type
         then Inr (tc_checked_type_value AST_PRIMITIVE_STRING 0)
         else if tc_checked_type_is_numeric left_type \<and> tc_checked_type_is_numeric right_type
         then Inr (tc_promote_numeric_types left_type right_type)
         else if has_external left_type right_type
         then Inr (known_operand left_type right_type)
         else Inl error)
      else if operator \<in> {AST_BINARY_OP_SUBTRACT, AST_BINARY_OP_MULTIPLY, AST_BINARY_OP_DIVIDE} then
        (if tc_checked_type_is_numeric left_type \<and> tc_checked_type_is_numeric right_type
         then Inr (tc_promote_numeric_types left_type right_type)
         else if has_external left_type right_type
         then Inr (known_operand left_type right_type)
         else Inl error)
      else
        (if tc_checked_type_is_integral left_type \<and> tc_checked_type_is_integral right_type
         then Inr (tc_promote_numeric_types left_type right_type)
         else if has_external left_type right_type
         then Inr (known_operand left_type right_type)
         else Inl error))"

fun tc_map_compound_assignment :: "AstAssignmentOperator \<Rightarrow> AstBinaryOperator option" where
  "tc_map_compound_assignment AST_ASSIGN_OP_ADD = Some AST_BINARY_OP_ADD"
| "tc_map_compound_assignment AST_ASSIGN_OP_SUBTRACT = Some AST_BINARY_OP_SUBTRACT"
| "tc_map_compound_assignment AST_ASSIGN_OP_MULTIPLY = Some AST_BINARY_OP_MULTIPLY"
| "tc_map_compound_assignment AST_ASSIGN_OP_DIVIDE = Some AST_BINARY_OP_DIVIDE"
| "tc_map_compound_assignment AST_ASSIGN_OP_MODULO = Some AST_BINARY_OP_MODULO"
| "tc_map_compound_assignment AST_ASSIGN_OP_BIT_AND = Some AST_BINARY_OP_BIT_AND"
| "tc_map_compound_assignment AST_ASSIGN_OP_BIT_OR = Some AST_BINARY_OP_BIT_OR"
| "tc_map_compound_assignment AST_ASSIGN_OP_BIT_XOR = Some AST_BINARY_OP_BIT_XOR"
| "tc_map_compound_assignment AST_ASSIGN_OP_SHIFT_LEFT = Some AST_BINARY_OP_SHIFT_LEFT"
| "tc_map_compound_assignment AST_ASSIGN_OP_SHIFT_RIGHT = Some AST_BINARY_OP_SHIFT_RIGHT"
| "tc_map_compound_assignment AST_ASSIGN_OP_ASSIGN = None"


section \<open>Equality and assignment\<close>

lemmas checked_type_defs =
  tc_checked_type_invalid_def tc_checked_type_void_def tc_checked_type_null_def
  tc_checked_type_external_def tc_checked_type_value_def tc_checked_type_named_def
  tc_checked_type_type_param_def

lemmas checked_type_tests =
  tc_checked_type_is_scalar_value_def tc_checked_type_is_bool_def tc_checked_type_is_string_def
  tc_checked_type_is_numeric_def tc_checked_type_is_integral_def
  tc_checked_type_is_reference_like_def

lemma equals_refl [simp]: "tc_checked_type_equals t t"
  by (simp add: tc_checked_type_equals_def split: option.split)

lemma equals_sym: "tc_checked_type_equals l r = tc_checked_type_equals r l"
  by (auto simp: tc_checked_type_equals_def split: option.split)

lemma equals_trans:
  "tc_checked_type_equals a b \<Longrightarrow> tc_checked_type_equals b c \<Longrightarrow> tc_checked_type_equals a c"
  by (auto simp: tc_checked_type_equals_def split: if_splits option.splits)

lemma assignable_refl: "ct_kind t \<noteq> CHECKED_TYPE_INVALID \<Longrightarrow> tc_checked_type_assignable t t"
  by (simp add: tc_checked_type_assignable_def)

lemma numeric_assignable:
  "tc_checked_type_is_numeric target \<Longrightarrow> tc_checked_type_is_numeric source \<Longrightarrow>
   tc_checked_type_assignable target source"
  by (simp add: tc_checked_type_assignable_def checked_type_tests)

lemma external_assignable:
  "ct_kind t \<notin> {CHECKED_TYPE_INVALID, CHECKED_TYPE_VOID} \<Longrightarrow>
   tc_checked_type_assignable tc_checked_type_external t \<and>
   tc_checked_type_assignable t tc_checked_type_external"
  by (auto simp: tc_checked_type_assignable_def checked_type_defs)

section \<open>Promotion\<close>

text \<open>The values of an integer type; the checker's notion of signedness and width.\<close>

definition primitive_range :: "AstPrimitiveType \<Rightarrow> int set" where
  "primitive_range p =
     (if tc_primitive_is_signed p
      then {- (2 ^ (tc_primitive_width p - 1)) .. 2 ^ (tc_primitive_width p - 1) - 1}
      else {0 .. 2 ^ tc_primitive_width p - 1})"

text \<open>
  The numeric types that are integers.  The checker's own test \<open>tc_checked_type_is_integral\<close>
  also accepts the aliases \<open>float\<close> and \<open>double\<close>.
\<close>

definition is_integer_primitive :: "AstPrimitiveType \<Rightarrow> bool" where
  "is_integer_primitive p \<longleftrightarrow>
     tc_primitive_is_integral p \<and>
     p \<notin> {AST_PRIMITIVE_FLOAT32, AST_PRIMITIVE_FLOAT64, AST_PRIMITIVE_FLOAT, AST_PRIMITIVE_DOUBLE}"

lemma promote_value:
  "tc_checked_type_is_numeric l \<Longrightarrow> tc_checked_type_is_numeric r \<Longrightarrow>
   ct_kind (tc_promote_numeric_types l r) = CHECKED_TYPE_VALUE \<and>
   ct_array_depth (tc_promote_numeric_types l r) = 0"
  by (simp add: tc_promote_numeric_types_def checked_type_defs Let_def)

lemma signed_for_width_numeric [simp]:
  "tc_primitive_is_integral (tc_signed_primitive_for_width w)"
  "tc_primitive_is_integral (tc_unsigned_primitive_for_width w)"
  by (simp_all add: tc_signed_primitive_for_width_def tc_unsigned_primitive_for_width_def)

lemma promote_numeric:
  "tc_checked_type_is_numeric l \<Longrightarrow> tc_checked_type_is_numeric r \<Longrightarrow>
   tc_checked_type_is_numeric (tc_promote_numeric_types l r)"
  by (simp add: tc_promote_numeric_types_def checked_type_defs Let_def checked_type_tests)

lemma promote_alt:
  "tc_promote_numeric_types l r =
     (if \<not> tc_checked_type_is_numeric l \<or> \<not> tc_checked_type_is_numeric r then tc_checked_type_invalid
      else if tc_primitive_is_float (ct_primitive l) \<or> tc_primitive_is_float (ct_primitive r)
      then tc_checked_type_value
        (if ct_primitive l = AST_PRIMITIVE_FLOAT64 \<or> ct_primitive r = AST_PRIMITIVE_FLOAT64
         then AST_PRIMITIVE_FLOAT64 else AST_PRIMITIVE_FLOAT32) 0
      else let w = max (tc_primitive_width (ct_primitive l)) (tc_primitive_width (ct_primitive r)) in
        tc_checked_type_value
          (if tc_primitive_is_signed (ct_primitive l) = tc_primitive_is_signed (ct_primitive r)
           then (if tc_primitive_is_signed (ct_primitive l) then tc_signed_primitive_for_width w
                 else tc_unsigned_primitive_for_width w)
           else if w < 64 then AST_PRIMITIVE_INT64 else AST_PRIMITIVE_UINT64) 0)"
proof -
  have width: "(if v < w then w else v) = max v w" for v w :: nat
    by (simp add: max_def)
  show ?thesis
    unfolding tc_promote_numeric_types_def Let_def width by (simp split: if_split)
qed

lemma promote_commute: "tc_promote_numeric_types l r = tc_promote_numeric_types r l"
  unfolding promote_alt [of l r] promote_alt [of r l] Let_def
    max.commute [of "tc_primitive_width (ct_primitive r)"]
  by (cases "tc_primitive_is_signed (ct_primitive l)";
      cases "tc_primitive_is_signed (ct_primitive r)") (simp_all add: disj_commute)

text \<open>An integer type with a given signedness and at least a given width.\<close>

lemma range_signed_for_width:
  assumes "w \<in> {8, 16, 32, 64}"
  shows "primitive_range (tc_signed_primitive_for_width w) = {- (2 ^ (w - 1)) .. 2 ^ (w - 1) - 1}"
    and "primitive_range (tc_unsigned_primitive_for_width w) = {0 .. 2 ^ w - 1}"
  using assms by (auto simp: primitive_range_def tc_signed_primitive_for_width_def
      tc_unsigned_primitive_for_width_def)

lemma integer_width: "is_integer_primitive p \<Longrightarrow> tc_primitive_width p \<in> {8, 16, 32, 64}"
  by (cases p) (simp_all add: is_integer_primitive_def)

lemma integer_not_float: "is_integer_primitive p \<Longrightarrow> \<not> tc_primitive_is_float p"
  by (auto simp: is_integer_primitive_def tc_primitive_is_float_def)

lemma range_integer:
  "is_integer_primitive p \<Longrightarrow>
   primitive_range p =
     (if tc_primitive_is_signed p then primitive_range (tc_signed_primitive_for_width (tc_primitive_width p))
      else primitive_range (tc_unsigned_primitive_for_width (tc_primitive_width p)))"
  using range_signed_for_width [OF integer_width] by (simp add: primitive_range_def)

lemma range_for_width_mono:
  assumes "v \<in> {8, 16, 32, 64}" and "w \<in> {8, 16, 32, 64}" and "v \<le> w"
  shows "primitive_range (tc_signed_primitive_for_width v) \<subseteq> primitive_range (tc_signed_primitive_for_width w)"
    and "primitive_range (tc_unsigned_primitive_for_width v) \<subseteq> primitive_range (tc_unsigned_primitive_for_width w)"
  using assms by (auto simp: range_signed_for_width)

lemma range_narrow:
  assumes "is_integer_primitive p" and "tc_primitive_width p < 64"
  shows "primitive_range p \<subseteq> primitive_range AST_PRIMITIVE_INT64"
  using assms integer_width [OF assms(1)] by (auto simp: primitive_range_def)

lemma promote_integers:
  assumes "is_integer_primitive p" and "is_integer_primitive q"
  shows "tc_promote_numeric_types (tc_checked_type_value p 0) (tc_checked_type_value q 0) =
    tc_checked_type_value
      (let w = max (tc_primitive_width p) (tc_primitive_width q) in
       if tc_primitive_is_signed p = tc_primitive_is_signed q
       then (if tc_primitive_is_signed p then tc_signed_primitive_for_width w
             else tc_unsigned_primitive_for_width w)
       else if w < 64 then AST_PRIMITIVE_INT64 else AST_PRIMITIVE_UINT64) 0"
proof -
  have "tc_primitive_is_integral p" "tc_primitive_is_integral q"
    using assms by (simp_all add: is_integer_primitive_def)
  then have "tc_checked_type_is_numeric (tc_checked_type_value p 0)"
    "tc_checked_type_is_numeric (tc_checked_type_value q 0)"
    by (simp_all add: checked_type_tests checked_type_defs)
  moreover have "ct_primitive (tc_checked_type_value p' 0) = p'" for p'
    by (simp add: checked_type_defs)
  ultimately show ?thesis
    using integer_not_float [OF assms(1)] integer_not_float [OF assms(2)]
    by (simp add: promote_alt Let_def)
qed

section \<open>Operators\<close>

lemma integral_numeric: "tc_checked_type_is_integral t \<Longrightarrow> tc_checked_type_is_numeric t"
  by (simp add: checked_type_tests)

lemma compound_operators:
  "tc_map_compound_assignment aop = Some bop \<Longrightarrow>
   bop \<in> {AST_BINARY_OP_ADD, AST_BINARY_OP_SUBTRACT, AST_BINARY_OP_MULTIPLY, AST_BINARY_OP_DIVIDE,
     AST_BINARY_OP_MODULO, AST_BINARY_OP_BIT_AND, AST_BINARY_OP_BIT_OR, AST_BINARY_OP_BIT_XOR,
     AST_BINARY_OP_SHIFT_LEFT, AST_BINARY_OP_SHIFT_RIGHT}"
  by (cases aop) auto

lemma compound_operator_result:
  assumes "tc_map_compound_assignment aop = Some bop" and "tc_check_binary_operator bop l r = Inr t"
  shows "(tc_checked_type_is_numeric l \<and> tc_checked_type_is_numeric t) \<or>
    (has_external l r \<and> t = known_operand l r) \<or> 
    (tc_checked_type_is_string l \<and> t = tc_checked_type_value AST_PRIMITIVE_STRING 0)"
  using assms compound_operators [OF assms(1)] promote_numeric [of l r]
    integral_numeric [of l] integral_numeric [of r]
  by (elim insertE) (auto simp: tc_check_binary_operator_def Let_def split: if_splits)

lemma string_assignable:
  "tc_checked_type_is_string l \<Longrightarrow> tc_checked_type_assignable l (tc_checked_type_value AST_PRIMITIVE_STRING 0)"
  by (simp add: tc_checked_type_assignable_def tc_checked_type_equals_def checked_type_tests checked_type_defs)

section \<open>The printed form\<close>

lemma append_dimensions_bound:
  "0 < n \<Longrightarrow> length written < n \<Longrightarrow> length (snd (append_dimensions n d written)) < n"
  by (induction n d written rule: append_dimensions.induct) (auto simp: Let_def snprintf_bound)

lemma append_dimensions_text:
  "append_dimensions n d written = (True, text) \<Longrightarrow> text = written @ concat (replicate d ''[]'')"
  by (induction n d written rule: append_dimensions.induct) (auto simp: Let_def split: if_splits)

section \<open>Properties of checked types\<close>

text \<open>
  Type equality is an equivalence: the test the checker uses for assignment, inference
  and the equality operators is reflexive, symmetric and transitive on all checked types,
  those with null names included.
\<close>

theorem checked_type_equals_equivp: "equivp tc_checked_type_equals"
  by (intro equivpI reflpI sympI transpI) (auto intro: equals_trans simp: equals_sym)

text \<open>
  C14 Integer promotion preserves values: the promoted type of two integer types is the
  same whatever their order, and its range includes both ranges, except when a signed
  and an unsigned type meet and one of them has 64 bits.
\<close>

theorem promote_preserves_values:
  assumes "is_integer_primitive p" and "is_integer_primitive q"
    and "tc_primitive_is_signed p = tc_primitive_is_signed q \<or>
      tc_primitive_width p < 64 \<and> tc_primitive_width q < 64"
  shows "\<exists>r. tc_promote_numeric_types (tc_checked_type_value p 0) (tc_checked_type_value q 0) =
        tc_checked_type_value r 0 \<and>
      tc_promote_numeric_types (tc_checked_type_value q 0) (tc_checked_type_value p 0) =
        tc_checked_type_value r 0 \<and>
      is_integer_primitive r \<and> primitive_range p \<union> primitive_range q \<subseteq> primitive_range r"
proof -
  let ?v = "tc_primitive_width p" and ?w = "tc_primitive_width q"
  let ?r = "let w = max ?v ?w in
       if tc_primitive_is_signed p = tc_primitive_is_signed q
       then (if tc_primitive_is_signed p then tc_signed_primitive_for_width w
             else tc_unsigned_primitive_for_width w)
       else if w < 64 then AST_PRIMITIVE_INT64 else AST_PRIMITIVE_UINT64"
  note widths = integer_width [OF assms(1)] integer_width [OF assms(2)]
  have "max ?v ?w \<in> {8, 16, 32, 64}"
    using widths by (auto simp: max_def)
  then have mono: "primitive_range p \<union> primitive_range q \<subseteq> primitive_range ?r"
  proof (cases "tc_primitive_is_signed p = tc_primitive_is_signed q")
    case True
    then show ?thesis
      using range_for_width_mono [OF widths(1) \<open>max ?v ?w \<in> _\<close>]
        range_for_width_mono [OF widths(2) \<open>max ?v ?w \<in> _\<close>]
      by (simp add: range_integer [OF assms(1)] range_integer [OF assms(2)] Let_def)
  next
    case False
    then show ?thesis
      using assms range_narrow [OF assms(1)] range_narrow [OF assms(2)] by (auto simp: Let_def)
  qed
  moreover have "is_integer_primitive ?r"
    by (simp add: Let_def is_integer_primitive_def tc_signed_primitive_for_width_def
        tc_unsigned_primitive_for_width_def)
  ultimately show ?thesis
    using promote_integers [OF assms(1,2)] promote_commute by metis
qed

theorem promote_preserves_values_witness:
  "\<exists>r. tc_promote_numeric_types (tc_checked_type_value AST_PRIMITIVE_BYTE 0)
      (tc_checked_type_value AST_PRIMITIVE_SHORT 0) = tc_checked_type_value r 0 \<and>
    primitive_range AST_PRIMITIVE_BYTE \<subseteq> primitive_range r"
  using promote_preserves_values [of AST_PRIMITIVE_BYTE AST_PRIMITIVE_SHORT]
  by (auto simp: is_integer_primitive_def)

text \<open>
  Compound assignment is closed: whenever the operator of a compound assignment is
  accepted for a known target type, its result can be assigned to that target again.
\<close>

theorem compound_assignment_assignable:
  assumes "tc_map_compound_assignment aop = Some bop"
    and "tc_check_binary_operator bop target source = Inr result"
    and "ct_kind target \<notin> {CHECKED_TYPE_INVALID, CHECKED_TYPE_EXTERNAL}"
  shows "tc_checked_type_assignable target result"
  using compound_operator_result [OF assms(1,2)] assms(3)
  by (auto simp: known_operand_def numeric_assignable assignable_refl string_assignable)

theorem compound_assignment_assignable_witness:
  "tc_checked_type_assignable (tc_checked_type_value AST_PRIMITIVE_BYTE 0)
     (tc_checked_type_value AST_PRIMITIVE_INT64 0)"
  by (rule compound_assignment_assignable [of AST_ASSIGN_OP_ADD AST_BINARY_OP_ADD _
        "tc_checked_type_value AST_PRIMITIVE_INT32 0"])
    (simp_all add: tc_check_binary_operator_def tc_promote_numeric_types_def Let_def
      checked_type_tests checked_type_defs tc_primitive_is_float_def)

text \<open>
  The merge of two inferred types does not depend on their order (up to type equality)
  and is an upper bound: values of both types can be assigned to it.
\<close>

theorem merge_upper_bound:
  assumes "tc_merge_types_for_inference l r = Some m"
    and "ct_kind l \<notin> {CHECKED_TYPE_INVALID, CHECKED_TYPE_VOID}"
    and "ct_kind r \<notin> {CHECKED_TYPE_INVALID, CHECKED_TYPE_VOID}"
  shows "tc_checked_type_assignable m l \<and> tc_checked_type_assignable m r \<and>
    (\<exists>m'. tc_merge_types_for_inference r l = Some m' \<and> tc_checked_type_equals m m')"
proof -
  consider (same) "tc_checked_type_equals l r" "m = l"
    | (external) "\<not> tc_checked_type_equals l r"
        "ct_kind l = CHECKED_TYPE_EXTERNAL \<or> ct_kind r = CHECKED_TYPE_EXTERNAL"
        "m = tc_checked_type_external"
    | (numeric) "\<not> tc_checked_type_equals l r"
        "\<not> (ct_kind l = CHECKED_TYPE_EXTERNAL \<or> ct_kind r = CHECKED_TYPE_EXTERNAL)"
        "tc_checked_type_is_numeric l" "tc_checked_type_is_numeric r"
        "m = tc_promote_numeric_types l r"
    using assms(1) by (auto simp: tc_merge_types_for_inference_def split: if_splits)
  then show ?thesis
  proof cases
    case same
    then show ?thesis
      using assms by (auto simp: tc_merge_types_for_inference_def equals_sym tc_checked_type_assignable_def)
  next
    case external
    then show ?thesis
      using assms external_assignable by (auto simp: tc_merge_types_for_inference_def equals_sym)
  next
    case numeric
    then show ?thesis
      using promote_numeric [of l r] numeric_assignable promote_commute [of l r]
      by (auto simp: tc_merge_types_for_inference_def equals_sym checked_type_tests)
  qed
qed

theorem merge_upper_bound_witness:
  "tc_checked_type_assignable (tc_checked_type_value AST_PRIMITIVE_INT64 0)
     (tc_checked_type_value AST_PRIMITIVE_UINT32 0)"
  using merge_upper_bound [of "tc_checked_type_value AST_PRIMITIVE_INT32 0"
      "tc_checked_type_value AST_PRIMITIVE_UINT32 0" "tc_checked_type_value AST_PRIMITIVE_INT64 0"]
  by (simp add: tc_merge_types_for_inference_def tc_promote_numeric_types_def Let_def
      tc_checked_type_equals_def checked_type_tests checked_type_defs tc_primitive_is_float_def)

text \<open>
  Printing stays in the buffer: \<open>checked_type_to_string\<close> leaves room for the terminator
  in every buffer, and when it reports success on an array of a primitive type the buffer
  holds the name of the type followed by one pair of brackets for each dimension.
\<close>

theorem checked_type_to_string_bound:
  assumes "0 < n"
  shows "length (snd (checked_type_to_string t n)) < n \<and>
    (fst (checked_type_to_string t n) \<and> ct_kind t = CHECKED_TYPE_VALUE \<longrightarrow>
       snd (checked_type_to_string t n) =
         tc_primitive_type_name (ct_primitive t) @ concat (replicate (ct_array_depth t) ''[]''))"
proof -
  have "length (snd (checked_type_to_string t n)) < n"
    using assms unfolding checked_type_to_string_def
    by (cases "ct_kind t") (auto simp: Let_def snprintf_bound append_dimensions_bound)
  moreover have "snd (checked_type_to_string t n) =
         tc_primitive_type_name (ct_primitive t) @ concat (replicate (ct_array_depth t) ''[]'')"
    if "fst (checked_type_to_string t n)" "ct_kind t = CHECKED_TYPE_VALUE"
  proof -
    let ?name = "tc_primitive_type_name (ct_primitive t)"
    let ?r = "append_dimensions n (ct_array_depth t) ?name"
    have eq: "checked_type_to_string t n = ?r"
      using that assms by (simp add: checked_type_to_string_def Let_def split: if_splits)
    then have "?r = (True, snd ?r)"
      using that(1) by (simp add: prod_eq_iff)
    then show ?thesis
      using eq append_dimensions_text by metis
  qed
  ultimately show ?thesis
    by blast
qed

theorem checked_type_to_string_bound_witness:
  "length (snd (checked_type_to_string (tc_checked_type_value AST_PRIMITIVE_FLOAT32 40) 64)) < 64"
  using checked_type_to_string_bound [of 64] by simp

text \<open>
  The alias \<open>float\<close> is classified as an integer: it promotes with \<open>int32\<close> to \<open>int32\<close>, where
  \<open>float32\<close> promotes to \<open>float32\<close>, and the bitwise operators accept it.
\<close>

theorem float_alias_is_integral:
  "tc_promote_numeric_types (tc_checked_type_value AST_PRIMITIVE_FLOAT 0)
      (tc_checked_type_value AST_PRIMITIVE_INT32 0) = tc_checked_type_value AST_PRIMITIVE_INT32 0 \<and>
   tc_promote_numeric_types (tc_checked_type_value AST_PRIMITIVE_FLOAT32 0)
      (tc_checked_type_value AST_PRIMITIVE_INT32 0) = tc_checked_type_value AST_PRIMITIVE_FLOAT32 0 \<and>
   tc_check_binary_operator AST_BINARY_OP_BIT_AND (tc_checked_type_value AST_PRIMITIVE_FLOAT 0)
      (tc_checked_type_value AST_PRIMITIVE_FLOAT 0) = Inr (tc_checked_type_value AST_PRIMITIVE_INT32 0)"
  by (simp add: tc_check_binary_operator_def tc_promote_numeric_types_def Let_def
      checked_type_tests checked_type_defs tc_primitive_is_float_def tc_signed_primitive_for_width_def)

text \<open>
  Mixing the signed and the unsigned 32-bit type gives the 64-bit type, which the fork of
  the language removed from the grammar.
\<close>

theorem mixed_promotion_is_64_bit:
  "tc_promote_numeric_types (tc_checked_type_value AST_PRIMITIVE_INT32 0)
      (tc_checked_type_value AST_PRIMITIVE_UINT32 0) = tc_checked_type_value AST_PRIMITIVE_INT64 0"
  by (simp add: tc_promote_numeric_types_def Let_def
      checked_type_tests checked_type_defs tc_primitive_is_float_def)

end
