(* ===== verification/Aes.thy ===== *)
theory Aes
  imports Prelude "HOL-Library.Monad_Syntax"
begin

unbundle bit_operations_syntax

text \<open>
  AES-128 and its CBC mode (decompiler/src/aes.c), with which the Wii disc reader unwraps
  title keys and decrypts disc groups.  Blocks and round keys are lists of 16 bytes.  The
  CBC routines work on a memory in which input and output are ranges that may overlap, as
  the pointers of the code may; every access to the memory is checked.
\<close>

section \<open>Tables\<close>

definition SBOX :: "u8 list" where
  "SBOX =
    [0x63, 0x7c, 0x77, 0x7b, 0xf2, 0x6b, 0x6f, 0xc5, 0x30, 0x01, 0x67, 0x2b, 0xfe, 0xd7, 0xab, 0x76,
     0xca, 0x82, 0xc9, 0x7d, 0xfa, 0x59, 0x47, 0xf0, 0xad, 0xd4, 0xa2, 0xaf, 0x9c, 0xa4, 0x72, 0xc0,
     0xb7, 0xfd, 0x93, 0x26, 0x36, 0x3f, 0xf7, 0xcc, 0x34, 0xa5, 0xe5, 0xf1, 0x71, 0xd8, 0x31, 0x15,
     0x04, 0xc7, 0x23, 0xc3, 0x18, 0x96, 0x05, 0x9a, 0x07, 0x12, 0x80, 0xe2, 0xeb, 0x27, 0xb2, 0x75,
     0x09, 0x83, 0x2c, 0x1a, 0x1b, 0x6e, 0x5a, 0xa0, 0x52, 0x3b, 0xd6, 0xb3, 0x29, 0xe3, 0x2f, 0x84,
     0x53, 0xd1, 0x00, 0xed, 0x20, 0xfc, 0xb1, 0x5b, 0x6a, 0xcb, 0xbe, 0x39, 0x4a, 0x4c, 0x58, 0xcf,
     0xd0, 0xef, 0xaa, 0xfb, 0x43, 0x4d, 0x33, 0x85, 0x45, 0xf9, 0x02, 0x7f, 0x50, 0x3c, 0x9f, 0xa8,
     0x51, 0xa3, 0x40, 0x8f, 0x92, 0x9d, 0x38, 0xf5, 0xbc, 0xb6, 0xda, 0x21, 0x10, 0xff, 0xf3, 0xd2,
     0xcd, 0x0c, 0x13, 0xec, 0x5f, 0x97, 0x44, 0x17, 0xc4, 0xa7, 0x7e, 0x3d, 0x64, 0x5d, 0x19, 0x73,
     0x60, 0x81, 0x4f, 0xdc, 0x22, 0x2a, 0x90, 0x88, 0x46, 0xee, 0xb8, 0x14, 0xde, 0x5e, 0x0b, 0xdb,
     0xe0, 0x32, 0x3a, 0x0a, 0x49, 0x06, 0x24, 0x5c, 0xc2, 0xd3, 0xac, 0x62, 0x91, 0x95, 0xe4, 0x79,
     0xe7, 0xc8, 0x37, 0x6d, 0x8d, 0xd5, 0x4e, 0xa9, 0x6c, 0x56, 0xf4, 0xea, 0x65, 0x7a, 0xae, 0x08,
     0xba, 0x78, 0x25, 0x2e, 0x1c, 0xa6, 0xb4, 0xc6, 0xe8, 0xdd, 0x74, 0x1f, 0x4b, 0xbd, 0x8b, 0x8a,
     0x70, 0x3e, 0xb5, 0x66, 0x48, 0x03, 0xf6, 0x0e, 0x61, 0x35, 0x57, 0xb9, 0x86, 0xc1, 0x1d, 0x9e,
     0xe1, 0xf8, 0x98, 0x11, 0x69, 0xd9, 0x8e, 0x94, 0x9b, 0x1e, 0x87, 0xe9, 0xce, 0x55, 0x28, 0xdf,
     0x8c, 0xa1, 0x89, 0x0d, 0xbf, 0xe6, 0x42, 0x68, 0x41, 0x99, 0x2d, 0x0f, 0xb0, 0x54, 0xbb, 0x16]"

definition INV_SBOX :: "u8 list" where
  "INV_SBOX =
    [0x52, 0x09, 0x6a, 0xd5, 0x30, 0x36, 0xa5, 0x38, 0xbf, 0x40, 0xa3, 0x9e, 0x81, 0xf3, 0xd7, 0xfb,
     0x7c, 0xe3, 0x39, 0x82, 0x9b, 0x2f, 0xff, 0x87, 0x34, 0x8e, 0x43, 0x44, 0xc4, 0xde, 0xe9, 0xcb,
     0x54, 0x7b, 0x94, 0x32, 0xa6, 0xc2, 0x23, 0x3d, 0xee, 0x4c, 0x95, 0x0b, 0x42, 0xfa, 0xc3, 0x4e,
     0x08, 0x2e, 0xa1, 0x66, 0x28, 0xd9, 0x24, 0xb2, 0x76, 0x5b, 0xa2, 0x49, 0x6d, 0x8b, 0xd1, 0x25,
     0x72, 0xf8, 0xf6, 0x64, 0x86, 0x68, 0x98, 0x16, 0xd4, 0xa4, 0x5c, 0xcc, 0x5d, 0x65, 0xb6, 0x92,
     0x6c, 0x70, 0x48, 0x50, 0xfd, 0xed, 0xb9, 0xda, 0x5e, 0x15, 0x46, 0x57, 0xa7, 0x8d, 0x9d, 0x84,
     0x90, 0xd8, 0xab, 0x00, 0x8c, 0xbc, 0xd3, 0x0a, 0xf7, 0xe4, 0x58, 0x05, 0xb8, 0xb3, 0x45, 0x06,
     0xd0, 0x2c, 0x1e, 0x8f, 0xca, 0x3f, 0x0f, 0x02, 0xc1, 0xaf, 0xbd, 0x03, 0x01, 0x13, 0x8a, 0x6b,
     0x3a, 0x91, 0x11, 0x41, 0x4f, 0x67, 0xdc, 0xea, 0x97, 0xf2, 0xcf, 0xce, 0xf0, 0xb4, 0xe6, 0x73,
     0x96, 0xac, 0x74, 0x22, 0xe7, 0xad, 0x35, 0x85, 0xe2, 0xf9, 0x37, 0xe8, 0x1c, 0x75, 0xdf, 0x6e,
     0x47, 0xf1, 0x1a, 0x71, 0x1d, 0x29, 0xc5, 0x89, 0x6f, 0xb7, 0x62, 0x0e, 0xaa, 0x18, 0xbe, 0x1b,
     0xfc, 0x56, 0x3e, 0x4b, 0xc6, 0xd2, 0x79, 0x20, 0x9a, 0xdb, 0xc0, 0xfe, 0x78, 0xcd, 0x5a, 0xf4,
     0x1f, 0xdd, 0xa8, 0x33, 0x88, 0x07, 0xc7, 0x31, 0xb1, 0x12, 0x10, 0x59, 0x27, 0x80, 0xec, 0x5f,
     0x60, 0x51, 0x7f, 0xa9, 0x19, 0xb5, 0x4a, 0x0d, 0x2d, 0xe5, 0x7a, 0x9f, 0x93, 0xc9, 0x9c, 0xef,
     0xa0, 0xe0, 0x3b, 0x4d, 0xae, 0x2a, 0xf5, 0xb0, 0xc8, 0xeb, 0xbb, 0x3c, 0x83, 0x53, 0x99, 0x61,
     0x17, 0x2b, 0x04, 0x7e, 0xba, 0x77, 0xd6, 0x26, 0xe1, 0x69, 0x14, 0x63, 0x55, 0x21, 0x0c, 0x7d]"

definition RCON :: "u8 list" where
  "RCON = [0x00, 0x01, 0x02, 0x04, 0x08, 0x10, 0x20, 0x40, 0x80, 0x1b, 0x36]"

section \<open>The field\<close>

definition xtime :: "u8 \<Rightarrow> u8" where
  "xtime x = push_bit 1 x XOR ((drop_bit 7 x AND 1) * 0x1b)"

fun gmul_loop :: "nat \<Rightarrow> u8 \<Rightarrow> u8 \<Rightarrow> u8 \<Rightarrow> u8" where
  "gmul_loop 0 a b p = p"
| "gmul_loop (Suc i) a b p =
     gmul_loop i (xtime a) (drop_bit 1 b) (if b AND 1 \<noteq> 0 then p XOR a else p)"

definition gmul :: "u8 \<Rightarrow> u8 \<Rightarrow> u8" where
  "gmul a b = gmul_loop 8 a b 0"

section \<open>Key schedule\<close>

record Aes128Ctx =
  round_keys :: "u8 list list"

text \<open>One turn of the loop of \<open>aes128_init\<close>: the next round key from the previous one.\<close>

definition next_round_key :: "nat \<Rightarrow> u8 list \<Rightarrow> u8 list" where
  "next_round_key r prev =
     (let t = [(SBOX ! unat (prev ! 13)) XOR (RCON ! r), SBOX ! unat (prev ! 14),
               SBOX ! unat (prev ! 15), SBOX ! unat (prev ! 12)];
          cur = foldl (\<lambda>cur i. cur[i := (prev ! i) XOR (t ! i)]) (replicate 16 0) [0..<4]
      in foldl (\<lambda>cur i. cur[i := (cur ! (i - 4)) XOR (prev ! i)]) cur [4..<16])"

definition aes128_init :: "u8 list \<Rightarrow> Aes128Ctx" where
  "aes128_init key =
     \<lparr>round_keys = foldl (\<lambda>rks r. rks @ [next_round_key r (last rks)]) [take 16 key] [1..<11]\<rparr>"

section \<open>Round operations\<close>

definition add_round_key :: "u8 list \<Rightarrow> u8 list \<Rightarrow> u8 list" where
  "add_round_key state rk = foldl (\<lambda>s i. s[i := (s ! i) XOR (rk ! i)]) state [0..<16]"

definition sub_bytes :: "u8 list \<Rightarrow> u8 list" where
  "sub_bytes s = foldl (\<lambda>s i. s[i := SBOX ! unat (s ! i)]) s [0..<16]"

definition inv_sub_bytes :: "u8 list \<Rightarrow> u8 list" where
  "inv_sub_bytes s = foldl (\<lambda>s i. s[i := INV_SBOX ! unat (s ! i)]) s [0..<16]"

definition shift_rows :: "u8 list \<Rightarrow> u8 list" where
  "shift_rows s =
     (let t = s ! 1; s = s[1 := s ! 5]; s = s[5 := s ! 9]; s = s[9 := s ! 13]; s = s[13 := t];
          t = s ! 2; s = s[2 := s ! 10]; s = s[10 := t];
          t = s ! 6; s = s[6 := s ! 14]; s = s[14 := t];
          t = s ! 3; s = s[3 := s ! 15]; s = s[15 := s ! 11]; s = s[11 := s ! 7]; s = s[7 := t]
      in s)"

definition inv_shift_rows :: "u8 list \<Rightarrow> u8 list" where
  "inv_shift_rows s =
     (let t = s ! 13; s = s[13 := s ! 9]; s = s[9 := s ! 5]; s = s[5 := s ! 1]; s = s[1 := t];
          t = s ! 2; s = s[2 := s ! 10]; s = s[10 := t];
          t = s ! 6; s = s[6 := s ! 14]; s = s[14 := t];
          t = s ! 3; s = s[3 := s ! 7]; s = s[7 := s ! 11]; s = s[11 := s ! 15]; s = s[15 := t]
      in s)"

definition mix_column :: "u8 list \<Rightarrow> nat \<Rightarrow> u8 list" where
  "mix_column s c =
     (let a0 = s ! (c * 4 + 0); a1 = s ! (c * 4 + 1); a2 = s ! (c * 4 + 2); a3 = s ! (c * 4 + 3);
          t = ((a0 XOR a1) XOR a2) XOR a3;
          s = s[c * 4 + 0 := (s ! (c * 4 + 0)) XOR (t XOR xtime (a0 XOR a1))];
          s = s[c * 4 + 1 := (s ! (c * 4 + 1)) XOR (t XOR xtime (a1 XOR a2))];
          s = s[c * 4 + 2 := (s ! (c * 4 + 2)) XOR (t XOR xtime (a2 XOR a3))];
          s = s[c * 4 + 3 := (s ! (c * 4 + 3)) XOR (t XOR xtime (a3 XOR a0))]
      in s)"

definition mix_columns :: "u8 list \<Rightarrow> u8 list" where
  "mix_columns s = foldl mix_column s [0..<4]"

definition inv_mix_column :: "u8 list \<Rightarrow> nat \<Rightarrow> u8 list" where
  "inv_mix_column s c =
     (let a0 = s ! (c * 4 + 0); a1 = s ! (c * 4 + 1); a2 = s ! (c * 4 + 2); a3 = s ! (c * 4 + 3);
          s = s[c * 4 + 0 :=
                ((gmul a0 0x0e XOR gmul a1 0x0b) XOR gmul a2 0x0d) XOR gmul a3 0x09];
          s = s[c * 4 + 1 :=
                ((gmul a0 0x09 XOR gmul a1 0x0e) XOR gmul a2 0x0b) XOR gmul a3 0x0d];
          s = s[c * 4 + 2 :=
                ((gmul a0 0x0d XOR gmul a1 0x09) XOR gmul a2 0x0e) XOR gmul a3 0x0b];
          s = s[c * 4 + 3 :=
                ((gmul a0 0x0b XOR gmul a1 0x0d) XOR gmul a2 0x09) XOR gmul a3 0x0e]
      in s)"

definition inv_mix_columns :: "u8 list \<Rightarrow> u8 list" where
  "inv_mix_columns s = foldl inv_mix_column s [0..<4]"

section \<open>Blocks\<close>

definition aes128_encrypt_block :: "Aes128Ctx \<Rightarrow> u8 list \<Rightarrow> u8 list" where
  "aes128_encrypt_block ctx block =
     (let s = add_round_key block (round_keys ctx ! 0);
          s = foldl (\<lambda>s r. add_round_key (mix_columns (shift_rows (sub_bytes s)))
                             (round_keys ctx ! r)) s [1..<10];
          s = shift_rows (sub_bytes s)
      in add_round_key s (round_keys ctx ! 10))"

definition aes128_decrypt_block :: "Aes128Ctx \<Rightarrow> u8 list \<Rightarrow> u8 list" where
  "aes128_decrypt_block ctx block =
     (let s = add_round_key block (round_keys ctx ! 10);
          s = foldl (\<lambda>s r. inv_mix_columns (add_round_key (inv_sub_bytes (inv_shift_rows s))
                             (round_keys ctx ! r))) s (rev [1..<10]);
          s = inv_sub_bytes (inv_shift_rows s)
      in add_round_key s (round_keys ctx ! 0))"

section \<open>The inverse operations\<close>

lemma sbox_inverse_table: "map (\<lambda>x. INV_SBOX ! unat x) SBOX = map of_nat [0..<256]"
  by code_simp

lemma length_SBOX [simp]: "length SBOX = 256"
  by (simp add: SBOX_def)

lemma sbox_inverse: "INV_SBOX ! unat (SBOX ! unat x) = x"
proof -
  have "unat x < 256"
    using unsigned_less [of x] by simp
  then show ?thesis
    using arg_cong [OF sbox_inverse_table, of "\<lambda>l. l ! unat x"] by simp
qed

lemma xor_left_self: "a XOR (a XOR b) = (b :: u8)"
  by (simp flip: xor.assoc)

lemmas xor_cancel = xor.assoc xor.commute xor.left_commute xor_left_self

lemma xtime_xor: "xtime (a XOR b) = xtime a XOR xtime b"
proof -
  have parity: "x AND 1 = 0 \<or> x AND 1 = 1" for x :: u8
    by (cases "odd x") (simp_all add: and_one_eq mod2_eq_if)
  have "drop_bit 7 (a XOR b) AND 1 = (drop_bit 7 a AND 1) XOR (drop_bit 7 b AND 1)"
    by (rule bit_eqI) (auto simp: bit_simps)
  then show ?thesis
    using parity [of "drop_bit 7 a"] parity [of "drop_bit 7 b"]
    by (auto simp: xtime_def push_bit_xor xor_cancel)
qed

lemma gmul_loop_numeral:
  "gmul_loop (numeral n) a b p =
     gmul_loop (pred_numeral n) (xtime a) (drop_bit 1 b) (if b AND 1 \<noteq> 0 then p XOR a else p)"
  by (simp add: numeral_eq_Suc)

lemma gmul_consts:
  "gmul a 0x09 = xtime (xtime (xtime a)) XOR a"
  "gmul a 0x0b = (xtime (xtime (xtime a)) XOR xtime a) XOR a"
  "gmul a 0x0d = (xtime (xtime (xtime a)) XOR xtime (xtime a)) XOR a"
  "gmul a 0x0e = (xtime (xtime (xtime a)) XOR xtime (xtime a)) XOR xtime a"
  by (simp_all add: gmul_def gmul_loop_numeral xor_cancel)

lemma mix_column_inverse:
  assumes "b0 = a0 XOR ((((a0 XOR a1) XOR a2) XOR a3) XOR xtime (a0 XOR a1))"
    and "b1 = a1 XOR ((((a0 XOR a1) XOR a2) XOR a3) XOR xtime (a1 XOR a2))"
    and "b2 = a2 XOR ((((a0 XOR a1) XOR a2) XOR a3) XOR xtime (a2 XOR a3))"
    and "b3 = a3 XOR ((((a0 XOR a1) XOR a2) XOR a3) XOR xtime (a3 XOR a0))"
  shows "((gmul b0 0x0e XOR gmul b1 0x0b) XOR gmul b2 0x0d) XOR gmul b3 0x09 = a0"
    and "((gmul b0 0x09 XOR gmul b1 0x0e) XOR gmul b2 0x0b) XOR gmul b3 0x0d = a1"
    and "((gmul b0 0x0d XOR gmul b1 0x09) XOR gmul b2 0x0e) XOR gmul b3 0x0b = a2"
    and "((gmul b0 0x0b XOR gmul b1 0x0d) XOR gmul b2 0x09) XOR gmul b3 0x0e = a3"
  by (simp_all only: assms gmul_consts xtime_xor xor_cancel xor_self_eq xor.right_neutral xor.left_neutral)

text \<open>The operations on a block written out.\<close>

lemma block_cases:
  assumes "length s = 16"
  obtains s0 s1 s2 s3 s4 s5 s6 s7 s8 s9 s10 s11 s12 s13 s14 s15 where "s = [s0, s1, s2, s3, s4, s5, s6, s7, s8, s9, s10, s11, s12, s13, s14, s15]"
  using assms by (auto simp: numeral_eq_Suc length_Suc_conv)

lemma upt_block: "[0..<16] = [0, 1, 2, 3, 4, 5, 6, 7, 8, 9, 10, 11, 12, 13, 14, 15 :: nat]"
  "[0..<4] = [0, 1, 2, 3 :: nat]"
  by (simp_all add: upt_rec)

lemma add_round_key_block:
  "add_round_key [s0, s1, s2, s3, s4, s5, s6, s7, s8, s9, s10, s11, s12, s13, s14, s15] [k0, k1, k2, k3, k4, k5, k6, k7, k8, k9, k10, k11, k12, k13, k14, k15] =
   [s0 XOR k0, s1 XOR k1, s2 XOR k2, s3 XOR k3, s4 XOR k4, s5 XOR k5, s6 XOR k6, s7 XOR k7, s8 XOR k8, s9 XOR k9, s10 XOR k10, s11 XOR k11, s12 XOR k12, s13 XOR k13, s14 XOR k14, s15 XOR k15]"
  by (simp add: add_round_key_def upt_block)

lemma sub_bytes_block:
  "sub_bytes [s0, s1, s2, s3, s4, s5, s6, s7, s8, s9, s10, s11, s12, s13, s14, s15] =
   [SBOX ! unat s0, SBOX ! unat s1, SBOX ! unat s2, SBOX ! unat s3, SBOX ! unat s4, SBOX ! unat s5, SBOX ! unat s6, SBOX ! unat s7, SBOX ! unat s8, SBOX ! unat s9, SBOX ! unat s10, SBOX ! unat s11, SBOX ! unat s12, SBOX ! unat s13, SBOX ! unat s14, SBOX ! unat s15]"
  by (simp add: sub_bytes_def upt_block)

lemma inv_sub_bytes_block:
  "inv_sub_bytes [s0, s1, s2, s3, s4, s5, s6, s7, s8, s9, s10, s11, s12, s13, s14, s15] =
   [INV_SBOX ! unat s0, INV_SBOX ! unat s1, INV_SBOX ! unat s2, INV_SBOX ! unat s3, INV_SBOX ! unat s4, INV_SBOX ! unat s5, INV_SBOX ! unat s6, INV_SBOX ! unat s7, INV_SBOX ! unat s8, INV_SBOX ! unat s9, INV_SBOX ! unat s10, INV_SBOX ! unat s11, INV_SBOX ! unat s12, INV_SBOX ! unat s13, INV_SBOX ! unat s14, INV_SBOX ! unat s15]"
  by (simp add: inv_sub_bytes_def upt_block)

lemma shift_rows_block:
  "shift_rows [s0, s1, s2, s3, s4, s5, s6, s7, s8, s9, s10, s11, s12, s13, s14, s15] =
   [s0, s5, s10, s15, s4, s9, s14, s3, s8, s13, s2, s7, s12, s1, s6, s11]"
  by (simp add: shift_rows_def)

lemma inv_shift_rows_block:
  "inv_shift_rows [s0, s1, s2, s3, s4, s5, s6, s7, s8, s9, s10, s11, s12, s13, s14, s15] =
   [s0, s13, s10, s7, s4, s1, s14, s11, s8, s5, s2, s15, s12, s9, s6, s3]"
  by (simp add: inv_shift_rows_def)

lemma foldl_length: "(\<And>s x. length (f s x) = length s) \<Longrightarrow> length (foldl f s xs) = length s"
  by (induction xs arbitrary: s) simp_all

lemma round_ops_length [simp]:
  "length (add_round_key s rk) = length s" "length (sub_bytes s) = length s"
  "length (shift_rows s) = length s" "length (mix_columns s) = length s"
  "length (inv_sub_bytes s) = length s" "length (inv_shift_rows s) = length s"
  "length (inv_mix_columns s) = length s"
  by (simp_all add: add_round_key_def sub_bytes_def shift_rows_def mix_columns_def mix_column_def
      inv_sub_bytes_def inv_shift_rows_def inv_mix_columns_def inv_mix_column_def foldl_length Let_def)

lemma add_round_key_inverse:
  "length s = 16 \<Longrightarrow> length rk = 16 \<Longrightarrow> add_round_key (add_round_key s rk) rk = s"
  by (erule block_cases, erule block_cases) (simp add: add_round_key_block xor.assoc)

lemma sub_bytes_inverse: "length s = 16 \<Longrightarrow> inv_sub_bytes (sub_bytes s) = s"
  by (erule block_cases) (simp add: sub_bytes_block inv_sub_bytes_block sbox_inverse)

lemma shift_rows_inverse: "length s = 16 \<Longrightarrow> inv_shift_rows (shift_rows s) = s"
  by (erule block_cases) (simp add: shift_rows_block inv_shift_rows_block)

lemma mix_columns_inverse: "length s = 16 \<Longrightarrow> inv_mix_columns (mix_columns s) = s"
  by (erule block_cases)
    (simp add: mix_columns_def inv_mix_columns_def mix_column_def inv_mix_column_def upt_block Let_def
      mix_column_inverse [OF refl refl refl refl])

definition ctx_ok :: "Aes128Ctx \<Rightarrow> bool" where
  "ctx_ok ctx \<longleftrightarrow> length (round_keys ctx) = 11 \<and> list_all (\<lambda>rk. length rk = 16) (round_keys ctx)"

lemma ctx_ok_nth: "ctx_ok ctx \<Longrightarrow> r < 11 \<Longrightarrow> length (round_keys ctx ! r) = 16"
  by (simp add: ctx_ok_def list_all_length)

lemma length_next_round_key [simp]: "length (next_round_key r prev) = 16"
  by (simp add: next_round_key_def foldl_length Let_def)

lemma foldl_snoc_lengths:
  "list_all (\<lambda>rk. length rk = 16) rks \<Longrightarrow>
   let rks' = foldl (\<lambda>rks r. rks @ [next_round_key r (last rks)]) rks rs
   in length rks' = length rks + length rs \<and> list_all (\<lambda>rk. length rk = 16) rks'"
  by (induction rs arbitrary: rks) (simp_all add: Let_def)

lemma aes128_init_ok: "length key = 16 \<Longrightarrow> ctx_ok (aes128_init key)"
  using foldl_snoc_lengths [of "[take 16 key]" "[1..<11]"]
  by (simp add: ctx_ok_def aes128_init_def Let_def)

text \<open>A round of the decryption undoes the matching round of the encryption.\<close>

lemma foldl_undo:
  assumes "\<And>s r. P s \<Longrightarrow> r \<in> set rs \<Longrightarrow> P (f s r) \<and> g (f s r) r = s"
  shows "P s \<Longrightarrow> P (foldl f s rs) \<and> foldl g (foldl f s rs) (rev rs) = s"
  using assms by (induction rs arbitrary: s) simp_all

text \<open>
  The decryption keeps the state in the form between \<open>shift_rows\<close> and \<open>mix_columns\<close>: there a
  round of the encryption is \<open>round_shifted\<close> and the turn of the decryption loop its inverse.
\<close>

definition round_shifted :: "Aes128Ctx \<Rightarrow> u8 list \<Rightarrow> nat \<Rightarrow> u8 list" where
  "round_shifted ctx s r = shift_rows (sub_bytes (add_round_key (mix_columns s) (round_keys ctx ! r)))"

lemma rounds_shifted:
  "shift_rows (sub_bytes (foldl (\<lambda>s r. add_round_key (mix_columns (shift_rows (sub_bytes s)))
     (round_keys ctx ! r)) s rs)) = foldl (round_shifted ctx) (shift_rows (sub_bytes s)) rs"
  by (induction rs arbitrary: s) (simp_all add: round_shifted_def)

lemma round_shifted_inverse:
  "ctx_ok ctx \<Longrightarrow> length s = 16 \<Longrightarrow> r < 11 \<Longrightarrow>
   inv_mix_columns (add_round_key (inv_sub_bytes (inv_shift_rows (round_shifted ctx s r)))
     (round_keys ctx ! r)) = s"
  by (simp add: round_shifted_def shift_rows_inverse sub_bytes_inverse add_round_key_inverse
      ctx_ok_nth mix_columns_inverse)

lemma length_encrypt_block [simp]: "length (aes128_encrypt_block ctx block) = length block"
  by (simp add: aes128_encrypt_block_def foldl_length Let_def)

lemma length_decrypt_block [simp]: "length (aes128_decrypt_block ctx block) = length block"
  by (simp add: aes128_decrypt_block_def foldl_length Let_def)

lemma decrypt_encrypt_block:
  assumes "ctx_ok ctx" and "length block = 16"
  shows "aes128_decrypt_block ctx (aes128_encrypt_block ctx block) = block"
proof -
  let ?k = "\<lambda>r. round_keys ctx ! r"
  let ?turn = "\<lambda>s r. inv_mix_columns (add_round_key (inv_sub_bytes (inv_shift_rows s)) (?k r))"
  let ?s = "add_round_key block (?k 0)"
  let ?t = "foldl (round_shifted ctx) (shift_rows (sub_bytes ?s)) [1..<10]"
  have enc: "aes128_encrypt_block ctx block = add_round_key ?t (?k 10)"
    by (simp add: aes128_encrypt_block_def rounds_shifted Let_def del: upt.simps)
  have undo: "length ?t = 16 \<and> foldl ?turn ?t (rev [1..<10]) = shift_rows (sub_bytes ?s)"
    by (rule foldl_undo [of "\<lambda>s. length s = 16"])
      (use assms in \<open>auto simp: round_shifted_inverse, auto simp: round_shifted_def\<close>)
  then have "add_round_key (aes128_encrypt_block ctx block) (?k 10) = ?t"
    unfolding enc by (intro add_round_key_inverse) (simp_all add: ctx_ok_nth assms)
  with undo show ?thesis
    using assms unfolding aes128_decrypt_block_def Let_def
    by (simp add: shift_rows_inverse sub_bytes_inverse add_round_key_inverse ctx_ok_nth del: upt.simps)
qed

section \<open>Cipher block chaining\<close>

definition xor_block :: "u8 list \<Rightarrow> u8 list \<Rightarrow> u8 list" where
  "xor_block a b = map2 (XOR) a b"

function cbc_encrypt_loop ::
  "Aes128Ctx \<Rightarrow> u8 list \<Rightarrow> u8 list \<Rightarrow> nat \<Rightarrow> nat \<Rightarrow> nat \<Rightarrow> nat \<Rightarrow> u8 list option" where
  "cbc_encrypt_loop ctx prev mem inp out len off =
     (if off < len then
        do {
          input \<leftarrow> read_bytes mem (inp + off) 16;
          mem \<leftarrow> write_bytes mem (out + off) (aes128_encrypt_block ctx (xor_block input prev));
          prev \<leftarrow> read_bytes mem (out + off) 16;
          cbc_encrypt_loop ctx prev mem inp out len (off + 16)
        }
      else Some mem)"
  by pat_completeness auto
termination
  by (relation "measure (\<lambda>(ctx, prev, mem, inp, out, len, off). len - off)") auto

definition aes128_cbc_encrypt ::
  "u8 list \<Rightarrow> u8 list \<Rightarrow> u8 list \<Rightarrow> nat \<Rightarrow> nat \<Rightarrow> nat \<Rightarrow> u8 list option" where
  "aes128_cbc_encrypt key iv mem inp out len =
     cbc_encrypt_loop (aes128_init key) iv mem inp out len 0"

function cbc_decrypt_loop ::
  "Aes128Ctx \<Rightarrow> u8 list \<Rightarrow> u8 list \<Rightarrow> nat \<Rightarrow> nat \<Rightarrow> nat \<Rightarrow> nat \<Rightarrow> u8 list option" where
  "cbc_decrypt_loop ctx prev mem inp out len off =
     (if off < len then
        do {
          input \<leftarrow> read_bytes mem (inp + off) 16;
          mem \<leftarrow> write_bytes mem (out + off) (xor_block (aes128_decrypt_block ctx input) prev);
          cbc_decrypt_loop ctx input mem inp out len (off + 16)
        }
      else Some mem)"
  by pat_completeness auto
termination
  by (relation "measure (\<lambda>(ctx, prev, mem, inp, out, len, off). len - off)") auto

definition aes128_cbc_decrypt ::
  "u8 list \<Rightarrow> u8 list \<Rightarrow> u8 list \<Rightarrow> nat \<Rightarrow> nat \<Rightarrow> nat \<Rightarrow> u8 list option" where
  "aes128_cbc_decrypt key iv mem inp out len =
     cbc_decrypt_loop (aes128_init key) iv mem inp out len 0"

declare cbc_encrypt_loop.simps [simp del] cbc_decrypt_loop.simps [simp del]

section \<open>The mode on lists of blocks\<close>

primrec cbc_encrypt_blocks :: "('b \<Rightarrow> 'b) \<Rightarrow> ('b \<Rightarrow> 'b \<Rightarrow> 'b) \<Rightarrow> 'b \<Rightarrow> 'b list \<Rightarrow> 'b list" where
  "cbc_encrypt_blocks enc combine prev [] = []"
| "cbc_encrypt_blocks enc combine prev (b # bs) =
     (let c = enc (combine b prev) in c # cbc_encrypt_blocks enc combine c bs)"

primrec cbc_decrypt_blocks :: "('b \<Rightarrow> 'b) \<Rightarrow> ('b \<Rightarrow> 'b \<Rightarrow> 'b) \<Rightarrow> 'b \<Rightarrow> 'b list \<Rightarrow> 'b list" where
  "cbc_decrypt_blocks dec combine prev [] = []"
| "cbc_decrypt_blocks dec combine prev (c # cs) =
     combine (dec c) prev # cbc_decrypt_blocks dec combine c cs"

text \<open>The interface of the mode: a block cipher and the combination of a block with another.\<close>

locale block_cipher =
  fixes valid :: "'b \<Rightarrow> bool"
    and enc dec :: "'b \<Rightarrow> 'b"
    and combine :: "'b \<Rightarrow> 'b \<Rightarrow> 'b"
  assumes valid_enc: "valid b \<Longrightarrow> valid (enc b)"
    and dec_enc: "valid b \<Longrightarrow> dec (enc b) = b"
    and valid_combine: "valid a \<Longrightarrow> valid b \<Longrightarrow> valid (combine a b)"
    and combine_cancel: "valid a \<Longrightarrow> valid b \<Longrightarrow> combine (combine a b) b = a"
begin

lemma cbc_decrypt_encrypt:
  "valid prev \<Longrightarrow> list_all valid bs \<Longrightarrow>
   cbc_decrypt_blocks dec combine prev (cbc_encrypt_blocks enc combine prev bs) = bs"
  by (induction bs arbitrary: prev)
    (simp_all add: Let_def valid_enc valid_combine dec_enc combine_cancel)

lemma cbc_encrypt_valid:
  "valid prev \<Longrightarrow> list_all valid bs \<Longrightarrow> list_all valid (cbc_encrypt_blocks enc combine prev bs)"
  by (induction bs arbitrary: prev) (simp_all add: Let_def valid_enc valid_combine)

end

definition is_block :: "u8 list \<Rightarrow> bool" where
  "is_block b \<longleftrightarrow> length b = 16"

definition is_key :: "u8 list \<Rightarrow> bool" where
  "is_key key \<longleftrightarrow> length key = 16"

text \<open>The cipher under a key; any other key than one of 16 bytes is no key of AES-128.\<close>

definition encrypt_with :: "u8 list \<Rightarrow> u8 list \<Rightarrow> u8 list" where
  "encrypt_with key = (if is_key key then aes128_encrypt_block (aes128_init key) else id)"

definition decrypt_with :: "u8 list \<Rightarrow> u8 list \<Rightarrow> u8 list" where
  "decrypt_with key = (if is_key key then aes128_decrypt_block (aes128_init key) else id)"

lemma xor_block_cancel: "length a = length b \<Longrightarrow> xor_block (xor_block a b) b = a"
  by (induction a b rule: list_induct2) (simp_all add: xor_block_def xor.assoc)

lemma length_xor_block [simp]: "length (xor_block a b) = min (length a) (length b)"
  by (simp add: xor_block_def)

interpretation aes: block_cipher is_block "encrypt_with key" "decrypt_with key" xor_block for key
  by unfold_locales
    (auto simp: is_block_def is_key_def encrypt_with_def decrypt_with_def decrypt_encrypt_block
      aes128_init_ok xor_block_cancel)

section \<open>The routines compute the mode\<close>

definition blocks_at :: "u8 list \<Rightarrow> nat \<Rightarrow> nat \<Rightarrow> u8 list list" where
  "blocks_at mem off n = map (\<lambda>i. slice mem (off + 16 * i) 16) [0..<n]"

lemma length_blocks_at [simp]: "length (blocks_at mem off n) = n"
  by (simp add: blocks_at_def)

lemma blocks_at_Suc: "blocks_at mem off (Suc n) = slice mem off 16 # blocks_at mem (off + 16) n"
  by (rule nth_equalityI)
    (auto simp: blocks_at_def nth_Cons add.assoc split: nat.split simp del: upt_Suc)

lemma blocks_at_valid: "off + 16 * n \<le> length mem \<Longrightarrow> list_all is_block (blocks_at mem off n)"
  by (auto simp: blocks_at_def list_all_iff is_block_def)

lemma concat_blocks_at: "off + 16 * n \<le> length mem \<Longrightarrow> concat (blocks_at mem off n) = slice mem off (16 * n)"
  by (induction n arbitrary: off) (simp_all add: blocks_at_Suc slice_append blocks_at_def [of _ _ 0])

text \<open>
  Input and output ranges of the same length at which the code may be called: the output
  starts at or before the input (in place included), or behind the whole input.
\<close>

definition may_alias :: "nat \<Rightarrow> nat \<Rightarrow> nat \<Rightarrow> bool" where
  "may_alias inp out len \<longleftrightarrow> out \<le> inp \<or> inp + len \<le> out"

lemma blocks_at_patch:
  assumes "out + 16 \<le> length mem" and "length b = 16" and "off + 16 * n \<le> length mem"
    and "out + 16 \<le> off \<or> off + 16 * n \<le> out"
  shows "blocks_at (patch mem out b) off n = blocks_at mem off n"
  using assms by (auto simp: blocks_at_def intro!: slice_patch_other)

lemma length_concat_blocks: "list_all is_block bs \<Longrightarrow> length (concat bs) = 16 * length bs"
  by (induction bs) (simp_all add: is_block_def)

lemma length_cbc_blocks [simp]:
  "length (cbc_decrypt_blocks dec combine prev cs) = length cs"
  "length (cbc_encrypt_blocks enc combine prev cs) = length cs"
  by (induction cs arbitrary: prev) (simp_all add: Let_def)

lemma decrypt_blocks_valid:
  "is_block prev \<Longrightarrow> list_all is_block cs \<Longrightarrow>
   list_all is_block (cbc_decrypt_blocks (aes128_decrypt_block ctx) xor_block prev cs)"
  by (induction cs arbitrary: prev) (simp_all add: is_block_def)

lemma encrypt_blocks_valid:
  "is_block prev \<Longrightarrow> list_all is_block cs \<Longrightarrow>
   list_all is_block (cbc_encrypt_blocks (aes128_encrypt_block ctx) xor_block prev cs)"
  by (induction cs arbitrary: prev) (simp_all add: is_block_def Let_def)

lemma cbc_decrypt_loop_blocks:
  assumes "ctx_ok ctx" and "is_block prev" and "off + 16 * n = len"
    and "inp + len \<le> length mem" and "out + len \<le> length mem" and "may_alias inp out len"
  shows "cbc_decrypt_loop ctx prev mem inp out len off =
    Some (patch mem (out + off) (concat (cbc_decrypt_blocks (aes128_decrypt_block ctx) xor_block prev
      (blocks_at mem (inp + off) n))))"
  using assms(2-)
proof (induction n arbitrary: prev mem off)
  case 0
  then show ?case
    by (subst cbc_decrypt_loop.simps) (simp add: blocks_at_def)
next
  case (Suc n)
  let ?b = "slice mem (inp + off) 16"
  let ?c = "xor_block (aes128_decrypt_block ctx ?b) prev"
  let ?mem = "patch mem (out + off) ?c"
  let ?rest = "cbc_decrypt_blocks (aes128_decrypt_block ctx) xor_block ?b (blocks_at mem (inp + off + 16) n)"
  have b: "is_block ?b" and c: "length ?c = 16"
    using Suc.prems by (simp_all add: is_block_def)
  then have len: "length ?mem = length mem"
    using Suc.prems by simp
  have "cbc_decrypt_loop ctx prev mem inp out len off =
      cbc_decrypt_loop ctx ?b ?mem inp out len (off + 16)"
    using Suc.prems c by (subst cbc_decrypt_loop.simps) (simp add: read_bytes_def write_bytes_def)
  also have "\<dots> = Some (patch ?mem (out + (off + 16)) (concat
      (cbc_decrypt_blocks (aes128_decrypt_block ctx) xor_block ?b (blocks_at ?mem (inp + (off + 16)) n))))"
    using Suc.prems b by (intro Suc.IH) (simp_all add: len)
  also have "blocks_at ?mem (inp + (off + 16)) n = blocks_at mem (inp + off + 16) n"
    using Suc.prems c by (subst blocks_at_patch) (auto simp: may_alias_def add.assoc)
  also have "patch ?mem (out + (off + 16)) (concat ?rest) = patch mem (out + off) (?c @ concat ?rest)"
    using Suc.prems c patch_patch [of "out + off" ?c "concat ?rest" mem]
      length_concat_blocks [OF decrypt_blocks_valid [OF b], of "blocks_at mem (inp + off + 16) n" ctx]
    by (simp add: blocks_at_valid add.assoc)
  finally show ?case
    by (simp add: blocks_at_Suc)
qed

lemma cbc_encrypt_loop_blocks:
  assumes "ctx_ok ctx" and "is_block prev" and "off + 16 * n = len"
    and "inp + len \<le> length mem" and "out + len \<le> length mem" and "may_alias inp out len"
  shows "cbc_encrypt_loop ctx prev mem inp out len off =
    Some (patch mem (out + off) (concat (cbc_encrypt_blocks (aes128_encrypt_block ctx) xor_block prev
      (blocks_at mem (inp + off) n))))"
  using assms(2-)
proof (induction n arbitrary: prev mem off)
  case 0
  then show ?case
    by (subst cbc_encrypt_loop.simps) (simp add: blocks_at_def)
next
  case (Suc n)
  let ?b = "slice mem (inp + off) 16"
  let ?c = "aes128_encrypt_block ctx (xor_block ?b prev)"
  let ?mem = "patch mem (out + off) ?c"
  let ?rest = "cbc_encrypt_blocks (aes128_encrypt_block ctx) xor_block ?c (blocks_at mem (inp + off + 16) n)"
  have c: "is_block ?c" "length ?c = 16"
    using Suc.prems by (simp_all add: is_block_def)
  then have len: "length ?mem = length mem"
    using Suc.prems by simp
  have "slice ?mem (out + off) 16 = ?c"
    using slice_patch_same [of "out + off" ?c mem] Suc.prems c by simp
  then have "cbc_encrypt_loop ctx prev mem inp out len off =
      cbc_encrypt_loop ctx ?c ?mem inp out len (off + 16)"
    using Suc.prems c len by (subst cbc_encrypt_loop.simps) (simp add: read_bytes_def write_bytes_def)
  also have "\<dots> = Some (patch ?mem (out + (off + 16)) (concat
      (cbc_encrypt_blocks (aes128_encrypt_block ctx) xor_block ?c (blocks_at ?mem (inp + (off + 16)) n))))"
    using Suc.prems c by (intro Suc.IH) (simp_all add: len)
  also have "blocks_at ?mem (inp + (off + 16)) n = blocks_at mem (inp + off + 16) n"
    using Suc.prems c by (subst blocks_at_patch) (auto simp: may_alias_def add.assoc)
  also have "patch ?mem (out + (off + 16)) (concat ?rest) = patch mem (out + off) (?c @ concat ?rest)"
    using Suc.prems c patch_patch [of "out + off" ?c "concat ?rest" mem]
      length_concat_blocks [OF encrypt_blocks_valid [OF c(1)], of "blocks_at mem (inp + off + 16) n" ctx]
    by (simp add: blocks_at_valid add.assoc)
  finally show ?case
    by (simp add: blocks_at_Suc Let_def)
qed

section \<open>Properties of the cipher\<close>

text \<open>
  C17 The block cipher is invertible: under every key, decrypting an encrypted block gives the
  block back.
\<close>

theorem aes128_decrypt_encrypt:
  assumes "length key = 16" and "length block = 16"
  shows "aes128_decrypt_block (aes128_init key) (aes128_encrypt_block (aes128_init key) block) = block"
  using assms by (simp add: decrypt_encrypt_block aes128_init_ok)

theorem aes128_decrypt_encrypt_witness:
  "aes128_decrypt_block (aes128_init (replicate 16 1))
     (aes128_encrypt_block (aes128_init (replicate 16 1)) (replicate 16 2)) = replicate 16 2"
  by (rule aes128_decrypt_encrypt) simp_all

text \<open>
  C18 CBC round trip in memory: encrypting a range and decrypting the result in place gives
  the plain text back.  Input and output may be the same range; all accesses of both
  routines stay inside the two ranges.
\<close>

theorem aes128_cbc_roundtrip:
  assumes "length key = 16" and "length iv = 16" and "len = 16 * n"
    and "inp + len \<le> length mem" and "out + len \<le> length mem"
    and "out \<le> inp \<or> inp + len \<le> out"
  shows "\<exists>mem1 mem2. aes128_cbc_encrypt key iv mem inp out len = Some mem1 \<and>
    aes128_cbc_decrypt key iv mem1 out out len = Some mem2 \<and>
    slice mem2 out len = slice mem inp len \<and> length mem2 = length mem"
proof -
  let ?ctx = "aes128_init key"
  let ?cs = "cbc_encrypt_blocks (aes128_encrypt_block ?ctx) xor_block iv (blocks_at mem inp n)"
  let ?mem1 = "patch mem out (concat ?cs)"
  note ctx = aes128_init_ok [OF assms(1)]
  have keyed: "encrypt_with key = aes128_encrypt_block ?ctx" "decrypt_with key = aes128_decrypt_block ?ctx"
    using assms(1) by (simp_all add: encrypt_with_def decrypt_with_def is_key_def)
  have valid: "is_block iv" "list_all is_block (blocks_at mem inp n)" "list_all is_block ?cs"
    using assms by (simp_all add: blocks_at_valid encrypt_blocks_valid is_block_def)
  have enc: "aes128_cbc_encrypt key iv mem inp out len = Some ?mem1"
    using cbc_encrypt_loop_blocks [OF ctx valid(1), of 0 n len inp mem out] assms
    by (simp add: aes128_cbc_encrypt_def may_alias_def)
  have lens: "length (concat ?cs) = 16 * n" "length ?mem1 = length mem"
    using length_concat_blocks [OF valid(3)] assms by simp_all
  then have cipher: "concat (blocks_at ?mem1 out n) = concat ?cs"
    using assms slice_patch_same [of out "concat ?cs" mem] by (simp add: concat_blocks_at)
  have "blocks_at ?mem1 out n = ?cs"
    by (rule concat_injective [OF cipher])
      (use valid(3) blocks_at_valid [of out n ?mem1] assms lens in \<open>auto simp: list_all_iff is_block_def set_zip\<close>)
  then have "cbc_decrypt_blocks (aes128_decrypt_block ?ctx) xor_block iv (blocks_at ?mem1 out n) =
      blocks_at mem inp n"
    using aes.cbc_decrypt_encrypt [OF valid(1,2), of key] by (simp add: keyed)
  then have dec: "aes128_cbc_decrypt key iv ?mem1 out out len =
      Some (patch ?mem1 out (slice mem inp len))"
    using cbc_decrypt_loop_blocks [OF ctx valid(1), of 0 n len out ?mem1 out] assms lens
    by (simp add: aes128_cbc_decrypt_def may_alias_def concat_blocks_at)
  have "length (slice mem inp len) = len"
    using assms by simp
  then show ?thesis
    using enc dec lens assms slice_patch_same [of out "slice mem inp len" ?mem1] by auto
qed

theorem aes128_cbc_roundtrip_witness:
  "\<exists>mem1 mem2. aes128_cbc_encrypt (replicate 16 1) (replicate 16 2) (map of_nat [0..<40]) 4 0 32 = Some mem1 \<and>
    aes128_cbc_decrypt (replicate 16 1) (replicate 16 2) mem1 0 0 32 = Some mem2 \<and>
    slice mem2 0 32 = slice (map of_nat [0..<40]) 4 32"
  using aes128_cbc_roundtrip [of "replicate 16 1" "replicate 16 2" 32 2 4 "map of_nat [0..<40]" 0] by auto

end
