(* ===== verification/WiiCrypto.thy ===== *)
theory WiiCrypto
  imports Aes
begin

unbundle bit_operations_syntax

text \<open>
  The reader of encrypted Wii partitions (decompiler/src/wii_crypto.c): it unwraps the title
  key of a partition and serves reads of the decrypted user data, group by group, through a
  cache of one group.  The disc is a list of bytes; a read that leaves it is an I/O error.
  Disc offsets are 64-bit words as in the code; buffers of their own are separate ranges of
  the memory that the cipher works on.
\<close>

section \<open>Data\<close>

definition WII_BLOCK_SIZE :: nat where "WII_BLOCK_SIZE = 0x8000"
definition WII_BLOCK_DATA_SIZE :: nat where "WII_BLOCK_DATA_SIZE = 0x7C00"
definition WII_BLOCK_HASH_SIZE :: nat where "WII_BLOCK_HASH_SIZE = 0x0400"

definition TICKET_ENC_TITLE_KEY :: nat where "TICKET_ENC_TITLE_KEY = 0x01BF"
definition TICKET_TITLE_ID :: nat where "TICKET_TITLE_ID = 0x01DC"
definition PART_DATA_OFFSET_AT :: nat where "PART_DATA_OFFSET_AT = 0x02B8"

lemmas wii_layout =
  WII_BLOCK_SIZE_def WII_BLOCK_DATA_SIZE_def WII_BLOCK_HASH_SIZE_def
  TICKET_ENC_TITLE_KEY_def TICKET_TITLE_ID_def PART_DATA_OFFSET_AT_def

datatype WiiStatus =
  WII_OK | WII_ERR_NULL_ARG | WII_ERR_IO | WII_ERR_BAD_KEY_FILE | WII_ERR_OUT_OF_BOUNDS

record WiiPartitionReader =
  wr_partition_offset :: u64
  wr_data_offset :: u64
  wr_title_key :: "u8 list"
  wr_cached_group :: u32
  wr_cache_valid :: bool
  wr_cache :: "u8 list"

definition zero_reader :: WiiPartitionReader where
  "zero_reader =
     \<lparr>wr_partition_offset = 0, wr_data_offset = 0, wr_title_key = replicate 16 0,
      wr_cached_group = 0, wr_cache_valid = False, wr_cache = replicate WII_BLOCK_DATA_SIZE 0\<rparr>"

fun wii_status_str :: "WiiStatus \<Rightarrow> string" where
  "wii_status_str WII_OK = ''ok''"
| "wii_status_str WII_ERR_NULL_ARG = ''null argument''"
| "wii_status_str WII_ERR_IO = ''I/O error''"
| "wii_status_str WII_ERR_BAD_KEY_FILE = ''key file not exactly 16 bytes''"
| "wii_status_str WII_ERR_OUT_OF_BOUNDS = ''read past partition data''"

section \<open>Reading the disc\<close>

text \<open>
  \<open>fseeko\<close> refuses offsets that are negative as \<open>off_t\<close>; a short \<open>fread\<close> is an error.
\<close>

definition read_at :: "u8 list \<Rightarrow> u64 \<Rightarrow> nat \<Rightarrow> u8 list option" where
  "read_at disc off n = (if unat off < 2 ^ 63 then read_bytes disc (unat off) n else None)"

text \<open>The cipher on an input buffer and an output buffer of its own.\<close>

definition cbc_decrypt_buffer :: "u8 list \<Rightarrow> u8 list \<Rightarrow> u8 list \<Rightarrow> nat \<Rightarrow> u8 list option" where
  "cbc_decrypt_buffer key iv input len =
     map_option (\<lambda>mem. slice mem (length input) len)
       (aes128_cbc_decrypt key iv (input @ replicate len 0) 0 (length input) len)"

definition wii_load_key_file :: "u8 list option \<Rightarrow> WiiStatus \<times> u8 list option" where
  "wii_load_key_file file =
     (case file of
        None \<Rightarrow> (WII_ERR_IO, None)
      | Some content \<Rightarrow>
          let buf = take 17 content
          in if length buf \<noteq> 16 then (WII_ERR_BAD_KEY_FILE, None) else (WII_OK, Some (take 16 buf)))"

section \<open>Opening a partition\<close>

text \<open>The outer option is the safety of the buffer accesses.\<close>

definition wii_partition_open ::
  "u8 list \<Rightarrow> u64 \<Rightarrow> u8 list \<Rightarrow> (WiiStatus \<times> WiiPartitionReader) option" where
  "wii_partition_open disc partition_offset common_key =
     (let r = zero_reader\<lparr>wr_partition_offset := partition_offset, wr_cache_valid := False\<rparr>
      in case read_at disc partition_offset 0x2C0 of
           None \<Rightarrow> Some (WII_ERR_IO, r)
         | Some hdr \<Rightarrow>
             do {
               title_id \<leftarrow> read_bytes hdr TICKET_TITLE_ID 8;
               iv \<leftarrow> write_bytes (replicate 16 0) 0 title_id;
               wrapped \<leftarrow> read_bytes hdr TICKET_ENC_TITLE_KEY 16;
               title_key \<leftarrow> cbc_decrypt_buffer common_key iv wrapped 16;
               data_offset \<leftarrow> read_be32 hdr PART_DATA_OFFSET_AT;
               Some (WII_OK, r\<lparr>wr_title_key := title_key,
                               wr_data_offset := push_bit 2 (ucast data_offset)\<rparr>)
             })"

section \<open>Reading user data\<close>

definition fetch_group ::
  "u8 list \<Rightarrow> WiiPartitionReader \<Rightarrow> u32 \<Rightarrow> (WiiStatus \<times> WiiPartitionReader) option" where
  "fetch_group disc r grp =
     (if wr_cache_valid r \<and> wr_cached_group r = grp then Some (WII_OK, r)
      else
        let base = wr_partition_offset r + wr_data_offset r + ucast grp * of_nat WII_BLOCK_SIZE
        in case read_at disc base WII_BLOCK_SIZE of
             None \<Rightarrow> Some (WII_ERR_IO, r)
           | Some enc \<Rightarrow>
               do {
                 hash_enc \<leftarrow> read_bytes enc 0 WII_BLOCK_HASH_SIZE;
                 hash_plain \<leftarrow> cbc_decrypt_buffer (wr_title_key r) (replicate 16 0) hash_enc
                   WII_BLOCK_HASH_SIZE;
                 data_iv \<leftarrow> read_bytes hash_plain 0x3D0 16;
                 data_enc \<leftarrow> read_bytes enc WII_BLOCK_HASH_SIZE WII_BLOCK_DATA_SIZE;
                 cache \<leftarrow> cbc_decrypt_buffer (wr_title_key r) data_iv data_enc WII_BLOCK_DATA_SIZE;
                 Some (WII_OK, r\<lparr>wr_cache := cache, wr_cached_group := grp,
                                 wr_cache_valid := True\<rparr>)
               })"

lemma within_block: "unat ((offset :: u64) mod of_nat WII_BLOCK_DATA_SIZE) < WII_BLOCK_DATA_SIZE"
proof -
  have "unat (offset mod 0x7C00) = unat offset mod 0x7C00"
    by (simp add: unat_mod)
  then show ?thesis
    by (simp add: WII_BLOCK_DATA_SIZE_def)
qed

text \<open>
  The loop of \<open>wii_partition_read\<close>: the bytes copied so far, which an error leaves behind.
\<close>

function partition_read_loop ::
  "u8 list \<Rightarrow> WiiPartitionReader \<Rightarrow> u64 \<Rightarrow> nat \<Rightarrow> u8 list \<Rightarrow>
   (WiiStatus \<times> WiiPartitionReader \<times> u8 list) option" where
  "partition_read_loop disc r offset len buf =
     (if len > 0 then
        let grp = ucast (offset div of_nat WII_BLOCK_DATA_SIZE) :: u32;
            within = unat (offset mod of_nat WII_BLOCK_DATA_SIZE);
            avail = WII_BLOCK_DATA_SIZE - within;
            n = (if len < avail then len else avail)
        in case fetch_group disc r grp of
             None \<Rightarrow> None
           | Some (st, r) \<Rightarrow>
               if st \<noteq> WII_OK then Some (st, r, buf)
               else case read_bytes (wr_cache r) within n of
                      None \<Rightarrow> None
                    | Some bytes \<Rightarrow>
                        partition_read_loop disc r (offset + of_nat n) (len - n) (buf @ bytes)
      else Some (WII_OK, r, buf))"
  by pat_completeness auto

termination
  by (relation "measure (\<lambda>(disc, r, offset, len, buf). len)") (use within_block in auto)

declare partition_read_loop.simps [simp del]

definition wii_partition_read ::
  "u8 list \<Rightarrow> WiiPartitionReader \<Rightarrow> u64 \<Rightarrow> nat \<Rightarrow>
   (WiiStatus \<times> WiiPartitionReader \<times> u8 list) option" where
  "wii_partition_read disc r offset len = partition_read_loop disc r offset len []"

section \<open>The decrypted view\<close>

text \<open>
  What the reader stands for: the decrypted payload of a group as a function of the disc, the
  offsets and the title key, and the user data as the payloads one behind the other.
  Offsets are natural numbers here.
\<close>

definition plain_cbc :: "u8 list \<Rightarrow> u8 list \<Rightarrow> u8 list \<Rightarrow> u8 list" where
  "plain_cbc key iv input =
     concat (cbc_decrypt_blocks (aes128_decrypt_block (aes128_init key)) xor_block iv
       (blocks_at input 0 (length input div 16)))"

definition decrypt_group :: "u8 list \<Rightarrow> u8 list \<Rightarrow> u8 list" where
  "decrypt_group key enc =
     (let hash_plain = plain_cbc key (replicate 16 0) (take WII_BLOCK_HASH_SIZE enc)
      in plain_cbc key (slice hash_plain 0x3D0 16) (drop WII_BLOCK_HASH_SIZE enc))"

definition group_view :: "u8 list \<Rightarrow> WiiPartitionReader \<Rightarrow> nat \<Rightarrow> u8 list option" where
  "group_view disc r g =
     map_option (decrypt_group (wr_title_key r))
       (read_bytes disc (unat (wr_partition_offset r) + unat (wr_data_offset r) + g * WII_BLOCK_SIZE)
          WII_BLOCK_SIZE)"

definition view_byte :: "u8 list \<Rightarrow> WiiPartitionReader \<Rightarrow> nat \<Rightarrow> u8 option" where
  "view_byte disc r p =
     map_option (\<lambda>d. d ! (p mod WII_BLOCK_DATA_SIZE)) (group_view disc r (p div WII_BLOCK_DATA_SIZE))"

definition user_data :: "u8 list \<Rightarrow> WiiPartitionReader \<Rightarrow> nat \<Rightarrow> nat \<Rightarrow> u8 list option" where
  "user_data disc r off len = those (map (view_byte disc r) [off..<off + len])"

text \<open>A reader whose cache, when it is valid, holds the payload of its group.\<close>

definition reader_ok :: "u8 list \<Rightarrow> WiiPartitionReader \<Rightarrow> bool" where
  "reader_ok disc r \<longleftrightarrow>
     is_key (wr_title_key r) \<and>
     unat (wr_partition_offset r) + unat (wr_data_offset r) < 2 ^ 62 \<and>
     (wr_cache_valid r \<longrightarrow> group_view disc r (unat (wr_cached_group r)) = Some (wr_cache r))"

definition same_partition :: "WiiPartitionReader \<Rightarrow> WiiPartitionReader \<Rightarrow> bool" where
  "same_partition r r' \<longleftrightarrow>
     wr_partition_offset r' = wr_partition_offset r \<and> wr_data_offset r' = wr_data_offset r \<and>
     wr_title_key r' = wr_title_key r"

lemma same_partition_refl [simp]: "same_partition r r"
  by (simp add: same_partition_def)

lemma same_partition_trans: "same_partition r s \<Longrightarrow> same_partition s t \<Longrightarrow> same_partition r t"
  by (simp add: same_partition_def)

lemma group_view_same: "same_partition r r' \<Longrightarrow> group_view disc r' = group_view disc r"
  by (rule ext) (simp add: group_view_def same_partition_def)

lemma user_data_same: "same_partition r r' \<Longrightarrow> user_data disc r' = user_data disc r"
  by (intro ext) (simp add: user_data_def view_byte_def [abs_def] group_view_same)

section \<open>The cipher on buffers\<close>

lemma blocks_at_append: "off + 16 * n \<le> length xs \<Longrightarrow> blocks_at (xs @ ys) off n = blocks_at xs off n"
  by (auto simp: blocks_at_def slice_def)

lemma length_plain_cbc: "is_block iv \<Longrightarrow> length input mod 16 = 0 \<Longrightarrow> length (plain_cbc key iv input) = length input"
  using length_concat_blocks [OF decrypt_blocks_valid [OF _ blocks_at_valid]]
  by (simp add: plain_cbc_def) (metis div_mult_mod_eq mult.commute add.right_neutral le_refl)

lemma cbc_decrypt_buffer_plain:
  assumes "is_key key" and "is_block iv" and "length input = len" and "len mod 16 = 0"
  shows "cbc_decrypt_buffer key iv input len = Some (plain_cbc key iv input)"
proof -
  have len: "16 * (len div 16) = len"
    using assms(4) mult_div_mod_eq [of 16 len] by simp
  have ok: "ctx_ok (aes128_init key)"
    using assms(1) by (simp add: is_key_def aes128_init_ok)
  have "aes128_cbc_decrypt key iv (input @ replicate len 0) 0 (length input) len =
      Some (patch (input @ replicate len 0) len (plain_cbc key iv input))"
    using cbc_decrypt_loop_blocks [OF ok assms(2), of 0 "len div 16" len 0 "input @ replicate len 0" len]
      assms len by (simp add: aes128_cbc_decrypt_def may_alias_def blocks_at_append plain_cbc_def)
  moreover have "length (plain_cbc key iv input) = len"
    using length_plain_cbc [OF assms(2), of input key] assms(3,4) by simp
  ultimately show ?thesis
    using slice_patch_same [of len "plain_cbc key iv input" "input @ replicate len 0"] assms(3)
    by (simp add: cbc_decrypt_buffer_def)
qed

lemma length_decrypt_group: "length enc = WII_BLOCK_SIZE \<Longrightarrow> length (decrypt_group key enc) = WII_BLOCK_DATA_SIZE"
  by (simp add: decrypt_group_def Let_def length_plain_cbc is_block_def wii_layout)

lemma read_bytes_length: "read_bytes mem off n = Some xs \<Longrightarrow> length xs = n"
  by (auto simp: read_bytes_def split: if_splits)

lemma length_group_view: "group_view disc r g = Some d \<Longrightarrow> length d = WII_BLOCK_DATA_SIZE"
  by (auto simp: group_view_def length_decrypt_group dest: read_bytes_length)

section \<open>The cache\<close>

text \<open>The base address of a group does not wrap.\<close>

lemma group_base:
  assumes "unat po + unat d < 2 ^ 62"
  shows "unat (po + d + ucast (g :: u32) * of_nat WII_BLOCK_SIZE :: u64) =
    unat po + unat d + unat g * WII_BLOCK_SIZE"
    and "unat (po + d + ucast (g :: u32) * of_nat WII_BLOCK_SIZE :: u64) < 2 ^ 63"
proof -
  have g: "unat (ucast g :: u64) = unat g" "unat g < 2 ^ 32"
    using unat_u32_less [of g] by (simp_all add: unsigned_ucast_eq take_bit_nat_eq_self)
  then have prod: "unat (ucast g * of_nat WII_BLOCK_SIZE :: u64) = unat g * WII_BLOCK_SIZE"
    by (simp add: unat_word_ariths(2) WII_BLOCK_SIZE_def)
  have "unat (po + d) = unat po + unat d"
    using assms by (simp add: unat_word_ariths(1))
  then show base: "unat (po + d + ucast g * of_nat WII_BLOCK_SIZE :: u64) =
    unat po + unat d + unat g * WII_BLOCK_SIZE"
    using assms prod g(2) by (simp add: unat_word_ariths(1) WII_BLOCK_SIZE_def)
  then show "unat (po + d + ucast g * of_nat WII_BLOCK_SIZE :: u64) < 2 ^ 63"
    using assms g(2) by (simp add: WII_BLOCK_SIZE_def)
qed

lemma fetch_group_view:
  assumes "reader_ok disc r"
  shows "\<exists>r'. fetch_group disc r g =
      Some (if group_view disc r (unat g) = None then WII_ERR_IO else WII_OK, r') \<and>
    reader_ok disc r' \<and> same_partition r r' \<and>
    (group_view disc r (unat g) \<noteq> None \<longrightarrow> Some (wr_cache r') = group_view disc r (unat g))"
proof (cases "wr_cache_valid r \<and> wr_cached_group r = g")
  case True
  with assms show ?thesis
    by (auto simp: fetch_group_def reader_ok_def)
next
  case False
  let ?base = "unat (wr_partition_offset r) + unat (wr_data_offset r) + unat g * WII_BLOCK_SIZE"
  have key: "is_key (wr_title_key r)"
    and small: "unat (wr_partition_offset r) + unat (wr_data_offset r) < 2 ^ 62"
    using assms by (simp_all add: reader_ok_def)
  have read: "read_at disc (wr_partition_offset r + wr_data_offset r + ucast g * of_nat WII_BLOCK_SIZE)
      WII_BLOCK_SIZE = read_bytes disc ?base WII_BLOCK_SIZE"
    using group_base [OF small, of g] by (simp add: read_at_def)
  show ?thesis
  proof (cases "read_bytes disc ?base WII_BLOCK_SIZE")
    case None
    with False read assms show ?thesis
      by (auto simp: fetch_group_def group_view_def)
  next
    case (Some enc)
    have enc: "length enc = 0x8000"
      using read_bytes_length [OF Some] by (simp add: WII_BLOCK_SIZE_def)
    let ?hash = "plain_cbc (wr_title_key r) (replicate 16 0) (take WII_BLOCK_HASH_SIZE enc)"
    let ?plain = "decrypt_group (wr_title_key r) enc"
    let ?r = "r\<lparr>wr_cache := ?plain, wr_cached_group := g, wr_cache_valid := True\<rparr>"
    have hash: "length ?hash = WII_BLOCK_HASH_SIZE"
      by (simp add: length_plain_cbc is_block_def enc wii_layout)
    have "fetch_group disc r g = Some (WII_OK, ?r)"
      using False read Some enc hash
      by (auto simp: fetch_group_def read_bytes_def slice_def cbc_decrypt_buffer_plain key is_block_def
          wii_layout decrypt_group_def Let_def)
    moreover have view: "group_view disc r (unat g) = Some ?plain"
      using Some by (simp add: group_view_def)
    moreover have "same_partition r ?r"
      by (simp add: same_partition_def)
    moreover have "reader_ok disc ?r"
      using assms view group_view_same [OF \<open>same_partition r ?r\<close>] by (simp add: reader_ok_def)
    ultimately show ?thesis
      by (intro exI [of _ ?r]) simp
  qed
qed

section \<open>Reading across groups\<close>

lemma those_append:
  "those (xs @ ys) =
     (case those xs of None \<Rightarrow> None | Some a \<Rightarrow> (case those ys of None \<Rightarrow> None | Some b \<Rightarrow> Some (a @ b)))"
  by (induction xs) (auto split: option.splits)

lemma those_map_Some: "(\<And>x. x \<in> set xs \<Longrightarrow> f x = Some (h x)) \<Longrightarrow> those (map f xs) = Some (map h xs)"
  by (induction xs) simp_all

lemma those_None: "x \<in> set xs \<Longrightarrow> f x = None \<Longrightarrow> those (map f xs) = None"
  by (induction xs) (auto split: option.split)

lemma user_data_add:
  "user_data disc r off (m + n) =
     (case user_data disc r off m of None \<Rightarrow> None
      | Some a \<Rightarrow> (case user_data disc r (off + m) n of None \<Rightarrow> None | Some b \<Rightarrow> Some (a @ b)))"
  unfolding user_data_def
  by (simp add: upt_add_eq_append [of off "off + m" n, simplified] those_append add.assoc [symmetric]
      upt_add_eq_append [OF le_add1])

text \<open>A piece that lies in one group is a slice of its payload.\<close>

lemma user_data_group:
  assumes "off mod WII_BLOCK_DATA_SIZE + n \<le> WII_BLOCK_DATA_SIZE" and "0 < n"
  shows "user_data disc r off n =
    map_option (\<lambda>d. slice d (off mod WII_BLOCK_DATA_SIZE) n) (group_view disc r (off div WII_BLOCK_DATA_SIZE))"
proof -
  let ?B = WII_BLOCK_DATA_SIZE
  have pos: "(off + i) div ?B = off div ?B \<and> (off + i) mod ?B = off mod ?B + i" if "i < n" for i
  proof -
    have lt: "off mod ?B + i < ?B"
      using that assms(1) by simp
    have "?B > 0"
      by (simp add: WII_BLOCK_DATA_SIZE_def)
    have eq: "off + i = (off mod ?B + i) + (off div ?B) * ?B"
      using div_mult_mod_eq [of off ?B] by linarith
    have "(off + i) div ?B = off div ?B"
      unfolding eq [THEN arg_cong [where f = "\<lambda>x. x div ?B"]]
      using lt \<open>?B > 0\<close> by (simp only: div_mult_self1 div_less add_0_right add_0_left)
    moreover have "(off + i) mod ?B = off mod ?B + i"
      unfolding eq [THEN arg_cong [where f = "\<lambda>x. x mod ?B"]]
      using lt by (simp only: mod_mult_self1 mod_less)
    ultimately show ?thesis
      by (rule conjI)
  qed
  show ?thesis
  proof (cases "group_view disc r (off div ?B)")
    case None
    then have "view_byte disc r off = None"
      by (simp add: view_byte_def)
    then have "user_data disc r off n = None"
      unfolding user_data_def using assms(2) by (intro those_None [of off]) simp_all
    with None show ?thesis
      by simp
  next
    case (Some d)
    have "user_data disc r off n = Some (map (\<lambda>p. d ! (p mod ?B)) [off..<off + n])"
      unfolding user_data_def
    proof (rule those_map_Some)
      fix p
      assume "p \<in> set [off..<off + n]"
      then obtain i where "p = off + i" "i < n"
        by (auto simp: le_iff_add)
      then show "view_byte disc r p = Some (d ! (p mod ?B))"
        using pos Some by (simp add: view_byte_def)
    qed
    moreover have "map (\<lambda>p. d ! (p mod ?B)) [off..<off + n] = slice d (off mod ?B) n"
      using assms(1) length_group_view [OF Some] pos by (intro nth_equalityI) simp_all
    ultimately show ?thesis
      by (simp add: Some)
  qed
qed

lemma group_index:
  fixes offset :: u64
  assumes "unat offset < 2 ^ 32 * WII_BLOCK_DATA_SIZE"
  shows "unat (ucast (offset div of_nat WII_BLOCK_DATA_SIZE) :: u32) = unat offset div WII_BLOCK_DATA_SIZE"
    and "unat (offset mod of_nat WII_BLOCK_DATA_SIZE) = unat offset mod WII_BLOCK_DATA_SIZE"
proof -
  have "unat offset div 0x7C00 < 2 ^ 32"
    using assms by (simp add: WII_BLOCK_DATA_SIZE_def less_mult_imp_div_less)
  then show "unat (ucast (offset div of_nat WII_BLOCK_DATA_SIZE) :: u32) = unat offset div WII_BLOCK_DATA_SIZE"
    by (simp add: WII_BLOCK_DATA_SIZE_def unsigned_ucast_eq take_bit_nat_eq_self unat_div)
  show "unat (offset mod of_nat WII_BLOCK_DATA_SIZE) = unat offset mod WII_BLOCK_DATA_SIZE"
    by (simp add: WII_BLOCK_DATA_SIZE_def unat_mod)
qed

lemma partition_read_loop_view:
  assumes "reader_ok disc r" and "unat offset + len \<le> 2 ^ 32 * WII_BLOCK_DATA_SIZE"
  shows "\<exists>st r' out. partition_read_loop disc r offset len buf = Some (st, r', out) \<and>
    reader_ok disc r' \<and> same_partition r r' \<and>
    (case user_data disc r (unat offset) len of
       None \<Rightarrow> st = WII_ERR_IO
     | Some d \<Rightarrow> st = WII_OK \<and> out = buf @ d)"
  using assms
proof (induction len arbitrary: r offset buf rule: less_induct)
  case (less len)
  let ?B = WII_BLOCK_DATA_SIZE
  show ?case
  proof (cases "len > 0")
    case False
    then show ?thesis
      using less.prems(1) by (simp add: partition_read_loop.simps [of disc r offset 0] user_data_def)
  next
    case True
    let ?g = "ucast (offset div of_nat ?B) :: u32" and ?w = "unat offset mod ?B"
    define n where "n = (if len < ?B - ?w then len else ?B - ?w)"
    have "unat offset < 2 ^ 32 * ?B"
      using less.prems(2) True by linarith
    note idx = group_index [OF this]
    have n_bounds: "0 < n" "n \<le> len" "?w + n \<le> ?B"
      using True by (auto simp: n_def WII_BLOCK_DATA_SIZE_def)
    obtain r1 where fetch: "fetch_group disc r ?g =
        Some (if group_view disc r (unat ?g) = None then WII_ERR_IO else WII_OK, r1)"
      and ok: "reader_ok disc r1" and same: "same_partition r r1"
      and cache: "group_view disc r (unat ?g) \<noteq> None \<longrightarrow> Some (wr_cache r1) = group_view disc r (unat ?g)"
      using fetch_group_view [OF less.prems(1)] by blast
    have split: "user_data disc r (unat offset) len =
        (case user_data disc r (unat offset) n of None \<Rightarrow> None
         | Some a \<Rightarrow> (case user_data disc r (unat offset + n) (len - n) of None \<Rightarrow> None | Some b \<Rightarrow> Some (a @ b)))"
      using user_data_add [of disc r "unat offset" n "len - n"] n_bounds(2) by simp
    note head = user_data_group [OF n_bounds(3) n_bounds(1), of disc r]
    show ?thesis
    proof (cases "group_view disc r (unat ?g)")
      case None
      then show ?thesis
        using True fetch ok same split head idx
        by (simp add: partition_read_loop.simps [of disc r offset len] Let_def)
    next
      case (Some d)
      have cache_d: "wr_cache r1 = d"
        using cache Some by simp
      have rb: "read_bytes d ?w n = Some (slice d ?w n)"
        using length_group_view [OF Some] n_bounds(3) by (simp add: read_bytes_def)
      have step: "partition_read_loop disc r offset len buf =
          partition_read_loop disc r1 (offset + of_nat n) (len - n) (buf @ slice d ?w n)"
        using True fetch Some cache_d rb idx
        by (simp add: n_def partition_read_loop.simps [of disc r offset len] Let_def)
      have "unat offset + n < 2 ^ 64"
        using less.prems(2) n_bounds(2) by (simp add: WII_BLOCK_DATA_SIZE_def)
      then have off: "unat (offset + of_nat n) = unat offset + n"
        by (simp add: unat_word_ariths(1) unat_of_nat take_bit_nat_eq_self)
      have "len - n < len" "unat (offset + of_nat n) + (len - n) \<le> 2 ^ 32 * ?B"
        using n_bounds less.prems(2) off by simp_all
      from less.IH [OF this(1) ok this(2), of "buf @ slice d ?w n"]
      obtain st r' out where IH: "partition_read_loop disc r1 (offset + of_nat n) (len - n) (buf @ slice d ?w n) =
          Some (st, r', out)" "reader_ok disc r'" "same_partition r1 r'"
        "case user_data disc r1 (unat (offset + of_nat n)) (len - n) of
           None \<Rightarrow> st = WII_ERR_IO | Some e \<Rightarrow> st = WII_OK \<and> out = (buf @ slice d ?w n) @ e"
        by blast
      have "user_data disc r (unat offset) n = Some (slice d ?w n)"
        using head Some idx by simp
      then show ?thesis
        using IH step split off same_partition_trans [OF same IH(3)] user_data_same [OF same]
        by (cases "user_data disc r (unat offset + n) (len - n)") simp_all
    qed
  qed
qed

section \<open>The properties\<close>

text \<open>
  C19. Reading user data through the group cache is reading the decrypted view: whatever the
  cache holds, \<open>wii_partition_read\<close> returns exactly the bytes of the payloads at the
  requested offsets, also across group boundaries, or the I/O error when a group of the range
  is not on the disc; it never touches memory outside its buffers, and it leaves the reader on
  the same partition with a cache that is still right.  (The group number is kept in 32 bits,
  hence the bound on the offsets.)
\<close>

theorem wii_partition_read_view:
  assumes "reader_ok disc r" and "unat offset + len \<le> 2 ^ 32 * WII_BLOCK_DATA_SIZE"
  shows "\<exists>st r' buf. wii_partition_read disc r offset len = Some (st, r', buf) \<and>
    reader_ok disc r' \<and> same_partition r r' \<and>
    (case user_data disc r (unat offset) len of
       None \<Rightarrow> st = WII_ERR_IO
     | Some d \<Rightarrow> st = WII_OK \<and> buf = d)"
  using partition_read_loop_view [OF assms, of "[]"] by (simp only: wii_partition_read_def append_Nil)

lemma zero_reader_ok [simp]: "reader_ok disc zero_reader"
  by (simp add: reader_ok_def zero_reader_def is_key_def)

lemma zero_group_view:
  "group_view (replicate 0x8000 0) zero_reader 0 = Some (decrypt_group (replicate 16 0) (replicate 0x8000 0))"
  by (simp add: group_view_def zero_reader_def read_bytes_def slice_def WII_BLOCK_SIZE_def)

theorem wii_partition_read_view_witness:
  "\<exists>r' buf. wii_partition_read (replicate 0x8000 0) zero_reader 0x20 48 = Some (WII_OK, r', buf) \<and>
     buf = slice (decrypt_group (replicate 16 0) (replicate 0x8000 0)) 0x20 48 \<and>
     reader_ok (replicate 0x8000 0) r'"
proof -
  have "user_data (replicate 0x8000 0) zero_reader 0x20 48 =
      Some (slice (decrypt_group (replicate 16 0) (replicate 0x8000 0)) 0x20 48)"
    using user_data_group [of "0x20" 48 "replicate 0x8000 0" zero_reader]
    by (simp add: zero_group_view WII_BLOCK_DATA_SIZE_def)
  then show ?thesis
    using wii_partition_read_view [OF zero_reader_ok, of "0x20" 48 "replicate 0x8000 0"]
    by (auto simp: WII_BLOCK_DATA_SIZE_def)
qed

definition ticket_iv :: "u8 list \<Rightarrow> u8 list" where
  "ticket_iv hdr = slice hdr TICKET_TITLE_ID 8 @ replicate 8 0"

definition unwrap_title_key :: "u8 list \<Rightarrow> u8 list \<Rightarrow> u8 list" where
  "unwrap_title_key common_key hdr =
     plain_cbc common_key (ticket_iv hdr) (slice hdr TICKET_ENC_TITLE_KEY 16)"

lemma unat_shifted_offset: "unat (push_bit 2 (ucast (w :: u32)) :: u64) = 4 * unat w"
  using unat_u32_less [of w]
  by (simp add: push_bit_eq_mult unat_word_ariths(2) unsigned_ucast_eq take_bit_nat_eq_self)

lemma wii_partition_open_eq:
  assumes "is_key common_key" and "read_at disc offset 0x2C0 = Some hdr"
    and "read_be32 hdr PART_DATA_OFFSET_AT = Some shifted"
  shows "wii_partition_open disc offset common_key =
    Some (WII_OK, zero_reader\<lparr>wr_partition_offset := offset, wr_cache_valid := False,
      wr_title_key := unwrap_title_key common_key hdr, wr_data_offset := push_bit 2 (ucast shifted)\<rparr>)"
    and "is_key (unwrap_title_key common_key hdr)"
proof -
  have len: "length hdr = 0x2C0"
    using assms(2) by (auto simp: read_at_def dest: read_bytes_length split: if_splits)
  have iv: "is_block (ticket_iv hdr)" and id: "length (slice hdr TICKET_TITLE_ID 8) = 8"
    using len by (simp_all add: TICKET_TITLE_ID_def is_block_def ticket_iv_def)
  have wr: "write_bytes (replicate 16 0) 0 (slice hdr TICKET_TITLE_ID 8) = Some (ticket_iv hdr)"
    using id by (simp add: write_bytes_def patch_def ticket_iv_def)
  have wrapped: "length (slice hdr TICKET_ENC_TITLE_KEY 16) = 16"
    using len by (simp add: TICKET_ENC_TITLE_KEY_def)
  have key: "cbc_decrypt_buffer common_key (ticket_iv hdr) (slice hdr TICKET_ENC_TITLE_KEY 16) 16 =
      Some (unwrap_title_key common_key hdr)"
    using cbc_decrypt_buffer_plain [OF assms(1) iv wrapped] by (simp add: unwrap_title_key_def)
  show "wii_partition_open disc offset common_key =
    Some (WII_OK, zero_reader\<lparr>wr_partition_offset := offset, wr_cache_valid := False,
      wr_title_key := unwrap_title_key common_key hdr, wr_data_offset := push_bit 2 (ucast shifted)\<rparr>)"
    using assms(2,3) len wr key by (simp add: wii_partition_open_def read_bytes_def wii_layout)
  show "is_key (unwrap_title_key common_key hdr)"
    using length_plain_cbc [OF iv, of "slice hdr TICKET_ENC_TITLE_KEY 16" common_key] wrapped
    by (simp add: unwrap_title_key_def is_key_def)
qed

text \<open>A partition whose header is on the disc opens, and the reader is ready.\<close>

lemma wii_partition_open_ok:
  assumes "is_key common_key" and "unat offset < 2 ^ 61"
  shows "\<exists>st r. wii_partition_open disc offset common_key = Some (st, r) \<and>
    (st = WII_OK \<longrightarrow> reader_ok disc r) \<and> (st = WII_OK \<or> st = WII_ERR_IO)"
proof (cases "read_at disc offset 0x2C0")
  case None
  then show ?thesis
    by (simp add: wii_partition_open_def)
next
  case (Some hdr)
  then have "length hdr = 0x2C0"
    by (auto simp: read_at_def dest: read_bytes_length split: if_splits)
  then obtain shifted where "read_be32 hdr PART_DATA_OFFSET_AT = Some shifted"
    using read_be32_Some [of PART_DATA_OFFSET_AT hdr] by (auto simp: PART_DATA_OFFSET_AT_def)
  from wii_partition_open_eq [OF assms(1) Some this] show ?thesis
    using assms(2) unat_u32_less [of shifted] by (simp add: reader_ok_def unat_shifted_offset)
qed

lemma blocks_at_one: "length b = 16 \<Longrightarrow> blocks_at b 0 (Suc 0) = [b]"
  by (simp add: blocks_at_Suc slice_def) (simp add: blocks_at_def)

text \<open>
  C20. Opening a partition unwraps its title key: when the ticket holds a title key encrypted
  under the common key with the title id as initialization vector, the reader has exactly that
  key, the data offset of the header shifted by 2, an empty cache, and (for offsets of a disc)
  is ready for reading.
\<close>

theorem wii_partition_open_unwraps:
  assumes "length common_key = 16" and "length title_key = 16"
    and "read_at disc offset 0x2C0 = Some hdr"
    and "slice hdr TICKET_ENC_TITLE_KEY 16 =
      aes128_encrypt_block (aes128_init common_key)
        (xor_block title_key (slice hdr TICKET_TITLE_ID 8 @ replicate 8 0))"
    and "read_be32 hdr PART_DATA_OFFSET_AT = Some shifted"
  shows "\<exists>r. wii_partition_open disc offset common_key = Some (WII_OK, r) \<and>
    wr_title_key r = title_key \<and> wr_partition_offset r = offset \<and>
    unat (wr_data_offset r) = 4 * unat shifted \<and> \<not> wr_cache_valid r \<and>
    (unat offset < 2 ^ 61 \<longrightarrow> reader_ok disc r)"
proof -
  have len: "length hdr = 0x2C0"
    using assms(3) by (auto simp: read_at_def dest: read_bytes_length split: if_splits)
  have iv: "length (ticket_iv hdr) = 16" and wrapped: "length (slice hdr TICKET_ENC_TITLE_KEY 16) = 16"
    using len by (simp_all add: TICKET_TITLE_ID_def TICKET_ENC_TITLE_KEY_def ticket_iv_def)
  have "unwrap_title_key common_key hdr =
      xor_block (aes128_decrypt_block (aes128_init common_key) (slice hdr TICKET_ENC_TITLE_KEY 16)) (ticket_iv hdr)"
    using wrapped by (simp add: unwrap_title_key_def plain_cbc_def blocks_at_one)
  also have "\<dots> = title_key"
    using assms iv
    by (simp add: decrypt_encrypt_block aes128_init_ok xor_block_cancel ticket_iv_def [symmetric])
  finally have key: "unwrap_title_key common_key hdr = title_key" .
  have "is_key common_key"
    using assms(1) by (simp add: is_key_def)
  from wii_partition_open_eq [OF this assms(3,5)] show ?thesis
    using key assms(2) unat_u32_less [of shifted]
    by (simp add: reader_ok_def is_key_def unat_shifted_offset)
qed

lemma slice_all: "length xs = n \<Longrightarrow> slice xs 0 n = xs"
  by (simp add: slice_def)

text \<open>A header with title id 0 and the data at 0x20000.\<close>

definition sample_ticket :: "u8 list \<Rightarrow> u8 list" where
  "sample_ticket wrapped = replicate 0x1BF 0 @ wrapped @ replicate 0xE9 0 @ [0, 0, 0x80, 0] @ replicate 4 0"

lemma sample_ticket_fields:
  assumes "length wrapped = 16"
  shows "length (sample_ticket wrapped) = 0x2C0"
    and "slice (sample_ticket wrapped) TICKET_ENC_TITLE_KEY 16 = wrapped"
    and "slice (sample_ticket wrapped) TICKET_TITLE_ID 8 = replicate 8 0"
    and "read_be32 (sample_ticket wrapped) PART_DATA_OFFSET_AT = Some 0x8000"
  using assms
  by (simp_all add: sample_ticket_def slice_def wii_layout read_be32_def be32_of_def nth_append)

theorem wii_partition_open_unwraps_witness:
  "\<exists>r. wii_partition_open (sample_ticket (aes128_encrypt_block (aes128_init (replicate 16 7)) (replicate 16 9)))
      0 (replicate 16 7) = Some (WII_OK, r) \<and>
    wr_title_key r = replicate 16 9 \<and> unat (wr_data_offset r) = 0x20000"
proof -
  let ?w = "aes128_encrypt_block (aes128_init (replicate 16 7)) (replicate 16 9)"
  note fields = sample_ticket_fields [of ?w, simplified]
  have "xor_block (replicate 16 9) (replicate 8 0 @ replicate 8 0 :: u8 list) = replicate 16 9"
    by (rule nth_equalityI) (simp_all add: xor_block_def nth_append)
  then show ?thesis
    using wii_partition_open_unwraps [of "replicate 16 7" "replicate 16 9" "sample_ticket ?w" 0 "sample_ticket ?w" "0x8000"]
    by (auto simp: fields read_at_def read_bytes_def slice_all)
qed

end
