(* ===== verification/Dol.thy ===== *)
theory Dol
  imports Prelude "HOL-Library.Monad_Syntax"
begin

unbundle bit_operations_syntax

text \<open>
  The loader of DOL executables (decompiler/src/dol.c, decompiler/include/dol.h): the header
  is 57 big-endian words, from which \<open>dol_parse\<close> builds the list of non-empty sections.
  Reads of the image are optional values: a result \<open>Some\<close> says that no byte outside the
  buffer was read.  File offsets are 32-bit words, as in the header; the size of the buffer
  is a natural number.
\<close>

section \<open>Data\<close>

datatype DolStatus =
    DOL_OK | DOL_ERR_NULL_ARG | DOL_ERR_TOO_SMALL | DOL_ERR_BAD_SECTION | DOL_ERR_OVERFLOW
  | DOL_ERR_MISALIGNED | DOL_ERR_NO_ENTRYPOINT

datatype DolSectionKind = DOL_SECTION_TEXT | DOL_SECTION_DATA

record DolSection =
  ds_kind :: DolSectionKind
  ds_index :: nat
  ds_file_offset :: u32
  ds_virtual_addr :: u32
  ds_size :: u32

record DolImage =
  di_bytes :: "u8 list"
  di_size :: nat
  di_entrypoint :: u32
  di_bss_addr :: u32
  di_bss_size :: u32
  di_sections :: "DolSection list"

definition DOL_HEADER_SIZE :: nat where "DOL_HEADER_SIZE = 256"
definition DOL_MAX_TEXT_SECTIONS :: nat where "DOL_MAX_TEXT_SECTIONS = 7"
definition DOL_MAX_DATA_SECTIONS :: nat where "DOL_MAX_DATA_SECTIONS = 11"

definition TEXT_OFFSETS_AT :: nat where "TEXT_OFFSETS_AT = 0x00"
definition DATA_OFFSETS_AT :: nat where "DATA_OFFSETS_AT = 0x1C"
definition TEXT_ADDRS_AT :: nat where "TEXT_ADDRS_AT = 0x48"
definition DATA_ADDRS_AT :: nat where "DATA_ADDRS_AT = 0x64"
definition TEXT_SIZES_AT :: nat where "TEXT_SIZES_AT = 0x90"
definition DATA_SIZES_AT :: nat where "DATA_SIZES_AT = 0xAC"
definition BSS_ADDR_AT :: nat where "BSS_ADDR_AT = 0xD8"
definition BSS_SIZE_AT :: nat where "BSS_SIZE_AT = 0xDC"
definition ENTRYPOINT_AT :: nat where "ENTRYPOINT_AT = 0xE0"

lemmas dol_layout =
  DOL_HEADER_SIZE_def DOL_MAX_TEXT_SECTIONS_def DOL_MAX_DATA_SECTIONS_def
  TEXT_OFFSETS_AT_def DATA_OFFSETS_AT_def TEXT_ADDRS_AT_def DATA_ADDRS_AT_def
  TEXT_SIZES_AT_def DATA_SIZES_AT_def BSS_ADDR_AT_def BSS_SIZE_AT_def ENTRYPOINT_AT_def

text \<open>The zeroed state.\<close>

definition zero_image :: DolImage where
  "zero_image =
     \<lparr>di_bytes = [], di_size = 0, di_entrypoint = 0, di_bss_addr = 0, di_bss_size = 0,
      di_sections = []\<rparr>"

fun dol_status_str :: "DolStatus \<Rightarrow> string" where
  "dol_status_str DOL_OK = ''ok''"
| "dol_status_str DOL_ERR_NULL_ARG = ''null argument''"
| "dol_status_str DOL_ERR_TOO_SMALL = ''file smaller than DOL header''"
| "dol_status_str DOL_ERR_BAD_SECTION = ''section extends outside file''"
| "dol_status_str DOL_ERR_OVERFLOW = ''section offset+size overflow''"
| "dol_status_str DOL_ERR_MISALIGNED = ''section offset or address not 4-byte aligned''"
| "dol_status_str DOL_ERR_NO_ENTRYPOINT = ''entrypoint not inside any text section''"

section \<open>Operations\<close>

text \<open>\<open>None\<close> is the overflow.\<close>

definition add_overflow_u32 :: "u32 \<Rightarrow> u32 \<Rightarrow> u32 option" where
  "add_overflow_u32 a b = (if a > 0xFFFFFFFF - b then None else Some (a + b))"

definition push_section ::
  "DolImage \<Rightarrow> DolSectionKind \<Rightarrow> nat \<Rightarrow> u32 \<Rightarrow> u32 \<Rightarrow> u32 \<Rightarrow> nat \<Rightarrow> DolStatus \<times> DolImage" where
  "push_section img kind index off addr sz file_size =
     (if sz = 0 then (DOL_OK, img)
      else if (off AND 3) \<noteq> 0 \<or> (addr AND 3) \<noteq> 0 \<or> (sz AND 3) \<noteq> 0 then (DOL_ERR_MISALIGNED, img)
      else case add_overflow_u32 off sz of
        None \<Rightarrow> (DOL_ERR_OVERFLOW, img)
      | Some section_end \<Rightarrow>
          if unat section_end > file_size then (DOL_ERR_BAD_SECTION, img)
          else case add_overflow_u32 addr sz of
            None \<Rightarrow> (DOL_ERR_OVERFLOW, img)
          | Some _ \<Rightarrow>
              (DOL_OK, img\<lparr>di_sections := di_sections img @
                 [\<lparr>ds_kind = kind, ds_index = index, ds_file_offset = off,
                   ds_virtual_addr = addr, ds_size = sz\<rparr>]\<rparr>))"

fun section_loop ::
  "DolSectionKind \<Rightarrow> u8 list \<Rightarrow> nat \<Rightarrow> nat \<Rightarrow> nat \<Rightarrow> nat list \<Rightarrow> DolImage \<Rightarrow>
   (DolStatus \<times> DolImage) option" where
  "section_loop kind bytes offsets_at addrs_at sizes_at [] img = Some (DOL_OK, img)"
| "section_loop kind bytes offsets_at addrs_at sizes_at (i # is) img =
     do {
       off \<leftarrow> read_be32 bytes (offsets_at + 4 * i);
       addr \<leftarrow> read_be32 bytes (addrs_at + 4 * i);
       sz \<leftarrow> read_be32 bytes (sizes_at + 4 * i);
       (case push_section img kind i off addr sz (length bytes) of
          (st, img) \<Rightarrow>
            if st \<noteq> DOL_OK then Some (st, zero_image)
            else section_loop kind bytes offsets_at addrs_at sizes_at is img)
     }"

definition covers_vaddr :: "u32 \<Rightarrow> DolSection \<Rightarrow> bool" where
  "covers_vaddr vaddr s \<longleftrightarrow> vaddr \<ge> ds_virtual_addr s \<and> vaddr < ds_virtual_addr s + ds_size s"

definition dol_section_for_vaddr :: "DolImage \<Rightarrow> u32 \<Rightarrow> DolSection option" where
  "dol_section_for_vaddr img vaddr = find (covers_vaddr vaddr) (di_sections img)"

text \<open>A null pointer for the bytes is \<open>None\<close>; the output structure is the result.\<close>

definition dol_parse :: "u8 list option \<Rightarrow> (DolStatus \<times> DolImage) option" where
  "dol_parse input =
     (case input of
        None \<Rightarrow> Some (DOL_ERR_NULL_ARG, zero_image)
      | Some bytes \<Rightarrow>
          if length bytes < DOL_HEADER_SIZE then Some (DOL_ERR_TOO_SMALL, zero_image)
          else do {
            (st, img) \<leftarrow> section_loop DOL_SECTION_TEXT bytes TEXT_OFFSETS_AT TEXT_ADDRS_AT
              TEXT_SIZES_AT [0..<DOL_MAX_TEXT_SECTIONS]
              (zero_image\<lparr>di_bytes := bytes, di_size := length bytes\<rparr>);
            if st \<noteq> DOL_OK then Some (st, img)
            else do {
              (st, img) \<leftarrow> section_loop DOL_SECTION_DATA bytes DATA_OFFSETS_AT DATA_ADDRS_AT
                DATA_SIZES_AT [0..<DOL_MAX_DATA_SECTIONS] img;
              if st \<noteq> DOL_OK then Some (st, img)
              else do {
                bss_addr \<leftarrow> read_be32 bytes BSS_ADDR_AT;
                bss_size \<leftarrow> read_be32 bytes BSS_SIZE_AT;
                entrypoint \<leftarrow> read_be32 bytes ENTRYPOINT_AT;
                (let img = img\<lparr>di_bss_addr := bss_addr, di_bss_size := bss_size,
                               di_entrypoint := entrypoint\<rparr>
                 in case dol_section_for_vaddr img entrypoint of
                      None \<Rightarrow> Some (DOL_ERR_NO_ENTRYPOINT, zero_image)
                    | Some ep_sec \<Rightarrow>
                        if ds_kind ep_sec \<noteq> DOL_SECTION_TEXT
                        then Some (DOL_ERR_NO_ENTRYPOINT, zero_image)
                        else Some (DOL_OK, img))
              }
            }
          })"

text \<open>The pointer is an offset into the bytes of the image, with the bytes that remain.\<close>

definition dol_vaddr_to_ptr :: "DolImage \<Rightarrow> u32 \<Rightarrow> (nat \<times> nat) option" where
  "dol_vaddr_to_ptr img vaddr =
     (case dol_section_for_vaddr img vaddr of
        None \<Rightarrow> None
      | Some s \<Rightarrow>
          let delta = vaddr - ds_virtual_addr s
          in Some (unat (ds_file_offset s) + unat delta, unat (ds_size s - delta)))"

section \<open>The reference parser\<close>

text \<open>
  A slot is a possible section of the header.  \<open>slot_status\<close> judges a slot on its own; the
  reference takes the error of the first bad slot, or keeps the non-empty slots.
\<close>

definition slot :: "u8 list \<Rightarrow> DolSectionKind \<Rightarrow> nat \<Rightarrow> nat \<Rightarrow> nat \<Rightarrow> nat \<Rightarrow> DolSection" where
  "slot bytes kind offsets_at addrs_at sizes_at i =
     \<lparr>ds_kind = kind, ds_index = i,
      ds_file_offset = the (read_be32 bytes (offsets_at + 4 * i)),
      ds_virtual_addr = the (read_be32 bytes (addrs_at + 4 * i)),
      ds_size = the (read_be32 bytes (sizes_at + 4 * i))\<rparr>"

definition dol_slots :: "u8 list \<Rightarrow> DolSection list" where
  "dol_slots bytes =
     map (slot bytes DOL_SECTION_TEXT TEXT_OFFSETS_AT TEXT_ADDRS_AT TEXT_SIZES_AT)
       [0..<DOL_MAX_TEXT_SECTIONS] @
     map (slot bytes DOL_SECTION_DATA DATA_OFFSETS_AT DATA_ADDRS_AT DATA_SIZES_AT)
       [0..<DOL_MAX_DATA_SECTIONS]"

definition aligned4 :: "u32 \<Rightarrow> bool" where
  "aligned4 w \<longleftrightarrow> unat w mod 4 = 0"

definition slot_status :: "nat \<Rightarrow> DolSection \<Rightarrow> DolStatus" where
  "slot_status file_size s =
     (if ds_size s = 0 then DOL_OK
      else if \<not> (aligned4 (ds_file_offset s) \<and> aligned4 (ds_virtual_addr s) \<and> aligned4 (ds_size s))
      then DOL_ERR_MISALIGNED
      else if unat (ds_file_offset s) + unat (ds_size s) \<ge> 2 ^ 32 then DOL_ERR_OVERFLOW
      else if unat (ds_file_offset s) + unat (ds_size s) > file_size then DOL_ERR_BAD_SECTION
      else if unat (ds_virtual_addr s) + unat (ds_size s) \<ge> 2 ^ 32 then DOL_ERR_OVERFLOW
      else DOL_OK)"

definition first_error :: "nat \<Rightarrow> DolSection list \<Rightarrow> DolStatus" where
  "first_error file_size slots =
     (case find (\<lambda>s. slot_status file_size s \<noteq> DOL_OK) slots of
        None \<Rightarrow> DOL_OK | Some s \<Rightarrow> slot_status file_size s)"

definition present :: "DolSection list \<Rightarrow> DolSection list" where
  "present slots = filter (\<lambda>s. ds_size s \<noteq> 0) slots"

lemma and_3_aligned: "(w :: u32) AND 3 = 0 \<longleftrightarrow> aligned4 w"
proof -
  have "w AND 3 = take_bit 2 w"
    by (simp add: take_bit_eq_mask mask_eq_exp_minus_1)
  moreover have "unat (take_bit 2 w) = unat w mod 4"
    unfolding unsigned_take_bit_eq by (simp add: take_bit_eq_mod)
  ultimately show ?thesis
    by (metis aligned4_def unsigned_eq_0_iff)
qed

lemma add_overflow_u32_eq:
  "add_overflow_u32 a b = (if unat a + unat b \<ge> 2 ^ 32 then None else Some (a + b))"
proof -
  have "unat (0xFFFFFFFF :: u32) = 4294967295"
    by simp
  moreover have "b \<le> 0xFFFFFFFF"
    using unat_u32_less [of b] by (simp add: word_le_nat_alt)
  ultimately have "unat (0xFFFFFFFF - b) = 4294967295 - unat b"
    by (simp add: unat_sub)
  then have "(a > 0xFFFFFFFF - b) = (unat a + unat b \<ge> 2 ^ 32)"
    using unat_u32_less [of b] by (auto simp: word_less_nat_alt)
  then show ?thesis
    by (simp add: add_overflow_u32_def)
qed

section \<open>The sections of a header\<close>

lemma push_section_slot:
  "push_section img (ds_kind s) (ds_index s) (ds_file_offset s) (ds_virtual_addr s) (ds_size s) n =
     (slot_status n s,
      if slot_status n s = DOL_OK then img\<lparr>di_sections := di_sections img @ present [s]\<rparr> else img)"
proof -
  have "img\<lparr>di_sections := di_sections img\<rparr> = img"
    by simp
  moreover have "\<lparr>ds_kind = ds_kind s, ds_index = ds_index s, ds_file_offset = ds_file_offset s,
      ds_virtual_addr = ds_virtual_addr s, ds_size = ds_size s\<rparr> = s"
    by simp
  ultimately show ?thesis
    unfolding push_section_def slot_status_def and_3_aligned add_overflow_u32_eq present_def
    by (simp add: unat_add_u32 not_le)
qed

lemma slot_fields [simp]:
  "ds_kind (slot bytes kind x y z i) = kind" "ds_index (slot bytes kind x y z i) = i"
  by (simp_all add: slot_def)

text \<open>The header is long enough for every slot of the two loops.\<close>

definition slots_in :: "u8 list \<Rightarrow> nat \<Rightarrow> nat list \<Rightarrow> bool" where
  "slots_in bytes at is \<longleftrightarrow> (\<forall>i \<in> set is. at + 4 * i + 4 \<le> length bytes)"

lemma section_loop_slots:
  assumes "slots_in bytes offs is" and "slots_in bytes addrs is" and "slots_in bytes sizes is"
  shows "section_loop kind bytes offs addrs sizes is img =
    Some (let slots = map (slot bytes kind offs addrs sizes) is; st = first_error (length bytes) slots
          in (st, if st = DOL_OK then img\<lparr>di_sections := di_sections img @ present slots\<rparr>
                  else zero_image))"
  using assms
proof (induction "is" arbitrary: img)
  case Nil
  then show ?case
    by (simp add: first_error_def present_def)
next
  case (Cons i "is")
  let ?s = "slot bytes kind offs addrs sizes i" and ?n = "length bytes"
  have rest: "slots_in bytes offs is" "slots_in bytes addrs is" "slots_in bytes sizes is"
    using Cons.prems by (simp_all add: slots_in_def)
  have reads: "read_be32 bytes (offs + 4 * i) = Some (ds_file_offset ?s)"
    "read_be32 bytes (addrs + 4 * i) = Some (ds_virtual_addr ?s)"
    "read_be32 bytes (sizes + 4 * i) = Some (ds_size ?s)"
    using Cons.prems by (simp_all add: slots_in_def slot_def read_be32_def)
  let ?img = "img\<lparr>di_sections := di_sections img @ present [?s]\<rparr>"
  have "section_loop kind bytes offs addrs sizes (i # is) img =
      (if slot_status ?n ?s \<noteq> DOL_OK then Some (slot_status ?n ?s, zero_image)
       else section_loop kind bytes offs addrs sizes is ?img)"
    using push_section_slot [of img ?s ?n] by (simp add: reads)
  then show ?case
    using Cons.IH [OF rest] by (simp add: first_error_def present_def Let_def)
qed

lemma first_error_append:
  "first_error n (xs @ ys) = (if first_error n xs \<noteq> DOL_OK then first_error n xs else first_error n ys)"
  by (induction xs) (auto simp: first_error_def split: option.split)

lemma present_append: "present (xs @ ys) = present xs @ present ys"
  by (simp add: present_def)

lemma first_error_OK: "first_error n slots = DOL_OK \<longleftrightarrow> (\<forall>s \<in> set slots. slot_status n s = DOL_OK)"
  by (induction slots) (auto simp: first_error_def split: option.split)

lemma find_set: "find P xs = Some x \<Longrightarrow> x \<in> set xs \<and> P x"
  by (auto simp: find_Some_iff)

lemma first_error_in: "first_error n slots \<noteq> DOL_OK \<Longrightarrow> \<exists>s \<in> set slots. first_error n slots = slot_status n s"
  by (fastforce simp: first_error_def split: option.splits dest: find_set)

text \<open>What the loader should compute, from the slots alone.\<close>

definition dol_parse_spec :: "u8 list \<Rightarrow> DolStatus \<times> DolImage" where
  "dol_parse_spec bytes =
     (let slots = dol_slots bytes;
          img = \<lparr>di_bytes = bytes, di_size = length bytes,
                 di_entrypoint = the (read_be32 bytes ENTRYPOINT_AT),
                 di_bss_addr = the (read_be32 bytes BSS_ADDR_AT),
                 di_bss_size = the (read_be32 bytes BSS_SIZE_AT),
                 di_sections = present slots\<rparr>
      in if length bytes < DOL_HEADER_SIZE then (DOL_ERR_TOO_SMALL, zero_image)
         else if first_error (length bytes) slots \<noteq> DOL_OK
         then (first_error (length bytes) slots, zero_image)
         else case dol_section_for_vaddr img (di_entrypoint img) of
           Some s \<Rightarrow> (if ds_kind s = DOL_SECTION_TEXT then (DOL_OK, img)
                      else (DOL_ERR_NO_ENTRYPOINT, zero_image))
         | None \<Rightarrow> (DOL_ERR_NO_ENTRYPOINT, zero_image))"

lemma dol_parse_eq: "dol_parse (Some bytes) = Some (dol_parse_spec bytes)"
proof (cases "length bytes < DOL_HEADER_SIZE")
  case True
  then show ?thesis
    by (simp add: dol_parse_def dol_parse_spec_def Let_def)
next
  case False
  then have long: "256 \<le> length bytes"
    by (simp add: DOL_HEADER_SIZE_def)
  then have text_slots: "slots_in bytes TEXT_OFFSETS_AT [0..<DOL_MAX_TEXT_SECTIONS]"
    "slots_in bytes TEXT_ADDRS_AT [0..<DOL_MAX_TEXT_SECTIONS]"
    "slots_in bytes TEXT_SIZES_AT [0..<DOL_MAX_TEXT_SECTIONS]"
    and data_slots: "slots_in bytes DATA_OFFSETS_AT [0..<DOL_MAX_DATA_SECTIONS]"
    "slots_in bytes DATA_ADDRS_AT [0..<DOL_MAX_DATA_SECTIONS]"
    "slots_in bytes DATA_SIZES_AT [0..<DOL_MAX_DATA_SECTIONS]"
    by (auto simp: slots_in_def dol_layout)
  have reads: "read_be32 bytes BSS_ADDR_AT = Some (the (read_be32 bytes BSS_ADDR_AT))"
    "read_be32 bytes BSS_SIZE_AT = Some (the (read_be32 bytes BSS_SIZE_AT))"
    "read_be32 bytes ENTRYPOINT_AT = Some (the (read_be32 bytes ENTRYPOINT_AT))"
    using long by (simp_all add: read_be32_def dol_layout)
  show ?thesis
    using False
    unfolding dol_parse_def dol_parse_spec_def option.case section_loop_slots [OF text_slots]
      section_loop_slots [OF data_slots] dol_slots_def first_error_append present_append Let_def
    by (subst reads(1), subst reads(2), subst reads(3))
      (auto simp: zero_image_def split: option.split)
qed

section \<open>Loaded images\<close>

text \<open>The well-formedness of an image the loader accepts.\<close>

definition image_ok :: "DolImage \<Rightarrow> bool" where
  "image_ok img \<longleftrightarrow>
     di_size img = length (di_bytes img) \<and>
     length (di_sections img) \<le> DOL_MAX_TEXT_SECTIONS + DOL_MAX_DATA_SECTIONS \<and>
     (\<forall>s \<in> set (di_sections img).
        0 < unat (ds_size s) \<and>
        aligned4 (ds_file_offset s) \<and> aligned4 (ds_virtual_addr s) \<and> aligned4 (ds_size s) \<and>
        unat (ds_file_offset s) + unat (ds_size s) \<le> length (di_bytes img) \<and>
        unat (ds_virtual_addr s) + unat (ds_size s) < 2 ^ 32)"

lemma slot_status_OK:
  "slot_status n s = DOL_OK \<longleftrightarrow> ds_size s = 0 \<or>
     aligned4 (ds_file_offset s) \<and> aligned4 (ds_virtual_addr s) \<and> aligned4 (ds_size s) \<and>
     unat (ds_file_offset s) + unat (ds_size s) < 2 ^ 32 \<and>
     unat (ds_file_offset s) + unat (ds_size s) \<le> n \<and>
     unat (ds_virtual_addr s) + unat (ds_size s) < 2 ^ 32"
  by (auto simp: slot_status_def)

lemma length_dol_slots: "length (dol_slots bytes) = DOL_MAX_TEXT_SECTIONS + DOL_MAX_DATA_SECTIONS"
  by (simp add: dol_slots_def)

lemma covers_vaddr_eq:
  "unat (ds_virtual_addr s) + unat (ds_size s) < 2 ^ 32 \<Longrightarrow>
   covers_vaddr v s \<longleftrightarrow>
     unat (ds_virtual_addr s) \<le> unat v \<and> unat v < unat (ds_virtual_addr s) + unat (ds_size s)"
  by (simp add: covers_vaddr_def word_le_nat_alt word_less_nat_alt unat_add_u32)

lemma dol_parse_spec_image_ok:
  assumes "dol_parse_spec bytes = (DOL_OK, img)"
  shows "image_ok img \<and> di_bytes img = bytes"
proof -
  have ok: "first_error (length bytes) (dol_slots bytes) = DOL_OK"
    and img: "di_sections img = present (dol_slots bytes)" "di_bytes img = bytes"
      "di_size img = length bytes"
    using assms by (auto simp: dol_parse_spec_def Let_def split: if_splits option.splits)
  moreover have "length (present (dol_slots bytes)) \<le> length (dol_slots bytes)"
    unfolding present_def by (rule length_filter_le)
  ultimately show ?thesis
    by (auto simp: image_ok_def first_error_OK slot_status_OK length_dol_slots present_def
        unat_gt_0)
qed

lemma dol_parse_spec_entry:
  assumes "dol_parse_spec bytes = (DOL_OK, img)"
  shows "\<exists>s \<in> set (di_sections img). ds_kind s = DOL_SECTION_TEXT \<and>
    unat (ds_virtual_addr s) \<le> unat (di_entrypoint img) \<and>
    unat (di_entrypoint img) < unat (ds_virtual_addr s) + unat (ds_size s)"
proof -
  obtain s where s: "dol_section_for_vaddr img (di_entrypoint img) = Some s"
    "ds_kind s = DOL_SECTION_TEXT"
    using assms by (auto simp: dol_parse_spec_def Let_def split: if_splits option.splits)
  then have "s \<in> set (di_sections img)" "covers_vaddr (di_entrypoint img) s"
    by (auto simp: dol_section_for_vaddr_def find_Some_iff)
  then show ?thesis
    using s dol_parse_spec_image_ok [OF assms] covers_vaddr_eq by (auto simp: image_ok_def)
qed

section \<open>Properties of the loader\<close>

text \<open>
  C15 The loader computes the reference: for every buffer \<open>dol_parse\<close> reads inside the buffer
  only, and returns the error of the first bad section slot, the missing entry point, or the
  image with the non-empty slots in the order of the header; every error leaves the zeroed
  image.
\<close>

theorem dol_parse_spec_correct:
  "dol_parse (Some bytes) = Some (dol_parse_spec bytes) \<and>
   (fst (dol_parse_spec bytes) = DOL_OK \<or> snd (dol_parse_spec bytes) = zero_image)"
  unfolding dol_parse_eq
  by (simp add: dol_parse_spec_def Let_def split: option.split)

text \<open>
  C16 An accepted image is well formed: every section is non-empty and aligned to four bytes,
  lies inside the file and does not wrap in the address space, there are at most 18 of them,
  and the entry point lies in a text section.
\<close>

theorem dol_parse_image_ok:
  assumes "dol_parse (Some bytes) = Some (DOL_OK, img)"
  shows "di_bytes img = bytes \<and>
    length (di_sections img) \<le> DOL_MAX_TEXT_SECTIONS + DOL_MAX_DATA_SECTIONS \<and>
    (\<forall>s \<in> set (di_sections img).
       0 < unat (ds_size s) \<and>
       aligned4 (ds_file_offset s) \<and> aligned4 (ds_virtual_addr s) \<and> aligned4 (ds_size s) \<and>
       unat (ds_file_offset s) + unat (ds_size s) \<le> length bytes \<and>
       unat (ds_virtual_addr s) + unat (ds_size s) < 2 ^ 32) \<and>
    (\<exists>s \<in> set (di_sections img). ds_kind s = DOL_SECTION_TEXT \<and>
       unat (ds_virtual_addr s) \<le> unat (di_entrypoint img) \<and>
       unat (di_entrypoint img) < unat (ds_virtual_addr s) + unat (ds_size s))"
proof -
  have "dol_parse_spec bytes = (DOL_OK, img)"
    using assms by (simp add: dol_parse_eq)
  then show ?thesis
    using dol_parse_spec_image_ok [of bytes img] dol_parse_spec_entry [of bytes img]
    by (auto simp: image_ok_def)
qed

text \<open>
  Address translation stays in the file: on an accepted image \<open>dol_vaddr_to_ptr\<close> succeeds
  exactly for the addresses some section covers, with the offset of the address in the file,
  and the bytes it says remain up to the end of that section are bytes of the file.
\<close>

theorem dol_vaddr_to_ptr_in_file:
  assumes "dol_parse (Some bytes) = Some (DOL_OK, img)"
  shows "case dol_vaddr_to_ptr img v of
      None \<Rightarrow> (\<forall>s \<in> set (di_sections img). \<not> (unat (ds_virtual_addr s) \<le> unat v \<and>
        unat v < unat (ds_virtual_addr s) + unat (ds_size s)))
    | Some (ptr, remaining) \<Rightarrow> 0 < remaining \<and> ptr + remaining \<le> length bytes \<and>
        (\<exists>s \<in> set (di_sections img).
           ptr = unat (ds_file_offset s) + (unat v - unat (ds_virtual_addr s)) \<and>
           unat (ds_virtual_addr s) \<le> unat v \<and>
           ptr + remaining = unat (ds_file_offset s) + unat (ds_size s))"
proof (cases "dol_section_for_vaddr img v")
  case None
  have "image_ok img"
    using assms dol_parse_spec_image_ok by (simp add: dol_parse_eq)
  then have "\<not> (unat (ds_virtual_addr s) \<le> unat v \<and> unat v < unat (ds_virtual_addr s) + unat (ds_size s))"
    if "s \<in> set (di_sections img)" for s
    using that None covers_vaddr_eq [of s v] by (auto simp: image_ok_def dol_section_for_vaddr_def find_None_iff)
  with None show ?thesis
    by (simp add: dol_vaddr_to_ptr_def)
next
  case (Some s)
  have ok: "image_ok img" "di_bytes img = bytes"
    using assms dol_parse_spec_image_ok by (simp_all add: dol_parse_eq)
  have s: "s \<in> set (di_sections img)" "covers_vaddr v s"
    using find_set [OF Some [unfolded dol_section_for_vaddr_def]] by simp_all
  then have range: "unat (ds_virtual_addr s) \<le> unat v"
    "unat v < unat (ds_virtual_addr s) + unat (ds_size s)"
    "unat (ds_file_offset s) + unat (ds_size s) \<le> length bytes"
    using ok covers_vaddr_eq [of s v] by (auto simp: image_ok_def)
  then have delta: "unat (v - ds_virtual_addr s) = unat v - unat (ds_virtual_addr s)"
    by (simp add: unat_sub word_le_nat_alt)
  then have "unat (ds_size s - (v - ds_virtual_addr s)) =
      unat (ds_size s) - (unat v - unat (ds_virtual_addr s))"
    using range by (simp add: unat_sub word_le_nat_alt)
  then have ptr: "dol_vaddr_to_ptr img v =
      Some (unat (ds_file_offset s) + (unat v - unat (ds_virtual_addr s)),
        unat (ds_size s) - (unat v - unat (ds_virtual_addr s)))"
    using Some delta by (simp add: dol_vaddr_to_ptr_def Let_def)
  show ?thesis
    unfolding ptr option.case prod.case using range s(1) by (intro conjI bexI [of _ s]) simp_all
qed

lemma length_words [simp]: "length (concat (map bytes_be32 ws)) = 4 * length ws"
  by (induction ws) simp_all

lemma read_be32_words:
  "k mod 4 = 0 \<Longrightarrow> k div 4 < length ws \<Longrightarrow>
   read_be32 (concat (map bytes_be32 ws)) k = Some (ws ! (k div 4))"
proof (induction ws arbitrary: k)
  case (Cons w ws)
  let ?rest = "concat (map bytes_be32 ws)"
  show ?case
  proof (cases "k < 4")
    case True
    then have "k = 0"
      using Cons.prems by simp
    then show ?thesis
      by (simp add: read_be32_def bytes_be32_def be32_of_bytes)
  next
    case False
    then obtain j where j: "k = 4 + j"
      using le_Suc_ex not_less by blast
    then have "j mod 4 = 0" "k div 4 = Suc (j div 4)"
      using Cons.prems(1) by (simp_all add: mod_add_self1 del: mod_add_self2)
    moreover have "read_be32 (bytes_be32 w @ ?rest) k = read_be32 ?rest j"
      by (simp add: j read_be32_def bytes_be32_def nth_append add.commute)
    ultimately show ?thesis
      using Cons.IH [of j] Cons.prems(2) by simp
  qed
qed simp

section \<open>A sample image\<close>

text \<open>One text section of four bytes, with the entry point at its start.\<close>

definition sample_words :: "u32 list" where
  "sample_words = (replicate 65 0)[0 := 0x100, 18 := 0x80004000, 36 := 4, 56 := 0x80004000]"

definition sample_dol :: "u8 list" where
  "sample_dol = concat (map bytes_be32 sample_words)"

lemma sample_words_nth:
  "i < 65 \<Longrightarrow> sample_words ! i =
     (if i = 0 then 0x100 else if i = 18 then 0x80004000 else if i = 36 then 4
      else if i = 56 then 0x80004000 else 0)"
  by (simp add: sample_words_def nth_list_update)

lemma sample_read:
  "k mod 4 = 0 \<Longrightarrow> k div 4 < 65 \<Longrightarrow> read_be32 sample_dol k = Some (sample_words ! (k div 4))"
  unfolding sample_dol_def by (rule read_be32_words) (simp_all add: sample_words_def)

lemma sample_dol_spec:
  "dol_parse_spec sample_dol =
     (DOL_OK, \<lparr>di_bytes = sample_dol, di_size = 260, di_entrypoint = 0x80004000, di_bss_addr = 0,
        di_bss_size = 0,
        di_sections = [\<lparr>ds_kind = DOL_SECTION_TEXT, ds_index = 0, ds_file_offset = 0x100,
          ds_virtual_addr = 0x80004000, ds_size = 4\<rparr>]\<rparr>)"
proof -
  have len: "length sample_dol = 260"
    by (simp add: sample_dol_def length_words sample_words_def)
  have upt: "[0..<7] = [0, 1, 2, 3, 4, 5, 6 :: nat]" "[0..<11] = [0, 1, 2, 3, 4, 5, 6, 7, 8, 9, 10 :: nat]"
    by (simp_all add: upt_rec)
  let ?s = "\<lparr>ds_kind = DOL_SECTION_TEXT, ds_index = 0, ds_file_offset = 0x100,
          ds_virtual_addr = 0x80004000, ds_size = 4\<rparr>"
  let ?zero = "\<lambda>kind i. \<lparr>ds_kind = kind, ds_index = i, ds_file_offset = 0, ds_virtual_addr = 0, ds_size = 0\<rparr>"
  have slots: "dol_slots sample_dol =
      ?s # map (?zero DOL_SECTION_TEXT) [1, 2, 3, 4, 5, 6] @
        map (?zero DOL_SECTION_DATA) [0, 1, 2, 3, 4, 5, 6, 7, 8, 9, 10]"
    by (simp add: dol_slots_def dol_layout upt slot_def sample_read sample_words_nth)
  have "first_error 260 (dol_slots sample_dol) = DOL_OK"
    by (simp add: slots first_error_OK slot_status_OK aligned4_def)
  moreover have "present (dol_slots sample_dol) = [?s]"
    by (simp add: slots present_def)
  ultimately show ?thesis
    by (simp add: dol_parse_spec_def Let_def len dol_layout sample_read sample_words_nth
        dol_section_for_vaddr_def covers_vaddr_def)
qed

lemma sample_dol_result:
  "dol_parse (Some sample_dol) = Some (DOL_OK, snd (dol_parse_spec sample_dol))"
  by (simp add: dol_parse_eq sample_dol_spec)

theorem dol_parse_image_ok_witness:
  "length (di_sections (snd (dol_parse_spec sample_dol))) \<le> 18"
  using dol_parse_image_ok [OF sample_dol_result] by (simp add: dol_layout)

theorem dol_vaddr_to_ptr_in_file_witness:
  "case dol_vaddr_to_ptr (snd (dol_parse_spec sample_dol)) 0x80004002 of
     None \<Rightarrow> False
   | Some (ptr, remaining) \<Rightarrow> ptr + remaining \<le> length sample_dol"
proof -
  have "dol_vaddr_to_ptr (snd (dol_parse_spec sample_dol)) 0x80004002 = Some (0x102, 2)"
    by (simp add: sample_dol_spec dol_vaddr_to_ptr_def dol_section_for_vaddr_def covers_vaddr_def)
  then show ?thesis
    using dol_vaddr_to_ptr_in_file [OF sample_dol_result, where v = "0x80004002"] by simp
qed

end
