(* ===== verification/Iso.thy ===== *)
theory Iso
  imports WiiCrypto Dol
begin

unbundle bit_operations_syntax

text \<open>
  The disc image loader (decompiler/src/iso.c): it recognises GameCube and Wii images, lists
  the Wii partitions and extracts the main executable, from the raw disc or through the
  partition reader of \<open>WiiCrypto\<close>.  A disc is a list of bytes, allocation succeeds, and the
  list of partitions stands for the used part of the array (its count is the length).  The
  code that sizes and copies the executable is written twice in the source, once per source of
  the bytes; here it is one definition over the reading function, and both instances share the
  interface \<open>byte_reader\<close>.
\<close>

section \<open>Data\<close>

datatype IsoFormat = ISO_FORMAT_UNKNOWN | ISO_FORMAT_GAMECUBE | ISO_FORMAT_WII

datatype IsoStatus =
    ISO_OK | ISO_ERR_NULL_ARG | ISO_ERR_IO | ISO_ERR_TOO_SMALL | ISO_ERR_UNKNOWN_FORMAT
  | ISO_ERR_ENCRYPTED

record IsoWiiPartition =
  iwp_offset :: u32
  iwp_type :: u32

record IsoInfo =
  ii_format :: IsoFormat
  ii_game_id :: "u8 list"
  ii_game_title :: "u8 list"
  ii_gc_dol_offset :: u32
  ii_wii_partitions :: "IsoWiiPartition list"

definition ISO_GAME_ID_LEN :: nat where "ISO_GAME_ID_LEN = 6"
definition ISO_TITLE_SIZE :: nat where "ISO_TITLE_SIZE = 65"
definition WII_MAGIC :: u32 where "WII_MAGIC = 0x5D1C9EA3"
definition WII_MAGIC_OFFSET :: nat where "WII_MAGIC_OFFSET = 0x18"
definition GC_MAGIC :: u32 where "GC_MAGIC = 0xC2339F3D"
definition GC_MAGIC_OFFSET :: nat where "GC_MAGIC_OFFSET = 0x1C"
definition GC_DOL_OFFSET_AT :: nat where "GC_DOL_OFFSET_AT = 0x420"
definition WII_PART_TABLE_AT :: u64 where "WII_PART_TABLE_AT = 0x40000"
definition WII_PART_DOL_OFFSET_AT :: nat where "WII_PART_DOL_OFFSET_AT = 0x0420"

lemmas iso_layout =
  ISO_GAME_ID_LEN_def ISO_TITLE_SIZE_def WII_MAGIC_OFFSET_def GC_MAGIC_OFFSET_def
  GC_DOL_OFFSET_AT_def WII_PART_DOL_OFFSET_AT_def

definition zero_info :: IsoInfo where
  "zero_info =
     \<lparr>ii_format = ISO_FORMAT_UNKNOWN, ii_game_id = replicate (ISO_GAME_ID_LEN + 1) 0,
      ii_game_title = replicate ISO_TITLE_SIZE 0, ii_gc_dol_offset = 0, ii_wii_partitions = []\<rparr>"

fun iso_status_str :: "IsoStatus \<Rightarrow> string" where
  "iso_status_str ISO_OK = ''ok''"
| "iso_status_str ISO_ERR_NULL_ARG = ''null argument''"
| "iso_status_str ISO_ERR_IO = ''I/O error''"
| "iso_status_str ISO_ERR_TOO_SMALL = ''image smaller than disc header''"
| "iso_status_str ISO_ERR_UNKNOWN_FORMAT = ''unknown disc format''"
| "iso_status_str ISO_ERR_ENCRYPTED = ''encrypted partition; key required''"

fun iso_format_str :: "IsoFormat \<Rightarrow> string" where
  "iso_format_str ISO_FORMAT_UNKNOWN = ''unknown''"
| "iso_format_str ISO_FORMAT_GAMECUBE = ''gamecube''"
| "iso_format_str ISO_FORMAT_WII = ''wii''"

section \<open>Probing\<close>

definition iso_read_at :: "u8 list \<Rightarrow> u64 \<Rightarrow> nat \<Rightarrow> u8 list option" where
  "iso_read_at disc off n = (if unat off < 2 ^ 63 then read_bytes disc (unat off) n else None)"

text \<open>The records of one group; the array of 32 partitions is never overrun.\<close>

fun partition_records :: "u8 list \<Rightarrow> nat list \<Rightarrow> IsoWiiPartition list \<Rightarrow> IsoWiiPartition list option" where
  "partition_records records [] parts = Some parts"
| "partition_records records (r # rs) parts =
     (if length parts \<ge> 32 then Some parts
      else do {
        offset \<leftarrow> read_be32 records (r * 8);
        type \<leftarrow> read_be32 records (r * 8 + 4);
        partition_records records rs
          (parts @ [\<lparr>iwp_offset = push_bit 2 offset, iwp_type = type\<rparr>])
      })"

fun partition_groups ::
  "u8 list \<Rightarrow> u8 list \<Rightarrow> nat list \<Rightarrow> IsoWiiPartition list \<Rightarrow> IsoWiiPartition list option" where
  "partition_groups disc table [] parts = Some parts"
| "partition_groups disc table (i # is) parts =
     do {
       count \<leftarrow> read_be32 table (i * 8);
       tbl \<leftarrow> read_be32 table (i * 8 + 4);
       (if count = 0 \<or> count > 8 then partition_groups disc table is parts
        else case iso_read_at disc (push_bit 2 (ucast tbl)) (unat count * 8) of
               None \<Rightarrow> partition_groups disc table is parts
             | Some records \<Rightarrow>
                 do {
                   parts \<leftarrow> partition_records records [0..<unat count] parts;
                   partition_groups disc table is parts
                 })
     }"

definition probe_wii_partitions :: "u8 list \<Rightarrow> IsoInfo \<Rightarrow> (IsoStatus \<times> IsoInfo) option" where
  "probe_wii_partitions disc out =
     (case iso_read_at disc WII_PART_TABLE_AT 0x20 of
        None \<Rightarrow> Some (ISO_ERR_IO, out)
      | Some table \<Rightarrow>
          do {
            parts \<leftarrow> partition_groups disc table [0..<4] [];
            Some (ISO_OK, out\<lparr>ii_wii_partitions := parts\<rparr>)
          })"

definition iso_probe :: "u8 list \<Rightarrow> (IsoStatus \<times> IsoInfo) option" where
  "iso_probe disc =
     (case iso_read_at disc 0 0x440 of
        None \<Rightarrow> Some (ISO_ERR_TOO_SMALL, zero_info)
      | Some hdr \<Rightarrow>
          do {
            game_id \<leftarrow> read_bytes hdr 0 ISO_GAME_ID_LEN;
            title \<leftarrow> read_bytes hdr 0x20 (ISO_TITLE_SIZE - 1);
            (let out = zero_info\<lparr>ii_game_id := game_id @ [0], ii_game_title := title @ [0]\<rparr>
             in do {
               wii_magic \<leftarrow> read_be32 hdr WII_MAGIC_OFFSET;
               gc_magic \<leftarrow> read_be32 hdr GC_MAGIC_OFFSET;
               (if wii_magic = WII_MAGIC then
                  do {
                    (_, out) \<leftarrow> probe_wii_partitions disc (out\<lparr>ii_format := ISO_FORMAT_WII\<rparr>);
                    Some (ISO_OK, out)
                  }
                else if gc_magic = GC_MAGIC then
                  do {
                    dol_offset \<leftarrow> read_be32 hdr GC_DOL_OFFSET_AT;
                    Some (ISO_OK, out\<lparr>ii_format := ISO_FORMAT_GAMECUBE,
                                      ii_gc_dol_offset := dol_offset\<rparr>)
                  }
                else Some (ISO_ERR_UNKNOWN_FORMAT, out))
             })
          })"

section \<open>Extracting the executable\<close>

fun extent_loop :: "u8 list \<Rightarrow> nat \<Rightarrow> nat \<Rightarrow> nat list \<Rightarrow> u32 \<Rightarrow> u32 option" where
  "extent_loop dolhdr offs_at sizes_at [] max_end = Some max_end"
| "extent_loop dolhdr offs_at sizes_at (i # is) max_end =
     do {
       off \<leftarrow> read_be32 dolhdr (offs_at + i * 4);
       sz \<leftarrow> read_be32 dolhdr (sizes_at + i * 4);
       extent_loop dolhdr offs_at sizes_at is
         (if sz \<noteq> 0 \<and> off + sz > max_end then off + sz else max_end)
     }"

definition dol_extent :: "u8 list \<Rightarrow> u32 option" where
  "dol_extent dolhdr =
     do {
       max_end \<leftarrow> extent_loop dolhdr 0x00 0x90 [0..<7] 0x100;
       extent_loop dolhdr 0x1C 0xAC [0..<11] max_end
     }"

type_synonym 's reader = "'s \<Rightarrow> u64 \<Rightarrow> nat \<Rightarrow> (u8 list option \<times> 's) option"

definition extract_dol_at :: "'s reader \<Rightarrow> IsoStatus \<Rightarrow> 's \<Rightarrow> u64 \<Rightarrow> (IsoStatus \<times> u8 list option) option" where
  "extract_dol_at rd failure s dol_off =
     do {
       (hdr, s) \<leftarrow> rd s dol_off 0x100;
       (case hdr of
          None \<Rightarrow> Some (failure, None)
        | Some dolhdr \<Rightarrow>
            do {
              max_end \<leftarrow> dol_extent dolhdr;
              (buf, s) \<leftarrow> rd s dol_off (unat max_end);
              (case buf of
                 None \<Rightarrow> Some (failure, None)
               | Some buf \<Rightarrow> Some (ISO_OK, Some buf))
            })
     }"

definition disc_reader :: "u8 list reader" where
  "disc_reader disc off n = Some (iso_read_at disc off n, disc)"

definition iso_extract_gc_dol :: "u8 list \<Rightarrow> IsoInfo \<Rightarrow> (IsoStatus \<times> u8 list option) option" where
  "iso_extract_gc_dol disc info =
     (if ii_format info = ISO_FORMAT_WII then Some (ISO_ERR_ENCRYPTED, None)
      else if ii_format info \<noteq> ISO_FORMAT_GAMECUBE then Some (ISO_ERR_UNKNOWN_FORMAT, None)
      else extract_dol_at disc_reader ISO_ERR_IO disc (ucast (ii_gc_dol_offset info)))"

definition partition_reader :: "u8 list \<Rightarrow> WiiPartitionReader reader" where
  "partition_reader disc r off n =
     (case wii_partition_read disc r off n of
        None \<Rightarrow> None
      | Some (st, r, buf) \<Rightarrow> Some (if st = WII_OK then Some buf else None, r))"

definition iso_extract_wii_dol ::
  "u8 list \<Rightarrow> IsoInfo \<Rightarrow> nat \<Rightarrow> u8 list \<Rightarrow> (IsoStatus \<times> u8 list option) option" where
  "iso_extract_wii_dol disc info partition_index common_key =
     (if ii_format info \<noteq> ISO_FORMAT_WII then Some (ISO_ERR_UNKNOWN_FORMAT, None)
      else if partition_index \<ge> length (ii_wii_partitions info) then Some (ISO_ERR_NULL_ARG, None)
      else do {
        (wst, r) \<leftarrow> wii_partition_open disc
          (ucast (iwp_offset (ii_wii_partitions info ! partition_index))) common_key;
        (if wst \<noteq> WII_OK then Some (ISO_ERR_ENCRYPTED, None)
         else do {
           (boot, r) \<leftarrow> partition_reader disc r 0 0x440;
           (case boot of
              None \<Rightarrow> Some (ISO_ERR_ENCRYPTED, None)
            | Some boot \<Rightarrow>
                do {
                  shifted \<leftarrow> read_be32 boot WII_PART_DOL_OFFSET_AT;
                  extract_dol_at (partition_reader disc) ISO_ERR_ENCRYPTED r
                    (push_bit 2 (ucast shifted))
                })
         })
      })"

section \<open>The list of partitions\<close>

text \<open>The partitions that one entry of the table stands for.\<close>

definition group_partitions :: "u8 list \<Rightarrow> u8 list \<Rightarrow> nat \<Rightarrow> IsoWiiPartition list" where
  "group_partitions disc table i =
     (let count = unat (the (read_be32 table (i * 8))); tbl = the (read_be32 table (i * 8 + 4))
      in if count = 0 \<or> count > 8 then []
         else case iso_read_at disc (push_bit 2 (ucast tbl)) (count * 8) of
                None \<Rightarrow> []
              | Some records \<Rightarrow>
                  map (\<lambda>r. \<lparr>iwp_offset = push_bit 2 (the (read_be32 records (r * 8))),
                             iwp_type = the (read_be32 records (r * 8 + 4))\<rparr>) [0..<count])"

lemma length_group_partitions: "length (group_partitions disc table i) \<le> 8"
  by (simp add: group_partitions_def Let_def split: option.split)

lemma partition_records_eq:
  assumes "\<forall>r \<in> set rs. r * 8 + 8 \<le> length records" and "length parts + length rs \<le> 32"
  shows "partition_records records rs parts =
    Some (parts @ map (\<lambda>r. \<lparr>iwp_offset = push_bit 2 (the (read_be32 records (r * 8))),
      iwp_type = the (read_be32 records (r * 8 + 4))\<rparr>) rs)"
  using assms
proof (induction rs arbitrary: parts)
  case (Cons r rs)
  obtain offset kind where "read_be32 records (r * 8) = Some offset" "read_be32 records (r * 8 + 4) = Some kind"
    using Cons.prems(1) read_be32_Some [of "r * 8" records] read_be32_Some [of "r * 8 + 4" records] by auto
  then show ?case
    using Cons by simp
qed simp

lemma iso_read_at_length: "iso_read_at disc off n = Some xs \<Longrightarrow> length xs = n"
  by (auto simp: iso_read_at_def dest: read_bytes_length split: if_splits)

lemma u32_gt_8: "((w :: u32) > 8) = (unat w > 8)" "(w = 0) = (unat w = 0)"
  by (simp_all add: word_less_nat_alt unsigned_eq_0_iff)

lemma partition_groups_eq:
  assumes "\<forall>i \<in> set is. i * 8 + 8 \<le> length table" and "length parts + 8 * length is \<le> 32"
  shows "partition_groups disc table is parts =
    Some (parts @ concat (map (group_partitions disc table) is))"
  using assms
proof (induction "is" arbitrary: parts)
  case (Cons i "is")
  obtain count tbl where reads: "read_be32 table (i * 8) = Some count" "read_be32 table (i * 8 + 4) = Some tbl"
    using Cons.prems(1) read_be32_Some [of "i * 8" table] read_be32_Some [of "i * 8 + 4" table] by auto
  have room: "length (parts @ group_partitions disc table i) + 8 * length is \<le> 32"
    using Cons.prems(2) length_group_partitions [of disc table i] by simp
  have in_table: "\<forall>i \<in> set is. i * 8 + 8 \<le> length table"
    using Cons.prems(1) by simp
  note IH = Cons.IH [OF in_table room]
  show ?case
  proof (cases "unat count = 0 \<or> unat count > 8 \<or>
      iso_read_at disc (push_bit 2 (ucast tbl)) (unat count * 8) = None")
    case True
    then have "group_partitions disc table i = []"
      by (auto simp: group_partitions_def reads Let_def)
    with True IH show ?thesis
      by (auto simp: reads u32_gt_8)
  next
    case False
    then obtain records where rec: "iso_read_at disc (push_bit 2 (ucast tbl)) (unat count * 8) = Some records"
      by auto
    have "partition_records records [0..<unat count] parts =
        Some (parts @ group_partitions disc table i)"
      using partition_records_eq [of "[0..<unat count]" records parts] iso_read_at_length [OF rec]
        Cons.prems(2) False rec by (simp add: group_partitions_def reads Let_def)
    with False IH rec show ?thesis
      by (simp add: reads u32_gt_8)
  qed
qed simp

text \<open>What the table of a disc says.\<close>

definition disc_partitions :: "u8 list \<Rightarrow> IsoWiiPartition list" where
  "disc_partitions disc =
     (case iso_read_at disc WII_PART_TABLE_AT 0x20 of
        None \<Rightarrow> []
      | Some table \<Rightarrow> concat (map (group_partitions disc table) [0..<4]))"

lemma length_disc_partitions: "length (disc_partitions disc) \<le> 32"
proof -
  have "length (concat (map (group_partitions disc table) is)) \<le> 8 * length is" for table "is"
    by (induction "is") (simp_all add: add_mono length_group_partitions)
  from this [of _ "[0..<4]"] show ?thesis
    by (simp add: disc_partitions_def split: option.split)
qed

lemma probe_wii_partitions_eq:
  assumes "ii_wii_partitions out = []"
  shows "\<exists>st. probe_wii_partitions disc out = Some (st, out\<lparr>ii_wii_partitions := disc_partitions disc\<rparr>)"
proof (cases "iso_read_at disc WII_PART_TABLE_AT 0x20")
  case None
  have "out\<lparr>ii_wii_partitions := []\<rparr> = out"
    using assms by simp
  with None show ?thesis
    by (simp add: probe_wii_partitions_def disc_partitions_def)
next
  case (Some table)
  then show ?thesis
    using partition_groups_eq [of "[0..<4]" table "[]" disc] iso_read_at_length [OF Some]
    by (simp add: probe_wii_partitions_def disc_partitions_def)
qed

text \<open>
  C30. Probing a disc: an image that is shorter than the boot header is rejected as such;
  otherwise the two magic words decide, Wii first, and the result carries the zero-terminated
  game id and title, the offset of the executable for GameCube and, for Wii, exactly the
  partitions of the readable table entries, at most 32 (the guard against overrunning the
  array never cuts the list).  No byte outside a buffer is read.
\<close>

theorem iso_probe_result:
  "\<exists>st info. iso_probe disc = Some (st, info) \<and>
    length (ii_game_id info) = ISO_GAME_ID_LEN + 1 \<and> last (ii_game_id info) = 0 \<and>
    length (ii_game_title info) = ISO_TITLE_SIZE \<and> last (ii_game_title info) = 0 \<and>
    length (ii_wii_partitions info) \<le> 32 \<and>
    (case iso_read_at disc 0 0x440 of
       None \<Rightarrow> st = ISO_ERR_TOO_SMALL \<and> info = zero_info
     | Some hdr \<Rightarrow>
         slice (ii_game_id info) 0 6 = slice hdr 0 6 \<and> slice (ii_game_title info) 0 64 = slice hdr 0x20 64 \<and>
         (if read_be32 hdr WII_MAGIC_OFFSET = Some WII_MAGIC
          then st = ISO_OK \<and> ii_format info = ISO_FORMAT_WII \<and>
               ii_wii_partitions info = disc_partitions disc
          else if read_be32 hdr GC_MAGIC_OFFSET = Some GC_MAGIC
          then st = ISO_OK \<and> ii_format info = ISO_FORMAT_GAMECUBE \<and>
               Some (ii_gc_dol_offset info) = read_be32 hdr GC_DOL_OFFSET_AT \<and>
               ii_wii_partitions info = []
          else st = ISO_ERR_UNKNOWN_FORMAT \<and> ii_format info = ISO_FORMAT_UNKNOWN))"
proof (cases "iso_read_at disc 0 0x440")
  case None
  then show ?thesis
    by (simp add: iso_probe_def zero_info_def iso_layout)
next
  case (Some hdr)
  then have len: "length hdr = 0x440"
    by (rule iso_read_at_length)
  let ?out = "zero_info\<lparr>ii_game_id := slice hdr 0 6 @ [0], ii_game_title := slice hdr 0x20 64 @ [0]\<rparr>"
  obtain wm gm off where reads: "read_be32 hdr 0x18 = Some wm" "read_be32 hdr 0x1C = Some gm"
    "read_be32 hdr 0x420 = Some off"
    using read_be32_Some [of "0x18" hdr] read_be32_Some [of "0x1C" hdr] read_be32_Some [of "0x420" hdr]
      len by auto
  have slices: "length (slice hdr 0 6) = 6" "length (slice hdr 0x20 64) = 64"
    using len by simp_all
  then have strs: "slice (slice hdr 0 6 @ [0]) 0 6 = slice hdr 0 6"
    "slice (slice hdr 0x20 64 @ [0]) 0 64 = slice hdr 0x20 64"
    by (simp_all add: slice_def)
  obtain st where probe: "probe_wii_partitions disc (?out\<lparr>ii_format := ISO_FORMAT_WII\<rparr>) =
      Some (st, ?out\<lparr>ii_format := ISO_FORMAT_WII, ii_wii_partitions := disc_partitions disc\<rparr>)"
    using probe_wii_partitions_eq [of "?out\<lparr>ii_format := ISO_FORMAT_WII\<rparr>" disc]
    by (auto simp: zero_info_def)
  have eq: "iso_probe disc =
      (if wm = WII_MAGIC
       then Some (ISO_OK, ?out\<lparr>ii_format := ISO_FORMAT_WII, ii_wii_partitions := disc_partitions disc\<rparr>)
       else if gm = GC_MAGIC
       then Some (ISO_OK, ?out\<lparr>ii_format := ISO_FORMAT_GAMECUBE, ii_gc_dol_offset := off\<rparr>)
       else Some (ISO_ERR_UNKNOWN_FORMAT, ?out))"
    using Some len reads probe by (simp add: iso_probe_def iso_layout read_bytes_def)
  show ?thesis
    using eq Some reads slices strs length_disc_partitions [of disc]
    by (simp add: iso_layout zero_info_def)
qed

section \<open>The interface of a byte source\<close>

text \<open>
  What extraction relies on: a read of a state that is in order returns what the state stands
  for at these offsets, keeps the state in order and does not change what it stands for; a
  shorter read at the same place is the beginning of a longer one.
\<close>

locale byte_reader =
  fixes rd :: "'s reader"
    and ok :: "'s \<Rightarrow> bool"
    and view :: "'s \<Rightarrow> nat \<Rightarrow> nat \<Rightarrow> u8 list option"
    and limit :: nat
  assumes read_view: "ok s \<Longrightarrow> unat off + n \<le> limit \<Longrightarrow>
      \<exists>s'. rd s off n = Some (view s (unat off) n, s') \<and> ok s' \<and> view s' = view s"
    and view_length: "view s p n = Some xs \<Longrightarrow> length xs = n"
    and view_prefix: "view s p n = Some xs \<Longrightarrow> m \<le> n \<Longrightarrow> view s p m = Some (take m xs)"

lemma extent_loop_total:
  assumes "\<forall>i \<in> set is. offs_at + i * 4 + 4 \<le> length hdr \<and> sizes_at + i * 4 + 4 \<le> length hdr"
  shows "\<exists>m'. extent_loop hdr offs_at sizes_at is m = Some m' \<and> m \<le> m'"
  using assms
proof (induction "is" arbitrary: m)
  case (Cons i "is")
  obtain off sz where "read_be32 hdr (offs_at + i * 4) = Some off" "read_be32 hdr (sizes_at + i * 4) = Some sz"
    using Cons.prems read_be32_Some [of "offs_at + i * 4" hdr] read_be32_Some [of "sizes_at + i * 4" hdr] by auto
  moreover obtain m' where "extent_loop hdr offs_at sizes_at is (if sz \<noteq> 0 \<and> off + sz > m then off + sz else m) = Some m'"
      "(if sz \<noteq> 0 \<and> off + sz > m then off + sz else m) \<le> m'"
    using Cons.IH Cons.prems by (meson list.set_intros(2))
  moreover have "m \<le> (if sz \<noteq> 0 \<and> off + sz > m then off + sz else m)"
    by auto
  ultimately show ?case
    using order_trans by fastforce
qed simp

text \<open>The extent covers every section that it saw.\<close>

lemma extent_loop_mono: "extent_loop hdr offs_at sizes_at is m = Some m' \<Longrightarrow> m \<le> m'"
proof (induction "is" arbitrary: m)
  case (Cons i "is")
  then obtain off sz where "extent_loop hdr offs_at sizes_at is (if sz \<noteq> 0 \<and> off + sz > m then off + sz else m) = Some m'"
    by (auto simp: bind_eq_Some_conv)
  from Cons.IH [OF this] show ?case
    by (auto split: if_splits)
qed simp

lemma extent_loop_covers:
  assumes "extent_loop hdr offs_at sizes_at is m = Some m'" and "i \<in> set is"
    and "read_be32 hdr (offs_at + i * 4) = Some off" and "read_be32 hdr (sizes_at + i * 4) = Some sz"
    and "sz \<noteq> 0"
  shows "off + sz \<le> m'"
  using assms(1,2)
proof (induction "is" arbitrary: m)
  case (Cons j "is")
  then obtain off' sz' where rest: "read_be32 hdr (offs_at + j * 4) = Some off'"
    "read_be32 hdr (sizes_at + j * 4) = Some sz'"
    "extent_loop hdr offs_at sizes_at is (if sz' \<noteq> 0 \<and> off' + sz' > m then off' + sz' else m) = Some m'"
    by (auto simp: bind_eq_Some_conv)
  show ?case
  proof (cases "i \<in> set is")
    case True
    with Cons.IH rest(3) show ?thesis
      by blast
  next
    case False
    then have "j = i"
      using Cons.prems by simp
    with rest(1,2) assms(3,4) have "off' = off" "sz' = sz"
      by simp_all
    with extent_loop_mono [OF rest(3)] assms(5) show ?thesis
      by (auto split: if_splits)
  qed
qed simp

lemma dol_extent_total:
  assumes "length hdr = 0x100"
  shows "\<exists>m. dol_extent hdr = Some m \<and> 0x100 \<le> unat m"
proof -
  obtain m where m: "extent_loop hdr 0 0x90 [0..<7] 0x100 = Some m" "0x100 \<le> m"
    using extent_loop_total [of "[0..<7]" 0 hdr "0x90" "0x100"] assms by auto
  obtain m' where m': "extent_loop hdr 0x1C 0xAC [0..<11] m = Some m'" "m \<le> m'"
    using extent_loop_total [of "[0..<11]" "0x1C" hdr "0xAC" m] assms by auto
  have "(0x100 :: u32) \<le> m'"
    using m(2) m'(2) by simp
  then show ?thesis
    using m(1) m'(1) by (simp add: dol_extent_def word_le_nat_alt)
qed

text \<open>A buffer of the size that its own header asks for holds all sections that do not wrap.\<close>

lemma dol_extent_slot:
  assumes "dol_extent hdr = Some m" and "s \<in> set (dol_slots buf)" and "hdr = take 0x100 buf"
    and "0x100 \<le> length buf" and "ds_size s \<noteq> 0"
  shows "ds_file_offset s + ds_size s \<le> m"
proof -
  obtain m1 where texts: "extent_loop hdr 0 0x90 [0..<7] 0x100 = Some m1"
    and datas: "extent_loop hdr 0x1C 0xAC [0..<11] m1 = Some m"
    using assms(1) by (auto simp: dol_extent_def bind_eq_Some_conv)
  have hdr: "read_be32 hdr k = Some (the (read_be32 buf k))" if "k + 4 \<le> 0x100" for k
    using that assms(3,4) by (simp add: read_be32_def)
  from assms(2) consider
      (is_text) i where "i < 7" "s = slot buf DOL_SECTION_TEXT TEXT_OFFSETS_AT TEXT_ADDRS_AT TEXT_SIZES_AT i"
    | (is_data) i where "i < 11" "s = slot buf DOL_SECTION_DATA DATA_OFFSETS_AT DATA_ADDRS_AT DATA_SIZES_AT i"
    by (auto simp: dol_slots_def dol_layout)
  then show ?thesis
  proof cases
    case is_text
    have "ds_file_offset s + ds_size s \<le> m1"
      by (rule extent_loop_covers [OF texts, of i])
        (use is_text assms(5) hdr [of "i * 4"] hdr [of "0x90 + i * 4"] in
          \<open>simp_all add: slot_def dol_layout mult.commute\<close>)
    then show ?thesis
      using extent_loop_mono [OF datas] by simp
  next
    case is_data
    show ?thesis
      by (rule extent_loop_covers [OF datas, of i])
        (use is_data assms(5) hdr [of "0x1C + i * 4"] hdr [of "0xAC + i * 4"] in
          \<open>simp_all add: slot_def dol_layout mult.commute\<close>)
  qed
qed

definition dol_complete :: "u8 list \<Rightarrow> bool" where
  "dol_complete buf \<longleftrightarrow>
     0x100 \<le> length buf \<and> dol_extent (take 0x100 buf) = Some (of_nat (length buf)) \<and> length buf < 2 ^ 32"

lemma dol_complete_parse:
  assumes "dol_complete buf"
  shows "\<exists>st img. dol_parse (Some buf) = Some (st, img) \<and>
    st \<noteq> DOL_ERR_NULL_ARG \<and> st \<noteq> DOL_ERR_TOO_SMALL \<and> st \<noteq> DOL_ERR_BAD_SECTION"
proof -
  have len: "0x100 \<le> length buf" "length buf < 2 ^ 32"
    and ext: "dol_extent (take 0x100 buf) = Some (of_nat (length buf))"
    using assms by (simp_all add: dol_complete_def)
  have slots: "slot_status (length buf) s \<noteq> DOL_ERR_BAD_SECTION" if "s \<in> set (dol_slots buf)" for s
  proof (cases "ds_size s = 0 \<or> 2 ^ 32 \<le> unat (ds_file_offset s) + unat (ds_size s)")
    case True
    then show ?thesis
      by (auto simp: slot_status_def)
  next
    case False
    then have "unat (ds_file_offset s + ds_size s) = unat (ds_file_offset s) + unat (ds_size s)"
      by (intro unat_add_u32) simp
    moreover have "ds_file_offset s + ds_size s \<le> of_nat (length buf)"
      using dol_extent_slot [OF ext that] len False by simp
    moreover have "unat (of_nat (length buf) :: u32) = length buf"
      using len by (simp add: unat_of_nat take_bit_nat_eq_self)
    ultimately show ?thesis
      by (simp add: slot_status_def word_le_nat_alt)
  qed
  have kinds: "slot_status n s \<noteq> DOL_ERR_NULL_ARG" "slot_status n s \<noteq> DOL_ERR_TOO_SMALL" for n s
    by (simp_all add: slot_status_def)
  have "first_error (length buf) (dol_slots buf) \<notin> {DOL_ERR_NULL_ARG, DOL_ERR_TOO_SMALL, DOL_ERR_BAD_SECTION}"
    using first_error_in [of "length buf" "dol_slots buf"] slots kinds by fastforce
  then have "fst (dol_parse_spec buf) \<notin> {DOL_ERR_NULL_ARG, DOL_ERR_TOO_SMALL, DOL_ERR_BAD_SECTION}"
    using len(1) by (auto simp: dol_parse_spec_def Let_def DOL_HEADER_SIZE_def split: option.split)
  then show ?thesis
    by (cases "dol_parse_spec buf") (simp add: dol_parse_eq)
qed

context byte_reader
begin

lemma extract_dol_at_result:
  assumes "ok s" and "unat off + 2 ^ 32 \<le> limit" and "failure \<noteq> ISO_OK"
  shows "\<exists>st out. extract_dol_at rd failure s off = Some (st, out) \<and>
    (case out of
       None \<Rightarrow> st = failure
     | Some buf \<Rightarrow> st = ISO_OK \<and> view s (unat off) (length buf) = Some buf \<and> dol_complete buf)"
proof -
  have "unat off + 0x100 \<le> limit"
    using assms(2) by simp
  then obtain s1 where hdr: "rd s off 0x100 = Some (view s (unat off) 0x100, s1)" "ok s1" "view s1 = view s"
    using read_view [OF assms(1)] by blast
  show ?thesis
  proof (cases "view s (unat off) 0x100")
    case None
    then show ?thesis
      by (simp add: extract_dol_at_def hdr)
  next
    case (Some dolhdr)
    obtain m where m: "dol_extent dolhdr = Some m" "0x100 \<le> unat m"
      using dol_extent_total [OF view_length [OF Some]] by blast
    have "unat off + unat m \<le> limit"
      using assms(2) unat_u32_less [of m] by simp
    then obtain s2 where buf: "rd s1 off (unat m) = Some (view s (unat off) (unat m), s2)"
      using read_view [OF hdr(2)] hdr(3) by metis
    show ?thesis
    proof (cases "view s (unat off) (unat m)")
      case None
      then show ?thesis
        by (simp add: extract_dol_at_def hdr Some m buf)
    next
      case (Some b)
      have "take 0x100 b = dolhdr"
        using view_prefix [OF Some m(2)] \<open>view s (unat off) 0x100 = Some dolhdr\<close> by simp
      then have "dol_complete b"
        using view_length [OF Some] m unat_u32_less [of m] by (simp add: dol_complete_def)
      with Some show ?thesis
        using view_length [OF Some] \<open>view s (unat off) 0x100 = Some dolhdr\<close>
        by (simp add: extract_dol_at_def hdr m buf)
    qed
  qed
qed

end

text \<open>The raw disc is a byte source.\<close>

definition disc_view :: "u8 list \<Rightarrow> nat \<Rightarrow> nat \<Rightarrow> u8 list option" where
  "disc_view disc p n = (if p < 2 ^ 63 then read_bytes disc p n else None)"

lemma read_bytes_prefix: "read_bytes mem p n = Some xs \<Longrightarrow> m \<le> n \<Longrightarrow> read_bytes mem p m = Some (take m xs)"
  by (auto simp: read_bytes_def slice_def min_def split: if_splits)

interpretation disc_source: byte_reader disc_reader "\<lambda>disc. True" disc_view "2 ^ 64"
  by unfold_locales
    (auto simp: disc_reader_def disc_view_def iso_read_at_def read_bytes_prefix
      dest: read_bytes_length split: if_splits)

text \<open>So is the partition reader, in a state whose cache is right.\<close>

lemma those_Some_iff: "those xs = Some ys \<longleftrightarrow> xs = map Some ys"
  by (induction xs arbitrary: ys) (auto split: option.split simp: Cons_eq_map_conv)

lemma those_take: "those xs = Some ys \<Longrightarrow> those (take m xs) = Some (take m ys)"
  by (auto simp: those_Some_iff take_map)

lemma user_data_length: "user_data disc r p n = Some xs \<Longrightarrow> length xs = n"
  by (auto simp: user_data_def those_Some_iff dest: map_eq_imp_length_eq)

lemma user_data_prefix: "user_data disc r p n = Some xs \<Longrightarrow> m \<le> n \<Longrightarrow> user_data disc r p m = Some (take m xs)"
  unfolding user_data_def by (drule those_take [of _ _ m]) (simp add: take_map)

interpretation partition_source: byte_reader "partition_reader disc" "reader_ok disc" "user_data disc"
    "2 ^ 32 * WII_BLOCK_DATA_SIZE" for disc
proof unfold_locales
  fix r :: WiiPartitionReader and off :: u64 and n
  assume "reader_ok disc r" "unat off + n \<le> 2 ^ 32 * WII_BLOCK_DATA_SIZE"
  from partition_read_loop_view [OF this, of "[]"]
  show "\<exists>r'. partition_reader disc r off n = Some (user_data disc r (unat off) n, r') \<and>
      reader_ok disc r' \<and> user_data disc r' = user_data disc r"
    by (auto simp: partition_reader_def wii_partition_read_def split: option.splits dest: user_data_same)
qed (auto dest: user_data_length user_data_prefix)

section \<open>Extraction\<close>

lemma unat_ucast_u64 [simp]: "unat (ucast (w :: u32) :: u64) = unat w"
  using unat_u32_less [of w] by (simp add: unsigned_ucast_eq take_bit_nat_eq_self)

text \<open>
  C22. Extracting the executable of a GameCube disc never reads outside a buffer; a Wii disc is
  refused as encrypted, an unknown one as such, and a disc that is too short is an I/O error.
  What is returned is the piece of the disc at the recorded offset, and it is complete for the
  loader: \<open>dol_parse\<close> never finds it too small or a section outside of it.
\<close>

theorem iso_extract_gc_dol_complete:
  "\<exists>st out. iso_extract_gc_dol disc info = Some (st, out) \<and>
    (case out of
       None \<Rightarrow> st = (case ii_format info of
                 ISO_FORMAT_WII \<Rightarrow> ISO_ERR_ENCRYPTED
               | ISO_FORMAT_UNKNOWN \<Rightarrow> ISO_ERR_UNKNOWN_FORMAT
               | ISO_FORMAT_GAMECUBE \<Rightarrow> ISO_ERR_IO)
     | Some buf \<Rightarrow> st = ISO_OK \<and> ii_format info = ISO_FORMAT_GAMECUBE \<and>
         buf = slice disc (unat (ii_gc_dol_offset info)) (length buf) \<and> DOL_HEADER_SIZE \<le> length buf \<and>
         (\<exists>pst img. dol_parse (Some buf) = Some (pst, img) \<and>
            pst \<notin> {DOL_ERR_NULL_ARG, DOL_ERR_TOO_SMALL, DOL_ERR_BAD_SECTION}))"
proof (cases "ii_format info = ISO_FORMAT_GAMECUBE")
  case False
  then show ?thesis
    by (cases "ii_format info") (simp_all add: iso_extract_gc_dol_def)
next
  case True
  let ?off = "ucast (ii_gc_dol_offset info) :: u64"
  have "unat ?off + 2 ^ 32 \<le> 2 ^ 64"
    using unat_u32_less [of "ii_gc_dol_offset info"] by simp
  from disc_source.extract_dol_at_result [OF TrueI this, of ISO_ERR_IO disc]
  obtain st out where res: "extract_dol_at disc_reader ISO_ERR_IO disc ?off = Some (st, out)"
    "case out of None \<Rightarrow> st = ISO_ERR_IO
     | Some buf \<Rightarrow> st = ISO_OK \<and> disc_view disc (unat ?off) (length buf) = Some buf \<and> dol_complete buf"
    by auto
  show ?thesis
  proof (cases out)
    case None
    with res True show ?thesis
      by (simp add: iso_extract_gc_dol_def)
  next
    case (Some buf)
    with res have "dol_complete buf" "buf = slice disc (unat (ii_gc_dol_offset info)) (length buf)"
      by (auto simp: disc_view_def read_bytes_def split: if_splits)
    with res Some True dol_complete_parse [of buf] show ?thesis
      by (auto simp: iso_extract_gc_dol_def dol_complete_def DOL_HEADER_SIZE_def)
  qed
qed

lemma extract_from_partition:
  assumes "wii_partition_open disc (ucast (iwp_offset (ii_wii_partitions info ! index))) common_key = Some (WII_OK, r)"
    and "reader_ok disc r" and "ii_format info = ISO_FORMAT_WII" and "index < length (ii_wii_partitions info)"
  shows "\<exists>st out. iso_extract_wii_dol disc info index common_key = Some (st, out) \<and>
    (case out of
       None \<Rightarrow> st = ISO_ERR_ENCRYPTED
     | Some buf \<Rightarrow> st = ISO_OK \<and> dol_complete buf \<and> (\<exists>off. user_data disc r off (length buf) = Some buf))"
proof -
  obtain r1 where boot: "partition_reader disc r 0 0x440 = Some (user_data disc r 0 0x440, r1)"
    "reader_ok disc r1" "user_data disc r1 = user_data disc r"
    using partition_source.read_view [OF assms(2), of 0 "0x440"] by (auto simp: WII_BLOCK_DATA_SIZE_def)
  show ?thesis
  proof (cases "user_data disc r 0 0x440")
    case None
    with assms boot show ?thesis
      by (simp add: iso_extract_wii_dol_def)
  next
    case (Some bt)
    then have "length bt = 0x440"
      by (rule user_data_length)
    then obtain shifted where shifted: "read_be32 bt WII_PART_DOL_OFFSET_AT = Some shifted"
      using read_be32_Some [of WII_PART_DOL_OFFSET_AT bt] by (auto simp: WII_PART_DOL_OFFSET_AT_def)
    let ?off = "push_bit 2 (ucast shifted) :: u64"
    have "unat ?off + 2 ^ 32 \<le> 2 ^ 32 * WII_BLOCK_DATA_SIZE"
      using unat_u32_less [of shifted] by (simp add: unat_shifted_offset WII_BLOCK_DATA_SIZE_def)
    from partition_source.extract_dol_at_result [OF boot(2) this, of ISO_ERR_ENCRYPTED]
    obtain st out where res: "extract_dol_at (partition_reader disc) ISO_ERR_ENCRYPTED r1 ?off = Some (st, out)"
      "case out of None \<Rightarrow> st = ISO_ERR_ENCRYPTED
       | Some buf \<Rightarrow> st = ISO_OK \<and> user_data disc r1 (unat ?off) (length buf) = Some buf \<and> dol_complete buf"
      by auto
    have "iso_extract_wii_dol disc info index common_key = Some (st, out)"
      using assms boot Some shifted res by (simp add: iso_extract_wii_dol_def)
    with res boot(3) show ?thesis
      by (cases out) auto
  qed
qed

text \<open>
  C21 Extracting the executable of a Wii partition with a 16-byte common key never reads
  outside a buffer.  What is returned is a contiguous piece of the decrypted user data of the
  opened partition, and again it is complete for the loader.
\<close>

theorem iso_extract_wii_dol_complete:
  assumes "length common_key = 16"
  shows "\<exists>st out. iso_extract_wii_dol disc info index common_key = Some (st, out) \<and>
    (case out of
       None \<Rightarrow> st \<noteq> ISO_OK
     | Some buf \<Rightarrow> st = ISO_OK \<and> ii_format info = ISO_FORMAT_WII \<and>
         index < length (ii_wii_partitions info) \<and> DOL_HEADER_SIZE \<le> length buf \<and>
         (\<exists>r off. wii_partition_open disc (ucast (iwp_offset (ii_wii_partitions info ! index))) common_key =
              Some (WII_OK, r) \<and> user_data disc r off (length buf) = Some buf) \<and>
         (\<exists>pst img. dol_parse (Some buf) = Some (pst, img) \<and>
            pst \<notin> {DOL_ERR_NULL_ARG, DOL_ERR_TOO_SMALL, DOL_ERR_BAD_SECTION}))"
proof (cases "ii_format info = ISO_FORMAT_WII \<and> index < length (ii_wii_partitions info)")
  case False
  then show ?thesis
    by (auto simp: iso_extract_wii_dol_def)
next
  case True
  let ?po = "ucast (iwp_offset (ii_wii_partitions info ! index)) :: u64"
  have "is_key common_key" "unat ?po < 2 ^ 61"
    using assms unat_u32_less [of "iwp_offset (ii_wii_partitions info ! index)"] by (simp_all add: is_key_def)
  then obtain wst r where opened: "wii_partition_open disc ?po common_key = Some (wst, r)"
    "wst = WII_OK \<longrightarrow> reader_ok disc r"
    using wii_partition_open_ok by metis
  show ?thesis
  proof (cases "wst = WII_OK")
    case False
    with True opened show ?thesis
      by (simp add: iso_extract_wii_dol_def)
  next
    case ok: True
    with opened True extract_from_partition [of disc info index common_key r]
    obtain st out where res: "iso_extract_wii_dol disc info index common_key = Some (st, out)"
      "case out of None \<Rightarrow> st = ISO_ERR_ENCRYPTED
       | Some buf \<Rightarrow> st = ISO_OK \<and> dol_complete buf \<and> (\<exists>off. user_data disc r off (length buf) = Some buf)"
      by auto
    show ?thesis
    proof (cases out)
      case None
      with res show ?thesis
        by simp
    next
      case (Some buf)
      with res True opened ok dol_complete_parse [of buf] show ?thesis
        by (auto simp: dol_complete_def DOL_HEADER_SIZE_def)
    qed
  qed
qed

theorem iso_extract_wii_dol_complete_witness:
  "\<exists>st out. iso_extract_wii_dol (replicate 0x40000 0) (zero_info\<lparr>ii_format := ISO_FORMAT_WII,
      ii_wii_partitions := [\<lparr>iwp_offset = 0, iwp_type = 0\<rparr>]\<rparr>) 0 (replicate 16 7) = Some (st, out) \<and>
    (case out of
       None \<Rightarrow> st \<noteq> ISO_OK
     | Some buf \<Rightarrow> \<exists>pst img. dol_parse (Some buf) = Some (pst, img) \<and> pst \<noteq> DOL_ERR_BAD_SECTION)"
proof -
  let ?info = "zero_info\<lparr>ii_format := ISO_FORMAT_WII, ii_wii_partitions := [\<lparr>iwp_offset = 0, iwp_type = 0\<rparr>]\<rparr>"
  have "length (replicate 16 7 :: u8 list) = 16"
    by simp
  from iso_extract_wii_dol_complete [OF this, of "replicate 0x40000 0" ?info 0]
  obtain st out where "iso_extract_wii_dol (replicate 0x40000 0) ?info 0 (replicate 16 7) = Some (st, out)"
    "case out of None \<Rightarrow> st \<noteq> ISO_OK
     | Some buf \<Rightarrow> \<exists>pst img. dol_parse (Some buf) = Some (pst, img) \<and> pst \<noteq> DOL_ERR_BAD_SECTION"
    by (fastforce split: option.splits)
  then show ?thesis
    by blast
qed

end
