(* ===== verification/PpcOps.thy ===== *)
theory PpcOps
  imports Main
begin

text \<open>
  The operations of the PowerPC disassembler (the enumeration \<open>PpcOp\<close> of
  decompiler/include/ppc.h, in its order) and their mnemonics (decompiler/src/ppc/mnemonic.c).
  As with the token types, equality is instantiated by hand and decided by the simplifier.
\<close>

datatype (plugins only: size) PpcOp =
    PPC_OP_UNKNOWN | PPC_OP_B | PPC_OP_BA | PPC_OP_BL | PPC_OP_BLA | PPC_OP_BC | PPC_OP_BLR
  | PPC_OP_BCTR | PPC_OP_ADDI | PPC_OP_ADDIS | PPC_OP_MULLI | PPC_OP_CMPWI | PPC_OP_ORI
  | PPC_OP_ANDI_DOT | PPC_OP_NOP | PPC_OP_LWZ | PPC_OP_STW | PPC_OP_LBZ | PPC_OP_STB
  | PPC_OP_LHZ | PPC_OP_STH | PPC_OP_LMW | PPC_OP_STMW | PPC_OP_LFS | PPC_OP_LFD | PPC_OP_STFS
  | PPC_OP_STFD | PPC_OP_FMR | PPC_OP_FNEG | PPC_OP_FADD | PPC_OP_FSUB | PPC_OP_FMUL
  | PPC_OP_FDIV | PPC_OP_MFLR | PPC_OP_MTLR | PPC_OP_MFCTR | PPC_OP_MTCTR | PPC_OP_MR
  | PPC_OP_RLWINM | PPC_OP_RLWIMI | PPC_OP_RLWNM | PPC_OP_CMPW | PPC_OP_CMPLW | PPC_OP_CMPLWI
  | PPC_OP_MULLW | PPC_OP_MULHW | PPC_OP_MULHWU | PPC_OP_DIVW | PPC_OP_DIVWU | PPC_OP_LWZU
  | PPC_OP_STWU | PPC_OP_LBZU | PPC_OP_STBU | PPC_OP_LHZU | PPC_OP_STHU | PPC_OP_LHA
  | PPC_OP_LHAU | PPC_OP_LFSU | PPC_OP_LFDU | PPC_OP_STFSU | PPC_OP_STFDU | PPC_OP_AND
  | PPC_OP_OR | PPC_OP_XOR | PPC_OP_NAND | PPC_OP_NOR | PPC_OP_EQV | PPC_OP_ANDC | PPC_OP_ORC
  | PPC_OP_SLW | PPC_OP_SRW | PPC_OP_SRAW | PPC_OP_SRAWI | PPC_OP_ADD | PPC_OP_SUBF | PPC_OP_NEG
  | PPC_OP_PS_ADD | PPC_OP_PS_SUB | PPC_OP_PS_MUL | PPC_OP_PS_DIV | PPC_OP_PS_MADD
  | PPC_OP_PS_MSUB | PPC_OP_PS_MR | PPC_OP_PS_NEG | PPC_OP_PSQ_L | PPC_OP_PSQ_ST | PPC_OP_PSQ_LU
  | PPC_OP_PSQ_STU

instantiation PpcOp :: equal
begin

definition equal_PpcOp :: "PpcOp \<Rightarrow> PpcOp \<Rightarrow> bool" where
  "equal_PpcOp a b \<longleftrightarrow> a = b"

instance
  by standard (simp add: equal_PpcOp_def)

end

declare equal_PpcOp_def [code del]

primrec ppc_mnemonic :: "PpcOp \<Rightarrow> string" where
  "ppc_mnemonic PPC_OP_UNKNOWN = ''.long''"
| "ppc_mnemonic PPC_OP_B = ''b''"
| "ppc_mnemonic PPC_OP_BA = ''ba''"
| "ppc_mnemonic PPC_OP_BL = ''bl''"
| "ppc_mnemonic PPC_OP_BLA = ''bla''"
| "ppc_mnemonic PPC_OP_BC = ''bc''"
| "ppc_mnemonic PPC_OP_BLR = ''blr''"
| "ppc_mnemonic PPC_OP_BCTR = ''bctr''"
| "ppc_mnemonic PPC_OP_ADDI = ''addi''"
| "ppc_mnemonic PPC_OP_ADDIS = ''addis''"
| "ppc_mnemonic PPC_OP_MULLI = ''mulli''"
| "ppc_mnemonic PPC_OP_CMPWI = ''cmpwi''"
| "ppc_mnemonic PPC_OP_ORI = ''ori''"
| "ppc_mnemonic PPC_OP_ANDI_DOT = ''andi.''"
| "ppc_mnemonic PPC_OP_NOP = ''nop''"
| "ppc_mnemonic PPC_OP_LWZ = ''lwz''"
| "ppc_mnemonic PPC_OP_STW = ''stw''"
| "ppc_mnemonic PPC_OP_LBZ = ''lbz''"
| "ppc_mnemonic PPC_OP_STB = ''stb''"
| "ppc_mnemonic PPC_OP_LHZ = ''lhz''"
| "ppc_mnemonic PPC_OP_STH = ''sth''"
| "ppc_mnemonic PPC_OP_LMW = ''lmw''"
| "ppc_mnemonic PPC_OP_STMW = ''stmw''"
| "ppc_mnemonic PPC_OP_LFS = ''lfs''"
| "ppc_mnemonic PPC_OP_LFD = ''lfd''"
| "ppc_mnemonic PPC_OP_STFS = ''stfs''"
| "ppc_mnemonic PPC_OP_STFD = ''stfd''"
| "ppc_mnemonic PPC_OP_FMR = ''fmr''"
| "ppc_mnemonic PPC_OP_FNEG = ''fneg''"
| "ppc_mnemonic PPC_OP_FADD = ''fadd''"
| "ppc_mnemonic PPC_OP_FSUB = ''fsub''"
| "ppc_mnemonic PPC_OP_FMUL = ''fmul''"
| "ppc_mnemonic PPC_OP_FDIV = ''fdiv''"
| "ppc_mnemonic PPC_OP_MFLR = ''mflr''"
| "ppc_mnemonic PPC_OP_MTLR = ''mtlr''"
| "ppc_mnemonic PPC_OP_MFCTR = ''mfctr''"
| "ppc_mnemonic PPC_OP_MTCTR = ''mtctr''"
| "ppc_mnemonic PPC_OP_MR = ''mr''"
| "ppc_mnemonic PPC_OP_RLWINM = ''rlwinm''"
| "ppc_mnemonic PPC_OP_RLWIMI = ''rlwimi''"
| "ppc_mnemonic PPC_OP_RLWNM = ''rlwnm''"
| "ppc_mnemonic PPC_OP_CMPW = ''cmpw''"
| "ppc_mnemonic PPC_OP_CMPLW = ''cmplw''"
| "ppc_mnemonic PPC_OP_CMPLWI = ''cmplwi''"
| "ppc_mnemonic PPC_OP_MULLW = ''mullw''"
| "ppc_mnemonic PPC_OP_MULHW = ''mulhw''"
| "ppc_mnemonic PPC_OP_MULHWU = ''mulhwu''"
| "ppc_mnemonic PPC_OP_DIVW = ''divw''"
| "ppc_mnemonic PPC_OP_DIVWU = ''divwu''"
| "ppc_mnemonic PPC_OP_LWZU = ''lwzu''"
| "ppc_mnemonic PPC_OP_STWU = ''stwu''"
| "ppc_mnemonic PPC_OP_LBZU = ''lbzu''"
| "ppc_mnemonic PPC_OP_STBU = ''stbu''"
| "ppc_mnemonic PPC_OP_LHZU = ''lhzu''"
| "ppc_mnemonic PPC_OP_STHU = ''sthu''"
| "ppc_mnemonic PPC_OP_LHA = ''lha''"
| "ppc_mnemonic PPC_OP_LHAU = ''lhau''"
| "ppc_mnemonic PPC_OP_LFSU = ''lfsu''"
| "ppc_mnemonic PPC_OP_LFDU = ''lfdu''"
| "ppc_mnemonic PPC_OP_STFSU = ''stfsu''"
| "ppc_mnemonic PPC_OP_STFDU = ''stfdu''"
| "ppc_mnemonic PPC_OP_AND = ''and''"
| "ppc_mnemonic PPC_OP_OR = ''or''"
| "ppc_mnemonic PPC_OP_XOR = ''xor''"
| "ppc_mnemonic PPC_OP_NAND = ''nand''"
| "ppc_mnemonic PPC_OP_NOR = ''nor''"
| "ppc_mnemonic PPC_OP_EQV = ''eqv''"
| "ppc_mnemonic PPC_OP_ANDC = ''andc''"
| "ppc_mnemonic PPC_OP_ORC = ''orc''"
| "ppc_mnemonic PPC_OP_SLW = ''slw''"
| "ppc_mnemonic PPC_OP_SRW = ''srw''"
| "ppc_mnemonic PPC_OP_SRAW = ''sraw''"
| "ppc_mnemonic PPC_OP_SRAWI = ''srawi''"
| "ppc_mnemonic PPC_OP_ADD = ''add''"
| "ppc_mnemonic PPC_OP_SUBF = ''subf''"
| "ppc_mnemonic PPC_OP_NEG = ''neg''"
| "ppc_mnemonic PPC_OP_PS_ADD = ''ps_add''"
| "ppc_mnemonic PPC_OP_PS_SUB = ''ps_sub''"
| "ppc_mnemonic PPC_OP_PS_MUL = ''ps_mul''"
| "ppc_mnemonic PPC_OP_PS_DIV = ''ps_div''"
| "ppc_mnemonic PPC_OP_PS_MADD = ''ps_madd''"
| "ppc_mnemonic PPC_OP_PS_MSUB = ''ps_msub''"
| "ppc_mnemonic PPC_OP_PS_MR = ''ps_mr''"
| "ppc_mnemonic PPC_OP_PS_NEG = ''ps_neg''"
| "ppc_mnemonic PPC_OP_PSQ_L = ''psq_l''"
| "ppc_mnemonic PPC_OP_PSQ_ST = ''psq_st''"
| "ppc_mnemonic PPC_OP_PSQ_LU = ''psq_lu''"
| "ppc_mnemonic PPC_OP_PSQ_STU = ''psq_stu''"

text \<open>No two operations share a mnemonic.\<close>

definition all_ops :: "PpcOp list" where
  "all_ops =
     [PPC_OP_UNKNOWN, PPC_OP_B, PPC_OP_BA, PPC_OP_BL, PPC_OP_BLA, PPC_OP_BC, PPC_OP_BLR,
      PPC_OP_BCTR, PPC_OP_ADDI, PPC_OP_ADDIS, PPC_OP_MULLI, PPC_OP_CMPWI, PPC_OP_ORI,
      PPC_OP_ANDI_DOT, PPC_OP_NOP, PPC_OP_LWZ, PPC_OP_STW, PPC_OP_LBZ, PPC_OP_STB, PPC_OP_LHZ,
      PPC_OP_STH, PPC_OP_LMW, PPC_OP_STMW, PPC_OP_LFS, PPC_OP_LFD, PPC_OP_STFS, PPC_OP_STFD,
      PPC_OP_FMR, PPC_OP_FNEG, PPC_OP_FADD, PPC_OP_FSUB, PPC_OP_FMUL, PPC_OP_FDIV, PPC_OP_MFLR,
      PPC_OP_MTLR, PPC_OP_MFCTR, PPC_OP_MTCTR, PPC_OP_MR, PPC_OP_RLWINM, PPC_OP_RLWIMI,
      PPC_OP_RLWNM, PPC_OP_CMPW, PPC_OP_CMPLW, PPC_OP_CMPLWI, PPC_OP_MULLW, PPC_OP_MULHW,
      PPC_OP_MULHWU, PPC_OP_DIVW, PPC_OP_DIVWU, PPC_OP_LWZU, PPC_OP_STWU, PPC_OP_LBZU,
      PPC_OP_STBU, PPC_OP_LHZU, PPC_OP_STHU, PPC_OP_LHA, PPC_OP_LHAU, PPC_OP_LFSU, PPC_OP_LFDU,
      PPC_OP_STFSU, PPC_OP_STFDU, PPC_OP_AND, PPC_OP_OR, PPC_OP_XOR, PPC_OP_NAND, PPC_OP_NOR,
      PPC_OP_EQV, PPC_OP_ANDC, PPC_OP_ORC, PPC_OP_SLW, PPC_OP_SRW, PPC_OP_SRAW, PPC_OP_SRAWI,
      PPC_OP_ADD, PPC_OP_SUBF, PPC_OP_NEG, PPC_OP_PS_ADD, PPC_OP_PS_SUB, PPC_OP_PS_MUL,
      PPC_OP_PS_DIV, PPC_OP_PS_MADD, PPC_OP_PS_MSUB, PPC_OP_PS_MR, PPC_OP_PS_NEG, PPC_OP_PSQ_L,
      PPC_OP_PSQ_ST, PPC_OP_PSQ_LU, PPC_OP_PSQ_STU]"

lemma in_all_ops: "op \<in> set all_ops"
  by (cases op) (simp_all add: all_ops_def)

lemma distinct_mnemonics: "distinct (List.map ppc_mnemonic all_ops)"
  unfolding all_ops_def list.map ppc_mnemonic.simps by code_simp

lemma ppc_mnemonic_eq_iff: "ppc_mnemonic a = ppc_mnemonic b \<longleftrightarrow> a = b"
  using distinct_mnemonics inj_onD [of ppc_mnemonic "set all_ops" a b] in_all_ops
  by (auto simp: distinct_map)

end
