(* ===== verification/Ppc.thy ===== *)
theory Ppc
  imports PpcOps Prelude
begin

unbundle bit_operations_syntax

text \<open>
  The decoder of the PowerPC disassembler (decompiler/src/ppc/decode.c, decode_ext.c,
  ppc_internal.h).  Instruction words, addresses and immediates are 32-bit words; a signed
  immediate (\<open>int32_t\<close> in the code) is read with \<open>sint\<close>.  The structure that the code fills
  through a pointer is passed and returned; a null pointer is not modelled.
\<close>

section \<open>Bit fields\<close>

text \<open>Bits are numbered from the most significant one, as in the PowerPC manuals.\<close>

definition ppc_bits :: "u32 \<Rightarrow> nat \<Rightarrow> nat \<Rightarrow> u32" where
  "ppc_bits insn msb lsb =
     (let width = lsb - msb + 1;
          shift = 31 - lsb;
          mask = (if width = 32 then 0xFFFFFFFF else push_bit width 1 - 1)
      in drop_bit shift insn AND mask)"

definition ppc_sext :: "u32 \<Rightarrow> nat \<Rightarrow> u32" where
  "ppc_sext v width =
     (let sign = push_bit (width - 1) 1
      in if v AND sign \<noteq> 0 then v OR NOT (push_bit width 1 - 1) else v)"

definition field8 :: "u32 \<Rightarrow> nat \<Rightarrow> nat \<Rightarrow> u8" where
  "field8 insn msb lsb = ucast (ppc_bits insn msb lsb)"

record PpcInsn =
  pi_op :: PpcOp
  pi_raw :: u32
  pi_addr :: u32
  pi_rd :: u8
  pi_ra :: u8
  pi_rb :: u8
  pi_imm :: u32
  pi_target :: u32
  pi_aa :: u8
  pi_lk :: u8
  pi_sh :: u8
  pi_mb :: u8
  pi_me :: u8

definition zero_insn :: PpcInsn where
  "zero_insn =
     \<lparr>pi_op = PPC_OP_UNKNOWN, pi_raw = 0, pi_addr = 0, pi_rd = 0, pi_ra = 0, pi_rb = 0, pi_imm = 0,
      pi_target = 0, pi_aa = 0, pi_lk = 0, pi_sh = 0, pi_mb = 0, pi_me = 0\<rparr>"

section \<open>The decoders of the forms\<close>

definition decode_spr :: "u32 \<Rightarrow> u32" where
  "decode_spr insn =
     (let field = ppc_bits insn 11 20
      in push_bit 5 (field AND 0x1F) OR (drop_bit 5 field AND 0x1F))"

definition decode_iform_branch :: "u32 \<Rightarrow> u32 \<Rightarrow> PpcInsn \<Rightarrow> PpcInsn" where
  "decode_iform_branch insn vaddr out =
     (let li_raw = ppc_bits insn 6 29;
          disp = ppc_sext (push_bit 2 li_raw) 26;
          out = out\<lparr>pi_aa := field8 insn 30 30, pi_lk := field8 insn 31 31\<rparr>;
          out = out\<lparr>pi_target := (if pi_aa out \<noteq> 0 then disp else vaddr + disp)\<rparr>
      in out\<lparr>pi_op := (if pi_aa out \<noteq> 0 \<and> pi_lk out \<noteq> 0 then PPC_OP_BLA
                      else if pi_aa out \<noteq> 0 then PPC_OP_BA
                      else if pi_lk out \<noteq> 0 then PPC_OP_BL
                      else PPC_OP_B)\<rparr>)"

definition decode_bform_branch :: "u32 \<Rightarrow> u32 \<Rightarrow> PpcInsn \<Rightarrow> PpcInsn" where
  "decode_bform_branch insn vaddr out =
     (let bd_raw = ppc_bits insn 16 29;
          disp = ppc_sext (push_bit 2 bd_raw) 16;
          out = out\<lparr>pi_op := PPC_OP_BC, pi_rd := field8 insn 6 10, pi_ra := field8 insn 11 15,
                    pi_aa := field8 insn 30 30, pi_lk := field8 insn 31 31\<rparr>
      in out\<lparr>pi_target := (if pi_aa out \<noteq> 0 then disp else vaddr + disp)\<rparr>)"

definition decode_opcode19 :: "u32 \<Rightarrow> PpcInsn \<Rightarrow> PpcInsn" where
  "decode_opcode19 insn out =
     (let xo = ppc_bits insn 21 30;
          bo = ppc_bits insn 6 10;
          bi = ppc_bits insn 11 15;
          out = out\<lparr>pi_lk := field8 insn 31 31\<rparr>
      in if xo = 16 \<and> bo = 20 \<and> bi = 0 \<and> pi_lk out = 0 then out\<lparr>pi_op := PPC_OP_BLR\<rparr>
         else if xo = 528 \<and> bo = 20 \<and> bi = 0 \<and> pi_lk out = 0 then out\<lparr>pi_op := PPC_OP_BCTR\<rparr>
         else out)"

definition decode_dform_arith :: "u32 \<Rightarrow> PpcInsn \<Rightarrow> PpcOp \<Rightarrow> PpcInsn" where
  "decode_dform_arith insn out op =
     out\<lparr>pi_op := op, pi_rd := field8 insn 6 10, pi_ra := field8 insn 11 15,
         pi_imm := ppc_sext (ppc_bits insn 16 31) 16\<rparr>"

definition decode_dform_mem :: "u32 \<Rightarrow> PpcInsn \<Rightarrow> PpcOp \<Rightarrow> PpcInsn" where
  "decode_dform_mem insn out op =
     out\<lparr>pi_op := op, pi_rd := field8 insn 6 10, pi_ra := field8 insn 11 15,
         pi_imm := ppc_sext (ppc_bits insn 16 31) 16\<rparr>"

definition decode_ori :: "u32 \<Rightarrow> PpcInsn \<Rightarrow> PpcInsn" where
  "decode_ori insn out =
     (let out = out\<lparr>pi_rd := field8 insn 6 10, pi_ra := field8 insn 11 15,
                    pi_imm := ppc_bits insn 16 31\<rparr>
      in out\<lparr>pi_op := (if pi_rd out = 0 \<and> pi_ra out = 0 \<and> pi_imm out = 0
                      then PPC_OP_NOP else PPC_OP_ORI)\<rparr>)"

definition decode_andi_dot :: "u32 \<Rightarrow> PpcInsn \<Rightarrow> PpcInsn" where
  "decode_andi_dot insn out =
     out\<lparr>pi_op := PPC_OP_ANDI_DOT, pi_rd := field8 insn 6 10, pi_ra := field8 insn 11 15,
         pi_imm := ppc_bits insn 16 31\<rparr>"

definition decode_cmpi :: "u32 \<Rightarrow> PpcInsn \<Rightarrow> PpcInsn" where
  "decode_cmpi insn out =
     (if ppc_bits insn 10 10 \<noteq> 0 then out
      else out\<lparr>pi_op := PPC_OP_CMPWI, pi_rd := field8 insn 6 8, pi_ra := field8 insn 11 15,
               pi_imm := ppc_sext (ppc_bits insn 16 31) 16\<rparr>)"

definition ppc_decode_mform :: "u32 \<Rightarrow> PpcInsn \<Rightarrow> PpcOp \<Rightarrow> PpcInsn" where
  "ppc_decode_mform insn out op =
     out\<lparr>pi_op := op, pi_rd := field8 insn 6 10, pi_ra := field8 insn 11 15,
         pi_rb := field8 insn 16 20, pi_sh := field8 insn 16 20,
         pi_mb := field8 insn 21 25, pi_me := field8 insn 26 30\<rparr>"

definition decode_psq_dform :: "u32 \<Rightarrow> PpcInsn \<Rightarrow> PpcOp \<Rightarrow> PpcInsn" where
  "decode_psq_dform insn out op =
     out\<lparr>pi_op := op, pi_rd := field8 insn 6 10, pi_ra := field8 insn 11 15,
         pi_sh := field8 insn 16 16, pi_mb := field8 insn 17 19,
         pi_imm := ppc_sext (ppc_bits insn 20 31) 12\<rparr>"

definition ppc_decode_psq :: "u32 \<Rightarrow> PpcInsn \<Rightarrow> PpcInsn" where
  "ppc_decode_psq insn out =
     (let primary = ppc_bits insn 0 5
      in if primary = 56 then decode_psq_dform insn out PPC_OP_PSQ_L
         else if primary = 57 then decode_psq_dform insn out PPC_OP_PSQ_LU
         else if primary = 60 then decode_psq_dform insn out PPC_OP_PSQ_ST
         else if primary = 61 then decode_psq_dform insn out PPC_OP_PSQ_STU
         else out)"

definition ppc_decode_opcode4 :: "u32 \<Rightarrow> PpcInsn \<Rightarrow> PpcInsn" where
  "ppc_decode_opcode4 insn out =
     (let xo = ppc_bits insn 21 30;
          frd = field8 insn 6 10;
          fra = field8 insn 11 15;
          frb = field8 insn 16 20;
          frc = field8 insn 21 25;
          xo5 = ppc_bits insn 26 30
      in if xo = 21 then out\<lparr>pi_op := PPC_OP_PS_ADD, pi_rd := frd, pi_ra := fra, pi_rb := frb\<rparr>
         else if xo = 20 then out\<lparr>pi_op := PPC_OP_PS_SUB, pi_rd := frd, pi_ra := fra, pi_rb := frb\<rparr>
         else if xo = 18 then out\<lparr>pi_op := PPC_OP_PS_DIV, pi_rd := frd, pi_ra := fra, pi_rb := frb\<rparr>
         else if xo = 72 then out\<lparr>pi_op := PPC_OP_PS_MR, pi_rd := frd, pi_rb := frb\<rparr>
         else if xo = 40 then out\<lparr>pi_op := PPC_OP_PS_NEG, pi_rd := frd, pi_rb := frb\<rparr>
         else if xo5 = 25 then out\<lparr>pi_op := PPC_OP_PS_MUL, pi_rd := frd, pi_ra := fra, pi_rb := frc\<rparr>
         else if xo5 = 29 then out\<lparr>pi_op := PPC_OP_PS_MADD, pi_rd := frd, pi_ra := fra, pi_rb := frc\<rparr>
         else if xo5 = 28 then out\<lparr>pi_op := PPC_OP_PS_MSUB, pi_rd := frd, pi_ra := fra, pi_rb := frc\<rparr>
         else out)"

definition kOp31 :: "(u32 \<times> PpcOp) list" where
  "kOp31 =
     [(0, PPC_OP_CMPW), (32, PPC_OP_CMPLW),
      (235, PPC_OP_MULLW), (75, PPC_OP_MULHW), (11, PPC_OP_MULHWU), (491, PPC_OP_DIVW),
      (459, PPC_OP_DIVWU),
      (28, PPC_OP_AND), (444, PPC_OP_OR), (316, PPC_OP_XOR), (476, PPC_OP_NAND),
      (124, PPC_OP_NOR), (284, PPC_OP_EQV), (60, PPC_OP_ANDC), (412, PPC_OP_ORC),
      (24, PPC_OP_SLW), (536, PPC_OP_SRW), (792, PPC_OP_SRAW), (824, PPC_OP_SRAWI),
      (266, PPC_OP_ADD), (40, PPC_OP_SUBF), (104, PPC_OP_NEG)]"

text \<open>The flag of the result is what the code returns.\<close>

fun op31_loop :: "(u32 \<times> PpcOp) list \<Rightarrow> u32 \<Rightarrow> PpcInsn \<Rightarrow> bool \<times> PpcInsn" where
  "op31_loop [] insn out = (False, out)"
| "op31_loop ((xo_i, op) # rest) insn out =
     (if xo_i \<noteq> ppc_bits insn 21 30 then op31_loop rest insn out
      else if op = PPC_OP_CMPW \<or> op = PPC_OP_CMPLW then
        (if ppc_bits insn 10 10 \<noteq> 0 then (False, out)
         else (True, out\<lparr>pi_op := op, pi_rd := field8 insn 6 8, pi_ra := field8 insn 11 15,
                         pi_rb := field8 insn 16 20\<rparr>))
      else if op = PPC_OP_SRAWI then
        (True, out\<lparr>pi_op := op, pi_rd := field8 insn 6 10, pi_ra := field8 insn 11 15,
                   pi_sh := field8 insn 16 20\<rparr>)
      else if op = PPC_OP_NEG then
        (True, out\<lparr>pi_op := op, pi_rd := field8 insn 6 10, pi_ra := field8 insn 11 15\<rparr>)
      else (True, out\<lparr>pi_op := op, pi_rd := field8 insn 6 10, pi_ra := field8 insn 11 15,
                      pi_rb := field8 insn 16 20\<rparr>))"

definition ppc_decode_op31_xform :: "u32 \<Rightarrow> PpcInsn \<Rightarrow> bool \<times> PpcInsn" where
  "ppc_decode_op31_xform insn out = op31_loop kOp31 insn out"

definition decode_opcode31 :: "u32 \<Rightarrow> PpcInsn \<Rightarrow> PpcInsn" where
  "decode_opcode31 insn out =
     (let xo = ppc_bits insn 21 30
      in if xo = 339 then
           let spr = decode_spr insn; out = out\<lparr>pi_rd := field8 insn 6 10\<rparr>
           in (if spr = 8 then out\<lparr>pi_op := PPC_OP_MFLR\<rparr>
               else if spr = 9 then out\<lparr>pi_op := PPC_OP_MFCTR\<rparr> else out)
         else if xo = 467 then
           let spr = decode_spr insn; out = out\<lparr>pi_rd := field8 insn 6 10\<rparr>
           in (if spr = 8 then out\<lparr>pi_op := PPC_OP_MTLR\<rparr>
               else if spr = 9 then out\<lparr>pi_op := PPC_OP_MTCTR\<rparr> else out)
         else if xo = 444 \<and> ppc_bits insn 31 31 = 0 \<and> ppc_bits insn 6 10 = ppc_bits insn 16 20
         then out\<lparr>pi_op := PPC_OP_MR, pi_rd := field8 insn 11 15, pi_ra := field8 insn 6 10\<rparr>
         else snd (ppc_decode_op31_xform insn out))"

definition decode_opcode63 :: "u32 \<Rightarrow> PpcInsn \<Rightarrow> PpcInsn" where
  "decode_opcode63 insn out =
     (let xo = ppc_bits insn 21 30;
          frd = field8 insn 6 10;
          fra = field8 insn 11 15;
          frb = field8 insn 16 20;
          frc = field8 insn 21 25
      in if xo = 72 then out\<lparr>pi_op := PPC_OP_FMR, pi_rd := frd, pi_rb := frb\<rparr>
         else if xo = 40 then out\<lparr>pi_op := PPC_OP_FNEG, pi_rd := frd, pi_rb := frb\<rparr>
         else if xo = 21 then out\<lparr>pi_op := PPC_OP_FADD, pi_rd := frd, pi_ra := fra, pi_rb := frb\<rparr>
         else if xo = 20 then out\<lparr>pi_op := PPC_OP_FSUB, pi_rd := frd, pi_ra := fra, pi_rb := frb\<rparr>
         else if xo = 25 then out\<lparr>pi_op := PPC_OP_FMUL, pi_rd := frd, pi_ra := fra, pi_rb := frc\<rparr>
         else if xo = 18 then out\<lparr>pi_op := PPC_OP_FDIV, pi_rd := frd, pi_ra := fra, pi_rb := frb\<rparr>
         else out)"

section \<open>The decoder\<close>

definition decode_primary :: "u32 \<Rightarrow> u32 \<Rightarrow> u32 \<Rightarrow> PpcInsn \<Rightarrow> PpcInsn" where
  "decode_primary primary word vaddr out =
     (if primary = 4 then ppc_decode_opcode4 word out
      else if primary = 7 then decode_dform_arith word out PPC_OP_MULLI
      else if primary = 10 then
        (if ppc_bits word 10 10 = 0
         then out\<lparr>pi_op := PPC_OP_CMPLWI, pi_rd := field8 word 6 8, pi_ra := field8 word 11 15,
                  pi_imm := ppc_bits word 16 31\<rparr>
         else out)
      else if primary = 11 then decode_cmpi word out
      else if primary = 14 then decode_dform_arith word out PPC_OP_ADDI
      else if primary = 15 then decode_dform_arith word out PPC_OP_ADDIS
      else if primary = 16 then decode_bform_branch word vaddr out
      else if primary = 18 then decode_iform_branch word vaddr out
      else if primary = 19 then decode_opcode19 word out
      else if primary = 20 then ppc_decode_mform word out PPC_OP_RLWIMI
      else if primary = 21 then ppc_decode_mform word out PPC_OP_RLWINM
      else if primary = 23 then ppc_decode_mform word out PPC_OP_RLWNM
      else if primary = 24 then decode_ori word out
      else if primary = 28 then decode_andi_dot word out
      else if primary = 31 then decode_opcode31 word out
      else if primary = 32 then decode_dform_mem word out PPC_OP_LWZ
      else if primary = 33 then decode_dform_mem word out PPC_OP_LWZU
      else if primary = 34 then decode_dform_mem word out PPC_OP_LBZ
      else if primary = 35 then decode_dform_mem word out PPC_OP_LBZU
      else if primary = 36 then decode_dform_mem word out PPC_OP_STW
      else if primary = 37 then decode_dform_mem word out PPC_OP_STWU
      else if primary = 38 then decode_dform_mem word out PPC_OP_STB
      else if primary = 39 then decode_dform_mem word out PPC_OP_STBU
      else if primary = 40 then decode_dform_mem word out PPC_OP_LHZ
      else if primary = 41 then decode_dform_mem word out PPC_OP_LHZU
      else if primary = 42 then decode_dform_mem word out PPC_OP_LHA
      else if primary = 43 then decode_dform_mem word out PPC_OP_LHAU
      else if primary = 44 then decode_dform_mem word out PPC_OP_STH
      else if primary = 45 then decode_dform_mem word out PPC_OP_STHU
      else if primary = 46 then decode_dform_mem word out PPC_OP_LMW
      else if primary = 47 then decode_dform_mem word out PPC_OP_STMW
      else if primary = 48 then decode_dform_mem word out PPC_OP_LFS
      else if primary = 49 then decode_dform_mem word out PPC_OP_LFSU
      else if primary = 50 then decode_dform_mem word out PPC_OP_LFD
      else if primary = 51 then decode_dform_mem word out PPC_OP_LFDU
      else if primary = 52 then decode_dform_mem word out PPC_OP_STFS
      else if primary = 53 then decode_dform_mem word out PPC_OP_STFSU
      else if primary = 54 then decode_dform_mem word out PPC_OP_STFD
      else if primary = 55 then decode_dform_mem word out PPC_OP_STFDU
      else if primary = 56 then ppc_decode_psq word out
      else if primary = 57 then ppc_decode_psq word out
      else if primary = 60 then ppc_decode_psq word out
      else if primary = 61 then ppc_decode_psq word out
      else if primary = 63 then decode_opcode63 word out
      else out)"

definition ppc_decode :: "u32 \<Rightarrow> u32 \<Rightarrow> PpcInsn" where
  "ppc_decode word vaddr =
     decode_primary (ppc_bits word 0 5) word vaddr
       (zero_insn\<lparr>pi_raw := word, pi_addr := vaddr, pi_op := PPC_OP_UNKNOWN\<rparr>)"

section \<open>Fields as bits\<close>

lemma push_bit_mask: "push_bit k 1 - 1 = (mask k :: u32)"
  by (simp add: mask_eq_exp_minus_1 push_bit_of_1)

lemma ppc_bits_take:
  assumes "msb \<le> lsb" and "lsb \<le> 31"
  shows "ppc_bits w msb lsb = take_bit (lsb - msb + 1) (drop_bit (31 - lsb) w)"
proof -
  have ones: "(0xFFFFFFFF :: u32) = mask 32"
    by (simp add: mask_eq_exp_minus_1)
  show ?thesis
    unfolding ppc_bits_def Let_def push_bit_mask ones take_bit_eq_mask by simp
qed

lemma bit_ppc_bits:
  assumes "msb \<le> lsb" and "lsb \<le> 31"
  shows "bit (ppc_bits w msb lsb) n \<longleftrightarrow> n \<le> lsb - msb \<and> bit w (31 - lsb + n)"
  using assms by (auto simp: ppc_bits_take bit_simps)

lemma bit_field8:
  assumes "msb \<le> lsb" and "lsb \<le> 31" and "lsb - msb < 8"
  shows "bit (field8 w msb lsb) n \<longleftrightarrow> n \<le> lsb - msb \<and> bit w (31 - lsb + n)"
  using assms by (auto simp: field8_def bit_ppc_bits bit_simps)

lemma unsigned_of_int_exp:
  assumes "k < LENGTH('a)"
  shows "uint (2 ^ k :: 'a :: len word) = 2 ^ k"
proof -
  have "uint (word_of_int (2 ^ k) :: 'a word) = 2 ^ k"
    using assms by (simp add: uint_word_of_int mod_pos_pos_trivial power_strict_increasing del: word_of_int_power_hom of_int_power)
  then show ?thesis
    by simp
qed

lemma word_less_exp:
  fixes v :: "'a :: len word"
  assumes "\<And>n. bit v n \<Longrightarrow> n < k" and "k < LENGTH('a)"
  shows "v < 2 ^ k"
proof -
  have "take_bit k v = v"
    using assms(1) by (intro bit_eqI) (auto simp: bit_simps)
  then have "uint v < 2 ^ k"
    by (metis take_bit_int_less_exp unsigned_take_bit_eq)
  then show ?thesis
    using assms(2) by (simp add: word_less_def unsigned_of_int_exp)
qed

lemma field8_less:
  assumes "msb \<le> lsb" and "lsb \<le> 31" and "lsb - msb < k" and "k < 8"
  shows "field8 w msb lsb < 2 ^ k"
  using assms by (intro word_less_exp) (auto simp: bit_field8)

lemma ppc_bits_less:
  assumes "msb \<le> lsb" and "lsb \<le> 31" and "lsb - msb < k" and "k < 32"
  shows "ppc_bits w msb lsb < 2 ^ k"
  using assms by (intro word_less_exp) (auto simp: bit_ppc_bits)

text \<open>Sign extension.\<close>

lemma and_push_bit_1: "(v :: 'a :: len word) AND push_bit k 1 \<noteq> 0 \<longleftrightarrow> bit v k"
  by (simp add: bit_iff_and_push_bit_not_eq_0)

lemma ppc_sext_bit: "ppc_sext v k = (if bit v (k - 1) then v OR NOT (mask k) else v)"
  unfolding ppc_sext_def Let_def push_bit_mask and_push_bit_1 by (rule refl)

lemma ppc_sext_eq:
  assumes "0 < k" and "k < 32" and "\<And>n. bit v n \<Longrightarrow> n < k"
  shows "ppc_sext v k = signed_take_bit (k - 1) v"
proof (rule bit_word_eqI)
  fix n :: nat
  assume n: "n < LENGTH(32)"
  show "bit (ppc_sext v k) n \<longleftrightarrow> bit (signed_take_bit (k - 1) v) n"
  proof (cases "n < k")
    case True
    then have "min n (k - 1) = n"
      by simp
    then show ?thesis
      using True n by (simp add: ppc_sext_bit bit_simps min.commute)
  next
    case False
    then have "\<not> bit v n" "min n (k - 1) = k - 1"
      using assms(3) by auto
    then show ?thesis
      using False n by (simp add: ppc_sext_bit bit_simps min.commute)
  qed
qed

lemma sint_signed_take_bit_word:
  fixes w :: u32
  assumes "m < 32"
  shows "sint (signed_take_bit m w) = signed_take_bit m (uint w)"
  using assms by (intro bit_eqI) (auto simp: bit_simps min_def)

lemma sint_ppc_sext:
  assumes "0 < k" and "k < 32" and "\<And>n. bit v n \<Longrightarrow> n < k"
  shows "sint (ppc_sext v k) = signed_take_bit (k - 1) (uint v)"
  using assms by (simp add: ppc_sext_eq sint_signed_take_bit_word)

section \<open>Every decoded field is in range\<close>

definition fields_ok :: "PpcInsn \<Rightarrow> bool" where
  "fields_ok i \<longleftrightarrow>
     pi_rd i < 32 \<and> pi_ra i < 32 \<and> pi_rb i < 32 \<and> pi_sh i < 32 \<and> pi_mb i < 32 \<and> pi_me i < 32 \<and>
     pi_aa i < 2 \<and> pi_lk i < 2 \<and> - 32768 \<le> sint (pi_imm i) \<and> sint (pi_imm i) \<le> 65535"

lemma field8_bounds [simp]:
  "field8 w 6 10 < 32" "field8 w 11 15 < 32" "field8 w 16 20 < 32" "field8 w 21 25 < 32"
  "field8 w 26 30 < 32" "field8 w 6 8 < 32" "field8 w 16 16 < 32" "field8 w 17 19 < 32"
  "field8 w 30 30 < 2" "field8 w 31 31 < 2"
  using field8_less [of 6 10 5 w] field8_less [of 11 15 5 w] field8_less [of 16 20 5 w]
    field8_less [of 21 25 5 w] field8_less [of 26 30 5 w] field8_less [of 6 8 5 w]
    field8_less [of 16 16 5 w] field8_less [of 17 19 5 w] field8_less [of 30 30 1 w]
    field8_less [of 31 31 1 w]
  by simp_all

lemma sint_small: "uint (w :: u32) < 2 ^ 31 \<Longrightarrow> sint w = uint w"
  by (simp add: sint_uint signed_take_bit_int_eq_self order_trans [OF _ uint_ge_0])

lemma uimm_bounds [simp]: "- 32768 \<le> sint (ppc_bits w 16 31)" "sint (ppc_bits w 16 31) \<le> 65535"
proof -
  have "ppc_bits w 16 31 < 2 ^ 16"
    by (rule ppc_bits_less) simp_all
  then have "uint (ppc_bits w 16 31) < 65536"
    by (simp add: word_less_def)
  then show "- 32768 \<le> sint (ppc_bits w 16 31)" "sint (ppc_bits w 16 31) \<le> 65535"
    using order_trans [OF _ uint_ge_0, of "- 32768" "ppc_bits w 16 31"] by (simp_all add: sint_small)
qed

lemma sint_ppc_sext_bounds:
  assumes "0 < k" and "k \<le> 16" and "\<And>n. bit v n \<Longrightarrow> n < k"
  shows "- 32768 \<le> sint (ppc_sext v k)" and "sint (ppc_sext v k) \<le> 65535"
proof -
  have "sint (ppc_sext v k) = signed_take_bit (k - 1) (uint v)"
    using assms by (intro sint_ppc_sext) auto
  moreover have "- (2 ^ (k - 1)) \<le> signed_take_bit (k - 1) (uint v)"
    "signed_take_bit (k - 1) (uint v) < 2 ^ (k - 1)"
    by (simp_all add: signed_take_bit_int_greater_eq_minus_exp signed_take_bit_int_less_exp)
  moreover have "(2 :: int) ^ (k - 1) \<le> 2 ^ 15"
    using assms(2) by (intro power_increasing) simp_all
  moreover have "(2 :: int) ^ 15 = 32768"
    by simp
  ultimately show "- 32768 \<le> sint (ppc_sext v k)" "sint (ppc_sext v k) \<le> 65535"
    by linarith+
qed

lemma simm_bounds [simp]:
  "- 32768 \<le> sint (ppc_sext (ppc_bits w 16 31) 16)" "sint (ppc_sext (ppc_bits w 16 31) 16) \<le> 65535"
  "- 32768 \<le> sint (ppc_sext (ppc_bits w 20 31) 12)" "sint (ppc_sext (ppc_bits w 20 31) 12) \<le> 65535"
  by (rule sint_ppc_sext_bounds; force simp: bit_ppc_bits)+

named_theorems decoder_fields

lemma dform_fields [decoder_fields]:
  "fields_ok out \<Longrightarrow> fields_ok (decode_dform_arith w out op)"
  "fields_ok out \<Longrightarrow> fields_ok (decode_dform_mem w out op)"
  "fields_ok out \<Longrightarrow> fields_ok (decode_andi_dot w out)"
  "fields_ok out \<Longrightarrow> fields_ok (decode_cmpi w out)"
  "fields_ok out \<Longrightarrow> fields_ok (ppc_decode_mform w out op)"
  "fields_ok out \<Longrightarrow> fields_ok (decode_psq_dform w out op)"
  by (simp_all add: fields_ok_def decode_dform_arith_def decode_dform_mem_def decode_andi_dot_def
      decode_cmpi_def ppc_decode_mform_def decode_psq_dform_def)

lemma ori_fields [decoder_fields]: "fields_ok out \<Longrightarrow> fields_ok (decode_ori w out)"
  by (simp add: fields_ok_def decode_ori_def Let_def)

lemma psq_fields [decoder_fields]: "fields_ok out \<Longrightarrow> fields_ok (ppc_decode_psq w out)"
  by (simp add: ppc_decode_psq_def Let_def dform_fields)

lemma branch_fields [decoder_fields]:
  "fields_ok out \<Longrightarrow> fields_ok (decode_iform_branch w v out)"
  "fields_ok out \<Longrightarrow> fields_ok (decode_bform_branch w v out)"
  "fields_ok out \<Longrightarrow> fields_ok (decode_opcode19 w out)"
  by (simp_all add: fields_ok_def decode_iform_branch_def decode_bform_branch_def decode_opcode19_def Let_def)

lemma opcode4_fields [decoder_fields]: "fields_ok out \<Longrightarrow> fields_ok (ppc_decode_opcode4 w out)"
  unfolding ppc_decode_opcode4_def Let_def by (simp add: fields_ok_def)

lemma opcode63_fields [decoder_fields]: "fields_ok out \<Longrightarrow> fields_ok (decode_opcode63 w out)"
  unfolding decode_opcode63_def Let_def by (simp add: fields_ok_def)

lemma op31_fields: "fields_ok out \<Longrightarrow> fields_ok (snd (op31_loop table w out))"
  by (induction table) (auto simp: fields_ok_def)

lemma opcode31_fields [decoder_fields]: "fields_ok out \<Longrightarrow> fields_ok (decode_opcode31 w out)"
  using op31_fields [of out kOp31 w]
  by (simp add: decode_opcode31_def ppc_decode_op31_xform_def Let_def)
    (simp add: fields_ok_def)

lemma cmpli_fields [decoder_fields]:
  "fields_ok out \<Longrightarrow> fields_ok (out\<lparr>pi_op := op, pi_rd := field8 w 6 8, pi_ra := field8 w 11 15,
     pi_imm := ppc_bits w 16 31\<rparr>)"
  by (simp add: fields_ok_def)

lemma primary_fields: "fields_ok out \<Longrightarrow> fields_ok (decode_primary primary w v out)"
  unfolding decode_primary_def by (simp add: decoder_fields) (simp add: opcode63_fields)

text \<open>
  C33. Whatever the instruction word, every register operand, shift and mask of the decoded
  instruction is below 32, the flags are bits and the immediate fits 16 bits (signed or
  unsigned).
\<close>

theorem ppc_decode_fields:
  "pi_rd (ppc_decode word vaddr) < 32 \<and> pi_ra (ppc_decode word vaddr) < 32 \<and>
   pi_rb (ppc_decode word vaddr) < 32 \<and> pi_sh (ppc_decode word vaddr) < 32 \<and>
   pi_mb (ppc_decode word vaddr) < 32 \<and> pi_me (ppc_decode word vaddr) < 32 \<and>
   pi_aa (ppc_decode word vaddr) < 2 \<and> pi_lk (ppc_decode word vaddr) < 2 \<and>
   - 32768 \<le> sint (pi_imm (ppc_decode word vaddr)) \<and> sint (pi_imm (ppc_decode word vaddr)) \<le> 65535"
proof -
  have "fields_ok (zero_insn\<lparr>pi_raw := word, pi_addr := vaddr, pi_op := PPC_OP_UNKNOWN\<rparr>)"
    by (simp add: fields_ok_def zero_insn_def)
  then show ?thesis
    using primary_fields unfolding ppc_decode_def fields_ok_def by blast
qed

section \<open>Round trips with an encoder\<close>

text \<open>The instruction words of the three main forms, as the architecture lays them out.\<close>

definition dform_word :: "u32 \<Rightarrow> u32 \<Rightarrow> u32 \<Rightarrow> u32 \<Rightarrow> u32" where
  "dform_word primary rd ra imm =
     push_bit 26 primary OR push_bit 21 rd OR push_bit 16 ra OR take_bit 16 imm"

text \<open>The displacement of a branch in units of words, with the two flags in the low bits.\<close>

definition branch_low :: "nat \<Rightarrow> u32 \<Rightarrow> bool \<Rightarrow> bool \<Rightarrow> u32" where
  "branch_low k disp aa lk =
     push_bit 2 (take_bit k (drop_bit 2 disp)) OR push_bit 1 (of_bool aa) OR of_bool lk"

definition iform_word :: "u32 \<Rightarrow> bool \<Rightarrow> bool \<Rightarrow> u32" where
  "iform_word disp aa lk = push_bit 26 18 OR branch_low 24 disp aa lk"

definition bform_word :: "u32 \<Rightarrow> u32 \<Rightarrow> u32 \<Rightarrow> bool \<Rightarrow> bool \<Rightarrow> u32" where
  "bform_word bo bi disp aa lk = dform_word 16 bo bi (branch_low 14 disp aa lk)"

lemma bit_less_exp: "bit v n \<Longrightarrow> v < 2 ^ k \<Longrightarrow> k < 32 \<Longrightarrow> n < k" for v :: u32
proof -
  assume v: "bit v n" "v < 2 ^ k" "k < 32"
  then have "uint v < 2 ^ k"
    by (simp add: word_less_def unsigned_of_int_exp)
  then have "take_bit k (uint v) = uint v"
    by (simp add: take_bit_int_eq_self)
  moreover have "bit (uint v) n"
    using v(1) bit_imp_le_length [OF v(1)] by (simp add: bit_uint_iff)
  ultimately show "n < k"
    by (metis bit_take_bit_iff)
qed

lemma bits_of_small:
  "v < 64 \<Longrightarrow> bit v n \<Longrightarrow> n < 6" "v < 32 \<Longrightarrow> bit v n \<Longrightarrow> n < 5" for v :: u32
  using bit_less_exp [of v n 6] bit_less_exp [of v n 5] by simp_all

lemma signed_take_bit_fits:
  fixes v :: u32
  assumes "- (2 ^ k) \<le> sint v" and "sint v < 2 ^ k" and "k < 32"
  shows "signed_take_bit k v = v"
proof -
  have "sint v = signed_take_bit 31 (uint v)"
    by (simp add: sint_uint)
  then have "signed_take_bit k (uint v) = signed_take_bit k (sint v)"
    using assms(3) by (simp add: signed_take_bit_signed_take_bit min_def)
  also have "\<dots> = sint v"
    using assms by (simp add: signed_take_bit_int_eq_self)
  finally have "sint (signed_take_bit k v) = sint v"
    using assms(3) by (simp add: sint_signed_take_bit_word)
  then show ?thesis
    by (rule signed_word_eqI)
qed

text \<open>Sign extension of a truncated displacement gives the displacement back.\<close>

lemma sext_take:
  assumes "0 < k" and "k < 32" and "- (2 ^ (k - 1)) \<le> sint d" and "sint d < 2 ^ (k - 1)"
  shows "ppc_sext (take_bit k d) k = d"
proof -
  have "ppc_sext (take_bit k d) k = signed_take_bit (k - 1) (take_bit k d)"
    using assms by (intro ppc_sext_eq) (auto simp: bit_simps)
  also have "\<dots> = signed_take_bit (k - 1) d"
    using assms(1,2) by (intro bit_word_eqI) (auto simp: bit_simps min_def)
  also have "\<dots> = d"
    using assms by (intro signed_take_bit_fits) auto
  finally show ?thesis .
qed

lemma dform_word_fields:
  assumes "primary < 64" and "rd < 32" and "ra < 32"
  shows "ppc_bits (dform_word primary rd ra imm) 0 5 = primary"
    and "field8 (dform_word primary rd ra imm) 6 10 = ucast rd"
    and "field8 (dform_word primary rd ra imm) 11 15 = ucast ra"
    and "ppc_bits (dform_word primary rd ra imm) 16 31 = take_bit 16 imm"
  using assms
  by (intro bit_word_eqI; force simp: dform_word_def bit_ppc_bits bit_field8 bit_simps dest: bits_of_small)+

lemma disp_parts:
  fixes disp :: u32
  assumes "disp AND 3 = 0"
  shows "push_bit 2 (drop_bit 2 disp) = disp"
proof -
  have "disp AND mask 2 = 0"
    using assms by (simp add: mask_eq_exp_minus_1)
  then have "\<not> bit (disp AND mask 2) n" for n
    by simp
  then have low: "bit disp n \<Longrightarrow> 2 \<le> n" for n
    by (metis bit_and_iff bit_imp_possible_bit bit_mask_iff not_le)
  have "bit (push_bit 2 (drop_bit 2 disp)) n \<longleftrightarrow> bit disp n" if n: "n < 32" for n
  proof (cases "2 \<le> n")
    case True
    then obtain m where "n = 2 + m"
      using le_Suc_ex by blast
    with n show ?thesis
      by (simp add: bit_simps)
  next
    case False
    with low [of n] show ?thesis
      by (auto simp: bit_simps)
  qed
  then show ?thesis
    by (intro bit_word_eqI) simp
qed

text \<open>The D-form instructions with a signed immediate.\<close>

definition dform_ops :: "(u32 \<times> PpcOp) list" where
  "dform_ops =
     [(7, PPC_OP_MULLI), (14, PPC_OP_ADDI), (15, PPC_OP_ADDIS),
      (32, PPC_OP_LWZ), (33, PPC_OP_LWZU), (34, PPC_OP_LBZ), (35, PPC_OP_LBZU),
      (36, PPC_OP_STW), (37, PPC_OP_STWU), (38, PPC_OP_STB), (39, PPC_OP_STBU),
      (40, PPC_OP_LHZ), (41, PPC_OP_LHZU), (42, PPC_OP_LHA), (43, PPC_OP_LHAU),
      (44, PPC_OP_STH), (45, PPC_OP_STHU), (46, PPC_OP_LMW), (47, PPC_OP_STMW),
      (48, PPC_OP_LFS), (49, PPC_OP_LFSU), (50, PPC_OP_LFD), (51, PPC_OP_LFDU),
      (52, PPC_OP_STFS), (53, PPC_OP_STFSU), (54, PPC_OP_STFD), (55, PPC_OP_STFDU)]"

lemma dform_arith_mem: "decode_dform_mem = decode_dform_arith"
  by (intro ext) (simp add: decode_dform_mem_def decode_dform_arith_def)

lemma decode_primary_dform:
  "(p, op) \<in> set dform_ops \<Longrightarrow> p < 64 \<and> decode_primary p w v out = decode_dform_arith w out op"
  unfolding dform_ops_def set_simps insert_iff empty_iff prod.inject
  by (elim disjE conjE FalseE; simp add: decode_primary_def dform_arith_mem)

text \<open>
  C23. Decoding inverts the encoding of every D-form instruction with a signed 16-bit
  immediate: all 27 primary opcodes of loads, stores and immediate arithmetic give back the
  operation, both registers and the sign-extended immediate, whatever the address.
\<close>

theorem ppc_decode_dform:
  assumes "(primary, op) \<in> set dform_ops" and "rd < 32" and "ra < 32"
    and "- 32768 \<le> sint imm" and "sint imm < 32768"
  shows "ppc_decode (dform_word primary rd ra imm) vaddr =
    zero_insn\<lparr>pi_op := op, pi_raw := dform_word primary rd ra imm, pi_addr := vaddr,
      pi_rd := ucast rd, pi_ra := ucast ra, pi_imm := imm\<rparr>"
proof -
  have "ppc_sext (take_bit 16 imm) 16 = imm"
    using assms(4,5) by (intro sext_take) simp_all
  with decode_primary_dform [OF assms(1)] show ?thesis
    using assms(2,3)
    by (simp add: ppc_decode_def decode_dform_arith_def dform_word_fields zero_insn_def)
qed

theorem ppc_decode_dform_witness:
  "ppc_decode (dform_word 36 1 3 (- 8)) 0x80004000 =
    zero_insn\<lparr>pi_op := PPC_OP_STW, pi_raw := dform_word 36 1 3 (- 8), pi_addr := 0x80004000,
      pi_rd := 1, pi_ra := 3, pi_imm := - 8\<rparr>"
  using ppc_decode_dform [of 36 PPC_OP_STW 1 3 "- 8" "0x80004000"] by (simp add: dform_ops_def)

lemma bit_branch_low:
  assumes "k + 2 \<le> 32"
  shows "bit (branch_low k disp aa lk) n \<longleftrightarrow>
    (if n = 0 then lk else if n = 1 then aa else n < k + 2 \<and> bit disp n)"
proof -
  consider "n = 0" | "n = 1" | m where "n = m + 2"
    by (metis One_nat_def add_2_eq_Suc' not0_implies_Suc)
  then show ?thesis
    using assms by cases (auto simp: branch_low_def bit_simps)
qed

lemma bit_dform_low: "n < 16 \<Longrightarrow> bit (dform_word p rd ra imm) n = bit imm n"
  by (simp add: dform_word_def bit_simps)

lemma bit_top_low: "bit (push_bit 26 p OR branch_low 24 disp aa lk) n \<longleftrightarrow>
    (if n < 26 then bit (branch_low 24 disp aa lk) n else n < 32 \<and> bit p (n - 26))" for p :: u32
  by (auto simp: bit_simps bit_branch_low)

lemma bit_iform: "bit (iform_word disp aa lk) n \<longleftrightarrow>
    (if n < 26 then bit (branch_low 24 disp aa lk) n else n < 32 \<and> bit (18 :: u32) (n - 26))"
  unfolding iform_word_def by (rule bit_top_low)

lemma iform_word_fields:
  "ppc_bits (iform_word disp aa lk) 0 5 = 18"
  "ppc_bits (iform_word disp aa lk) 6 29 = take_bit 24 (drop_bit 2 disp)"
  "field8 (iform_word disp aa lk) 30 30 = of_bool aa"
  "field8 (iform_word disp aa lk) 31 31 = of_bool lk"
proof -
  have low: "bit (18 :: u32) n \<Longrightarrow> n < 6" for n
    by (erule bits_of_small(1) [rotated]) simp
  show "ppc_bits (iform_word disp aa lk) 0 5 = 18"
    by (intro bit_word_eqI) (use low in \<open>force simp: bit_ppc_bits bit_iform\<close>)
  show "ppc_bits (iform_word disp aa lk) 6 29 = take_bit 24 (drop_bit 2 disp)"
    by (intro bit_word_eqI) (auto simp: bit_ppc_bits bit_iform bit_branch_low bit_simps)
  show "field8 (iform_word disp aa lk) 30 30 = of_bool aa"
    by (intro bit_word_eqI) (auto simp: bit_field8 bit_iform bit_branch_low bit_simps)
  show "field8 (iform_word disp aa lk) 31 31 = of_bool lk"
    by (intro bit_word_eqI) (auto simp: bit_field8 bit_iform bit_branch_low bit_simps)
qed

lemma bform_word_fields:
  assumes "bo < 32" and "bi < 32"
  shows "ppc_bits (bform_word bo bi disp aa lk) 0 5 = 16"
    and "field8 (bform_word bo bi disp aa lk) 6 10 = ucast bo"
    and "field8 (bform_word bo bi disp aa lk) 11 15 = ucast bi"
    and "ppc_bits (bform_word bo bi disp aa lk) 16 29 = take_bit 14 (drop_bit 2 disp)"
    and "field8 (bform_word bo bi disp aa lk) 30 30 = of_bool aa"
    and "field8 (bform_word bo bi disp aa lk) 31 31 = of_bool lk"
proof -
  show "ppc_bits (bform_word bo bi disp aa lk) 0 5 = 16"
    "field8 (bform_word bo bi disp aa lk) 6 10 = ucast bo"
    "field8 (bform_word bo bi disp aa lk) 11 15 = ucast bi"
    using assms by (simp_all add: bform_word_def dform_word_fields)
  show "ppc_bits (bform_word bo bi disp aa lk) 16 29 = take_bit 14 (drop_bit 2 disp)"
    by (intro bit_word_eqI)
      (auto simp: bform_word_def bit_ppc_bits bit_dform_low bit_branch_low bit_simps)
  show "field8 (bform_word bo bi disp aa lk) 30 30 = of_bool aa"
    "field8 (bform_word bo bi disp aa lk) 31 31 = of_bool lk"
    by (intro bit_word_eqI; auto simp: bform_word_def bit_field8 bit_dform_low bit_branch_low bit_simps)+
qed

lemma push_take_drop:
  fixes disp :: u32
  assumes "disp AND 3 = 0"
  shows "push_bit 2 (take_bit k (drop_bit 2 disp)) = take_bit (k + 2) disp"
  using disp_parts [OF assms] by (metis push_bit_take_bit add.commute)

text \<open>
  C34. Branch targets are exact: decoding an I-form branch to a word-aligned displacement of 26
  bits gives the displacement itself for an absolute branch and the address plus the
  displacement (modulo 2 ^ 32) for a relative one, with the operation that the two flags name.
\<close>

theorem ppc_decode_iform:
  assumes "disp AND 3 = 0" and "- (2 ^ 25) \<le> sint disp" and "sint disp < 2 ^ 25"
  shows "ppc_decode (iform_word disp aa lk) vaddr =
    zero_insn\<lparr>pi_op := (if aa then (if lk then PPC_OP_BLA else PPC_OP_BA)
                       else (if lk then PPC_OP_BL else PPC_OP_B)),
      pi_raw := iform_word disp aa lk, pi_addr := vaddr, pi_aa := of_bool aa, pi_lk := of_bool lk,
      pi_target := (if aa then disp else vaddr + disp)\<rparr>"
proof -
  have "ppc_sext (push_bit 2 (take_bit 24 (drop_bit 2 disp))) 26 = disp"
    using push_take_drop [OF assms(1), of 24] sext_take [of 26 disp] assms(2,3) by simp
  then show ?thesis
    by (simp add: ppc_decode_def decode_primary_def decode_iform_branch_def iform_word_fields
        zero_insn_def Let_def)
qed

theorem ppc_decode_iform_witness:
  "ppc_decode (iform_word (- 0x20) False True) 0x80004000 =
    zero_insn\<lparr>pi_op := PPC_OP_BL, pi_raw := iform_word (- 0x20) False True, pi_addr := 0x80004000,
      pi_lk := 1, pi_target := 0x80003FE0\<rparr>"
  using ppc_decode_iform [of "- 0x20" False True "0x80004000"] by (simp add: zero_insn_def)

text \<open>
  C35. The same for the conditional branches: branch option and condition bit come back in the
  register fields, and the target is exact for every word-aligned displacement of 16 bits.
\<close>

theorem ppc_decode_bform:
  assumes "bo < 32" and "bi < 32" and "disp AND 3 = 0" and "- (2 ^ 15) \<le> sint disp" and "sint disp < 2 ^ 15"
  shows "ppc_decode (bform_word bo bi disp aa lk) vaddr =
    zero_insn\<lparr>pi_op := PPC_OP_BC, pi_raw := bform_word bo bi disp aa lk, pi_addr := vaddr,
      pi_rd := ucast bo, pi_ra := ucast bi, pi_aa := of_bool aa, pi_lk := of_bool lk,
      pi_target := (if aa then disp else vaddr + disp)\<rparr>"
proof -
  have "ppc_sext (push_bit 2 (take_bit 14 (drop_bit 2 disp))) 16 = disp"
    using push_take_drop [OF assms(3), of 14] sext_take [of 16 disp] assms(4,5) by simp
  then show ?thesis
    using assms(1,2)
    by (simp add: ppc_decode_def decode_primary_def decode_bform_branch_def bform_word_fields
        zero_insn_def Let_def)
qed

theorem ppc_decode_bform_witness:
  "ppc_decode (bform_word 12 2 0x10 False False) 0x80004000 =
    zero_insn\<lparr>pi_op := PPC_OP_BC, pi_raw := bform_word 12 2 0x10 False False, pi_addr := 0x80004000,
      pi_rd := 12, pi_ra := 2, pi_target := 0x80004010\<rparr>"
  using ppc_decode_bform [of 12 2 "0x10" False False "0x80004000"] by (simp add: zero_insn_def)

section \<open>A gap of the decoder\<close>

text \<open>
  \<open>fmul\<close> is an A-form instruction: bits 26 to 30 are its extended opcode and bits 21 to 25 the
  operand frC.  The decoder compares all ten bits with 25, so every \<open>fmul\<close> whose frC is not
  register 0 is not recognised.
\<close>

theorem fmul_other_operand_unknown:
  assumes "ppc_bits w 0 5 = 63" and "ppc_bits w 26 30 = 25" and "ppc_bits w 21 25 \<noteq> 0"
  shows "pi_op (ppc_decode w vaddr) = PPC_OP_UNKNOWN"
proof -
  have xo: "take_bit 5 (ppc_bits w 21 30) = 25" "drop_bit 5 (ppc_bits w 21 30) \<noteq> 0"
  proof -
    have "take_bit 5 (ppc_bits w 21 30) = ppc_bits w 26 30"
      by (rule bit_word_eqI) (auto simp: bit_ppc_bits bit_simps)
    then show "take_bit 5 (ppc_bits w 21 30) = 25"
      using assms(2) by simp
    have "drop_bit 5 (ppc_bits w 21 30) = ppc_bits w 21 25"
      by (rule bit_word_eqI) (auto simp: bit_ppc_bits bit_simps add.commute)
    then show "drop_bit 5 (ppc_bits w 21 30) \<noteq> 0"
      using assms(3) by simp
  qed
  have "ppc_bits w 21 30 \<noteq> k" if "k \<in> {72, 40, 21, 20, 25, 18}" for k
    using xo that by auto
  then show ?thesis
    by (simp add: ppc_decode_def assms(1) decode_primary_def decode_opcode63_def zero_insn_def Let_def)
qed

section \<open>Branch targets are word aligned\<close>

definition branch_ops :: "PpcOp set" where
  "branch_ops = {PPC_OP_B, PPC_OP_BA, PPC_OP_BL, PPC_OP_BLA, PPC_OP_BC}"

definition target_ok :: "PpcInsn \<Rightarrow> bool" where
  "target_ok i \<longleftrightarrow> (pi_op i \<in> branch_ops \<longrightarrow> take_bit 2 (pi_target i) = 0)"

lemma sext_aligned:
  assumes "2 < k" and "k < 32" and "\<And>n. bit v n \<Longrightarrow> n < k - 2"
  shows "take_bit 2 (ppc_sext (push_bit 2 v) k) = 0"
proof -
  have "ppc_sext (push_bit 2 v) k = signed_take_bit (k - 1) (push_bit 2 v)"
    using assms by (intro ppc_sext_eq) (force simp: bit_simps)+
  then show ?thesis
    using assms(1) by (intro bit_word_eqI) (auto simp: bit_simps)
qed

lemma branch_disp_aligned:
  "take_bit 2 (ppc_sext (push_bit 2 (ppc_bits w 6 29)) 26) = 0"
  "take_bit 2 (ppc_sext (push_bit 2 (ppc_bits w 16 29)) 16) = 0"
  by (rule sext_aligned; force simp: bit_ppc_bits)+

lemma take_bit_2_zero: "take_bit 2 w = 0 \<longleftrightarrow> 4 dvd unat w" for w :: u32
proof -
  have "unat (take_bit 2 w) = unat w mod 4"
    unfolding unsigned_take_bit_eq by (simp add: take_bit_eq_mod)
  then show ?thesis
    by (metis mod_eq_0_iff_dvd unsigned_eq_0_iff)
qed

lemma aligned_sum: "take_bit 2 a = 0 \<Longrightarrow> take_bit 2 b = 0 \<Longrightarrow> take_bit 2 (a + b) = 0" for a b :: u32
proof -
  assume "take_bit 2 a = 0" "take_bit 2 b = 0"
  then have "4 dvd unat a + unat b"
    by (simp add: take_bit_2_zero)
  moreover have "(4 :: nat) dvd 2 ^ 32"
    by simp
  ultimately show ?thesis
    unfolding take_bit_2_zero unat_word_ariths(1) by (simp add: dvd_mod)
qed

named_theorems decoder_targets

lemma branch_targets [decoder_targets]:
  assumes "take_bit 2 v = 0"
  shows "target_ok (decode_iform_branch w v out)" "target_ok (decode_bform_branch w v out)"
  using assms
  by (simp_all add: target_ok_def decode_iform_branch_def decode_bform_branch_def Let_def
      branch_disp_aligned aligned_sum)

lemma other_targets [decoder_targets]:
  "target_ok out \<Longrightarrow> target_ok (decode_opcode19 w out)"
  "op \<notin> branch_ops \<Longrightarrow> target_ok (decode_dform_arith w out op)"
  "op \<notin> branch_ops \<Longrightarrow> target_ok (decode_dform_mem w out op)"
  "op \<notin> branch_ops \<Longrightarrow> target_ok (ppc_decode_mform w out op)"
  "target_ok (decode_ori w out)"
  "target_ok (decode_andi_dot w out)"
  "target_ok out \<Longrightarrow> target_ok (decode_cmpi w out)"
  "target_ok out \<Longrightarrow> target_ok (ppc_decode_psq w out)"
  by (simp_all add: target_ok_def branch_ops_def decode_opcode19_def decode_dform_arith_def
      decode_dform_mem_def ppc_decode_mform_def decode_ori_def decode_andi_dot_def decode_cmpi_def
      ppc_decode_psq_def decode_psq_dform_def Let_def)

lemma table_targets [decoder_targets]:
  "target_ok out \<Longrightarrow> target_ok (ppc_decode_opcode4 w out)"
  "target_ok out \<Longrightarrow> target_ok (decode_opcode63 w out)"
  unfolding ppc_decode_opcode4_def decode_opcode63_def Let_def
  by (simp_all add: target_ok_def branch_ops_def)

lemma op31_targets:
  "target_ok out \<Longrightarrow> \<forall>(x, op) \<in> set table. op \<notin> branch_ops \<Longrightarrow> target_ok (snd (op31_loop table w out))"
proof (induction table)
  case (Cons e table)
  obtain x op where e: "e = (x, op)"
    by (cases e)
  show ?case
    using Cons by (simp add: e) (simp add: target_ok_def branch_ops_def)
qed simp

lemma kOp31_targets: "\<forall>(x, op) \<in> set kOp31. op \<notin> branch_ops"
  by (simp add: kOp31_def branch_ops_def)

lemma opcode31_targets [decoder_targets]: "target_ok out \<Longrightarrow> target_ok (decode_opcode31 w out)"
  using op31_targets [OF _ kOp31_targets, of out w]
  by (simp add: decode_opcode31_def ppc_decode_op31_xform_def Let_def)
    (simp add: target_ok_def branch_ops_def)

lemma cmpli_targets [decoder_targets]:
  "target_ok (out\<lparr>pi_op := PPC_OP_CMPLWI, pi_rd := rd, pi_ra := ra, pi_imm := imm\<rparr>)"
  by (simp add: target_ok_def branch_ops_def)

lemma not_branch_ops:
  "op \<notin> branch_ops \<longleftrightarrow> op \<noteq> PPC_OP_B \<and> op \<noteq> PPC_OP_BA \<and> op \<noteq> PPC_OP_BL \<and> op \<noteq> PPC_OP_BLA \<and> op \<noteq> PPC_OP_BC"
  by (simp add: branch_ops_def)

lemma primary_targets: "target_ok out \<Longrightarrow> take_bit 2 v = 0 \<Longrightarrow> target_ok (decode_primary primary w v out)"
  unfolding decode_primary_def
  by (simp add: decoder_targets not_branch_ops) (simp add: table_targets)

lemma ppc_decode_target:
  assumes "take_bit 2 vaddr = 0" and "pi_op (ppc_decode word vaddr) \<in> branch_ops"
  shows "take_bit 2 (pi_target (ppc_decode word vaddr)) = 0"
proof -
  have "target_ok (zero_insn\<lparr>pi_raw := word, pi_addr := vaddr, pi_op := PPC_OP_UNKNOWN\<rparr>)"
    by (simp add: target_ok_def branch_ops_def)
  from primary_targets [OF this assms(1)] show ?thesis
    using assms(2) by (simp add: ppc_decode_def target_ok_def)
qed

end
