(* ===== verification/PpcFormat.thy ===== *)
theory PpcFormat
  imports Ppc CText
begin

unbundle bit_operations_syntax

text \<open>
  The assembly text of a decoded instruction (decompiler/src/ppc/format.c), and what the text
  says: for the D-form instructions it determines the instruction word.  The format strings of
  the code are written out as concatenations.
\<close>

section \<open>Operands\<close>

definition gpr :: "u8 \<Rightarrow> string" where "gpr r = CHR ''r'' # print_nat (unat r)"
definition fpr :: "u8 \<Rightarrow> string" where "fpr r = CHR ''f'' # print_nat (unat r)"
definition crf :: "u8 \<Rightarrow> string" where "crf r = ''cr'' @ print_nat (unat r)"
definition dec8 :: "u8 \<Rightarrow> string" where "dec8 r = print_nat (unat r)"
definition dec32 :: "u32 \<Rightarrow> string" where "dec32 w = print_int (sint w)"
definition hex_word :: "u32 \<Rightarrow> string" where "hex_word w = ''0x'' @ hex8 w"

definition two :: "string \<Rightarrow> string \<Rightarrow> string \<Rightarrow> string" where
  "two m a b = m @ '' '' @ a @ '', '' @ b"

definition three :: "string \<Rightarrow> string \<Rightarrow> string \<Rightarrow> string \<Rightarrow> string" where
  "three m a b c = m @ '' '' @ a @ '', '' @ b @ '', '' @ c"

definition memop :: "string \<Rightarrow> string \<Rightarrow> u32 \<Rightarrow> u8 \<Rightarrow> string" where
  "memop m d disp ra = m @ '' '' @ d @ '', '' @ dec32 disp @ ''('' @ gpr ra @ '')''"

section \<open>Conditional branches\<close>

text \<open>The alias, when there is one, and the flag that the code sets with it.\<close>

definition bc_alias :: "u32 \<Rightarrow> u32 \<Rightarrow> string option \<times> bool" where
  "bc_alias bo bi =
     (let bit = bi AND 3
      in if bo = 16 then (Some ''bdnz'', True)
         else if bo = 18 then (Some ''bdz'', True)
         else if bo = 20 then (Some ''b'', True)
         else if bo = 12 then
           (if bit = 0 then (Some ''blt'', True)
            else if bit = 1 then (Some ''bgt'', True)
            else if bit = 2 then (Some ''beq'', True)
            else (Some ''bso'', True))
         else if bo = 4 then
           (if bit = 0 then (Some ''bge'', True)
            else if bit = 1 then (Some ''ble'', True)
            else if bit = 2 then (Some ''bne'', True)
            else (Some ''bns'', True))
         else (None, False))"

definition format_bc :: "PpcInsn \<Rightarrow> string" where
  "format_bc i =
     (case bc_alias (ucast (pi_rd i)) (ucast (pi_ra i)) of
        (alias, target_only) \<Rightarrow>
          let cr = drop_bit 2 (ucast (pi_ra i) :: u32) AND 7;
              lk = (if pi_lk i \<noteq> 0 then ''l'' else '''')
          in case alias of
               Some a \<Rightarrow>
                 if target_only \<or> cr = 0
                 then a @ lk @ '' '' @ hex_word (pi_target i)
                 else a @ lk @ '' cr'' @ print_nat (unat cr) @ '', '' @ hex_word (pi_target i)
             | None \<Rightarrow>
                 ''bc'' @ lk @ '' '' @ dec8 (pi_rd i) @ '', '' @ dec8 (pi_ra i) @ '', '' @
                 hex_word (pi_target i))"

section \<open>The text of an instruction\<close>

definition ppc_text :: "PpcInsn \<Rightarrow> string" where
  "ppc_text i =
     (let op = pi_op i; m = ppc_mnemonic op
      in if op = PPC_OP_UNKNOWN then ''.long '' @ hex_word (pi_raw i)
         else if op \<in> {PPC_OP_B, PPC_OP_BL, PPC_OP_BA, PPC_OP_BLA}
         then m @ '' '' @ hex_word (pi_target i)
         else if op = PPC_OP_BC then format_bc i
         else if op \<in> {PPC_OP_BLR, PPC_OP_BCTR, PPC_OP_NOP} then m
         else if op \<in> {PPC_OP_ADDI, PPC_OP_ADDIS, PPC_OP_MULLI}
         then three m (gpr (pi_rd i)) (gpr (pi_ra i)) (dec32 (pi_imm i))
         else if op = PPC_OP_CMPWI then three m (crf (pi_rd i)) (gpr (pi_ra i)) (dec32 (pi_imm i))
         else if op \<in> {PPC_OP_ORI, PPC_OP_ANDI_DOT}
         then three m (gpr (pi_ra i)) (gpr (pi_rd i)) (dec32 (pi_imm i))
         else if op \<in> {PPC_OP_LWZ, PPC_OP_STW, PPC_OP_LBZ, PPC_OP_STB, PPC_OP_LHZ, PPC_OP_STH,
                       PPC_OP_LMW, PPC_OP_STMW}
         then memop m (gpr (pi_rd i)) (pi_imm i) (pi_ra i)
         else if op \<in> {PPC_OP_LFS, PPC_OP_LFD, PPC_OP_STFS, PPC_OP_STFD}
         then memop m (fpr (pi_rd i)) (pi_imm i) (pi_ra i)
         else if op \<in> {PPC_OP_FMR, PPC_OP_FNEG} then two m (fpr (pi_rd i)) (fpr (pi_rb i))
         else if op \<in> {PPC_OP_FADD, PPC_OP_FSUB, PPC_OP_FMUL, PPC_OP_FDIV}
         then three m (fpr (pi_rd i)) (fpr (pi_ra i)) (fpr (pi_rb i))
         else if op \<in> {PPC_OP_MFLR, PPC_OP_MFCTR, PPC_OP_MTLR, PPC_OP_MTCTR}
         then m @ '' '' @ gpr (pi_rd i)
         else if op = PPC_OP_MR then two m (gpr (pi_rd i)) (gpr (pi_ra i))
         else if op \<in> {PPC_OP_RLWINM, PPC_OP_RLWIMI}
         then three m (gpr (pi_ra i)) (gpr (pi_rd i)) (dec8 (pi_sh i)) @ '', '' @ dec8 (pi_mb i) @
              '', '' @ dec8 (pi_me i)
         else if op = PPC_OP_RLWNM
         then three m (gpr (pi_ra i)) (gpr (pi_rd i)) (gpr (pi_rb i)) @ '', '' @ dec8 (pi_mb i) @
              '', '' @ dec8 (pi_me i)
         else if op \<in> {PPC_OP_CMPW, PPC_OP_CMPLW}
         then three m (crf (pi_rd i)) (gpr (pi_ra i)) (gpr (pi_rb i))
         else if op = PPC_OP_CMPLWI then three m (crf (pi_rd i)) (gpr (pi_ra i)) (dec32 (pi_imm i))
         else if op \<in> {PPC_OP_AND, PPC_OP_OR, PPC_OP_XOR, PPC_OP_NAND, PPC_OP_NOR, PPC_OP_EQV,
                       PPC_OP_ANDC, PPC_OP_ORC, PPC_OP_SLW, PPC_OP_SRW, PPC_OP_SRAW}
         then three m (gpr (pi_ra i)) (gpr (pi_rd i)) (gpr (pi_rb i))
         else if op \<in> {PPC_OP_MULLW, PPC_OP_MULHW, PPC_OP_MULHWU, PPC_OP_DIVW, PPC_OP_DIVWU,
                       PPC_OP_ADD, PPC_OP_SUBF}
         then three m (gpr (pi_rd i)) (gpr (pi_ra i)) (gpr (pi_rb i))
         else if op = PPC_OP_SRAWI then three m (gpr (pi_ra i)) (gpr (pi_rd i)) (dec8 (pi_sh i))
         else if op = PPC_OP_NEG then two m (gpr (pi_rd i)) (gpr (pi_ra i))
         else if op \<in> {PPC_OP_LWZU, PPC_OP_STWU, PPC_OP_LBZU, PPC_OP_STBU, PPC_OP_LHZU,
                       PPC_OP_STHU, PPC_OP_LHA, PPC_OP_LHAU}
         then memop m (gpr (pi_rd i)) (pi_imm i) (pi_ra i)
         else if op \<in> {PPC_OP_LFSU, PPC_OP_LFDU, PPC_OP_STFSU, PPC_OP_STFDU}
         then memop m (fpr (pi_rd i)) (pi_imm i) (pi_ra i)
         else if op \<in> {PPC_OP_PS_ADD, PPC_OP_PS_SUB, PPC_OP_PS_MUL, PPC_OP_PS_DIV,
                       PPC_OP_PS_MADD, PPC_OP_PS_MSUB}
         then three m (fpr (pi_rd i)) (fpr (pi_ra i)) (fpr (pi_rb i))
         else if op \<in> {PPC_OP_PS_MR, PPC_OP_PS_NEG} then two m (fpr (pi_rd i)) (fpr (pi_rb i))
         else memop m (fpr (pi_rd i)) (pi_imm i) (pi_ra i) @ '', '' @ dec8 (pi_sh i) @ '', '' @
              dec8 (pi_mb i))"

text \<open>
  The return value (the length of the whole text) and what a buffer of \<open>buf_size\<close> bytes holds.
\<close>

definition ppc_format :: "PpcInsn \<Rightarrow> nat \<Rightarrow> nat \<times> string option" where
  "ppc_format i buf_size =
     (length (ppc_text i), if buf_size = 0 then None else Some (snprintf buf_size (ppc_text i)))"

section \<open>Reading the text\<close>

lemma mnemonic_no_space: "CHR '' '' \<notin> set (ppc_mnemonic op)"
  by (cases op) simp_all

lemma number_chars [simp]:
  "CHR '' '' \<notin> set (print_nat n)" "CHR '','' \<notin> set (print_nat n)"
  "CHR '')'' \<notin> set (print_nat n)" "CHR ''('' \<notin> set (print_nat n)"
  "CHR '' '' \<notin> set (print_int k)" "CHR '','' \<notin> set (print_int k)"
  "CHR '')'' \<notin> set (print_int k)" "CHR ''('' \<notin> set (print_int k)"
  by (rule print_nat_no print_int_no; simp)+

lemma operand_eq_iff [simp]:
  "gpr a = gpr b \<longleftrightarrow> a = b" "fpr a = fpr b \<longleftrightarrow> a = b" "dec32 v = dec32 w \<longleftrightarrow> v = w"
  "hex_word v = hex_word w \<longleftrightarrow> v = w"
  by (simp_all add: gpr_def fpr_def dec32_def hex_word_def word_unat_eq_iff [symmetric]
      flip: word_eq_iff_signed)

lemma operand_chars [simp]:
  "CHR '','' \<notin> set (gpr r)" "CHR '','' \<notin> set (fpr r)" "CHR '')'' \<notin> set (gpr r)"
  "CHR ''('' \<notin> set (dec32 w)" "CHR '','' \<notin> set (dec32 w)"
  by (simp_all add: gpr_def fpr_def dec32_def)

lemma gpr_not_fpr [simp]: "gpr a \<noteq> fpr b" "fpr b \<noteq> gpr a"
  by (simp_all add: gpr_def fpr_def)

text \<open>The fields of a line are recovered from it, left to right.\<close>

lemma three_eq_iff:
  assumes "CHR '' '' \<notin> set m" and "CHR '' '' \<notin> set m'"
    and "CHR '','' \<notin> set a" and "CHR '','' \<notin> set a'" and "CHR '','' \<notin> set b" and "CHR '','' \<notin> set b'"
  shows "three m a b c = three m' a' b' c' \<longleftrightarrow> m = m' \<and> a = a' \<and> b = b' \<and> c = c'"
  using split_first [OF assms(1,2)] split_first [OF assms(3,4)] split_first [OF assms(5,6)]
  by (simp add: three_def)

lemma memop_eq_iff:
  assumes "CHR '' '' \<notin> set m" and "CHR '' '' \<notin> set m'" and "CHR '','' \<notin> set d" and "CHR '','' \<notin> set d'"
  shows "memop m d x r = memop m' d' x' r' \<longleftrightarrow> m = m' \<and> d = d' \<and> x = x' \<and> r = r'"
  using split_first [OF assms(1,2)] split_first [OF assms(3,4)]
    split_first [of "CHR ''(''" "dec32 x" "dec32 x'"]
  by (auto simp: memop_def)

lemma mnemonic_eq_iff [simp]: "ppc_mnemonic a = ppc_mnemonic b \<longleftrightarrow> a = b"
  by (rule ppc_mnemonic_eq_iff)

definition arith_ops :: "PpcOp set" where
  "arith_ops = {PPC_OP_ADDI, PPC_OP_ADDIS, PPC_OP_MULLI}"

definition float_ops :: "PpcOp set" where
  "float_ops =
     {PPC_OP_LFS, PPC_OP_LFD, PPC_OP_STFS, PPC_OP_STFD, PPC_OP_LFSU, PPC_OP_LFDU, PPC_OP_STFSU,
      PPC_OP_STFDU}"

lemma dform_text:
  assumes "(p, pi_op i) \<in> set dform_ops"
  shows "ppc_text i =
    (if pi_op i \<in> arith_ops
     then three (ppc_mnemonic (pi_op i)) (gpr (pi_rd i)) (gpr (pi_ra i)) (dec32 (pi_imm i))
     else memop (ppc_mnemonic (pi_op i)) (if pi_op i \<in> float_ops then fpr (pi_rd i) else gpr (pi_rd i))
       (pi_imm i) (pi_ra i))"
  using assms unfolding dform_ops_def set_simps insert_iff empty_iff prod.inject
  by (elim disjE conjE FalseE; simp add: ppc_text_def arith_ops_def float_ops_def)

lemma three_not_memop:
  assumes "CHR '' '' \<notin> set m" and "CHR '' '' \<notin> set m'" and "m \<noteq> m'"
  shows "three m a b c \<noteq> memop m' d x r"
  using split_first [OF assms(1,2)] assms(3) by (simp add: three_def memop_def)

lemma dform_text_eq_iff:
  assumes "(p, pi_op i) \<in> set dform_ops" and "(q, pi_op j) \<in> set dform_ops"
  shows "ppc_text i = ppc_text j \<longleftrightarrow>
    pi_op i = pi_op j \<and> pi_rd i = pi_rd j \<and> pi_ra i = pi_ra j \<and> pi_imm i = pi_imm j"
proof (cases "pi_op i = pi_op j")
  case True
  then show ?thesis
    by (auto simp: dform_text [OF assms(1)] dform_text [OF assms(2)] three_eq_iff memop_eq_iff mnemonic_no_space)
next
  case False
  have "three (ppc_mnemonic a) x y z \<noteq> memop (ppc_mnemonic b) d k r" if "a \<noteq> b" for a b x y z d k r
    using that by (intro three_not_memop mnemonic_no_space) simp
  from this this [symmetric] False show ?thesis
    by (simp add: dform_text [OF assms(1)] dform_text [OF assms(2)] three_eq_iff memop_eq_iff mnemonic_no_space)
qed

lemma dform_ops_functional:
  assumes "(p, op) \<in> set dform_ops" and "(q, op) \<in> set dform_ops"
  shows "p = q"
proof -
  have "distinct (List.map snd dform_ops)"
    by (simp add: dform_ops_def)
  then have "inj_on snd (set dform_ops)"
    by (simp add: distinct_map)
  from inj_onD [OF this _ assms] show ?thesis
    by simp
qed

lemma ucast_inj_small:
  assumes "(ucast a :: u8) = ucast b" and "a < 32" and "b < 32"
  shows "a = (b :: u32)"
proof -
  have "unat (ucast w :: u8) = unat w" if "w < 32" for w :: u32
    using that by (simp add: unsigned_ucast_eq take_bit_nat_eq_self word_less_nat_alt)
  then show ?thesis
    using assms by (metis word_unat_eq_iff)
qed

section \<open>The properties\<close>

text \<open>
  C27. Disassembling is lossless on the D-form instructions with a signed immediate: when the
  texts of two such words are equal, so are the operation, the registers and the immediate,
  and therefore the words, whatever the addresses they were decoded at.
\<close>

theorem ppc_format_dform_lossless:
  assumes "(p, op) \<in> set dform_ops" and "rd < 32" and "ra < 32" and "- 32768 \<le> sint imm" and "sint imm < 32768"
    and "(p', op') \<in> set dform_ops" and "rd' < 32" and "ra' < 32" and "- 32768 \<le> sint imm'" and "sint imm' < 32768"
    and "ppc_text (ppc_decode (dform_word p rd ra imm) v) = ppc_text (ppc_decode (dform_word p' rd' ra' imm') v')"
  shows "dform_word p rd ra imm = dform_word p' rd' ra' imm'"
proof -
  let ?i = "ppc_decode (dform_word p rd ra imm) v" and ?j = "ppc_decode (dform_word p' rd' ra' imm') v'"
  have i: "pi_op ?i = op" "pi_rd ?i = ucast rd" "pi_ra ?i = ucast ra" "pi_imm ?i = imm"
    by (simp_all add: ppc_decode_dform [OF assms(1-5)])
  have j: "pi_op ?j = op'" "pi_rd ?j = ucast rd'" "pi_ra ?j = ucast ra'" "pi_imm ?j = imm'"
    by (simp_all add: ppc_decode_dform [OF assms(6-10)])
  have eq: "op = op'" "(ucast rd :: u8) = ucast rd'" "(ucast ra :: u8) = ucast ra'" "imm = imm'"
    using assms(11) dform_text_eq_iff [of p ?i p' ?j] assms(1,6) unfolding i j by simp_all
  have "rd = rd'" "ra = ra'"
    using ucast_inj_small eq(2,3) assms by blast+
  moreover have "p = p'"
    using dform_ops_functional assms(1,6) eq(1) by simp
  ultimately show ?thesis
    using eq(4) by simp
qed

theorem ppc_format_dform_lossless_witness:
  "ppc_text (ppc_decode (dform_word 32 3 1 8) 0x80004000) \<noteq> ppc_text (ppc_decode (dform_word 32 3 1 12) 0x80004000)"
proof
  assume "ppc_text (ppc_decode (dform_word 32 3 1 8) 0x80004000) = ppc_text (ppc_decode (dform_word 32 3 1 12) 0x80004000)"
  from ppc_format_dform_lossless [OF _ _ _ _ _ _ _ _ _ _ this, where op = PPC_OP_LWZ and op' = PPC_OP_LWZ]
  have "dform_word 32 3 1 8 = dform_word 32 3 1 12"
    by (simp add: dform_ops_def)
  then show False
    by (simp add: dform_word_def)
qed

text \<open>
  C38. The alias of a conditional branch hides the condition register field: for every branch
  option that has an alias the text is the same for all eight fields (the branch of the code
  that prints \<open>crN\<close> is never taken), so \<open>beq cr1\<close> and \<open>beq cr0\<close> to one target print alike.
\<close>

theorem ppc_format_hides_cr_field:
  assumes "pi_op i = PPC_OP_BC" and "pi_rd i \<in> {4, 12, 16, 18, 20}"
  shows "ppc_text (i\<lparr>pi_ra := pi_ra i AND 3\<rparr>) = ppc_text i"
proof -
  have bit: "(ucast (pi_ra i AND 3) :: u32) AND 3 = ucast (pi_ra i) AND 3"
    by (rule bit_word_eqI) (auto simp: bit_simps dest: bit_imp_le_length)
  show ?thesis
    using assms(2) by (auto simp: ppc_text_def assms(1) format_bc_def bc_alias_def bit Let_def)
qed

theorem ppc_format_hides_cr_field_witness:
  "ppc_text (ppc_decode (bform_word 12 2 0x10 False False) 0x80004000) =
   ppc_text ((ppc_decode (bform_word 12 2 0x10 False False) 0x80004000)\<lparr>pi_ra := 6\<rparr>)"
  using ppc_format_hides_cr_field [of "(ppc_decode (bform_word 12 2 0x10 False False) 0x80004000)\<lparr>pi_ra := 6\<rparr>"]
    ppc_decode_bform [of 12 2 "0x10" False False "0x80004000"] by (simp add: zero_insn_def)

end
