(* ===== verification/Cfg.thy ===== *)
theory Cfg
  imports Ppc Dol
begin

unbundle bit_operations_syntax

text \<open>
  The control-flow graph of one function (decompiler/include/cli/cfg.h and
  decompiler/src/cli/cfg/cfg_build.c): the split of an address range into basic blocks at the
  leaders and the successor edges.  \<open>CFG_INVALID\<close> is \<open>None\<close>; block indices are natural numbers
  (a range has fewer than 2 ^ 30 instructions, so the casts of the code lose nothing);
  allocation succeeds.
\<close>

section \<open>Data\<close>

datatype CfgEdgeKind =
    CFG_EDGE_FALLTHROUGH | CFG_EDGE_UNCOND | CFG_EDGE_COND_TAKEN | CFG_EDGE_COND_NOT_TAKEN
  | CFG_EDGE_SWITCH_CASE | CFG_EDGE_SWITCH_DEFAULT | CFG_EDGE_INDIRECT_UNKNOWN | CFG_EDGE_RETURN

datatype CfgRegionKind =
    CFG_REGION_LINEAR | CFG_REGION_IF | CFG_REGION_IF_ELSE | CFG_REGION_LOOP
  | CFG_REGION_SWITCH | CFG_REGION_UNSTRUCTURED

record CfgEdge =
  ce_from :: nat
  ce_to :: "nat option"
  ce_kind :: CfgEdgeKind
  ce_case_value :: int

record CfgBlock =
  cb_start_vaddr :: u32
  cb_end_vaddr :: u32
  cb_insn_count :: u32
  cb_idom :: "nat option"
  cb_is_loop_header :: bool
  cb_is_loop_exit :: bool
  cb_loop_depth :: u16
  cb_region_kind :: CfgRegionKind
  cb_if_merge :: "nat option"

record CfgSwitchCase =
  sc_case_value :: nat
  sc_target_vaddr :: u32

record CfgSwitch =
  sw_block_index :: nat
  sw_table_vaddr :: u32
  sw_default_vaddr :: u32
  sw_cases :: "CfgSwitchCase list"

record Cfg =
  cfg_blocks :: "CfgBlock list"
  cfg_edges :: "CfgEdge list"
  cfg_switches :: "CfgSwitch list"
  cfg_entry_block :: "nat option"
  cfg_is_irreducible :: bool

definition zero_cfg :: Cfg where
  "zero_cfg =
     \<lparr>cfg_blocks = [], cfg_edges = [], cfg_switches = [], cfg_entry_block = Some 0,
      cfg_is_irreducible = False\<rparr>"

section \<open>Operations\<close>

text \<open>\<open>None\<close> is an address that is not mapped.\<close>

definition cfg_read_word :: "DolImage \<Rightarrow> u32 \<Rightarrow> u32 option" where
  "cfg_read_word img vaddr =
     (case dol_vaddr_to_ptr img vaddr of
        None \<Rightarrow> None
      | Some (p, rem) \<Rightarrow> if rem < 4 then None else read_be32 (di_bytes img) p)"

fun find_index :: "('a \<Rightarrow> bool) \<Rightarrow> 'a list \<Rightarrow> nat \<Rightarrow> nat option" where
  "find_index P [] i = None"
| "find_index P (x # xs) i = (if P x then Some i else find_index P xs (i + 1))"

definition cfg_block_of_vaddr :: "Cfg \<Rightarrow> u32 \<Rightarrow> nat option" where
  "cfg_block_of_vaddr cfg vaddr = find_index (\<lambda>b. cb_start_vaddr b = vaddr) (cfg_blocks cfg) 0"

definition new_block :: "u32 \<Rightarrow> CfgBlock" where
  "new_block start_vaddr =
     \<lparr>cb_start_vaddr = start_vaddr, cb_end_vaddr = 0, cb_insn_count = 0, cb_idom = None,
      cb_is_loop_header = False, cb_is_loop_exit = False, cb_loop_depth = 0,
      cb_region_kind = CFG_REGION_LINEAR, cb_if_merge = None\<rparr>"

definition cfg_add_block :: "Cfg \<Rightarrow> u32 \<Rightarrow> nat \<times> Cfg" where
  "cfg_add_block cfg start_vaddr =
     (length (cfg_blocks cfg), cfg\<lparr>cfg_blocks := cfg_blocks cfg @ [new_block start_vaddr]\<rparr>)"

definition cfg_add_edge :: "Cfg \<Rightarrow> nat \<Rightarrow> nat option \<Rightarrow> CfgEdgeKind \<Rightarrow> int \<Rightarrow> Cfg" where
  "cfg_add_edge cfg from to kind case_value =
     cfg\<lparr>cfg_edges := cfg_edges cfg @
       [\<lparr>ce_from = from, ce_to = to, ce_kind = kind, ce_case_value = case_value\<rparr>]\<rparr>"

section \<open>Leaders\<close>

text \<open>
  The addresses that the scan visits: for word-aligned bounds the loop from \<open>start\<close> below
  \<open>end\<close> in steps of 4 (it cannot wrap).
\<close>

definition insn_addrs :: "u32 \<Rightarrow> u32 \<Rightarrow> u32 list" where
  "insn_addrs start stop =
     List.map (\<lambda>k. start + 4 * of_nat k) [0..<(unat stop - unat start + 3) div 4]"

definition leaders_of_insn :: "u32 \<Rightarrow> u32 \<Rightarrow> u32 \<Rightarrow> PpcInsn \<Rightarrow> u32 list" where
  "leaders_of_insn start stop va i =
     (if pi_op i \<in> {PPC_OP_B, PPC_OP_BA, PPC_OP_BC}
      then (if pi_target i \<ge> start \<and> pi_target i < stop then [pi_target i] else []) @
           (if va + 4 < stop then [va + 4] else [])
      else if pi_op i \<in> {PPC_OP_BLR, PPC_OP_BCTR}
      then (if va + 4 < stop then [va + 4] else [])
      else [])"

fun leader_scan :: "DolImage \<Rightarrow> u32 \<Rightarrow> u32 \<Rightarrow> u32 list \<Rightarrow> u32 list \<Rightarrow> u32 list option" where
  "leader_scan img start stop [] arr = Some arr"
| "leader_scan img start stop (va # vas) arr =
     (case cfg_read_word img va of
        None \<Rightarrow> None
      | Some w \<Rightarrow>
          leader_scan img start stop vas (arr @ leaders_of_insn start stop va (ppc_decode w va)))"

text \<open>
  The inner loop of the insertion sort moves larger elements up; the sorted prefix is kept
  with its last element first.
\<close>

fun shift_in :: "u32 \<Rightarrow> u32 list \<Rightarrow> u32 list" where
  "shift_in key [] = [key]"
| "shift_in key (x # xs) = (if x > key then x # shift_in key xs else key # x # xs)"

definition insertion_sort :: "u32 list \<Rightarrow> u32 list" where
  "insertion_sort arr = rev (foldl (\<lambda>prefix key. shift_in key prefix) [] arr)"

definition dedupe :: "u32 list \<Rightarrow> u32 list" where
  "dedupe arr = foldl (\<lambda>w x. if w = [] \<or> last w \<noteq> x then w @ [x] else w) [] arr"

definition collect_leaders :: "DolImage \<Rightarrow> u32 \<Rightarrow> u32 \<Rightarrow> u32 list option" where
  "collect_leaders img start stop =
     (case leader_scan img start stop (insn_addrs start stop) [start] of
        None \<Rightarrow> None
      | Some arr \<Rightarrow> Some (dedupe (insertion_sort arr)))"

section \<open>Blocks and edges\<close>

text \<open>One block per leader, up to the next one.\<close>

fun add_blocks :: "u32 \<Rightarrow> u32 list \<Rightarrow> Cfg \<Rightarrow> Cfg" where
  "add_blocks stop [] cfg = cfg"
| "add_blocks stop (start_va # rest) cfg =
     (let end_va = (case rest of [] \<Rightarrow> stop | l # _ \<Rightarrow> l)
      in case cfg_add_block cfg start_va of
           (idx, cfg) \<Rightarrow>
             add_blocks stop rest
               (cfg\<lparr>cfg_blocks := (cfg_blocks cfg)[idx := (cfg_blocks cfg ! idx)
                  \<lparr>cb_end_vaddr := end_va, cb_insn_count := (end_va - start_va) div 4\<rparr>]\<rparr>))"

definition wire_block :: "DolImage \<Rightarrow> nat \<Rightarrow> Cfg \<Rightarrow> Cfg option" where
  "wire_block img i cfg =
     (let b = cfg_blocks cfg ! i; last_va = cb_end_vaddr b - 4
      in case cfg_read_word img last_va of
           None \<Rightarrow> None
         | Some w \<Rightarrow>
             let insn = ppc_decode w last_va; ft_idx = cfg_block_of_vaddr cfg (cb_end_vaddr b)
             in Some
               (if pi_op insn \<in> {PPC_OP_B, PPC_OP_BA} then
                  (case cfg_block_of_vaddr cfg (pi_target insn) of
                     None \<Rightarrow> cfg_add_edge cfg i None CFG_EDGE_RETURN (- 1)
                   | Some t \<Rightarrow> cfg_add_edge cfg i (Some t) CFG_EDGE_UNCOND (- 1))
                else if pi_op insn = PPC_OP_BC then
                  (let cfg = (case cfg_block_of_vaddr cfg (pi_target insn) of
                                None \<Rightarrow> cfg
                              | Some t \<Rightarrow> cfg_add_edge cfg i (Some t) CFG_EDGE_COND_TAKEN (- 1))
                   in case ft_idx of
                        None \<Rightarrow> cfg
                      | Some t \<Rightarrow> cfg_add_edge cfg i (Some t) CFG_EDGE_COND_NOT_TAKEN (- 1))
                else if pi_op insn = PPC_OP_BLR then cfg_add_edge cfg i None CFG_EDGE_RETURN (- 1)
                else if pi_op insn = PPC_OP_BCTR
                then cfg_add_edge cfg i None CFG_EDGE_INDIRECT_UNKNOWN (- 1)
                else (case ft_idx of
                        Some t \<Rightarrow> cfg_add_edge cfg i (Some t) CFG_EDGE_FALLTHROUGH (- 1)
                      | None \<Rightarrow> cfg_add_edge cfg i None CFG_EDGE_RETURN (- 1))))"

fun wire_blocks :: "DolImage \<Rightarrow> nat list \<Rightarrow> Cfg \<Rightarrow> Cfg option" where
  "wire_blocks img [] cfg = Some cfg"
| "wire_blocks img (i # is) cfg =
     (case wire_block img i cfg of None \<Rightarrow> None | Some cfg \<Rightarrow> wire_blocks img is cfg)"

definition split_and_wire :: "Cfg \<Rightarrow> DolImage \<Rightarrow> u32 \<Rightarrow> u32 list \<Rightarrow> Cfg option" where
  "split_and_wire cfg img stop leaders =
     (let cfg = (add_blocks stop leaders cfg)\<lparr>cfg_entry_block := Some 0\<rparr>
      in wire_blocks img [0..<length (cfg_blocks cfg)] cfg)"

section \<open>The leaders of a range\<close>

definition aligned_range :: "u32 \<Rightarrow> u32 \<Rightarrow> bool" where
  "aligned_range start stop \<longleftrightarrow> start < stop \<and> aligned4 start \<and> aligned4 stop"

definition insn_at :: "DolImage \<Rightarrow> u32 \<Rightarrow> PpcInsn" where
  "insn_at img va = ppc_decode (the (cfg_read_word img va)) va"

lemma unat_insn_addr:
  assumes "aligned_range start stop" and "k < (unat stop - unat start + 3) div 4"
  shows "unat (start + 4 * of_nat k) = unat start + 4 * k"
proof -
  have "unat start + 4 * k < 2 ^ 32"
    using assms unat_u32_less [of stop] by (auto simp: aligned_range_def aligned4_def word_less_nat_alt)
  then show ?thesis
    by (simp add: unat_word_ariths unat_of_nat take_bit_nat_eq_self)
qed

lemma set_insn_addrs:
  assumes "aligned_range start stop"
  shows "set (insn_addrs start stop) = {va. start \<le> va \<and> va < stop \<and> aligned4 va}"
proof (intro set_eqI iffI)
  fix va
  assume "va \<in> set (insn_addrs start stop)"
  then obtain k where k: "va = start + 4 * of_nat k" "k < (unat stop - unat start + 3) div 4"
    by (auto simp: insn_addrs_def)
  have "unat va = unat start + 4 * k"
    using unat_insn_addr [OF assms k(2)] k(1) by simp
  then show "va \<in> {va. start \<le> va \<and> va < stop \<and> aligned4 va}"
    using assms k(2) by (auto simp: aligned_range_def aligned4_def word_less_nat_alt word_le_nat_alt)
next
  fix va
  assume "va \<in> {va. start \<le> va \<and> va < stop \<and> aligned4 va}"
  then have va: "unat start \<le> unat va" "unat va < unat stop" "unat va mod 4 = 0"
    by (simp_all add: word_le_nat_alt word_less_nat_alt aligned4_def)
  let ?k = "(unat va - unat start) div 4"
  have four: "unat start mod 4 = 0" "unat stop mod 4 = 0"
    using assms by (simp_all add: aligned_range_def aligned4_def)
  have k: "4 * ?k = unat va - unat start"
    using va four by (simp add: mod_eq_dvd_iff_nat mod_0_imp_dvd)
  then have less: "?k < (unat stop - unat start + 3) div 4"
    using va four by linarith
  have "va = start + 4 * of_nat ?k"
    using unat_insn_addr [OF assms less] k va(1) by (simp add: word_unat_eq_iff)
  with less show "va \<in> set (insn_addrs start stop)"
    by (auto simp: insn_addrs_def)
qed

lemma leader_scan_eq:
  "leader_scan img start stop vas arr =
     (if \<forall>va \<in> set vas. cfg_read_word img va \<noteq> None
      then Some (arr @ concat (List.map (\<lambda>va. leaders_of_insn start stop va (insn_at img va)) vas))
      else None)"
  by (induction vas arbitrary: arr) (auto simp: insn_at_def split: option.split)

lemma set_shift_in [simp]: "set (shift_in key xs) = insert key (set xs)"
  by (induction xs) auto

lemma shift_in_sorted: "sorted_wrt (\<ge>) xs \<Longrightarrow> sorted_wrt (\<ge>) (shift_in key xs)"
  by (induction xs) auto

lemma insertion_sort_props: "sorted (insertion_sort arr) \<and> set (insertion_sort arr) = set arr"
proof -
  have "sorted_wrt (\<ge>) (foldl (\<lambda>prefix key. shift_in key prefix) acc arr) \<and>
      set (foldl (\<lambda>prefix key. shift_in key prefix) acc arr) = set acc \<union> set arr"
    if "sorted_wrt (\<ge>) acc" for acc
    using that by (induction arr arbitrary: acc) (auto simp: shift_in_sorted)
  from this [of "[]"] show ?thesis
    by (simp add: insertion_sort_def sorted_wrt_rev)
qed

lemma dedupe_snoc: "dedupe (arr @ [x]) = (if dedupe arr = [] \<or> last (dedupe arr) \<noteq> x then dedupe arr @ [x] else dedupe arr)"
  by (simp add: dedupe_def)

lemma dedupe_props: "sorted arr \<Longrightarrow> sorted_wrt (<) (dedupe arr) \<and> set (dedupe arr) = set arr"
proof (induction arr rule: rev_induct)
  case Nil
  then show ?case
    by (simp add: dedupe_def)
next
  case (snoc x arr)
  then have IH: "sorted_wrt (<) (dedupe arr)" "set (dedupe arr) = set arr" and le: "\<forall>y \<in> set arr. y \<le> x"
    by (auto simp: sorted_append)
  show ?case
  proof (cases "dedupe arr = [] \<or> last (dedupe arr) \<noteq> x")
    case True
    have "y < x" if y: "y \<in> set arr" for y
    proof -
      have "dedupe arr \<noteq> []"
        using y IH(2) by auto
      then obtain ys z where split: "dedupe arr = ys @ [z]"
        by (cases "dedupe arr" rule: rev_exhaust) auto
      then have "z \<noteq> x" "z \<le> x"
        using True le IH(2) by auto
      moreover have "y \<le> z"
        using y IH split by (auto simp: sorted_wrt_append less_imp_le)
      ultimately show ?thesis
        by simp
    qed
    then show ?thesis
      using IH True by (auto simp: dedupe_snoc sorted_wrt_append)
  next
    case False
    then have "x \<in> set arr"
      using IH(2) last_in_set [of "dedupe arr"] by auto
    with False show ?thesis
      using IH by (auto simp: dedupe_snoc)
  qed
qed

text \<open>The addresses that must begin a block.\<close>

definition leader_set :: "DolImage \<Rightarrow> u32 \<Rightarrow> u32 \<Rightarrow> u32 set" where
  "leader_set img start stop =
     insert start (\<Union>va \<in> set (insn_addrs start stop). set (leaders_of_insn start stop va (insn_at img va)))"

definition readable :: "DolImage \<Rightarrow> u32 \<Rightarrow> u32 \<Rightarrow> bool" where
  "readable img start stop \<longleftrightarrow> (\<forall>va \<in> set (insn_addrs start stop). cfg_read_word img va \<noteq> None)"

lemma collect_leaders_eq:
  "(collect_leaders img start stop = None \<longleftrightarrow> \<not> readable img start stop) \<and>
   (\<forall>ls. collect_leaders img start stop = Some ls \<longrightarrow> sorted_wrt (<) ls \<and> set ls = leader_set img start stop)"
  using insertion_sort_props dedupe_props
  by (auto simp: collect_leaders_def leader_scan_eq readable_def leader_set_def)

section \<open>The blocks\<close>

fun blocks_of :: "u32 \<Rightarrow> u32 list \<Rightarrow> CfgBlock list" where
  "blocks_of stop [] = []"
| "blocks_of stop (l # rest) =
     (let e = (case rest of [] \<Rightarrow> stop | l' # _ \<Rightarrow> l')
      in (new_block l)\<lparr>cb_end_vaddr := e, cb_insn_count := (e - l) div 4\<rparr>) # blocks_of stop rest"

lemma add_blocks_eq:
  "add_blocks stop ls cfg = cfg\<lparr>cfg_blocks := cfg_blocks cfg @ blocks_of stop ls\<rparr>"
  by (induction ls arbitrary: cfg) (simp_all add: cfg_add_block_def Let_def nth_append list_update_append)

lemma blocks_of_starts [simp]: "List.map cb_start_vaddr (blocks_of stop ls) = ls"
  by (induction ls) (simp_all add: Let_def new_block_def)

lemma length_blocks_of [simp]: "length (blocks_of stop ls) = length ls"
  by (metis blocks_of_starts length_map)

lemma blocks_of_start: "i < length ls \<Longrightarrow> cb_start_vaddr (blocks_of stop ls ! i) = ls ! i"
  by (metis blocks_of_starts length_blocks_of nth_map)

lemma blocks_of_end:
  "i < length ls \<Longrightarrow> cb_end_vaddr (blocks_of stop ls ! i) = (if Suc i < length ls then ls ! Suc i else stop)"
proof (induction ls arbitrary: i)
  case (Cons l rest)
  then show ?case
    by (cases i; cases rest) (auto simp: Let_def)
qed simp

lemma blocks_of_count:
  "i < length ls \<Longrightarrow> cb_insn_count (blocks_of stop ls ! i) =
     (cb_end_vaddr (blocks_of stop ls ! i) - cb_start_vaddr (blocks_of stop ls ! i)) div 4"
proof (induction ls arbitrary: i)
  case (Cons l rest)
  then show ?case
    by (cases i) (auto simp: Let_def new_block_def)
qed simp

text \<open>Leaders as the code collects them, for a range that can be read.\<close>

definition leaders_ok :: "DolImage \<Rightarrow> u32 \<Rightarrow> u32 \<Rightarrow> u32 list \<Rightarrow> bool" where
  "leaders_ok img start stop ls \<longleftrightarrow>
     aligned_range start stop \<and> readable img start stop \<and>
     sorted_wrt (<) ls \<and> set ls = leader_set img start stop"

lemma aligned4_take: "aligned4 w \<longleftrightarrow> take_bit 2 w = 0"
  by (simp add: aligned4_def take_bit_2_zero mod_eq_0_iff_dvd)

lemma aligned4_plus: "aligned4 v \<Longrightarrow> aligned4 (v + 4)"
proof -
  have "take_bit 2 (4 :: u32) = 0"
    by simp
  then show "aligned4 v \<Longrightarrow> aligned4 (v + 4)"
    unfolding aligned4_take by (rule aligned_sum [rotated])
qed

lemma next_insn:
  assumes "aligned4 v" and "aligned4 w" and "v < w"
  shows "v + 4 \<le> w" and "unat (v + 4) = unat v + 4"
proof -
  obtain i j where ij: "unat v = 4 * i" "unat w = 4 * j"
    using assms(1,2) by (metis aligned4_def mod_eq_0_iff_dvd dvdE)
  with assms(3) have "unat v + 4 \<le> unat w"
    by (simp add: word_less_nat_alt)
  moreover from this have "unat (v + 4) = unat v + 4"
    using unat_u32_less [of w] unat_add_u32 [of v 4] by simp
  ultimately show "v + 4 \<le> w" "unat (v + 4) = unat v + 4"
    by (simp_all add: word_le_nat_alt)
qed

text \<open>The operations that end a basic block.\<close>

definition ends_block :: "PpcOp \<Rightarrow> bool" where
  "ends_block op \<longleftrightarrow> op \<in> {PPC_OP_B, PPC_OP_BA, PPC_OP_BC, PPC_OP_BLR, PPC_OP_BCTR}"

lemma leaders_of_insn_range:
  assumes "aligned_range start stop" and "va \<in> set (insn_addrs start stop)"
    and "l \<in> set (leaders_of_insn start stop va (insn_at img va))"
  shows "start \<le> l \<and> l < stop \<and> aligned4 l"
proof -
  have va: "start \<le> va" "va < stop" "aligned4 va"
    using assms(2) set_insn_addrs [OF assms(1)] by auto
  have "start \<le> va + 4" if "va + 4 < stop"
    using va that assms(1) next_insn [of va stop] by (auto simp: aligned_range_def word_le_nat_alt)
  moreover have "aligned4 (pi_target (insn_at img va))" if "pi_op (insn_at img va) \<in> {PPC_OP_B, PPC_OP_BA, PPC_OP_BC}"
    using ppc_decode_target va(3) that by (auto simp: aligned4_take insn_at_def branch_ops_def)
  ultimately show ?thesis
    using assms(3) va aligned4_plus [of va] by (auto simp: leaders_of_insn_def split: if_splits)
qed

lemma leader_set_range:
  assumes "aligned_range start stop" and "l \<in> leader_set img start stop"
  shows "start \<le> l \<and> l < stop \<and> aligned4 l"
  using assms leaders_of_insn_range [OF assms(1)] by (auto simp: leader_set_def aligned_range_def)

text \<open>Every block of the split: contiguous, not empty, word aligned, a branch only at its end.\<close>

definition block_ok :: "DolImage \<Rightarrow> CfgBlock \<Rightarrow> bool" where
  "block_ok img b \<longleftrightarrow>
     cb_start_vaddr b < cb_end_vaddr b \<and> aligned4 (cb_start_vaddr b) \<and> aligned4 (cb_end_vaddr b) \<and>
     unat (cb_end_vaddr b) = unat (cb_start_vaddr b) + 4 * unat (cb_insn_count b) \<and>
     (\<forall>va. cb_start_vaddr b \<le> va \<and> va + 4 < cb_end_vaddr b \<and> aligned4 va \<and> va < cb_end_vaddr b \<longrightarrow>
        \<not> ends_block (pi_op (insn_at img va)))"

lemma leaders_nonempty: "leaders_ok img start stop ls \<Longrightarrow> ls \<noteq> [] \<and> ls ! 0 = start"
proof -
  assume ok: "leaders_ok img start stop ls"
  then have range: "aligned_range start stop" and eq: "set ls = leader_set img start stop"
    and sorted: "sorted_wrt (<) ls"
    by (simp_all add: leaders_ok_def)
  have start: "start \<in> set ls" and ge: "\<And>l. l \<in> set ls \<Longrightarrow> start \<le> l"
    using leader_set_range [OF range, of _ img] by (simp_all add: eq leader_set_def)
  then obtain l rest where ls: "ls = l # rest"
    by (cases ls) auto
  then have "l = start"
    using start sorted ge [of l] by fastforce
  with ls show "ls \<noteq> [] \<and> ls ! 0 = start"
    by simp
qed

lemma leaders_nth:
  assumes "leaders_ok img start stop ls" and "i < length ls"
  shows "start \<le> ls ! i" and "ls ! i < stop" and "aligned4 (ls ! i)"
  using assms leader_set_range [of start stop "ls ! i" img] nth_mem [of i ls]
  by (auto simp: leaders_ok_def)

text \<open>No leader lies strictly inside a block.\<close>

lemma leader_gap:
  assumes "leaders_ok img start stop ls" and "i < length ls" and "l \<in> set ls" and "ls ! i < l"
  shows "cb_end_vaddr (blocks_of stop ls ! i) \<le> l"
proof -
  obtain j where j: "j < length ls" "l = ls ! j"
    using assms(3) by (auto simp: in_set_conv_nth)
  have sorted: "sorted_wrt (<) ls"
    using assms(1) by (simp add: leaders_ok_def)
  have "i < j"
    using assms j sorted_wrt_nth_less [OF sorted, of j i] by (metis linorder_neqE_nat order_less_asym)
  then have "Suc i < length ls"
    using j by simp
  moreover have "ls ! Suc i \<le> ls ! j"
    using \<open>i < j\<close> j sorted_wrt_nth_less [OF sorted, of "Suc i" j] by (cases "Suc i = j") simp_all
  ultimately have "Suc i < length ls" "ls ! Suc i \<le> ls ! j" .
  then show ?thesis
    using assms(2) j by (simp add: blocks_of_end)
qed

lemma blocks_of_ok:
  assumes "leaders_ok img start stop ls" and "i < length ls"
  shows "block_ok img (blocks_of stop ls ! i)"
proof -
  let ?b = "blocks_of stop ls ! i"
  have range: "aligned_range start stop"
    using assms(1) by (simp add: leaders_ok_def)
  have s: "cb_start_vaddr ?b = ls ! i"
    using assms(2) by (rule blocks_of_start)
  have "ls ! i < cb_end_vaddr ?b \<and> aligned4 (cb_end_vaddr ?b) \<and> cb_end_vaddr ?b \<le> stop"
  proof (cases "Suc i < length ls")
    case True
    have "sorted_wrt (<) ls"
      using assms(1) by (simp add: leaders_ok_def)
    then have "ls ! i < ls ! Suc i"
      using sorted_wrt_nth_less True by blast
    with True leaders_nth [OF assms(1) True] assms(2) show ?thesis
      by (simp add: blocks_of_end)
  next
    case False
    with leaders_nth [OF assms] range assms(2) show ?thesis
      by (simp add: blocks_of_end aligned_range_def)
  qed
  then have e: "ls ! i < cb_end_vaddr ?b" "aligned4 (cb_end_vaddr ?b)" "cb_end_vaddr ?b \<le> stop"
    by simp_all
  have al: "aligned4 (ls ! i)"
    by (rule leaders_nth [OF assms])
  obtain m n where mn: "unat (ls ! i) = 4 * m" "unat (cb_end_vaddr ?b) = 4 * n"
    using al e(2) by (metis aligned4_def mod_eq_0_iff_dvd dvdE)
  have diff: "unat (cb_end_vaddr ?b - ls ! i) = 4 * n - 4 * m"
    using e(1) mn by (simp add: unat_sub order_less_imp_le)
  have "unat (cb_insn_count ?b) = n - m"
    using diff assms(2) s by (simp add: blocks_of_count unat_div)
  then have count: "unat (cb_end_vaddr ?b) = unat (ls ! i) + 4 * unat (cb_insn_count ?b)"
    using mn e(1) by (simp add: word_less_nat_alt)
  have "\<not> ends_block (pi_op (insn_at img va))"
    if va: "ls ! i \<le> va" "va + 4 < cb_end_vaddr ?b" "aligned4 va" "va < cb_end_vaddr ?b" for va
  proof
    assume ends: "ends_block (pi_op (insn_at img va))"
    have mem: "va \<in> set (insn_addrs start stop)"
      unfolding set_insn_addrs [OF range]
      using order_trans [OF leaders_nth(1) [OF assms] va(1)] less_le_trans [OF va(4) e(3)] va(3) by simp
    have "va + 4 < stop"
      using va(2) e(3) by simp
    with ends have "va + 4 \<in> set (leaders_of_insn start stop va (insn_at img va))"
      by (auto simp: leaders_of_insn_def ends_block_def)
    with mem have "va + 4 \<in> leader_set img start stop"
      unfolding leader_set_def by blast
    then have "va + 4 \<in> set ls"
      using assms(1) by (simp add: leaders_ok_def)
    moreover have "ls ! i < va + 4"
      using va next_insn(2) [OF va(3) e(2) va(4)] by (simp add: word_less_nat_alt word_le_nat_alt)
    ultimately have "cb_end_vaddr ?b \<le> va + 4"
      by (rule leader_gap [OF assms])
    then show False
      using va(2) by simp
  qed
  with s e al count show ?thesis
    by (simp add: block_ok_def)
qed

section \<open>The edges\<close>

lemma find_index_Some: "find_index P xs k = Some n \<Longrightarrow> k \<le> n \<and> n - k < length xs \<and> P (xs ! (n - k))"
proof (induction xs arbitrary: k)
  case (Cons x xs)
  then show ?case
    by (fastforce simp: nth_Cons' split: if_splits dest: Cons.IH)
qed simp

lemma find_index_None: "find_index P xs k = None \<longleftrightarrow> (\<forall>x \<in> set xs. \<not> P x)"
  by (induction xs arbitrary: k) auto

definition block_at :: "CfgBlock list \<Rightarrow> u32 \<Rightarrow> nat option" where
  "block_at bs v = find_index (\<lambda>b. cb_start_vaddr b = v) bs 0"

lemma block_at_Some: "block_at bs v = Some t \<Longrightarrow> t < length bs \<and> cb_start_vaddr (bs ! t) = v"
  unfolding block_at_def by (drule find_index_Some) simp

lemma block_at_None: "block_at bs v = None \<longleftrightarrow> v \<notin> cb_start_vaddr ` set bs"
  by (auto simp: block_at_def find_index_None)

definition edge :: "nat \<Rightarrow> nat option \<Rightarrow> CfgEdgeKind \<Rightarrow> CfgEdge" where
  "edge i to kind = \<lparr>ce_from = i, ce_to = to, ce_kind = kind, ce_case_value = - 1\<rparr>"

text \<open>The edges of a block from its last instruction, in the order of the code.\<close>

definition block_edges :: "DolImage \<Rightarrow> CfgBlock list \<Rightarrow> nat \<Rightarrow> CfgEdge list" where
  "block_edges img bs i =
     (let b = bs ! i; insn = insn_at img (cb_end_vaddr b - 4);
          target = block_at bs (pi_target insn); ft = block_at bs (cb_end_vaddr b);
          to_some = (\<lambda>kind t. [edge i (Some t) kind])
      in if pi_op insn \<in> {PPC_OP_B, PPC_OP_BA}
         then case_option [edge i None CFG_EDGE_RETURN] (to_some CFG_EDGE_UNCOND) target
         else if pi_op insn = PPC_OP_BC
         then case_option [] (to_some CFG_EDGE_COND_TAKEN) target @
              case_option [] (to_some CFG_EDGE_COND_NOT_TAKEN) ft
         else if pi_op insn = PPC_OP_BLR then [edge i None CFG_EDGE_RETURN]
         else if pi_op insn = PPC_OP_BCTR then [edge i None CFG_EDGE_INDIRECT_UNKNOWN]
         else case_option [edge i None CFG_EDGE_RETURN] (to_some CFG_EDGE_FALLTHROUGH) ft)"

lemma wire_block_eq:
  assumes "cfg_read_word img (cb_end_vaddr (cfg_blocks cfg ! i) - 4) \<noteq> None"
  shows "wire_block img i cfg =
    Some (cfg\<lparr>cfg_edges := cfg_edges cfg @ block_edges img (cfg_blocks cfg) i\<rparr>)"
proof -
  obtain w where w: "cfg_read_word img (cb_end_vaddr (cfg_blocks cfg ! i) - 4) = Some w"
    using assms by blast
  have at: "cfg_block_of_vaddr c v = block_at (cfg_blocks c) v" for c v
    by (simp add: cfg_block_of_vaddr_def block_at_def)
  show ?thesis
    by (simp add: wire_block_def block_edges_def w insn_at_def at cfg_add_edge_def edge_def Let_def
        split: option.split)
qed

lemma wire_blocks_eq:
  assumes "\<forall>i \<in> set is. cfg_read_word img (cb_end_vaddr (cfg_blocks cfg ! i) - 4) \<noteq> None"
  shows "wire_blocks img is cfg =
    Some (cfg\<lparr>cfg_edges := cfg_edges cfg @ concat (List.map (block_edges img (cfg_blocks cfg)) is)\<rparr>)"
  using assms by (induction "is" arbitrary: cfg) (simp_all add: wire_block_eq)

lemma last_insn:
  assumes "leaders_ok img start stop ls" and "i < length ls"
  defines "b \<equiv> blocks_of stop ls ! i"
  shows "cb_end_vaddr b - 4 \<in> set (insn_addrs start stop)" and "cb_end_vaddr b - 4 + 4 = cb_end_vaddr b"
    and "cb_end_vaddr b \<le> stop" and "cb_end_vaddr b - 4 < cb_end_vaddr b"
proof -
  have range: "aligned_range start stop"
    using assms(1) by (simp add: leaders_ok_def)
  have b: "block_ok img b" "start \<le> cb_start_vaddr b"
    using blocks_of_ok [OF assms(1,2)] leaders_nth(1) [OF assms(1,2)] assms(2)
    by (simp_all add: b_def blocks_of_start)
  show le: "cb_end_vaddr b \<le> stop"
    using assms leaders_nth(2) [OF assms(1), of "Suc i"] by (auto simp: b_def blocks_of_end)
  obtain m n where mn: "unat (cb_start_vaddr b) = 4 * m" "unat (cb_end_vaddr b) = 4 * n" "m < n"
    using b(1) by (auto simp: block_ok_def aligned4_def word_less_nat_alt mod_eq_0_iff_dvd elim!: dvdE)
  then have "unat (cb_end_vaddr b - 4) = 4 * (n - 1)"
    by (simp add: unat_sub word_le_nat_alt diff_mult_distrib2)
  with mn b(2) le range show "cb_end_vaddr b - 4 \<in> set (insn_addrs start stop)"
    "cb_end_vaddr b - 4 < cb_end_vaddr b"
    by (auto simp: set_insn_addrs word_le_nat_alt word_less_nat_alt aligned4_def)
  show "cb_end_vaddr b - 4 + 4 = cb_end_vaddr b"
    by simp
qed

text \<open>
  The successors of an instruction as the machine has them: where control may continue inside
  the function.
\<close>

definition insn_succs :: "PpcInsn \<Rightarrow> u32 \<Rightarrow> u32 set" where
  "insn_succs insn va =
     (if pi_op insn \<in> {PPC_OP_B, PPC_OP_BA} then {pi_target insn}
      else if pi_op insn = PPC_OP_BC then {pi_target insn, va + 4}
      else if pi_op insn \<in> {PPC_OP_BLR, PPC_OP_BCTR} then {}
      else {va + 4})"

lemma succ_is_leader:
  assumes "leaders_ok img start stop ls" and "i < length ls"
    and "v \<in> insn_succs (insn_at img (cb_end_vaddr (blocks_of stop ls ! i) - 4)) (cb_end_vaddr (blocks_of stop ls ! i) - 4)"
    and "start \<le> v" and "v < stop"
  shows "v \<in> set ls"
proof -
  let ?b = "blocks_of stop ls ! i"
  note last = last_insn [OF assms(1,2)]
  have "v = cb_end_vaddr ?b \<or> v \<in> set (leaders_of_insn start stop (cb_end_vaddr ?b - 4) (insn_at img (cb_end_vaddr ?b - 4)))"
    using assms(3-5) last(2) by (auto simp: insn_succs_def leaders_of_insn_def split: if_splits)
  then show ?thesis
  proof
    assume v: "v = cb_end_vaddr ?b"
    then have "Suc i < length ls"
      using assms(2,5) by (auto simp: blocks_of_end split: if_splits)
    with v assms(2) show ?thesis
      by (simp add: blocks_of_end)
  next
    assume "v \<in> set (leaders_of_insn start stop (cb_end_vaddr ?b - 4) (insn_at img (cb_end_vaddr ?b - 4)))"
    with last(1) have "v \<in> leader_set img start stop"
      unfolding leader_set_def by blast
    then show ?thesis
      using assms(1) by (simp add: leaders_ok_def)
  qed
qed

lemma block_edges_from: "e \<in> set (block_edges img bs i) \<Longrightarrow> ce_from e = i"
  by (auto simp: block_edges_def edge_def Let_def split: if_splits option.splits)

lemma block_edges_to: "e \<in> set (block_edges img bs i) \<Longrightarrow> ce_to e = Some t \<Longrightarrow> t < length bs"
  using block_at_Some [of bs _ t]
  by (auto simp: block_edges_def edge_def Let_def simp del: length_blocks_of split: if_splits option.splits)

definition edge_starts :: "CfgBlock list \<Rightarrow> CfgEdge list \<Rightarrow> u32 set" where
  "edge_starts bs es = {cb_start_vaddr (bs ! t) |e t. e \<in> set es \<and> ce_to e = Some t}"

lemma edge_starts_simps [simp]:
  "edge_starts bs [] = {}" "edge_starts bs [edge i None k] = {}"
  "edge_starts bs [edge i (Some t) k] = {cb_start_vaddr (bs ! t)}"
  "edge_starts bs (xs @ ys) = edge_starts bs xs \<union> edge_starts bs ys"
  by (auto simp: edge_starts_def edge_def)

lemma block_edges_starts:
  assumes "cb_end_vaddr (bs ! i) - 4 + 4 = cb_end_vaddr (bs ! i)"
  shows "edge_starts bs (block_edges img bs i) =
    {v \<in> insn_succs (insn_at img (cb_end_vaddr (bs ! i) - 4)) (cb_end_vaddr (bs ! i) - 4).
       block_at bs v \<noteq> None}"
proof -
  have opt: "edge_starts bs (case block_at bs v of None \<Rightarrow> d | Some t \<Rightarrow> [edge i (Some t) k]) =
      {w. w = v \<and> block_at bs w \<noteq> None}" if "edge_starts bs d = {}" for v k d
    using that block_at_Some [of bs v] by (cases "block_at bs v") auto
  show ?thesis
    by (auto simp: block_edges_def insn_succs_def Let_def opt)
qed

section \<open>The properties\<close>

definition empty_cfg :: Cfg where
  "empty_cfg = zero_cfg\<lparr>cfg_entry_block := None\<rparr>"

lemma leaders_ok_collect:
  "aligned_range start stop \<Longrightarrow> collect_leaders img start stop = Some ls \<Longrightarrow> leaders_ok img start stop ls"
  using collect_leaders_eq [of img start stop] by (simp add: leaders_ok_def)

lemma split_and_wire_eq:
  assumes "leaders_ok img start stop ls"
  shows "split_and_wire empty_cfg img stop ls =
    Some (empty_cfg\<lparr>cfg_blocks := blocks_of stop ls, cfg_entry_block := Some 0,
      cfg_edges := concat (List.map (block_edges img (blocks_of stop ls)) [0..<length ls])\<rparr>)"
proof -
  let ?cfg = "empty_cfg\<lparr>cfg_blocks := blocks_of stop ls, cfg_entry_block := Some 0\<rparr>"
  have "\<forall>i \<in> set [0..<length ls]. cfg_read_word img (cb_end_vaddr (cfg_blocks ?cfg ! i) - 4) \<noteq> None"
    using last_insn(1) [OF assms] assms by (auto simp: leaders_ok_def readable_def)
  from wire_blocks_eq [OF this] show ?thesis
    by (simp add: split_and_wire_def add_blocks_eq empty_cfg_def zero_cfg_def)
qed

text \<open>
  C25. The split of a readable, word-aligned range into basic blocks: it always succeeds, the
  blocks are contiguous from the start of the range to its end, none is empty, each has the
  number of instructions of its extent, no instruction before the last one of a block
  transfers control, and every branch target inside the range begins a block.
\<close>

theorem cfg_blocks_partition:
  assumes "aligned_range start stop" and "collect_leaders img start stop = Some leaders"
  shows "\<exists>cfg. split_and_wire empty_cfg img stop leaders = Some cfg \<and>
    cfg_blocks cfg \<noteq> [] \<and> cfg_entry_block cfg = Some 0 \<and>
    cb_start_vaddr (hd (cfg_blocks cfg)) = start \<and> cb_end_vaddr (last (cfg_blocks cfg)) = stop \<and>
    (\<forall>i. Suc i < length (cfg_blocks cfg) \<longrightarrow>
       cb_end_vaddr (cfg_blocks cfg ! i) = cb_start_vaddr (cfg_blocks cfg ! Suc i)) \<and>
    (\<forall>b \<in> set (cfg_blocks cfg). block_ok img b) \<and>
    (\<forall>va \<in> set (insn_addrs start stop).
       pi_op (insn_at img va) \<in> {PPC_OP_B, PPC_OP_BA, PPC_OP_BC} \<and>
       start \<le> pi_target (insn_at img va) \<and> pi_target (insn_at img va) < stop \<longrightarrow>
       pi_target (insn_at img va) \<in> cb_start_vaddr ` set (cfg_blocks cfg))"
proof -
  have ok: "leaders_ok img start stop leaders"
    by (rule leaders_ok_collect [OF assms])
  let ?bs = "blocks_of stop leaders"
  note ne = leaders_nonempty [OF ok]
  then have bs: "?bs \<noteq> []"
    by (metis length_0_conv length_blocks_of)
  have first: "cb_start_vaddr (hd ?bs) = start"
    using ne bs by (simp add: hd_conv_nth blocks_of_start)
  have final: "cb_end_vaddr (last ?bs) = stop"
    using ne bs by (simp add: last_conv_nth blocks_of_end)
  have chain: "cb_end_vaddr (?bs ! i) = cb_start_vaddr (?bs ! Suc i)" if "Suc i < length leaders" for i
    using that by (simp add: blocks_of_end blocks_of_start)
  have blocks: "block_ok img b" if "b \<in> set ?bs" for b
    using that blocks_of_ok [OF ok] by (auto simp: in_set_conv_nth)
  have starts: "cb_start_vaddr ` set ?bs = set leaders"
    by (metis blocks_of_starts set_map)
  have targets: "pi_target (insn_at img va) \<in> set leaders"
    if "va \<in> set (insn_addrs start stop)" "pi_op (insn_at img va) \<in> {PPC_OP_B, PPC_OP_BA, PPC_OP_BC}"
      "start \<le> pi_target (insn_at img va)" "pi_target (insn_at img va) < stop" for va
  proof -
    have "pi_target (insn_at img va) \<in> set (leaders_of_insn start stop va (insn_at img va))"
      using that(2-4) by (simp add: leaders_of_insn_def)
    with that(1) have "pi_target (insn_at img va) \<in> leader_set img start stop"
      unfolding leader_set_def by blast
    then show ?thesis
      using ok by (simp add: leaders_ok_def)
  qed
  show ?thesis
    using bs first final chain blocks targets by (simp add: split_and_wire_eq [OF ok] starts)
qed

text \<open>
  C26. The successor edges are exact: the blocks that the edges of a block lead to are those
  whose address the last instruction of the block can continue at inside the range, no more
  and no fewer, and every edge joins existing blocks.
\<close>

theorem cfg_edges_exact:
  assumes "aligned_range start stop" and "collect_leaders img start stop = Some leaders"
    and "split_and_wire empty_cfg img stop leaders = Some cfg" and "i < length (cfg_blocks cfg)"
  shows "{cb_start_vaddr (cfg_blocks cfg ! t) |e t. e \<in> set (cfg_edges cfg) \<and> ce_from e = i \<and> ce_to e = Some t} =
      {v \<in> insn_succs (insn_at img (cb_end_vaddr (cfg_blocks cfg ! i) - 4)) (cb_end_vaddr (cfg_blocks cfg ! i) - 4).
         start \<le> v \<and> v < stop} \<and>
    (\<forall>e \<in> set (cfg_edges cfg). ce_from e < length (cfg_blocks cfg) \<and>
       (\<forall>t. ce_to e = Some t \<longrightarrow> t < length (cfg_blocks cfg)))"
proof -
  have ok: "leaders_ok img start stop leaders"
    by (rule leaders_ok_collect [OF assms(1,2)])
  let ?bs = "blocks_of stop leaders" and ?n = "length leaders"
  have cfg: "cfg_blocks cfg = ?bs" "cfg_edges cfg = concat (List.map (block_edges img ?bs) [0..<?n])"
    using assms(3) split_and_wire_eq [OF ok] by auto
  have i: "i < ?n"
    using assms(4) by (simp add: cfg)
  let ?va = "cb_end_vaddr (?bs ! i) - 4"
  have "edge_starts ?bs (block_edges img ?bs i) =
      {v \<in> insn_succs (insn_at img ?va) ?va. v \<in> set leaders}"
  proof -
    have "block_at ?bs v \<noteq> None \<longleftrightarrow> v \<in> set leaders" for v
      using block_at_None [of ?bs v] by (metis blocks_of_starts set_map)
    then show ?thesis
      using block_edges_starts [of ?bs i img] last_insn(2) [OF ok i] by simp
  qed
  also have "\<dots> = {v \<in> insn_succs (insn_at img ?va) ?va. start \<le> v \<and> v < stop}"
    using succ_is_leader [OF ok i] leader_set_range [of start stop _ img] ok
    by (auto simp: leaders_ok_def)
  finally have starts: "edge_starts ?bs (block_edges img ?bs i) =
      {v \<in> insn_succs (insn_at img ?va) ?va. start \<le> v \<and> v < stop}" .
  have mem: "e \<in> set (cfg_edges cfg) \<longleftrightarrow> (\<exists>k < ?n. e \<in> set (block_edges img ?bs k))" for e
    by (auto simp: cfg)
  have "{cb_start_vaddr (?bs ! t) |e t. e \<in> set (cfg_edges cfg) \<and> ce_from e = i \<and> ce_to e = Some t} =
      edge_starts ?bs (block_edges img ?bs i)"
    using i block_edges_from unfolding edge_starts_def mem by blast
  moreover have "\<forall>e \<in> set (cfg_edges cfg). ce_from e < ?n \<and> (\<forall>t. ce_to e = Some t \<longrightarrow> t < ?n)"
    using block_edges_from block_edges_to [of _ img ?bs] by (auto simp: mem)
  ultimately show ?thesis
    using starts by (simp add: cfg(1))
qed

section \<open>A sample function\<close>

text \<open>An image with one text section at 0x80004000 that holds the given words.\<close>

definition code_image :: "u32 list \<Rightarrow> DolImage" where
  "code_image ws =
     \<lparr>di_bytes = concat (List.map bytes_be32 ws), di_size = 4 * length ws, di_entrypoint = 0x80004000,
      di_bss_addr = 0, di_bss_size = 0,
      di_sections = [\<lparr>ds_kind = DOL_SECTION_TEXT, ds_index = 0, ds_file_offset = 0,
        ds_virtual_addr = 0x80004000, ds_size = of_nat (4 * length ws)\<rparr>]\<rparr>"

lemma code_image_word:
  assumes "k < length ws" and "length ws < 2 ^ 16"
  shows "cfg_read_word (code_image ws) (0x80004000 + 4 * of_nat k) = Some (ws ! k)"
proof -
  have n: "unat (of_nat (4 * length ws) :: u32) = 4 * length ws" "unat (of_nat k :: u32) = k"
    using assms by (simp_all add: unat_of_nat take_bit_nat_eq_self del: of_nat_mult)
  have k4: "unat (4 * of_nat k :: u32) = 4 * k"
    using assms n by (simp add: unat_word_ariths(2))
  have va: "unat (0x80004000 + 4 * of_nat k :: u32) = 0x80004000 + 4 * k"
    using assms k4 by (simp add: unat_word_ariths(1))
  have ends: "unat (0x80004000 + of_nat (4 * length ws) :: u32) = 0x80004000 + 4 * length ws"
    using assms n by (simp add: unat_word_ariths(1) del: of_nat_mult)
  have "covers_vaddr (0x80004000 + 4 * of_nat k) (hd (di_sections (code_image ws)))"
    using va ends assms(1) by (simp add: covers_vaddr_def code_image_def word_le_nat_alt word_less_nat_alt del: of_nat_mult)
  then have ptr: "dol_vaddr_to_ptr (code_image ws) (0x80004000 + 4 * of_nat k) = Some (4 * k, 4 * length ws - 4 * k)"
    using k4 n assms(1)
    by (simp add: dol_vaddr_to_ptr_def dol_section_for_vaddr_def code_image_def Let_def unat_sub word_le_nat_alt
        del: of_nat_mult)
  have "read_be32 (concat (List.map bytes_be32 ws)) (4 * k) = Some (ws ! k)"
    using assms(1) by (subst read_be32_words) simp_all
  with ptr assms(1) show ?thesis
    by (simp add: cfg_read_word_def) (simp add: code_image_def)
qed

text \<open>A conditional branch over one instruction, and a return.\<close>

definition sample_code :: "u32 list" where
  "sample_code = [0x41820008, 0x60000000, 0x4E800020]"

lemma sample_range: "aligned_range 0x80004000 0x8000400C"
  by (simp add: aligned_range_def aligned4_def)

lemma sample_collect: "\<exists>ls. collect_leaders (code_image sample_code) 0x80004000 0x8000400C = Some ls"
proof -
  have "cfg_read_word (code_image sample_code) (0x80004000 + 4 * of_nat k) \<noteq> None" if "k < 3" for k
    using code_image_word [of k sample_code] that by (simp add: sample_code_def)
  then have "readable (code_image sample_code) 0x80004000 0x8000400C"
    by (auto simp: readable_def insn_addrs_def)
  then show ?thesis
    using collect_leaders_eq [of "code_image sample_code" "0x80004000" "0x8000400C"] by auto
qed

theorem cfg_blocks_partition_witness:
  "\<exists>leaders cfg. collect_leaders (code_image sample_code) 0x80004000 0x8000400C = Some leaders \<and>
    split_and_wire empty_cfg (code_image sample_code) 0x8000400C leaders = Some cfg \<and>
    cb_start_vaddr (hd (cfg_blocks cfg)) = 0x80004000 \<and> cb_end_vaddr (last (cfg_blocks cfg)) = 0x8000400C"
  using sample_collect cfg_blocks_partition [OF sample_range] by metis

theorem cfg_edges_exact_witness:
  "\<exists>leaders cfg. collect_leaders (code_image sample_code) 0x80004000 0x8000400C = Some leaders \<and>
    split_and_wire empty_cfg (code_image sample_code) 0x8000400C leaders = Some cfg \<and>
    (\<forall>e \<in> set (cfg_edges cfg). ce_from e < length (cfg_blocks cfg))"
proof -
  obtain ls where ls: "collect_leaders (code_image sample_code) 0x80004000 0x8000400C = Some ls"
    using sample_collect by blast
  have ok: "leaders_ok (code_image sample_code) 0x80004000 0x8000400C ls"
    by (rule leaders_ok_collect [OF sample_range ls])
  then have "0 < length ls"
    using leaders_nonempty by auto
  then obtain cfg where cfg: "split_and_wire empty_cfg (code_image sample_code) 0x8000400C ls = Some cfg"
    "0 < length (cfg_blocks cfg)"
    using split_and_wire_eq [OF ok] \<open>0 < length ls\<close> by (simp del: length_greater_0_conv)
  from cfg_edges_exact [OF sample_range ls this]
  have "\<forall>e \<in> set (cfg_edges cfg). ce_from e < length (cfg_blocks cfg)"
    by (elim conjE) simp
  with ls cfg(1) show ?thesis
    by (intro exI conjI)
qed

end
