(* ===== verification/CfgDom.thy ===== *)
theory CfgDom
  imports Cfg
begin

text \<open>
  Dominance on the control-flow graph (decompiler/src/cli/cfg/cfg_dominance.c): the predecessor
  table, the reverse post-order of a depth-first search and the iterative computation of
  immediate dominators of Cooper, Harvey and Kennedy.  The arrays of the code are lists;
  \<open>CFG_INVALID\<close> in the array of immediate dominators is \<open>None\<close>, in the array of positions a
  number.  Loops that are not obviously finite are partial functions, whose value \<open>None\<close> also
  stands for an index outside an array; the recursion of the search carries its depth as fuel.
\<close>

definition CFG_INVALID :: nat where "CFG_INVALID = 0xFFFFFFFF"

definition cfg_nb :: "Cfg \<Rightarrow> nat" where
  "cfg_nb cfg = length (cfg_blocks cfg)"

section \<open>Predecessors\<close>

fun count_preds :: "CfgEdge list \<Rightarrow> nat list \<Rightarrow> nat list" where
  "count_preds [] offsets = offsets"
| "count_preds (e # es) offsets =
     (case ce_to e of
        None \<Rightarrow> count_preds es offsets
      | Some to \<Rightarrow> count_preds es (offsets[to + 1 := offsets ! (to + 1) + 1]))"

definition prefix_sums :: "nat \<Rightarrow> nat list \<Rightarrow> nat list" where
  "prefix_sums nb offsets = foldl (\<lambda>offs i. offs[i := offs ! i + offs ! (i - 1)]) offsets [1..<nb + 1]"

fun fill_preds :: "nat list \<Rightarrow> CfgEdge list \<Rightarrow> nat list \<Rightarrow> nat list \<Rightarrow> nat list" where
  "fill_preds offsets [] preds cursor = preds"
| "fill_preds offsets (e # es) preds cursor =
     (case ce_to e of
        None \<Rightarrow> fill_preds offsets es preds cursor
      | Some to \<Rightarrow>
          fill_preds offsets es (preds[offsets ! to + cursor ! to := ce_from e])
            (cursor[to := cursor ! to + 1]))"

text \<open>The offsets and the predecessors, one block's after the other's.\<close>

definition build_preds :: "Cfg \<Rightarrow> nat list \<times> nat list" where
  "build_preds cfg =
     (let nb = cfg_nb cfg;
          offsets = prefix_sums nb (count_preds (cfg_edges cfg) (replicate (nb + 1) 0));
          total = offsets ! nb
      in (offsets, fill_preds offsets (cfg_edges cfg) (replicate total 0) (replicate nb 0)))"

section \<open>Reverse post-order\<close>

text \<open>
  The search with the fuel as the depth that is left; \<open>dfs_edges\<close> is the loop over all edges
  in the body of \<open>dfs_post\<close>.  The state is the array of seen blocks and the order so far.
\<close>

fun dfs_post :: "CfgEdge list \<Rightarrow> nat \<Rightarrow> nat \<Rightarrow> bool list \<times> nat list \<Rightarrow> (bool list \<times> nat list) option"
  and dfs_edges :: "CfgEdge list \<Rightarrow> nat \<Rightarrow> CfgEdge list \<Rightarrow> nat \<Rightarrow> bool list \<times> nat list \<Rightarrow>
    (bool list \<times> nat list) option" where
  "dfs_post edges 0 bi st = None"
| "dfs_post edges (Suc fuel) bi (seen, order) =
     (if seen ! bi then Some (seen, order)
      else case dfs_edges edges fuel edges bi (seen[bi := True], order) of
             None \<Rightarrow> None
           | Some (seen, order) \<Rightarrow> Some (seen, order @ [bi]))"
| "dfs_edges edges fuel [] bi st = Some st"
| "dfs_edges edges fuel (e # es) bi st =
     (if ce_from e \<noteq> bi then dfs_edges edges fuel es bi st
      else case ce_to e of
             None \<Rightarrow> dfs_edges edges fuel es bi st
           | Some s \<Rightarrow>
               (case dfs_post edges fuel s st of
                  None \<Rightarrow> None
                | Some st \<Rightarrow> dfs_edges edges fuel es bi st))"

definition reverse_in_place :: "nat list \<Rightarrow> nat list" where
  "reverse_in_place order =
     foldl (\<lambda>xs i. let t = xs ! i in xs[i := xs ! (length order - 1 - i), length order - 1 - i := t])
       order [0..<length order div 2]"

definition rpo_positions :: "nat \<Rightarrow> nat list \<Rightarrow> nat list" where
  "rpo_positions nb order =
     foldl (\<lambda>pos i. pos[order ! i := i]) (replicate nb CFG_INVALID) [0..<length order]"

text \<open>The order and the positions.\<close>

definition build_rpo :: "Cfg \<Rightarrow> nat \<Rightarrow> (nat list \<times> nat list) option" where
  "build_rpo cfg entry =
     (case dfs_post (cfg_edges cfg) (cfg_nb cfg + 1) entry (replicate (cfg_nb cfg) False, []) of
        None \<Rightarrow> None
      | Some (seen, order) \<Rightarrow>
          let order = reverse_in_place order
          in Some (order, rpo_positions (cfg_nb cfg) order))"

section \<open>Immediate dominators\<close>

text \<open>One inner loop of \<open>intersect\<close>: up from \<open>b1\<close> while it is behind \<open>b2\<close>.\<close>

partial_function (option) walk_up :: "nat option list \<Rightarrow> nat list \<Rightarrow> nat \<Rightarrow> nat \<Rightarrow> nat option" where
  "walk_up idom rpo_pos b1 b2 =
     (if rpo_pos ! b1 > rpo_pos ! b2
      then (case idom ! b1 of None \<Rightarrow> None | Some d \<Rightarrow> walk_up idom rpo_pos d b2)
      else Some b1)"

partial_function (option) intersect :: "nat \<Rightarrow> nat \<Rightarrow> nat option list \<Rightarrow> nat list \<Rightarrow> nat option" where
  "intersect b1 b2 idom rpo_pos =
     (if b1 \<noteq> b2
      then (case walk_up idom rpo_pos b1 b2 of
              None \<Rightarrow> None
            | Some b1 \<Rightarrow>
                (case walk_up idom rpo_pos b2 b1 of
                   None \<Rightarrow> None
                 | Some b2 \<Rightarrow> intersect b1 b2 idom rpo_pos))
      else Some b1)"

text \<open>The loop over the predecessors of a block.\<close>

fun meet_preds :: "nat option list \<Rightarrow> nat list \<Rightarrow> nat list \<Rightarrow> nat option \<Rightarrow> nat option option" where
  "meet_preds idom rpo_pos [] new_idom = Some new_idom"
| "meet_preds idom rpo_pos (p # ps) new_idom =
     (if idom ! p = None then meet_preds idom rpo_pos ps new_idom
      else case new_idom of
             None \<Rightarrow> meet_preds idom rpo_pos ps (Some p)
           | Some n \<Rightarrow>
               (case intersect p n idom rpo_pos of
                  None \<Rightarrow> None
                | Some d \<Rightarrow> meet_preds idom rpo_pos ps (Some d)))"

definition preds_of :: "nat list \<times> nat list \<Rightarrow> nat \<Rightarrow> nat list" where
  "preds_of P b = List.map (\<lambda>k. snd P ! k) [fst P ! b..<fst P ! (b + 1)]"

text \<open>One pass over the blocks in reverse post-order, with the flag \<open>changed\<close>.\<close>

fun dom_pass :: "nat \<Rightarrow> nat list \<times> nat list \<Rightarrow> nat list \<Rightarrow> nat list \<Rightarrow> nat option list \<Rightarrow> bool \<Rightarrow>
    (nat option list \<times> bool) option" where
  "dom_pass entry P rpo_pos [] idom changed = Some (idom, changed)"
| "dom_pass entry P rpo_pos (b # bs) idom changed =
     (if b = entry then dom_pass entry P rpo_pos bs idom changed
      else case meet_preds idom rpo_pos (preds_of P b) None of
             None \<Rightarrow> None
           | Some new_idom \<Rightarrow>
               if new_idom \<noteq> None \<and> idom ! b \<noteq> new_idom
               then dom_pass entry P rpo_pos bs (idom[b := new_idom]) True
               else dom_pass entry P rpo_pos bs idom changed)"

partial_function (option) dom_loop ::
  "nat \<Rightarrow> nat list \<times> nat list \<Rightarrow> nat list \<Rightarrow> nat list \<Rightarrow> nat option list \<Rightarrow> nat option list option" where
  "dom_loop entry P rpo_pos order idom =
     (case dom_pass entry P rpo_pos order idom False of
        None \<Rightarrow> None
      | Some r \<Rightarrow>
          if snd r then dom_loop entry P rpo_pos order (fst r) else Some (fst r))"

definition cfg_compute_dominance :: "Cfg \<Rightarrow> Cfg option" where
  "cfg_compute_dominance cfg =
     (let nb = cfg_nb cfg
      in if nb = 0 then Some cfg
         else case cfg_entry_block cfg of
                None \<Rightarrow> None
              | Some entry \<Rightarrow>
                  let P = build_preds cfg
                  in case build_rpo cfg entry of
                       None \<Rightarrow> None
                     | Some (order, pos) \<Rightarrow>
                         (case dom_loop entry P pos order ((replicate nb None)[entry := Some entry]) of
                            None \<Rightarrow> None
                          | Some idom \<Rightarrow>
                              Some (cfg\<lparr>cfg_blocks :=
                                List.map (\<lambda>i. (cfg_blocks cfg ! i)\<lparr>cb_idom := idom ! i\<rparr>) [0..<nb]\<rparr>)))"

text \<open>The walk along the immediate dominators.\<close>

partial_function (option) dominates :: "Cfg \<Rightarrow> nat \<Rightarrow> nat option \<Rightarrow> bool option" where
  "dominates cfg a cur =
     (case cur of
        None \<Rightarrow> Some False
      | Some b \<Rightarrow>
          if b = a then Some True
          else let nx = cb_idom (cfg_blocks cfg ! b)
               in if nx = Some b then Some (a = b) else dominates cfg a nx)"

section \<open>Loops\<close>

definition update_block :: "Cfg \<Rightarrow> nat \<Rightarrow> (CfgBlock \<Rightarrow> CfgBlock) \<Rightarrow> Cfg" where
  "update_block cfg b f = cfg\<lparr>cfg_blocks := (cfg_blocks cfg)[b := f (cfg_blocks cfg ! b)]\<rparr>"

text \<open>The targets of the edges that dominate their source are loop headers.\<close>

fun mark_headers :: "CfgEdge list \<Rightarrow> Cfg \<Rightarrow> Cfg option" where
  "mark_headers [] cfg = Some cfg"
| "mark_headers (e # es) cfg =
     (case ce_to e of
        None \<Rightarrow> mark_headers es cfg
      | Some to \<Rightarrow>
          (case dominates cfg to (Some (ce_from e)) of
             None \<Rightarrow> None
           | Some d \<Rightarrow>
               if \<not> d then mark_headers es cfg
               else mark_headers es (update_block cfg to (\<lambda>b. b\<lparr>cb_is_loop_header := True\<rparr>))))"

text \<open>The headers on the way up from block \<open>i\<close>, in a 16-bit counter.\<close>

definition count_header :: "Cfg \<Rightarrow> nat \<Rightarrow> u16 \<Rightarrow> nat \<Rightarrow> u16" where
  "count_header cfg i d c =
     (if cb_is_loop_header (cfg_blocks cfg ! c) \<and> c \<noteq> i then d + 1 else d)"

partial_function (option) chain_depth :: "Cfg \<Rightarrow> nat \<Rightarrow> nat option \<Rightarrow> u16 \<Rightarrow> u16 option" where
  "chain_depth cfg i cur d =
     (case cur of
        None \<Rightarrow> Some d
      | Some c \<Rightarrow>
          if cb_idom (cfg_blocks cfg ! c) = Some c then Some (count_header cfg i d c)
          else chain_depth cfg i (cb_idom (cfg_blocks cfg ! c)) (count_header cfg i d c))"

fun all_depths :: "Cfg \<Rightarrow> nat list \<Rightarrow> u16 list option" where
  "all_depths cfg [] = Some []"
| "all_depths cfg (i # is) =
     (case chain_depth cfg i (Some i) 0 of
        None \<Rightarrow> None
      | Some d \<Rightarrow> (case all_depths cfg is of None \<Rightarrow> None | Some ds \<Rightarrow> Some (d # ds)))"

definition set_depths :: "Cfg \<Rightarrow> u16 list \<Rightarrow> Cfg" where
  "set_depths cfg depth =
     cfg\<lparr>cfg_blocks := List.map (\<lambda>i. (cfg_blocks cfg ! i)\<lparr>cb_loop_depth := depth ! i\<rparr>) [0..<cfg_nb cfg]\<rparr>"

definition mark_exit :: "Cfg \<Rightarrow> CfgEdge \<Rightarrow> Cfg" where
  "mark_exit cfg e =
     (case ce_to e of
        None \<Rightarrow> cfg
      | Some to \<Rightarrow>
          if cb_loop_depth (cfg_blocks cfg ! to) < cb_loop_depth (cfg_blocks cfg ! ce_from e)
          then update_block cfg (ce_from e) (\<lambda>b. b\<lparr>cb_is_loop_exit := True\<rparr>)
          else cfg)"

definition cfg_classify_loops :: "Cfg \<Rightarrow> Cfg option" where
  "cfg_classify_loops cfg =
     (if cfg_nb cfg = 0 then Some cfg
      else case mark_headers (cfg_edges cfg) cfg of
             None \<Rightarrow> None
           | Some cfg \<Rightarrow>
               (case all_depths cfg [0..<cfg_nb cfg] of
                  None \<Rightarrow> None
                | Some depth \<Rightarrow> Some (foldl mark_exit (set_depths cfg depth) (cfg_edges cfg))))"

end
