(* ===== verification/CfgDomLaws.thy ===== *)
theory CfgDomLaws
  imports CfgDom
begin

text \<open>
  The immediate dominators computed by the code are the dominators of the graph.  The facts
  about a graph with a numbering of its reachable nodes are proved in the locale
  \<open>numbered_graph\<close>: walks and dominance, the soundness of \<open>intersect\<close>, and the progress of the
  passes (after a pass the chains of immediate dominators respect all walks with one more
  retreating edge).  The search of the code provides the numbering.
\<close>

section \<open>Walks and dominance\<close>

inductive walk :: "(nat \<times> nat) set \<Rightarrow> nat \<Rightarrow> nat list \<Rightarrow> nat \<Rightarrow> bool" for G root where
  walk_root: "walk G root [root] root"
| walk_step: "walk G root w a \<Longrightarrow> (a, b) \<in> G \<Longrightarrow> walk G root (w @ [b]) b"

definition reach :: "(nat \<times> nat) set \<Rightarrow> nat \<Rightarrow> nat \<Rightarrow> bool" where
  "reach G root b \<longleftrightarrow> (\<exists>w. walk G root w b)"

text \<open>A node dominates another one when it lies on every walk from the root to it.\<close>

definition dom_by :: "(nat \<times> nat) set \<Rightarrow> nat \<Rightarrow> nat \<Rightarrow> nat \<Rightarrow> bool" where
  "dom_by G root a b \<longleftrightarrow> (\<forall>w. walk G root w b \<longrightarrow> a \<in> set w)"

lemma walk_last: "walk G root w b \<Longrightarrow> b \<in> set w"
  by (induction rule: walk.induct) simp_all

lemma walk_has_root: "walk G root w b \<Longrightarrow> root \<in> set w"
  by (induction rule: walk.induct) simp_all

lemma dom_refl: "dom_by G root b b"
  by (simp add: dom_by_def walk_last)

lemma dom_root: "dom_by G root a root \<Longrightarrow> a = root"
  using walk_root [of G root] by (auto simp: dom_by_def)

lemma dom_pred: "dom_by G root a b \<Longrightarrow> a \<noteq> b \<Longrightarrow> (p, b) \<in> G \<Longrightarrow> dom_by G root a p"
  using walk_step [of G root _ p b] by (fastforce simp: dom_by_def)

lemma reach_step: "reach G root a \<Longrightarrow> (a, b) \<in> G \<Longrightarrow> reach G root b"
  by (auto simp: reach_def intro: walk_step)

lemma reach_root: "reach G root root"
  by (auto simp: reach_def intro: walk_root)

text \<open>Walks with at most \<open>k\<close> edges that do not go forward in the numbering.\<close>

inductive rwalk :: "(nat \<times> nat) set \<Rightarrow> nat \<Rightarrow> (nat \<Rightarrow> nat) \<Rightarrow> nat \<Rightarrow> nat list \<Rightarrow> nat \<Rightarrow> bool"
  for G root pos where
  rwalk_root: "rwalk G root pos k [root] root"
| rwalk_forward: "rwalk G root pos k w a \<Longrightarrow> (a, b) \<in> G \<Longrightarrow> pos a < pos b \<Longrightarrow> rwalk G root pos k (w @ [b]) b"
| rwalk_retreat: "rwalk G root pos k w a \<Longrightarrow> (a, b) \<in> G \<Longrightarrow> rwalk G root pos (Suc k) (w @ [b]) b"

definition pdom :: "(nat \<times> nat) set \<Rightarrow> nat \<Rightarrow> (nat \<Rightarrow> nat) \<Rightarrow> nat \<Rightarrow> nat \<Rightarrow> nat \<Rightarrow> bool" where
  "pdom G root pos k a b \<longleftrightarrow> (\<forall>w. rwalk G root pos k w b \<longrightarrow> a \<in> set w)"

lemma rwalk_walk: "rwalk G root pos k w b \<Longrightarrow> walk G root w b"
  by (induction rule: rwalk.induct) (auto intro: walk_root walk_step)

lemma rwalk_mono: "rwalk G root pos k w b \<Longrightarrow> rwalk G root pos (Suc k) w b"
  by (induction rule: rwalk.induct) (auto intro: rwalk.intros)

lemma rwalk_le: "j \<le> k \<Longrightarrow> rwalk G root pos j w b \<Longrightarrow> rwalk G root pos k w b"
  by (induction rule: dec_induct) (auto intro: rwalk_mono)

lemma walk_rwalk: "walk G root w b \<Longrightarrow> \<exists>k. rwalk G root pos k w b"
  by (induction rule: walk.induct) (blast intro: rwalk.intros)+

lemma pdom_mono: "pdom G root pos (Suc k) a b \<Longrightarrow> pdom G root pos k a b"
  by (auto simp: pdom_def intro: rwalk_mono)

text \<open>The part of a walk up to a node on it is a walk to that node.\<close>

lemma rwalk_prefix:
  "rwalk G root pos k w b \<Longrightarrow> c \<in> set w \<Longrightarrow> \<exists>w'. rwalk G root pos k w' c \<and> set w' \<subseteq> set w"
proof (induction rule: rwalk.induct)
  case (rwalk_root k)
  then show ?case
    by (auto intro: rwalk.rwalk_root)
next
  case (rwalk_forward k w a b)
  show ?case
  proof (cases "c \<in> set w")
    case True
    with rwalk_forward show ?thesis
      by fastforce
  next
    case False
    then have "c = b"
      using rwalk_forward.prems by simp
    with rwalk_forward.hyps show ?thesis
      by (blast intro: rwalk.rwalk_forward)
  qed
next
  case (rwalk_retreat k w a b)
  show ?case
  proof (cases "c \<in> set w")
    case True
    with rwalk_retreat obtain w' where "rwalk G root pos k w' c" "set w' \<subseteq> set w"
      by blast
    then show ?thesis
      by (intro exI [of _ w']) (auto intro: rwalk_mono)
  next
    case False
    then have "c = b"
      using rwalk_retreat.prems by simp
    with rwalk_retreat.hyps show ?thesis
      by (blast intro: rwalk.rwalk_retreat)
  qed
qed

lemma pdom_trans: "pdom G root pos k a b \<Longrightarrow> pdom G root pos k b c \<Longrightarrow> pdom G root pos k a c"
  unfolding pdom_def using rwalk_prefix by (metis subsetD)

lemma pdom_last: "pdom G root pos k b b"
  by (auto simp: pdom_def dest: rwalk_walk walk_last)

text \<open>On finitely many nodes some number of retreating edges is enough.\<close>

lemma pdom_dom: "(\<And>k. pdom G root pos k a b) \<Longrightarrow> dom_by G root a b"
  unfolding pdom_def dom_by_def using walk_rwalk by metis

lemma pdom_le: "j \<le> k \<Longrightarrow> pdom G root pos k a b \<Longrightarrow> pdom G root pos j a b"
  by (auto simp: pdom_def intro: rwalk_le)

lemma pdom_bound: "\<exists>K. \<forall>a < n. \<forall>b < m. pdom G root pos K a b \<longrightarrow> dom_by G root a b"
proof -
  have "\<exists>K. pdom G root pos K a b \<longrightarrow> dom_by G root a b" for a b
    using pdom_dom by blast
  then obtain K where K: "\<And>a b. pdom G root pos (K a b) a b \<longrightarrow> dom_by G root a b"
    by metis
  let ?K = "Max ((\<lambda>(a, b). K a b) ` ({..<n} \<times> {..<m}))"
  have "K a b \<le> ?K" if "a < n" "b < m" for a b
    using that by (intro Max_ge) (auto intro!: image_eqI [of _ _ "(a, b)"])
  then show ?thesis
    using K pdom_le by blast
qed

section \<open>Chains of immediate dominators\<close>

inductive anc :: "nat option list \<Rightarrow> nat \<Rightarrow> nat \<Rightarrow> bool" for idom where
  anc_refl: "anc idom b b"
| anc_up: "idom ! b = Some d \<Longrightarrow> anc idom a d \<Longrightarrow> anc idom a b"

inductive_cases anc_cases: "anc idom a b"

text \<open>What the search of the code provides and the passes rely on.\<close>

locale numbered_graph =
  fixes G :: "(nat \<times> nat) set" and root nb :: nat and order rpo_pos :: "nat list"
    and P :: "nat list \<times> nat list"
  assumes root_less: "root < nb"
    and edge_less: "(a, b) \<in> G \<Longrightarrow> a < nb \<and> b < nb"
    and order_reach: "set order = {b. reach G root b}"
    and order_pos: "i < length order \<Longrightarrow> rpo_pos ! (order ! i) = i"
    and tree: "reach G root b \<Longrightarrow> b \<noteq> root \<Longrightarrow>
      \<exists>t. (t, b) \<in> G \<and> reach G root t \<and> rpo_pos ! t < rpo_pos ! b"
    and preds: "b < nb \<Longrightarrow> set (preds_of P b) = {a. (a, b) \<in> G}"
begin

abbreviation pos :: "nat \<Rightarrow> nat" where "pos b \<equiv> rpo_pos ! b"
abbreviation reached :: "nat \<Rightarrow> bool" where "reached \<equiv> reach G root"
abbreviation dom :: "nat \<Rightarrow> nat \<Rightarrow> bool" where "dom \<equiv> dom_by G root"
abbreviation level :: "nat \<Rightarrow> nat \<Rightarrow> nat \<Rightarrow> bool" where "level \<equiv> pdom G root pos"

lemma walk_in: "walk G root w b \<Longrightarrow> c \<in> set w \<Longrightarrow> reached c \<and> c < nb"
proof (induction arbitrary: c rule: walk.induct)
  case walk_root
  then show ?case
    using reach_root root_less by simp
next
  case (walk_step w a b)
  have "reached a"
    using walk_step.IH [OF walk_last [OF walk_step.hyps(1)]] by simp
  then have "reached b"
    using walk_step.hyps(2) by (rule reach_step)
  then show ?case
    using walk_step edge_less by auto
qed

lemma reached_less: "reached b \<Longrightarrow> b < nb"
  by (auto simp: reach_def dest: walk_last walk_in)

lemma dom_reached: "dom a b \<Longrightarrow> reached b \<Longrightarrow> reached a"
  using walk_in by (auto simp: dom_by_def reach_def)

lemma pos_inj: "reached a \<Longrightarrow> reached b \<Longrightarrow> pos a = pos b \<Longrightarrow> a = b"
  using order_reach order_pos by (metis in_set_conv_nth mem_Collect_eq)

text \<open>A dominator comes first in the numbering.\<close>

lemma dom_pos: "reached b \<Longrightarrow> dom a b \<Longrightarrow> pos a \<le> pos b"
proof (induction "pos b" arbitrary: b rule: less_induct)
  case less
  show ?case
  proof (cases "a = b \<or> b = root")
    case True
    with less.prems show ?thesis
      using dom_root by auto
  next
    case False
    then obtain t where t: "(t, b) \<in> G" "reached t" "pos t < pos b"
      using tree less.prems(1) by blast
    have "dom a t"
      using dom_pred less.prems(2) False t(1) by blast
    with less.hyps [OF t(3) t(2)] t(3) show ?thesis
      by simp
  qed
qed

text \<open>The invariant of the array of immediate dominators.\<close>

definition idom_ok :: "nat option list \<Rightarrow> bool" where
  "idom_ok idom \<longleftrightarrow>
     length idom = nb \<and> idom ! root = Some root \<and>
     (\<forall>b < nb. \<forall>d. b \<noteq> root \<longrightarrow> idom ! b = Some d \<longrightarrow>
        reached b \<and> pos d < pos b \<and> d < nb \<and> idom ! d \<noteq> None \<and> (\<forall>a. dom a b \<longrightarrow> a \<noteq> b \<longrightarrow> dom a d))"

lemma idom_okD:
  assumes "idom_ok idom" and "idom ! b = Some d" and "b < nb" and "b \<noteq> root"
  shows "reached b" and "pos d < pos b" and "d < nb" and "idom ! d \<noteq> None"
    and "dom a b \<Longrightarrow> a \<noteq> b \<Longrightarrow> dom a d"
  using assms unfolding idom_ok_def by blast+

lemma idom_root: "idom_ok idom \<Longrightarrow> idom ! root = Some root"
  by (simp add: idom_ok_def)

lemma idom_len: "idom_ok idom \<Longrightarrow> length idom = nb"
  unfolding idom_ok_def by (rule conjunct1)

lemma processed_reached: "idom_ok idom \<Longrightarrow> b < nb \<Longrightarrow> idom ! b \<noteq> None \<Longrightarrow> reached b"
  using reach_root [of G root] idom_okD(1) by (cases "b = root") auto

lemma anc_root_eq: "anc idom a b \<Longrightarrow> idom ! root = Some root \<Longrightarrow> b = root \<Longrightarrow> a = root"
proof (induction rule: anc.induct)
  case (anc_up b d a)
  have "Some d = Some root"
    using anc_up.hyps(1) anc_up.prems by (metis)
  then have "d = root"
    by (rule option.inject [THEN iffD1])
  then show ?case
    by (rule anc_up.IH [OF anc_up.prems(1)])
qed

lemma anc_root: "idom_ok idom \<Longrightarrow> anc idom a root \<Longrightarrow> a = root"
  by (rule anc_root_eq [OF _ idom_root refl])

lemma anc_props:
  assumes "idom_ok idom"
  shows "anc idom a b \<Longrightarrow> b < nb \<Longrightarrow> idom ! b \<noteq> None \<Longrightarrow> a < nb \<and> idom ! a \<noteq> None \<and> (a = b \<or> pos a < pos b)"
proof (induction rule: anc.induct)
  case (anc_up b d a)
  show ?case
  proof (cases "b = root")
    case True
    with anc_up assms show ?thesis
      using anc_root idom_root by fastforce
  next
    case False
    note facts = idom_okD(2-4) [OF assms anc_up(1) \<open>b < nb\<close> False]
    from anc_up.IH [OF facts(2,3)] facts(1) show ?thesis
      by auto
  qed
qed simp

lemma anc_trans: "anc idom b c \<Longrightarrow> anc idom a b \<Longrightarrow> anc idom a c"
  by (induction rule: anc.induct) (auto intro: anc_up)

lemma anc_above: "anc idom a b \<Longrightarrow> a \<noteq> b \<Longrightarrow> idom ! b = Some d \<Longrightarrow> anc idom a d"
  by (erule anc_cases) auto

text \<open>The chain of a processed node contains its dominators.\<close>

lemma dom_anc:
  assumes "idom_ok idom"
  shows "b < nb \<Longrightarrow> idom ! b \<noteq> None \<Longrightarrow> dom a b \<Longrightarrow> anc idom a b"
proof (induction "pos b" arbitrary: b rule: less_induct)
  case less
  show ?case
  proof (cases "a = b \<or> b = root")
    case True
    with less.prems show ?thesis
      using dom_root anc_refl by blast
  next
    case False
    then obtain d where d: "idom ! b = Some d"
      using less.prems(2) by blast
    note facts = idom_okD [OF assms d less.prems(1)]
    have "anc idom a d"
      using less.hyps [of d] facts less.prems(3) False by blast
    with d show ?thesis
      by (rule anc_up)
  qed
qed

end

section \<open>The common ancestor\<close>

context numbered_graph
begin

definition processed :: "nat option list \<Rightarrow> nat \<Rightarrow> bool" where
  "processed idom b \<longleftrightarrow> b < nb \<and> idom ! b \<noteq> None"

text \<open>A node between \<open>c\<close> and \<open>b\<close> that is not passed by common ancestors or dominators with \<open>b'\<close>.\<close>

definition keeps :: "nat option list \<Rightarrow> nat \<Rightarrow> nat \<Rightarrow> nat \<Rightarrow> bool" where
  "keeps idom b b' c \<longleftrightarrow> processed idom c \<and> anc idom c b \<and>
     (\<forall>a. anc idom a b \<longrightarrow> anc idom a b' \<longrightarrow> anc idom a c) \<and>
     (\<forall>a. dom a b \<longrightarrow> dom a b' \<longrightarrow> dom a c)"

lemma root_first: "reached b \<Longrightarrow> pos root \<le> pos b"
  by (rule dom_pos) (auto simp: dom_by_def intro: walk_has_root)

lemma walk_up_keeps:
  assumes ok: "idom_ok idom" and b': "processed idom b'"
  shows "processed idom b \<Longrightarrow> \<exists>c. walk_up idom rpo_pos b b' = Some c \<and> keeps idom b b' c \<and>
    pos c \<le> pos b' \<and> (c = b \<or> pos b' < pos b \<and> pos c < pos b)"
proof (induction "pos b" arbitrary: b rule: less_induct)
  case less
  have r': "reached b'"
    using b' processed_reached [OF ok] by (simp add: processed_def)
  show ?case
  proof (cases "pos b' < pos b")
    case False
    then have "walk_up idom rpo_pos b b' = Some b"
      by (subst walk_up.simps) simp
    with False less.prems show ?thesis
      by (auto simp: keeps_def intro: anc_refl)
  next
    case True
    then have "b \<noteq> root"
      using root_first [OF r'] by auto
    obtain d where d: "idom ! b = Some d"
      using less.prems by (auto simp: processed_def)
    note facts = idom_okD [OF ok d _ \<open>b \<noteq> root\<close>]
    have b_less: "b < nb"
      using less.prems by (simp add: processed_def)
    have "processed idom d" "pos d < pos b"
      using facts(2-4) [OF b_less] by (simp_all add: processed_def)
    from less.hyps [OF this(2,1)] obtain c where c: "walk_up idom rpo_pos d b' = Some c"
      "keeps idom d b' c" "pos c \<le> pos b'" "c = d \<or> pos b' < pos d \<and> pos c < pos d"
      by blast
    have step: "walk_up idom rpo_pos b b' = Some c"
      using True c(1) by (subst walk_up.simps) (simp add: d)
    have up: "anc idom a d" if "anc idom a b" "anc idom a b'" for a
    proof (rule anc_above [OF that(1) _ d])
      show "a \<noteq> b"
        using anc_props [OF ok that(2)] b' True by (auto simp: processed_def)
    qed
    have dom_up: "dom a d" if "dom a b" "dom a b'" for a
    proof (rule facts(5) [OF b_less that(1)])
      show "a \<noteq> b"
        using dom_pos [OF r' that(2)] True by auto
    qed
    have "keeps idom b b' c"
      using c(2) up dom_up anc_up [OF d] unfolding keeps_def by blast
    moreover have "pos c < pos b"
      using c(4) \<open>pos d < pos b\<close> by auto
    ultimately show ?thesis
      using step c(3) True by blast
  qed
qed

text \<open>The nearest common ancestor, which the common dominators dominate.\<close>

definition meets :: "nat option list \<Rightarrow> nat \<Rightarrow> nat \<Rightarrow> nat \<Rightarrow> bool" where
  "meets idom b b' c \<longleftrightarrow> keeps idom b b' c \<and> anc idom c b'"

lemma meets_trans:
  assumes "keeps idom b b' c" and "keeps idom b' c c'" and "meets idom c c' e"
  shows "meets idom b b' e"
proof -
  have chain: "anc idom e b" "anc idom e b'"
    using assms anc_trans [of idom c b e] anc_trans [of idom c' b' e]
    by (simp_all add: keeps_def meets_def)
  have "anc idom a e" if "anc idom a b" "anc idom a b'" for a
  proof -
    have "anc idom a c"
      using assms(1) that by (simp add: keeps_def)
    moreover from this have "anc idom a c'"
      using assms(2) that by (simp add: keeps_def)
    ultimately show ?thesis
      using assms(3) by (simp add: keeps_def meets_def)
  qed
  moreover have "dom a e" if "dom a b" "dom a b'" for a
  proof -
    have "dom a c"
      using assms(1) that by (simp add: keeps_def)
    moreover from this have "dom a c'"
      using assms(2) that by (simp add: keeps_def)
    ultimately show ?thesis
      using assms(3) by (simp add: keeps_def meets_def)
  qed
  ultimately show ?thesis
    using chain assms(3) by (simp add: keeps_def meets_def)
qed

lemma intersect_meets:
  assumes ok: "idom_ok idom"
  shows "processed idom b \<Longrightarrow> processed idom b' \<Longrightarrow>
    \<exists>c. intersect b b' idom rpo_pos = Some c \<and> meets idom b b' c"
proof (induction "pos b + pos b'" arbitrary: b b' rule: less_induct)
  case less
  show ?case
  proof (cases "b = b'")
    case True
    then have "intersect b b' idom rpo_pos = Some b"
      by (subst intersect.simps) simp
    with True less.prems show ?thesis
      by (auto simp: meets_def keeps_def intro: anc_refl)
  next
    case False
    have "reached b" "reached b'"
      using less.prems processed_reached [OF ok] by (auto simp: processed_def)
    with False have neq: "pos b \<noteq> pos b'"
      using pos_inj by blast
    obtain c where c: "walk_up idom rpo_pos b b' = Some c" "keeps idom b b' c" "pos c \<le> pos b'"
      "c = b \<or> pos b' < pos b \<and> pos c < pos b"
      using walk_up_keeps [OF ok less.prems(2,1)] by blast
    have pc: "processed idom c"
      using c(2) by (simp add: keeps_def)
    obtain c' where c': "walk_up idom rpo_pos b' c = Some c'" "keeps idom b' c c'" "pos c' \<le> pos c"
      "c' = b' \<or> pos c < pos b' \<and> pos c' < pos b'"
      using walk_up_keeps [OF ok pc less.prems(2)] by blast
    have pc': "processed idom c'"
      using c'(2) by (simp add: keeps_def)
    have "pos c + pos c' < pos b + pos b'"
      using c(3,4) c'(3,4) neq by auto
    from less.hyps [OF this pc pc'] obtain e where e: "intersect c c' idom rpo_pos = Some e" "meets idom c c' e"
      by blast
    have "intersect b b' idom rpo_pos = Some e"
      using False c(1) c'(1) e(1) by (subst intersect.simps) simp
    moreover have "meets idom b b' e"
      by (rule meets_trans [OF c(2) c'(2) e(2)])
    ultimately show ?thesis
      by blast
  qed
qed

text \<open>The meet of the processed predecessors.\<close>

definition meets_all :: "nat option list \<Rightarrow> nat set \<Rightarrow> nat \<Rightarrow> bool" where
  "meets_all idom S c \<longleftrightarrow> processed idom c \<and> (\<forall>p \<in> S. anc idom c p) \<and>
     (\<forall>a. (\<forall>p \<in> S. anc idom a p) \<longrightarrow> anc idom a c) \<and>
     (\<forall>a. (\<forall>p \<in> S. dom a p) \<longrightarrow> dom a c)"

lemma meets_all_insert:
  assumes "meets_all idom S n" and "meets idom p n c"
  shows "meets_all idom (insert p S) c"
proof -
  have c: "processed idom c" "anc idom c p" "anc idom c n"
    "\<And>a. anc idom a p \<Longrightarrow> anc idom a n \<Longrightarrow> anc idom a c" "\<And>a. dom a p \<Longrightarrow> dom a n \<Longrightarrow> dom a c"
    using assms(2) by (simp_all add: meets_def keeps_def)
  have n: "\<And>q. q \<in> S \<Longrightarrow> anc idom n q" "\<And>a. \<forall>q \<in> S. anc idom a q \<Longrightarrow> anc idom a n"
    "\<And>a. \<forall>q \<in> S. dom a q \<Longrightarrow> dom a n"
    using assms(1) by (simp_all add: meets_all_def)
  have "anc idom c q" if "q \<in> insert p S" for q
    using that c(2) anc_trans [OF n(1) c(3), of q] by auto
  moreover have "anc idom a c" if "\<forall>q \<in> insert p S. anc idom a q" for a
    using that by (intro c(4) n(2)) simp_all
  moreover have "dom a c" if "\<forall>q \<in> insert p S. dom a q" for a
    using that by (intro c(5) n(3)) simp_all
  ultimately show ?thesis
    using c(1) by (simp add: meets_all_def)
qed

definition live :: "nat option list \<Rightarrow> nat list \<Rightarrow> nat set" where
  "live idom ps = {p \<in> set ps. idom ! p \<noteq> None}"

lemma meet_preds_meets:
  assumes ok: "idom_ok idom"
  shows "set ps \<subseteq> {..<nb} \<Longrightarrow>
    (case acc of None \<Rightarrow> S = {} | Some n \<Rightarrow> meets_all idom S n) \<Longrightarrow>
    \<exists>res. meet_preds idom rpo_pos ps acc = Some res \<and>
      (case res of
         None \<Rightarrow> S \<union> live idom ps = {}
       | Some c \<Rightarrow> meets_all idom (S \<union> live idom ps) c)"
proof (induction ps arbitrary: acc S)
  case Nil
  then show ?case
    by (cases acc) (simp_all add: live_def)
next
  case (Cons p ps)
  have rest: "set ps \<subseteq> {..<nb}"
    using Cons.prems(1) by simp
  show ?case
  proof (cases "idom ! p = None")
    case True
    then have "live idom (p # ps) = live idom ps"
      by (auto simp: live_def)
    with True Cons.IH [OF rest Cons.prems(2)] show ?thesis
      by (simp cong: option.case_cong)
  next
    case False
    then have p: "processed idom p"
      using Cons.prems(1) by (simp add: processed_def)
    obtain d where pd: "idom ! p = Some d"
      using False by blast
    have sets: "S \<union> live idom (p # ps) = insert p S \<union> live idom ps"
      using False by (auto simp: live_def)
    show ?thesis
    proof (cases acc)
      case None
      then have "S = {}"
        using Cons.prems(2) by simp
      have "meets_all idom (insert p S) p"
        using p \<open>S = {}\<close> by (simp add: meets_all_def anc_refl)
      with Cons.IH [OF rest, where acc = "Some p" and S = "insert p S"] None pd show ?thesis
        unfolding sets by simp
    next
      case (Some n)
      then have n: "meets_all idom S n"
        using Cons.prems(2) by simp
      then have "processed idom n"
        by (simp add: meets_all_def)
      from intersect_meets [OF ok p this]
      obtain c where c: "intersect p n idom rpo_pos = Some c" "meets idom p n c"
        by blast
      have "meets_all idom (insert p S) c"
        by (rule meets_all_insert [OF n c(2)])
      with Cons.IH [OF rest, where acc = "Some c" and S = "insert p S"] Some pd c(1) show ?thesis
        unfolding sets by simp
    qed
  qed
qed

end

section \<open>The passes\<close>

context numbered_graph
begin

text \<open>
  The state of pass \<open>k\<close> before position \<open>i\<close>: the chains of the nodes done in this pass respect
  the walks with \<open>k\<close> retreating edges, those of the other nodes the walks with one fewer.
\<close>

definition pass_inv :: "nat \<Rightarrow> nat \<Rightarrow> nat option list \<Rightarrow> bool" where
  "pass_inv k i idom \<longleftrightarrow>
     idom_ok idom \<and>
     (\<forall>z. reached z \<longrightarrow> pos z < i \<or> 0 < k \<longrightarrow> idom ! z \<noteq> None) \<and>
     (\<forall>z. processed idom z \<longrightarrow> z \<noteq> root \<longrightarrow> k = 0 \<longrightarrow> pos z < i) \<and>
     (\<forall>z a. processed idom z \<longrightarrow> pos z < i \<longrightarrow> anc idom a z \<longrightarrow> level k a z) \<and>
     (\<forall>z a m. k = Suc m \<longrightarrow> processed idom z \<longrightarrow> anc idom a z \<longrightarrow> level m a z)"

lemma pass_invD:
  assumes "pass_inv k i idom"
  shows "idom_ok idom"
    and "reached z \<Longrightarrow> pos z < i \<Longrightarrow> idom ! z \<noteq> None"
    and "reached z \<Longrightarrow> 0 < k \<Longrightarrow> idom ! z \<noteq> None"
    and "processed idom z \<Longrightarrow> z \<noteq> root \<Longrightarrow> k = 0 \<Longrightarrow> pos z < i"
    and "processed idom z \<Longrightarrow> pos z < i \<Longrightarrow> anc idom a z \<Longrightarrow> level k a z"
    and "k = Suc m \<Longrightarrow> processed idom z \<Longrightarrow> anc idom a z \<Longrightarrow> level m a z"
  using assms unfolding pass_inv_def by blast+

lemma level_root: "level k root b"
  by (auto simp: pdom_def dest: rwalk_walk walk_has_root)

lemma pass_inv_root:
  assumes "pass_inv k (pos root) idom"
  shows "pass_inv k (Suc (pos root)) idom"
proof -
  note D = pass_invD [OF assms]
  have here: "z = root" if "reached z" "pos z = pos root" for z
    using pos_inj that reach_root by blast
  have root: "idom ! root \<noteq> None"
    using idom_root [OF D(1)] by simp
  have anc: "level k a root" if "anc idom a root" for a
    using anc_root [OF D(1) that] level_root by simp
  have proc: "reached z" if "processed idom z" for z
    using processed_reached [OF D(1)] that by (simp add: processed_def)
  have "\<forall>z. reached z \<longrightarrow> pos z < Suc (pos root) \<or> 0 < k \<longrightarrow> idom ! z \<noteq> None"
    using here root D(2,3) less_Suc_eq by metis
  moreover have "\<forall>z. processed idom z \<longrightarrow> z \<noteq> root \<longrightarrow> k = 0 \<longrightarrow> pos z < Suc (pos root)"
    using D(4) less_SucI by blast
  moreover have "\<forall>z a. processed idom z \<longrightarrow> pos z < Suc (pos root) \<longrightarrow> anc idom a z \<longrightarrow> level k a z"
    using here anc proc D(5) less_Suc_eq by metis
  ultimately show ?thesis
    using D(1,6) unfolding pass_inv_def by blast
qed

lemma anc_update:
  "anc idom' a z \<Longrightarrow> idom' = idom[b := v] \<Longrightarrow> anc idom a z \<or> (anc idom b z \<and> anc idom' a b)"
proof (induction rule: anc.induct)
  case (anc_refl z)
  then show ?case
    by (simp add: anc.anc_refl)
next
  case (anc_up z d a)
  show ?case
  proof (cases "z = b")
    case True
    then show ?thesis
      using anc.anc_up [OF anc_up.hyps(1,2)] anc.anc_refl by blast
  next
    case False
    then have "idom ! z = Some d"
      using anc_up.hyps(1) anc_up.prems by simp
    with anc_up.IH [OF anc_up.prems] show ?thesis
      by (blast intro: anc.anc_up)
  qed
qed

text \<open>A chain that stays before \<open>b\<close> does not see an update of \<open>b\<close>.\<close>

lemma anc_update_before:
  assumes "idom_ok idom" and "processed idom z" and "pos z < pos b"
  shows "anc (idom[b := v]) a z \<Longrightarrow> anc idom a z"
proof -
  assume "anc (idom[b := v]) a z"
  from anc_update [OF this refl] show "anc idom a z"
    using anc_props [OF assms(1), of b z] assms(2,3) by (auto simp: processed_def)
qed

lemma live_meets:
  assumes "pass_inv k (pos b) idom" and "reached b" and "b \<noteq> root"
  shows "\<exists>c. meet_preds idom rpo_pos (preds_of P b) None = Some (Some c) \<and>
    meets_all idom {p. (p, b) \<in> G \<and> idom ! p \<noteq> None} c \<and> pos c < pos b"
proof -
  note D = pass_invD [OF assms(1)]
  have b: "b < nb"
    using assms(2) by (rule reached_less)
  have sub: "set (preds_of P b) \<subseteq> {..<nb}" and live: "live idom (preds_of P b) = {p. (p, b) \<in> G \<and> idom ! p \<noteq> None}"
    using preds [OF b] edge_less by (auto simp: live_def)
  obtain t where t: "(t, b) \<in> G" "reached t" "pos t < pos b"
    using tree assms(2,3) by blast
  then have t_live: "idom ! t \<noteq> None" "t < nb"
    using D(2) reached_less by blast+
  obtain res where res: "meet_preds idom rpo_pos (preds_of P b) None = Some res"
    "case res of None \<Rightarrow> live idom (preds_of P b) = {} | Some c \<Rightarrow> meets_all idom (live idom (preds_of P b)) c"
    using meet_preds_meets [OF D(1) sub, where acc = None and S = "{}"]
    unfolding Un_empty_left option.case by blast
  then obtain c where c: "res = Some c" "meets_all idom {p. (p, b) \<in> G \<and> idom ! p \<noteq> None} c"
    using t t_live(1) by (cases res) (auto simp: live)
  then have "anc idom c t"
    using t t_live(1) by (auto simp: meets_all_def)
  then have "pos c \<le> pos t"
    using anc_props [OF D(1)] t_live by fastforce
  with c res t(3) show ?thesis
    by auto
qed

text \<open>The chain of the updated node respects the walks through every predecessor.\<close>

lemma level_update:
  assumes inv: "pass_inv k (pos b) idom" and b: "reached b" "b \<noteq> root"
    and anc: "\<And>p. (p, b) \<in> G \<Longrightarrow> idom ! p \<noteq> None \<Longrightarrow> anc idom a p"
  shows "level k a b"
  unfolding pdom_def
proof (intro allI impI)
  fix w
  assume w: "rwalk G root pos k w b"
  note D = pass_invD [OF inv]
  from w show "a \<in> set w"
  proof (cases rule: rwalk.cases)
    case rwalk_root
    with b show ?thesis
      by simp
  next
    case (rwalk_forward w' p)
    then have p: "reached p"
      by (auto simp: reach_def dest: rwalk_walk)
    then have "idom ! p \<noteq> None"
      using D(2) rwalk_forward by blast
    with anc D(5) [of p a] rwalk_forward p have "level k a p"
      by (auto simp: processed_def dest: reached_less)
    with rwalk_forward show ?thesis
      by (auto simp: pdom_def)
  next
    case (rwalk_retreat m w' p)
    then have p: "reached p"
      by (auto simp: reach_def dest: rwalk_walk)
    then have "idom ! p \<noteq> None"
      using D(3) rwalk_retreat by blast
    with anc D(6) [of m p a] rwalk_retreat p have "level m a p"
      by (auto simp: processed_def dest: reached_less)
    with rwalk_retreat show ?thesis
      by (auto simp: pdom_def)
  qed
qed

end

section \<open>The step of a pass\<close>

context numbered_graph
begin

lemma idom_ok_update:
  assumes ok: "idom_ok idom" and b: "reached b" "b \<noteq> root"
    and c: "meets_all idom {p. (p, b) \<in> G \<and> idom ! p \<noteq> None} c" "pos c < pos b"
  shows "idom_ok (idom[b := Some c])"
proof -
  have len: "length idom = nb" "b < nb"
    by (rule idom_len [OF ok]) (rule reached_less [OF b(1)])
  have still: "idom[b := Some c] ! d \<noteq> None" if "idom ! d \<noteq> None" for d
    using that len by (cases "d = b") auto
  have pc: "c < nb" "idom ! c \<noteq> None"
    using c(1) by (simp_all add: meets_all_def processed_def)
  have dom: "dom a c" if "dom a b" "a \<noteq> b" for a
    using c(1) dom_pred [OF that] by (auto simp: meets_all_def)
  have "reached z \<and> pos d < pos z \<and> d < nb \<and> idom[b := Some c] ! d \<noteq> None \<and>
      (\<forall>a. dom a z \<longrightarrow> a \<noteq> z \<longrightarrow> dom a d)"
    if z: "z < nb" "z \<noteq> root" "idom[b := Some c] ! z = Some d" for z d
  proof (cases "z = b")
    case True
    then have "d = c"
      using z(3) len by simp
    with True show ?thesis
      using b(1) c(2) pc still dom by blast
  next
    case False
    then have "idom ! z = Some d"
      using z(3) by simp
    note facts = idom_okD [OF ok this z(1,2)]
    show ?thesis
      using facts still by blast
  qed
  moreover have "idom[b := Some c] ! root = Some root"
    using idom_root [OF ok] b(2) by simp
  moreover have "length (idom[b := Some c]) = nb"
    using len by simp
  ultimately show ?thesis
    unfolding idom_ok_def by blast
qed

lemma pass_inv_update:
  assumes inv: "pass_inv k (pos b) idom" and b: "reached b" "b \<noteq> root"
    and c: "meets_all idom {p. (p, b) \<in> G \<and> idom ! p \<noteq> None} c" "pos c < pos b"
  shows "pass_inv k (Suc (pos b)) (idom[b := Some c])" (is "pass_inv k _ ?I")
proof -
  note D = pass_invD [OF inv]
  have len: "length idom = nb" "b < nb"
    by (rule idom_len [OF D(1)]) (rule reached_less [OF b(1)])
  have pc: "processed idom c"
    using c(1) by (simp add: meets_all_def)
  have same: "?I ! z = idom ! z" if "z \<noteq> b" for z
    using that by simp
  have here: "?I ! b = Some c"
    using len by simp
  have ok: "idom_ok ?I"
    by (rule idom_ok_update [OF D(1) b c])
  have before: "pos z < pos b" if "reached z" "pos z < Suc (pos b)" "z \<noteq> b" for z
    using that pos_inj b(1) less_Suc_eq by blast
  have reached: "reached z" if "processed ?I z" for z
    using processed_reached [OF ok] that by (simp add: processed_def)
  have old: "processed idom z" if "processed ?I z" "z \<noteq> b" for z
    using that same by (simp add: processed_def)
  have at_b: "level k a b" if up: "anc ?I a b" for a
  proof (cases "a = b")
    case True
    then show ?thesis
      by (simp add: pdom_last)
  next
    case False
    have "anc ?I a c"
      by (rule anc_above [OF up False here])
    then have "anc idom a c"
      by (rule anc_update_before [OF D(1) pc c(2)])
    then have chains: "anc idom a p" if "(p, b) \<in> G" "idom ! p \<noteq> None" for p
      using c(1) that by (auto simp: meets_all_def intro: anc_trans)
    show ?thesis
      by (rule level_update [OF inv b chains])
  qed
  have "idom_ok ?I"
    by (rule ok)
  moreover have "\<forall>z. reached z \<longrightarrow> pos z < Suc (pos b) \<or> 0 < k \<longrightarrow> ?I ! z \<noteq> None"
    using here same before D(2,3) by (metis option.distinct(1))
  moreover have "\<forall>z. processed ?I z \<longrightarrow> z \<noteq> root \<longrightarrow> k = 0 \<longrightarrow> pos z < Suc (pos b)"
    using old D(4) less_SucI lessI by metis
  moreover have "\<forall>z a. processed ?I z \<longrightarrow> pos z < Suc (pos b) \<longrightarrow> anc ?I a z \<longrightarrow> level k a z"
  proof (intro allI impI)
    fix z a
    assume z: "processed ?I z" "pos z < Suc (pos b)" "anc ?I a z"
    show "level k a z"
    proof (cases "z = b")
      case True
      with z(3) at_b show ?thesis
        by blast
    next
      case False
      note z' = old [OF z(1) False] before [OF reached [OF z(1)] z(2) False]
      show ?thesis
        by (rule D(5) [OF z' anc_update_before [OF D(1) z' z(3)]])
    qed
  qed
  moreover have "level m a z" if "k = Suc m" "processed ?I z" "anc ?I a z" for z a m
  proof -
    have "processed idom z"
      using D(3) reached that(1,2) by (simp add: processed_def)
    note lev = D(6) [OF that(1) this]
    from anc_update [OF that(3) refl] show ?thesis
      using lev at_b pdom_trans pdom_mono that(1) by metis
  qed
  ultimately show ?thesis
    unfolding pass_inv_def by blast
qed

end

section \<open>The loop\<close>

context numbered_graph
begin

lemma pos_order: "reached z \<Longrightarrow> pos z < length order"
  using order_reach order_pos by (metis in_set_conv_nth mem_Collect_eq)

lemma order_split: "order = ds @ b # bs \<Longrightarrow> reached b \<and> pos b = length ds"
  using order_reach order_pos [of "length ds"] by auto

lemma dom_pass_inv:
  "order = ds @ bs \<Longrightarrow> pass_inv k (length ds) idom \<Longrightarrow>
    \<exists>idom' ch'. dom_pass root P rpo_pos bs idom ch = Some (idom', ch') \<and>
      pass_inv k (length order) idom' \<and> (\<not> ch' \<longrightarrow> idom' = idom)\<and> (ch \<longrightarrow> ch')"
proof (induction bs arbitrary: ds idom ch)
  case Nil
  then show ?case
    by simp
next
  case (Cons b bs)
  have b: "reached b" "pos b = length ds"
    using order_split [OF Cons.prems(1)] by blast+
  have split: "order = (ds @ [b]) @ bs"
    using Cons.prems(1) by simp
  have inv: "pass_inv k (pos b) idom"
    using Cons.prems(2) b(2) by simp
  show ?case
  proof (cases "b = root")
    case True
    have "pass_inv k (length (ds @ [b])) idom"
      using pass_inv_root inv b(2) True by simp
    from Cons.IH [OF split this] True show ?thesis
      by simp
  next
    case False
    obtain c where c: "meet_preds idom rpo_pos (preds_of P b) None = Some (Some c)"
      "meets_all idom {p. (p, b) \<in> G \<and> idom ! p \<noteq> None} c" "pos c < pos b"
      using live_meets [OF inv b(1) False] by blast
    have "pass_inv k (length (ds @ [b])) (idom[b := Some c])"
      using pass_inv_update [OF inv b(1) False c(2,3)] b(2) by simp
    note IH = Cons.IH [OF split this]
    show ?thesis
    proof (cases "idom ! b = Some c")
      case True
      then have "idom[b := Some c] = idom"
        using list_update_id [of idom b] by simp
      with IH False c(1) True show ?thesis
        by simp
    next
      case changed: False
      obtain idom' ch' where "dom_pass root P rpo_pos bs (idom[b := Some c]) True = Some (idom', ch')"
        "pass_inv k (length order) idom'" "ch'"
        using IH [of True] by blast
      with False c(1) changed show ?thesis
        by (intro exI [of _ idom'] exI [of _ True]) simp
    qed
  qed
qed

lemma pass_inv_next:
  assumes "pass_inv k (length order) idom"
  shows "pass_inv (Suc k) 0 idom"
proof -
  note D = pass_invD [OF assms]
  have "reached z" if "processed idom z" for z
    using processed_reached [OF D(1)] that by (simp add: processed_def)
  then have "level k a z" if "processed idom z" "anc idom a z" for a z
    using D(5) pos_order that by blast
  then show ?thesis
    using D(1,2) pos_order unfolding pass_inv_def by blast
qed

lemma pass_inv_start: "pass_inv 0 0 ((replicate nb None)[root := Some root])"
  using root_less by (auto simp: pass_inv_def idom_ok_def processed_def nth_list_update)

text \<open>What the loop computes: the chain of a reachable node is the set of its dominators.\<close>

definition exact :: "nat option list \<Rightarrow> bool" where
  "exact idom \<longleftrightarrow> (\<forall>z. reached z \<longrightarrow> idom ! z \<noteq> None \<and> (\<forall>a. anc idom a z \<longleftrightarrow> dom a z))"

lemma exactI:
  assumes inv: "pass_inv (Suc k) 0 idom" and deep: "\<And>a z. reached z \<Longrightarrow> anc idom a z \<Longrightarrow> dom a z"
  shows "exact idom"
  unfolding exact_def
proof (intro allI impI conjI iffI)
  note D = pass_invD [OF inv]
  fix z
  assume z: "reached z"
  show live: "idom ! z \<noteq> None"
    using D(3) [OF z] by simp
  fix a
  show "dom a z \<Longrightarrow> anc idom a z"
    by (rule dom_anc [OF D(1) reached_less [OF z] live])
  show "anc idom a z \<Longrightarrow> dom a z"
    by (rule deep [OF z])
qed

lemma exactD:
  assumes "exact idom" and "reached z"
  shows "idom ! z \<noteq> None" and "anc idom a z \<longleftrightarrow> dom a z" and "processed idom z"
  using assms reached_less unfolding exact_def processed_def by blast+

text \<open>An unchanged pass keeps the invariant of every later pass.\<close>

lemma unchanged_exact:
  assumes inv: "pass_inv k 0 idom" and pass: "dom_pass root P rpo_pos order idom False = Some (idom, False)"
  shows "exact idom"
proof (rule exactI)
  have nxt: "pass_inv (Suc j) 0 idom" if "pass_inv j 0 idom" for j
    using dom_pass_inv [of "[]" order j idom False] pass that pass_inv_next by auto
  then have later: "pass_inv (k + j) 0 idom" for j
    by (induction j) (simp_all add: inv)
  show "pass_inv (Suc k) 0 idom"
    by (rule nxt [OF inv])
  fix a z
  assume z: "reached z" "anc idom a z"
  show "dom a z"
  proof (rule pdom_dom)
    fix m
    note D = pass_invD [OF later [of "Suc m"]]
    have "processed idom z"
      using D(3) [OF z(1)] reached_less [OF z(1)] by (simp add: processed_def)
    then have "level (k + m) a z"
      using D(6) [of "k + m"] z(2) by simp
    then show "level m a z"
      by (rule pdom_le [rotated]) simp
  qed
qed

text \<open>On an exact array the meet of the predecessors is what the array already holds.\<close>

lemma dom_succ:
  assumes "\<And>p. (p, b) \<in> G \<Longrightarrow> reached p \<Longrightarrow> dom a p" and "b \<noteq> root"
  shows "dom a b"
  unfolding dom_by_def
proof (intro allI impI)
  fix w
  assume "walk G root w b"
  then show "a \<in> set w"
  proof (cases rule: walk.cases)
    case (walk_step w' p)
    then have "dom a p"
      using assms(1) by (auto simp: reach_def)
    with walk_step show ?thesis
      by (auto simp: dom_by_def)
  qed (use assms(2) in simp)
qed

lemma exact_meet:
  assumes ok: "idom_ok idom" and ex: "exact idom" and b: "reached b" "b \<noteq> root"
    and c: "meets_all idom {p. (p, b) \<in> G \<and> idom ! p \<noteq> None} c" "pos c < pos b"
  shows "idom ! b = Some c"
proof -
  have live: "idom ! z \<noteq> None" if "reached z" for z
    using ex that by (simp add: exact_def)
  have eq: "anc idom a z \<longleftrightarrow> dom a z" if "reached z" for a z
    using ex that unfolding exact_def by blast
  obtain d where d: "idom ! b = Some d"
    using live [OF b(1)] by blast
  note facts = idom_okD [OF ok d reached_less [OF b(1)] b(2)]
  have pc: "processed idom c" "reached c"
    using c(1) processed_reached [OF ok] by (auto simp: meets_all_def processed_def)
  have "dom c p" if "(p, b) \<in> G" "reached p" for p
    using c(1) that live eq unfolding meets_all_def by blast
  then have "dom c b"
    using b(2) by (rule dom_succ)
  then have "anc idom c b"
    using eq [OF b(1)] by blast
  then have cd: "anc idom c d"
    using anc_above [OF _ _ d] c(2) by blast
  have "anc idom d b"
    using d by (rule anc_up) (rule anc_refl)
  then have "dom d b"
    using eq [OF b(1)] by blast
  moreover have "d \<noteq> b"
    using facts(2) by auto
  ultimately have "dom d p" if "(p, b) \<in> G" for p
    using dom_pred that by blast
  then have "dom d c"
    using c(1) by (simp add: meets_all_def)
  then have "anc idom d c"
    using eq [OF pc(2)] by blast
  then have "c = d"
    using cd anc_props [OF ok cd facts(3,4)] anc_props [OF ok, of d c] pc(1) by (auto simp: processed_def)
  with d show ?thesis
    by simp
qed

end

section \<open>The loop ends with the dominators\<close>

context numbered_graph
begin

lemma dom_pass_exact:
  "exact idom \<Longrightarrow> order = ds @ bs \<Longrightarrow> pass_inv k (length ds) idom \<Longrightarrow>
    dom_pass root P rpo_pos bs idom ch = Some (idom, ch)"
proof (induction bs arbitrary: ds)
  case (Cons b bs)
  have b: "reached b" "pos b = length ds"
    using order_split [OF Cons.prems(2)] by blast+
  have split: "order = (ds @ [b]) @ bs"
    using Cons.prems(2) by simp
  have inv: "pass_inv k (pos b) idom"
    using Cons.prems(3) b(2) by simp
  show ?case
  proof (cases "b = root")
    case True
    have "pass_inv k (length (ds @ [b])) idom"
      using pass_inv_root inv b(2) True by simp
    from Cons.IH [OF Cons.prems(1) split this] True show ?thesis
      by simp
  next
    case False
    obtain c where c: "meet_preds idom rpo_pos (preds_of P b) None = Some (Some c)"
      "meets_all idom {p. (p, b) \<in> G \<and> idom ! p \<noteq> None} c" "pos c < pos b"
      using live_meets [OF inv b(1) False] by blast
    have eq: "idom ! b = Some c"
      by (rule exact_meet [OF pass_invD(1) [OF inv] Cons.prems(1) b(1) False c(2,3)])
    then have "idom[b := Some c] = idom"
      using list_update_id [of idom b] by simp
    then have "pass_inv k (length (ds @ [b])) idom"
      using pass_inv_update [OF inv b(1) False c(2,3)] b(2) by simp
    from Cons.IH [OF Cons.prems(1) split this] False c(1) eq show ?thesis
      by simp
  qed
qed simp

lemma dom_loop_exact_from:
  assumes K: "\<forall>a < nb. \<forall>b < nb. level K a b \<longrightarrow> dom a b"
  shows "pass_inv k 0 idom \<Longrightarrow> \<exists>idom'. dom_loop root P rpo_pos order idom = Some idom' \<and>
    exact idom' \<and> idom_ok idom'"
proof (induction "Suc (Suc K) - k" arbitrary: k idom rule: less_induct)
  case less
  obtain idom' ch' where pass: "dom_pass root P rpo_pos order idom False = Some (idom', ch')"
    "pass_inv k (length order) idom'" "\<not> ch' \<longrightarrow> idom' = idom"
    using dom_pass_inv [of "[]" order k idom False] less.prems by auto
  show ?case
  proof (cases ch')
    case False
    then have "exact idom"
      using unchanged_exact [OF less.prems] pass by simp
    moreover have "dom_loop root P rpo_pos order idom = Some idom"
      using pass(1,3) False by (subst dom_loop.simps) simp
    ultimately show ?thesis
      using pass_invD(1) [OF less.prems] by blast
  next
    case True
    have "k \<le> Suc K"
    proof (rule ccontr)
      assume "\<not> k \<le> Suc K"
      then obtain m where m: "k = Suc m" "K \<le> m"
        by (cases k) auto
      note D = pass_invD [OF less.prems]
      have "dom a z" if z: "reached z" "anc idom a z" for a z
      proof -
        have p: "processed idom z"
          using D(3) [OF z(1)] reached_less [OF z(1)] m(1) by (simp add: processed_def)
        have "level K a z"
          by (rule pdom_le [OF m(2) D(6) [OF m(1) p z(2)]])
        moreover have "a < nb" "z < nb"
          using anc_props [OF D(1) z(2)] p by (simp_all add: processed_def)
        ultimately show ?thesis
          using K by blast
      qed
      then have "exact idom"
        using exactI less.prems m(1) by blast
      from dom_pass_exact [OF this _ , of "[]" order k False] less.prems
      show False
        using pass(1) True by simp
    qed
    then have "Suc (Suc K) - Suc k < Suc (Suc K) - k"
      by simp
    from less.hyps [OF this pass_inv_next [OF pass(2)]]
    obtain r where r: "dom_loop root P rpo_pos order idom' = Some r" "exact r" "idom_ok r"
      by blast
    have "dom_loop root P rpo_pos order idom = Some r"
      using pass(1) True r(1) by (subst dom_loop.simps) simp
    with r show ?thesis
      by blast
  qed
qed

theorem dom_loop_exact:
  "\<exists>idom. dom_loop root P rpo_pos order ((replicate nb None)[root := Some root]) = Some idom \<and>
    exact idom \<and> idom_ok idom"
  using pdom_bound [of nb nb G root pos] dom_loop_exact_from [OF _ pass_inv_start] by blast

lemma unreached_none: "idom_ok idom \<Longrightarrow> b < nb \<Longrightarrow> \<not> reached b \<Longrightarrow> idom ! b = None"
  using processed_reached by blast

end

end
