(* ===== verification/CfgRpo.thy ===== *)
theory CfgRpo
  imports CfgDomLaws
begin

text \<open>
  What the first two stages of decompiler/src/cli/cfg/cfg_dominance.c provide: the predecessor
  table lists the sources of the edges into each block, and the depth-first search returns,
  within the fuel, the reachable blocks, each one after its whole subtree.
\<close>

definition edge_graph :: "CfgEdge list \<Rightarrow> (nat \<times> nat) set" where
  "edge_graph edges = {(ce_from e, s) |e s. e \<in> set edges \<and> ce_to e = Some s}"

text \<open>Edges lead from blocks to blocks, and the entry is a block.\<close>

definition wf_edges :: "nat \<Rightarrow> CfgEdge list \<Rightarrow> bool" where
  "wf_edges nb edges \<longleftrightarrow>
     (\<forall>e \<in> set edges. ce_from e < nb \<and> (case ce_to e of None \<Rightarrow> True | Some s \<Rightarrow> s < nb))"

definition wf_cfg :: "Cfg \<Rightarrow> bool" where
  "wf_cfg cfg \<longleftrightarrow> wf_edges (cfg_nb cfg) (cfg_edges cfg) \<and>
     (case cfg_entry_block cfg of None \<Rightarrow> False | Some entry \<Rightarrow> entry < cfg_nb cfg)"

lemma wf_edgesD: "wf_edges nb edges \<Longrightarrow> e \<in> set edges \<Longrightarrow> ce_from e < nb"
  "wf_edges nb edges \<Longrightarrow> e \<in> set edges \<Longrightarrow> ce_to e = Some s \<Longrightarrow> s < nb"
  by (fastforce simp: wf_edges_def)+

lemma wf_edges_graph: "wf_edges nb edges \<Longrightarrow> (a, b) \<in> edge_graph edges \<Longrightarrow> a < nb \<and> b < nb"
  by (auto simp: edge_graph_def dest: wf_edgesD)

section \<open>The search\<close>

text \<open>Every element has a predecessor behind it in the list or in \<open>T\<close>.\<close>

fun parented :: "(nat \<times> nat) set \<Rightarrow> nat list \<Rightarrow> nat set \<Rightarrow> bool" where
  "parented G [] T = True"
| "parented G (x # xs) T = ((\<exists>t \<in> set xs \<union> T. (t, x) \<in> G) \<and> parented G xs T)"

lemma parented_append:
  "parented G (xs @ ys) T \<longleftrightarrow> parented G xs (set ys \<union> T) \<and> parented G ys T"
  by (induction xs) (auto simp: Un_assoc)

lemma parented_mono: "parented G xs T \<Longrightarrow> T \<subseteq> T' \<Longrightarrow> parented G xs T'"
  by (induction xs) auto

lemma parented_snoc: "parented G xs {s} \<Longrightarrow> (p, s) \<in> G \<Longrightarrow> parented G (xs @ [s]) {p}"
  using parented_mono [of G xs "{s}" "{s, p}"] by (simp add: parented_append insert_commute)

definition unseen :: "bool list \<Rightarrow> nat" where
  "unseen seen = card {i. i < length seen \<and> \<not> seen ! i}"

definition grows :: "(nat \<times> nat) set \<Rightarrow> bool list \<Rightarrow> bool list \<Rightarrow> nat list \<Rightarrow> bool" where
  "grows G seen seen' new \<longleftrightarrow>
     length seen' = length seen \<and> (\<forall>i < length seen. seen' ! i \<longleftrightarrow> seen ! i \<or> i \<in> set new) \<and>
     distinct new \<and> (\<forall>i \<in> set new. i < length seen \<and> \<not> seen ! i) \<and>
     (\<forall>x \<in> set new. \<forall>y. (x, y) \<in> G \<longrightarrow> seen' ! y)"

lemma grows_refl: "grows G seen seen []"
  by (simp add: grows_def)

lemma grows_seen: "grows G seen seen' new \<Longrightarrow> y < length seen \<Longrightarrow> seen ! y \<Longrightarrow> seen' ! y"
  by (simp add: grows_def)

lemma grows_length: "grows G seen seen' new \<Longrightarrow> length seen' = length seen"
  by (simp add: grows_def)

lemma grows_trans:
  assumes "grows G s s' xs" and "grows G s' s'' ys" and "\<And>a b. (a, b) \<in> G \<Longrightarrow> b < length s"
  shows "grows G s s'' (xs @ ys)"
proof -
  note one = assms(1) [unfolded grows_def] and two = assms(2) [unfolded grows_def]
  have seen: "s'' ! y" if "y < length s" "s' ! y" for y
    using that one [THEN conjunct1] two by simp
  have "s'' ! y" if "x \<in> set (xs @ ys)" "(x, y) \<in> G" for x y
  proof (cases "x \<in> set xs")
    case True
    then show ?thesis
      using one that(2) by (intro seen [OF assms(3)]) blast+
  next
    case False
    then show ?thesis
      using two that by simp
  qed
  moreover have "\<forall>i < length s. s'' ! i \<longleftrightarrow> s ! i \<or> i \<in> set (xs @ ys)"
    using one two by simp
  moreover have "distinct (xs @ ys)" "\<forall>i \<in> set (xs @ ys). i < length s \<and> \<not> s ! i"
    using one two by auto
  ultimately show ?thesis
    using one two by (simp add: grows_def)
qed

lemma unseen_mono: "grows G s s' xs \<Longrightarrow> unseen s' \<le> unseen s"
  unfolding unseen_def grows_def by (intro card_mono) auto

lemma unseen_mark: "b < length seen \<Longrightarrow> \<not> seen ! b \<Longrightarrow> unseen (seen[b := True]) < unseen seen"
  unfolding unseen_def by (intro psubset_card_mono) (auto simp: nth_list_update split: if_splits)

text \<open>The block itself is marked before its successors and listed after them.\<close>

lemma grows_finish:
  assumes "grows G (seen[b := True]) seen' xs" and "b < length seen" and "\<not> seen ! b"
    and "\<And>y. (b, y) \<in> G \<Longrightarrow> seen' ! y"
  shows "grows G seen seen' (xs @ [b])"
proof -
  have "i < length seen \<and> i \<noteq> b \<and> \<not> seen ! i" if "i \<in> set xs" for i
    using assms(1-3) that by (auto simp: grows_def nth_list_update split: if_splits)
  with assms show ?thesis
    by (auto simp: grows_def nth_list_update)
qed

definition post_spec :: "nat \<Rightarrow> CfgEdge list \<Rightarrow> nat \<Rightarrow> nat \<Rightarrow> bool list \<times> nat list \<Rightarrow> bool" where
  "post_spec nb edges fuel bi st \<longleftrightarrow>
     (\<exists>seen' new. dfs_post edges fuel bi st = Some (seen', snd st @ new) \<and>
        grows (edge_graph edges) (fst st) seen' new \<and> seen' ! bi \<and>
        (if fst st ! bi then new = [] else \<exists>ns. new = ns @ [bi] \<and> parented (edge_graph edges) ns {bi}))"

definition edges_spec :: "nat \<Rightarrow> CfgEdge list \<Rightarrow> nat \<Rightarrow> CfgEdge list \<Rightarrow> nat \<Rightarrow> bool list \<times> nat list \<Rightarrow> bool" where
  "edges_spec nb edges fuel es bi st \<longleftrightarrow>
     (\<exists>seen' new. dfs_edges edges fuel es bi st = Some (seen', snd st @ new) \<and>
        grows (edge_graph edges) (fst st) seen' new \<and> parented (edge_graph edges) new {bi} \<and>
        (\<forall>e \<in> set es. \<forall>s. ce_from e = bi \<longrightarrow> ce_to e = Some s \<longrightarrow> seen' ! s))"

lemma dfs_spec:
  shows "wf_edges nb edges \<Longrightarrow> length (fst st) = nb \<Longrightarrow> bi < nb \<Longrightarrow> unseen (fst st) < fuel \<Longrightarrow>
      post_spec nb edges fuel bi st"
    and "wf_edges nb edges \<Longrightarrow> length (fst st) = nb \<Longrightarrow> bi < nb \<Longrightarrow> set es \<subseteq> set edges \<Longrightarrow>
      unseen (fst st) < fuel \<Longrightarrow> edges_spec nb edges fuel es bi st"
proof (induction edges fuel bi st and edges fuel es bi st rule: dfs_post_dfs_edges.induct)
  case (1 edges bi st)
  then show ?case
    by simp
next
  case (2 edges fuel bi seen order)
  show ?case
  proof (cases "seen ! bi")
    case True
    then show ?thesis
      by (simp add: post_spec_def grows_refl)
  next
    case False
    have len: "bi < length seen"
      using "2.prems"(2,3) by simp
    have "unseen (seen[bi := True]) < fuel"
      using unseen_mark [OF len False] "2.prems"(4) by simp
    with "2.IH" [OF False] "2.prems" have "edges_spec nb edges fuel edges bi (seen[bi := True], order)"
      by simp
    then obtain seen' new where new: "dfs_edges edges fuel edges bi (seen[bi := True], order) = Some (seen', order @ new)"
      "grows (edge_graph edges) (seen[bi := True]) seen' new" "parented (edge_graph edges) new {bi}"
      "\<And>e s. e \<in> set edges \<Longrightarrow> ce_from e = bi \<Longrightarrow> ce_to e = Some s \<Longrightarrow> seen' ! s"
      by (auto simp: edges_spec_def)
    have "seen' ! y" if "(bi, y) \<in> edge_graph edges" for y
      using that new(4) by (auto simp: edge_graph_def)
    from grows_finish [OF new(2) len False this] have "grows (edge_graph edges) seen seen' (new @ [bi])" .
    moreover have "seen' ! bi"
      using grows_seen [OF new(2)] len by simp
    ultimately show ?thesis
      using new(1,3) False unfolding post_spec_def by simp
  qed
next
  case (3 edges fuel bi st)
  then show ?case
    unfolding edges_spec_def by (intro exI [of _ "fst st"] exI [of _ "[]"]) (simp add: grows_refl)
next
  case (4 edges fuel e es bi st)
  have rest: "set es \<subseteq> set edges" and e: "e \<in> set edges"
    using "4.prems"(4) by simp_all
  consider "ce_from e \<noteq> bi" | "ce_from e = bi" "ce_to e = None" | s where "ce_from e = bi" "ce_to e = Some s"
    by blast
  then show ?case
  proof cases
    case 1
    with "4.IH"(1) "4.prems" rest have "edges_spec nb edges fuel es bi st"
      by simp
    with 1 show ?thesis
      by (simp add: edges_spec_def)
  next
    case 2
    with "4.IH"(2) "4.prems" rest have "edges_spec nb edges fuel es bi st"
      by simp
    with 2 show ?thesis
      by (simp add: edges_spec_def)
  next
    case 3
    note wf = "4.prems"(1)
    have s: "s < nb" and G: "(bi, s) \<in> edge_graph edges"
      using wf_edgesD(2) [OF wf e 3(2)] e 3 by (auto simp: edge_graph_def)
    from "4.IH"(3) 3 "4.prems" s have "post_spec nb edges fuel s st"
      by simp
    then obtain seen' new where new: "dfs_post edges fuel s st = Some (seen', snd st @ new)"
      "grows (edge_graph edges) (fst st) seen' new" "seen' ! s" "parented (edge_graph edges) new {bi}"
      using G by (auto simp: post_spec_def parented_snoc split: if_splits)
    have len: "length seen' = nb" "unseen seen' < fuel"
      using grows_length [OF new(2)] unseen_mono [OF new(2)] "4.prems" by simp_all
    with "4.IH"(4) [of s "(seen', snd st @ new)"] 3 new(1) "4.prems" rest
    have "edges_spec nb edges fuel es bi (seen', snd st @ new)"
      by simp
    then obtain seen'' more where more: "dfs_edges edges fuel es bi (seen', snd st @ new) = Some (seen'', (snd st @ new) @ more)"
      "grows (edge_graph edges) seen' seen'' more" "parented (edge_graph edges) more {bi}"
      "\<forall>e \<in> set es. \<forall>s. ce_from e = bi \<longrightarrow> ce_to e = Some s \<longrightarrow> seen'' ! s"
      by (auto simp: edges_spec_def)
    have "b < length (fst st)" if "(a, b) \<in> edge_graph edges" for a b
      using wf_edges_graph [OF wf that] "4.prems"(2) by simp
    from grows_trans [OF new(2) more(2) this]
    have "grows (edge_graph edges) (fst st) seen'' (new @ more)" .
    moreover have "parented (edge_graph edges) (new @ more) {bi}"
      using new(4) more(3) by (auto simp: parented_append elim: parented_mono)
    moreover have "seen'' ! s"
      using grows_seen [OF more(2)] new(3) len(1) s by simp
    ultimately show ?thesis
      using 3 new(1) more(1,4) unfolding edges_spec_def by simp
  qed
qed

text \<open>A list in which all elements but the last have a predecessor behind them.\<close>

lemma parented_nth: "parented G xs T \<Longrightarrow> i < length xs \<Longrightarrow>
    \<exists>t. (t, xs ! i) \<in> G \<and> (t \<in> T \<or> (\<exists>j. i < j \<and> j < length xs \<and> t = xs ! j))"
proof (induction xs arbitrary: i)
  case (Cons x xs)
  show ?case
  proof (cases i)
    case 0
    obtain t where t: "(t, x) \<in> G" "t \<in> set xs \<union> T"
      using Cons.prems(1) by auto
    show ?thesis
    proof (cases "t \<in> T")
      case False
      then obtain j where "j < length xs" "t = xs ! j"
        using t(2) by (auto simp: in_set_conv_nth)
      then show ?thesis
        using t(1) 0 by (intro exI [of _ t]) (auto intro!: exI [of _ "Suc j"])
    qed (use t(1) 0 in auto)
  next
    case (Suc n)
    then obtain t where "(t, xs ! n) \<in> G" "t \<in> T \<or> (\<exists>j. n < j \<and> j < length xs \<and> t = xs ! j)"
      using Cons.IH [of n] Cons.prems by auto
    then show ?thesis
      using Suc by (metis Suc_less_eq length_Cons nth_Cons_Suc)
  qed
qed simp

lemma parented_reach: "parented G xs {root} \<Longrightarrow> i < length xs \<Longrightarrow> reach G root (xs ! i)"
proof (induction "length xs - i" arbitrary: i rule: less_induct)
  case less
  obtain t where t: "(t, xs ! i) \<in> G" "t = root \<or> (\<exists>j. i < j \<and> j < length xs \<and> t = xs ! j)"
    using parented_nth [OF less.prems] by blast
  have "reach G root t"
    using t(2) less reach_root by (auto simp: diff_less_mono2)
  then show ?case
    using t(1) by (rule reach_step)
qed

lemma grows_reach:
  assumes "grows G s s' new" and "root \<in> set new" and "\<And>y. y < length s \<Longrightarrow> \<not> s ! y"
    and "\<And>a b. (a, b) \<in> G \<Longrightarrow> b < length s"
  shows "walk G root w b \<Longrightarrow> b \<in> set new"
proof (induction rule: walk.induct)
  case walk_root
  show ?case
    by (rule assms(2))
next
  case (walk_step w a b)
  have b: "b < length s"
    using assms(4) walk_step.hyps(2) .
  moreover have "s' ! b"
    using assms(1) walk_step by (simp add: grows_def)
  ultimately show ?case
    using assms(1) assms(3) [OF b] by (simp add: grows_def)
qed

lemma dfs_order:
  assumes wf: "wf_edges nb edges" and entry: "entry < nb"
  shows "\<exists>seen ns. dfs_post edges (nb + 1) entry (replicate nb False, []) = Some (seen, ns @ [entry]) \<and>
    parented (edge_graph edges) ns {entry} \<and> distinct (ns @ [entry]) \<and>
    set (ns @ [entry]) = {b. reach (edge_graph edges) entry b} \<and> set (ns @ [entry]) \<subseteq> {..<nb}"
proof -
  let ?G = "edge_graph edges" and ?st = "(replicate nb False, [])"
  have "unseen (fst ?st) \<le> nb"
    unfolding unseen_def by (rule order_trans [OF card_mono [of "{..<nb}"]]) auto
  then have "post_spec nb edges (nb + 1) entry ?st"
    using entry by (intro dfs_spec(1) [OF wf]) simp_all
  then obtain seen ns where ns: "dfs_post edges (nb + 1) entry ?st = Some (seen, ns @ [entry])"
    "grows ?G (replicate nb False) seen (ns @ [entry])" "parented ?G ns {entry}"
    using entry by (auto simp: post_spec_def)
  have less: "b < length (replicate nb False)" if "(a, b) \<in> ?G" for a b
    using wf_edges_graph [OF wf that] by simp
  have "b \<in> set (ns @ [entry])" if "walk ?G entry w b" for w b
    by (rule grows_reach [OF ns(2) _ _ less that]) simp_all
  moreover have "reach ?G entry b" if "b \<in> set (ns @ [entry])" for b
    using that parented_reach [OF ns(3)] reach_root by (auto simp: in_set_conv_nth)
  ultimately have "set (ns @ [entry]) = {b. reach ?G entry b}"
    unfolding reach_def by blast
  moreover have "distinct (ns @ [entry])" "set (ns @ [entry]) \<subseteq> {..<nb}"
    using ns(2) by (auto simp: grows_def)
  ultimately show ?thesis
    using ns(1,3) by blast
qed

section \<open>The reversed order and the positions\<close>

lemma reverse_steps:
  assumes "k \<le> length xs div 2"
  defines "n \<equiv> length xs"
  shows "foldl (\<lambda>ys i. let t = ys ! i in ys[i := ys ! (n - 1 - i), n - 1 - i := t]) xs [0..<k] =
    List.map (\<lambda>j. if j < k \<or> n - k \<le> j then xs ! (n - 1 - j) else xs ! j) [0..<n]"
  using assms(1)
proof (induction k)
  case 0
  then show ?case
    by (auto simp: n_def intro!: nth_equalityI)
next
  case (Suc k)
  then have k: "k < n - 1 - k" "n - 1 - k < n"
    by (auto simp: n_def)
  let ?step = "\<lambda>ys i. let t = ys ! i in ys[i := ys ! (n - 1 - i), n - 1 - i := t]"
  let ?half = "\<lambda>j. if j < k \<or> n - k \<le> j then xs ! (n - 1 - j) else xs ! j"
  let ?next = "\<lambda>j. if j < Suc k \<or> n - Suc k \<le> j then xs ! (n - 1 - j) else xs ! j"
  show ?case
    unfolding upt_Suc_append [OF le0] foldl_append Suc.IH [OF Suc_leD [OF Suc.prems]]
  proof (rule nth_equalityI)
    fix j
    assume "j < length (foldl ?step (List.map ?half [0..<n]) [k])"
    then have j: "j < n"
      by (simp add: Let_def)
    consider "j = k" | "j = n - 1 - k" | "j \<noteq> k" "j \<noteq> n - 1 - k"
      by blast
    then show "foldl ?step (List.map ?half [0..<n]) [k] ! j = List.map ?next [0..<n] ! j"
    proof cases
      case 2
      moreover have "n - 1 - (n - 1 - k) = k" "\<not> n - k \<le> k" "n - Suc k \<le> n - 1 - k"
        using k by linarith+
      ultimately show ?thesis
        using k by (simp add: Let_def)
    next
      case 3
      then have "j < Suc k \<or> n - Suc k \<le> j \<longleftrightarrow> j < k \<or> n - k \<le> j"
        by linarith
      with 3 j show ?thesis
        by (simp add: Let_def del: less_Suc_eq_le)
    qed (use k in \<open>simp add: Let_def\<close>)
  qed (simp add: Let_def)
qed

lemma reverse_in_place_rev: "reverse_in_place xs = rev xs"
proof -
  have "length xs - Suc i = i" if "\<not> i < length xs div 2" "\<not> length xs - length xs div 2 \<le> i" for i
    using that by linarith
  then show ?thesis
    unfolding reverse_in_place_def
    by (subst reverse_steps) (auto intro!: nth_equalityI simp: rev_nth)
qed

lemma rpo_positions_nth:
  assumes "distinct order" and "set order \<subseteq> {..<nb}" and "i < length order"
  shows "rpo_positions nb order ! (order ! i) = i"
proof -
  have "k \<le> length order \<Longrightarrow>
      length (foldl (\<lambda>pos i. pos[order ! i := i]) (replicate nb CFG_INVALID) [0..<k]) = nb \<and>
      (\<forall>i < k. foldl (\<lambda>pos i. pos[order ! i := i]) (replicate nb CFG_INVALID) [0..<k] ! (order ! i) = i)" for k
  proof (induction k)
    case (Suc k)
    have "order ! k < nb"
      using subsetD [OF assms(2) nth_mem [of k order]] Suc.prems by simp
    with Suc show ?case
      using assms(1) by (auto simp: nth_list_update nth_eq_iff_index_eq less_Suc_eq)
  qed simp
  from this [OF order_refl] assms(3) show ?thesis
    by (simp add: rpo_positions_def)
qed

lemma build_rpo_spec:
  assumes wf: "wf_edges (cfg_nb cfg) (cfg_edges cfg)" and entry: "entry < cfg_nb cfg"
  defines "G \<equiv> edge_graph (cfg_edges cfg)"
  shows "\<exists>order pos. build_rpo cfg entry = Some (order, pos) \<and> set order = {b. reach G entry b} \<and>
    (\<forall>i < length order. pos ! (order ! i) = i) \<and>
    (\<forall>b. reach G entry b \<longrightarrow> b \<noteq> entry \<longrightarrow> (\<exists>t. (t, b) \<in> G \<and> reach G entry t \<and> pos ! t < pos ! b))"
proof -
  obtain seen ns where ns:
    "dfs_post (cfg_edges cfg) (cfg_nb cfg + 1) entry (replicate (cfg_nb cfg) False, []) = Some (seen, ns @ [entry])"
    "parented G ns {entry}" "distinct (ns @ [entry])" "set (ns @ [entry]) = {b. reach G entry b}"
    "set (ns @ [entry]) \<subseteq> {..<cfg_nb cfg}"
    using dfs_order [OF wf entry] unfolding G_def by blast
  let ?post = "ns @ [entry]"
  let ?order = "rev ?post"
  let ?pos = "rpo_positions (cfg_nb cfg) ?order"
  have rpo: "build_rpo cfg entry = Some (?order, ?pos)"
    using ns(1) by (simp add: build_rpo_def reverse_in_place_rev Let_def del: rev_append)
  have pos: "?pos ! (?order ! i) = i" if "i < length ?order" for i
    using ns(3,5) that by (intro rpo_positions_nth) (auto simp del: rev_append)
  have post: "?pos ! (?post ! i) = length ns - i" if "i < length ?post" for i
    using pos [of "length ns - i"] that by (simp add: rev_nth del: rev_append append_assoc)
  have "\<exists>t. (t, b) \<in> G \<and> reach G entry t \<and> ?pos ! t < ?pos ! b" if b: "reach G entry b" "b \<noteq> entry" for b
  proof -
    obtain i where i: "i < length ns" "b = ?post ! i"
      using b ns(4) by (metis append_Nil2 in_set_conv_nth length_append_singleton less_SucE mem_Collect_eq nth_append_length)
    then have bi: "b = ns ! i"
      by (simp add: nth_append)
    obtain t where t: "(t, b) \<in> G" "t = entry \<or> (\<exists>j. i < j \<and> j < length ns \<and> t = ns ! j)"
      using parented_nth [OF ns(2) i(1)] bi by blast
    then obtain j where j: "i < j" "j < length ?post" "t = ?post ! j"
      using i(1) by (elim disjE exE) (auto simp: nth_append)
    have "reach G entry t"
      using j(2,3) ns(4) nth_mem [of j ?post] by auto
    moreover have "?pos ! t < ?pos ! b"
      using post [of i] post [of j] i j by auto
    ultimately show ?thesis
      using t(1) by blast
  qed
  moreover have "set ?order = {b. reach G entry b}"
    using ns(4) by simp
  ultimately show ?thesis
    using rpo pos by blast
qed

section \<open>The table of predecessors\<close>

definition edges_into :: "CfgEdge list \<Rightarrow> nat \<Rightarrow> CfgEdge list" where
  "edges_into edges b = filter (\<lambda>e. ce_to e = Some b) edges"

lemma edges_into_simps [simp]:
  "edges_into [] b = []"
  "edges_into (e # es) b = (if ce_to e = Some b then e # edges_into es b else edges_into es b)"
  "edges_into (es @ es') b = edges_into es b @ edges_into es' b"
  by (simp_all add: edges_into_def)

definition row_start :: "CfgEdge list \<Rightarrow> nat \<Rightarrow> nat" where
  "row_start edges b = (\<Sum>t < b. length (edges_into edges t))"

lemma row_start_Suc [simp]: "row_start edges (Suc b) = row_start edges b + length (edges_into edges b)"
  by (simp add: row_start_def)

lemma row_start_0 [simp]: "row_start edges 0 = 0"
  by (simp add: row_start_def)

lemma row_start_mono: "a \<le> b \<Longrightarrow> row_start edges a \<le> row_start edges b"
  unfolding row_start_def by (rule sum_mono2) auto

lemma count_preds_nth:
  "wf_edges nb es \<Longrightarrow> length offs = nb + 1 \<Longrightarrow> length (count_preds es offs) = nb + 1 \<and>
    (\<forall>i \<le> nb. count_preds es offs ! i = offs ! i + (if i = 0 then 0 else length (edges_into es (i - 1))))"
proof (induction es arbitrary: offs)
  case (Cons e es)
  have wf: "wf_edges nb es"
    using Cons.prems(1) by (simp add: wf_edges_def)
  show ?case
  proof (cases "ce_to e")
    case None
    with Cons.IH [OF wf Cons.prems(2)] show ?thesis
      by simp
  next
    case (Some s)
    then have "s < nb"
      using Cons.prems(1) by (simp add: wf_edges_def)
    with Cons.IH [OF wf, of "offs[s + 1 := offs ! (s + 1) + 1]"] Cons.prems(2) Some show ?thesis
      by (auto simp: nth_list_update)
  qed
qed simp

lemma prefix_sums_nth:
  assumes "length offs = nb + 1" and "offs ! 0 = 0" and "\<And>i. i < nb \<Longrightarrow> offs ! Suc i = length (edges_into edges i)"
  shows "length (prefix_sums nb offs) = nb + 1 \<and> (\<forall>i \<le> nb. prefix_sums nb offs ! i = row_start edges i)"
proof -
  let ?step = "\<lambda>offs i. offs[i := offs ! i + offs ! (i - 1)]"
  have "k \<le> nb \<Longrightarrow> length (foldl ?step offs [1..<k + 1]) = nb + 1 \<and>
      (\<forall>i \<le> k. foldl ?step offs [1..<k + 1] ! i = row_start edges i) \<and>
      (\<forall>i. k < i \<longrightarrow> foldl ?step offs [1..<k + 1] ! i = offs ! i)" for k
  proof (induction k)
    case (Suc k)
    let ?o = "foldl ?step offs [1..<k + 1]"
    have IH: "length ?o = nb + 1" "\<And>i. i \<le> k \<Longrightarrow> ?o ! i = row_start edges i" "\<And>i. k < i \<Longrightarrow> ?o ! i = offs ! i"
      using Suc by auto
    have "foldl ?step offs [1..<Suc k + 1] = ?o[Suc k := ?o ! Suc k + ?o ! k]"
      by simp
    moreover have "?o ! Suc k + ?o ! k = row_start edges (Suc k)"
      using IH(2) [of k] IH(3) [of "Suc k"] assms(3) [of k] Suc.prems by simp
    ultimately show ?case
      using IH Suc.prems by (auto simp: nth_list_update le_Suc_eq)
  qed (use assms(1,2) in auto)
  from this [OF order_refl] show ?thesis
    unfolding prefix_sums_def by blast
qed

text \<open>The invariant of the loop that fills the rows: \<open>ds\<close> are the edges already seen.\<close>

definition filled :: "nat \<Rightarrow> CfgEdge list \<Rightarrow> CfgEdge list \<Rightarrow> nat list \<Rightarrow> bool" where
  "filled nb edges ds preds \<longleftrightarrow> length preds = row_start edges nb \<and>
     (\<forall>b < nb. \<forall>k < length (edges_into ds b).
        preds ! (row_start edges b + k) = ce_from (edges_into ds b ! k))"

lemma row_disjoint:
  assumes "row_start edges b + k = row_start edges b' + k'" and "k < length (edges_into edges b)"
    and "k' < length (edges_into edges b')"
  shows "b = b'"
proof (rule ccontr)
  assume "b \<noteq> b'"
  then consider "Suc b \<le> b'" | "Suc b' \<le> b"
    by linarith
  then show False
    using row_start_mono [of "Suc b" b' edges] row_start_mono [of "Suc b'" b edges] assms by cases auto
qed

lemma filled_step:
  assumes "filled nb edges ds preds" and "edges = ds @ e # es" and "ce_to e = Some s" and "s < nb"
  shows "filled nb edges (ds @ [e]) (preds[row_start edges s + length (edges_into ds s) := ce_from e])"
proof -
  let ?at = "row_start edges s + length (edges_into ds s)"
  have room: "length (edges_into ds s) < length (edges_into edges s)"
    using assms(2,3) by simp
  then have "?at < row_start edges (Suc s)"
    by simp
  also have "\<dots> \<le> row_start edges nb"
    using assms(4) by (intro row_start_mono) simp
  finally have at: "?at < length preds"
    using assms(1) by (simp add: filled_def)
  have "preds[?at := ce_from e] ! (row_start edges b + k) = ce_from (edges_into (ds @ [e]) b ! k)"
    if b: "b < nb" "k < length (edges_into (ds @ [e]) b)" for b k
  proof (cases "row_start edges b + k = ?at")
    case True
    have "length (edges_into (ds @ [e]) b) \<le> length (edges_into edges b)"
      using assms(2) by simp
    then have "b = s"
      using row_disjoint [OF True _ room] b(2) by simp
    with True at assms(3) show ?thesis
      by simp
  next
    case False
    then have "k < length (edges_into ds b)"
      using b(2) assms(3) by (auto split: if_splits simp: less_Suc_eq)
    with False assms(1) b(1) show ?thesis
      by (simp add: filled_def nth_append)
  qed
  then show ?thesis
    using assms(1) by (simp add: filled_def)
qed

lemma fill_preds_filled:
  assumes wf: "wf_edges nb edges" and offs: "\<And>i. i \<le> nb \<Longrightarrow> offs ! i = row_start edges i"
  shows "edges = ds @ es \<Longrightarrow> filled nb edges ds preds \<Longrightarrow> length cursor = nb \<Longrightarrow>
    (\<And>b. b < nb \<Longrightarrow> cursor ! b = length (edges_into ds b)) \<Longrightarrow>
    filled nb edges edges (fill_preds offs es preds cursor)"
proof (induction es arbitrary: ds preds cursor)
  case (Cons e es)
  have split: "edges = (ds @ [e]) @ es"
    using Cons.prems(1) by simp
  show ?case
  proof (cases "ce_to e")
    case None
    have "filled nb edges (ds @ [e]) preds"
      using Cons.prems(2) None by (simp add: filled_def)
    from Cons.IH [OF split this Cons.prems(3)] Cons.prems(4) None show ?thesis
      by simp
  next
    case (Some s)
    then have s: "s < nb"
      using wf_edgesD(2) [OF wf _ Some] Cons.prems(1) by simp
    have "filled nb edges edges (fill_preds offs es
        (preds[row_start edges s + length (edges_into ds s) := ce_from e]) (cursor[s := cursor ! s + 1]))"
      using Cons.prems(3,4) Some s
      by (intro Cons.IH [OF split filled_step [OF Cons.prems(2,1) Some s]]) (auto simp: nth_list_update)
    with Some s offs Cons.prems(4) show ?thesis
      by simp
  qed
qed simp

lemma build_preds_filled:
  assumes wf: "wf_edges (cfg_nb cfg) (cfg_edges cfg)"
  shows "\<exists>offs preds. build_preds cfg = (offs, preds) \<and>
    (\<forall>i \<le> cfg_nb cfg. offs ! i = row_start (cfg_edges cfg) i) \<and>
    filled (cfg_nb cfg) (cfg_edges cfg) (cfg_edges cfg) preds"
proof -
  let ?nb = "cfg_nb cfg" and ?es = "cfg_edges cfg"
  let ?zero = "replicate (?nb + 1) (0 :: nat)"
  define offs where "offs = prefix_sums ?nb (count_preds ?es ?zero)"
  note cnt = count_preds_nth [OF wf, of ?zero, simplified]
  have offs: "offs ! i = row_start ?es i" if "i \<le> ?nb" for i
    using prefix_sums_nth [of "count_preds ?es ?zero" ?nb ?es] cnt that by (simp add: offs_def)
  have "filled ?nb ?es ?es (fill_preds offs ?es (replicate (offs ! ?nb) 0) (replicate ?nb 0))"
    by (rule fill_preds_filled [OF wf offs, of "[]"])
      (use offs [OF order_refl] in \<open>simp_all add: filled_def\<close>)
  then show ?thesis
    using offs unfolding build_preds_def Let_def offs_def [symmetric] by blast
qed

lemma preds_of_into:
  assumes wf: "wf_edges (cfg_nb cfg) (cfg_edges cfg)" and b: "b < cfg_nb cfg"
  shows "preds_of (build_preds cfg) b = List.map ce_from (edges_into (cfg_edges cfg) b)"
proof -
  obtain offs preds where P: "build_preds cfg = (offs, preds)"
    and offs: "\<And>i. i \<le> cfg_nb cfg \<Longrightarrow> offs ! i = row_start (cfg_edges cfg) i"
    and "filled (cfg_nb cfg) (cfg_edges cfg) (cfg_edges cfg) preds"
    using build_preds_filled [OF wf] by blast
  then have rows: "preds ! (row_start (cfg_edges cfg) b + k) = ce_from (edges_into (cfg_edges cfg) b ! k)"
    if "k < length (edges_into (cfg_edges cfg) b)" for k
    using b that by (simp add: filled_def)
  show ?thesis
    unfolding preds_of_def P using b
    by (intro nth_equalityI) (simp_all add: offs rows)
qed

lemma preds_of_set:
  "wf_edges (cfg_nb cfg) (cfg_edges cfg) \<Longrightarrow> b < cfg_nb cfg \<Longrightarrow>
    set (preds_of (build_preds cfg) b) = {a. (a, b) \<in> edge_graph (cfg_edges cfg)}"
  by (auto simp: preds_of_into edges_into_def edge_graph_def)

end
