(* ===== verification/CfgLoops.thy ===== *)
theory CfgLoops
  imports CfgRpo
begin

text \<open>
  The dominators of a function and its loops (decompiler/src/cli/cfg/cfg_dominance.c): the
  laws of \<open>numbered_graph\<close> hold for what the search of the code returns, so the loop of
  \<open>cfg_compute_dominance\<close> ends with the dominators, and the loop headers, depths and exits that
  \<open>cfg_classify_loops\<close> derives from them are those of the back edges.
\<close>

section \<open>The search provides the numbering\<close>

definition one_block_cfg :: Cfg where
  "one_block_cfg = zero_cfg\<lparr>cfg_blocks := [new_block 0]\<rparr>"

text \<open>A well-formed graph: the graph itself, when it is one.\<close>

definition wf_of :: "Cfg \<Rightarrow> Cfg" where
  "wf_of cfg = (if wf_cfg cfg then cfg else one_block_cfg)"

lemma wf_of_wf: "wf_cfg (wf_of cfg)"
  by (simp add: wf_of_def one_block_cfg_def wf_cfg_def wf_edges_def zero_cfg_def cfg_nb_def)

definition cfg_root :: "Cfg \<Rightarrow> nat" where
  "cfg_root cfg = the (cfg_entry_block cfg)"

definition cfg_graph :: "Cfg \<Rightarrow> (nat \<times> nat) set" where
  "cfg_graph cfg = edge_graph (cfg_edges cfg)"

definition cfg_rpo :: "Cfg \<Rightarrow> nat list \<times> nat list" where
  "cfg_rpo cfg = the (build_rpo cfg (cfg_root cfg))"

lemma wf_cfgD:
  assumes "wf_cfg cfg"
  shows "wf_edges (cfg_nb cfg) (cfg_edges cfg)" and "cfg_entry_block cfg = Some (cfg_root cfg)"
    and "cfg_root cfg < cfg_nb cfg"
  using assms by (auto simp: wf_cfg_def cfg_root_def split: option.splits)

lemma cfg_rpo_spec:
  assumes "wf_cfg cfg"
  shows "build_rpo cfg (cfg_root cfg) = Some (cfg_rpo cfg)"
    and "set (fst (cfg_rpo cfg)) = {b. reach (cfg_graph cfg) (cfg_root cfg) b}"
    and "i < length (fst (cfg_rpo cfg)) \<Longrightarrow> snd (cfg_rpo cfg) ! (fst (cfg_rpo cfg) ! i) = i"
    and "reach (cfg_graph cfg) (cfg_root cfg) b \<Longrightarrow> b \<noteq> cfg_root cfg \<Longrightarrow>
      \<exists>t. (t, b) \<in> cfg_graph cfg \<and> reach (cfg_graph cfg) (cfg_root cfg) t \<and>
        snd (cfg_rpo cfg) ! t < snd (cfg_rpo cfg) ! b"
  using build_rpo_spec [OF wf_cfgD(1,3) [OF assms]] by (auto simp: cfg_graph_def cfg_rpo_def)

interpretation cd: numbered_graph "cfg_graph (wf_of cfg)" "cfg_root (wf_of cfg)" "cfg_nb (wf_of cfg)"
    "fst (cfg_rpo (wf_of cfg))" "snd (cfg_rpo (wf_of cfg))" "build_preds (wf_of cfg)" for cfg
proof unfold_locales
  note wf = wf_of_wf [of cfg]
  show "cfg_root (wf_of cfg) < cfg_nb (wf_of cfg)"
    by (rule wf_cfgD(3) [OF wf])
  show "(a, b) \<in> cfg_graph (wf_of cfg) \<Longrightarrow> a < cfg_nb (wf_of cfg) \<and> b < cfg_nb (wf_of cfg)" for a b
    unfolding cfg_graph_def by (rule wf_edges_graph [OF wf_cfgD(1) [OF wf]])
  show "b < cfg_nb (wf_of cfg) \<Longrightarrow>
      set (preds_of (build_preds (wf_of cfg)) b) = {a. (a, b) \<in> cfg_graph (wf_of cfg)}" for b
    unfolding cfg_graph_def by (rule preds_of_set [OF wf_cfgD(1) [OF wf]])
qed (rule cfg_rpo_spec [OF wf_of_wf]; assumption)+

section \<open>The computed dominators\<close>

context numbered_graph
begin

text \<open>The walk of \<open>dominates\<close> follows the chain.\<close>

lemma dominates_anc:
  assumes ok: "idom_ok idom" and blocks: "\<And>i. i < nb \<Longrightarrow> cb_idom (cfg_blocks cfg ! i) = idom ! i"
  shows "processed idom b \<Longrightarrow> dominates cfg a (Some b) = Some (anc idom a b)"
proof (induction "pos b" arbitrary: b rule: less_induct)
  case less
  then have b: "b < nb" "idom ! b \<noteq> None"
    by (simp_all add: processed_def)
  show ?case
  proof (cases "a = b")
    case True
    then show ?thesis
      by (subst dominates.simps) (simp add: anc_refl)
  next
    case False
    show ?thesis
    proof (cases "b = root")
      case True
      then have "\<not> anc idom a b"
        using anc_root [OF ok, of a] False by auto
      then show ?thesis
        using False True blocks [OF b(1)] idom_root [OF ok]
        by (subst dominates.simps) simp
    next
      case not_root: False
      obtain d where d: "idom ! b = Some d"
        using b(2) by blast
      note facts = idom_okD [OF ok d b(1) not_root]
      have "dominates cfg a (Some d) = Some (anc idom a d)"
        using less.hyps [OF facts(2)] facts(3,4) by (simp add: processed_def)
      moreover have "anc idom a b \<longleftrightarrow> anc idom a d"
        using anc_above [OF _ False d] anc_up [OF d] by blast
      moreover have "d \<noteq> b"
        using facts(2) by auto
      ultimately show ?thesis
        using False blocks [OF b(1)] d by (subst dominates.simps) simp
    qed
  qed
qed

lemma dominates_unreached:
  assumes "cb_idom (cfg_blocks cfg ! b) = None"
  shows "dominates cfg a (Some b) = Some (a = b)"
  using assms by (subst dominates.simps) (auto simp: dominates.simps [of _ _ None])

end

section \<open>The result of the computation\<close>

text \<open>
  The chains in the blocks are the dominators: \<open>dominates\<close> returns and decides dominance for
  reachable blocks; an unreachable one has no immediate dominator.
\<close>

definition dominators_done :: "Cfg \<Rightarrow> bool" where
  "dominators_done cfg \<longleftrightarrow>
     (\<exists>idom. numbered_graph.idom_ok (cfg_graph cfg) (cfg_root cfg) (cfg_nb cfg) (snd (cfg_rpo cfg)) idom \<and>
        numbered_graph.exact (cfg_graph cfg) (cfg_root cfg) idom \<and>
        (\<forall>i < cfg_nb cfg. cb_idom (cfg_blocks cfg ! i) = idom ! i))"

lemma compute_dominance_idom:
  assumes wf: "wf_cfg cfg"
  shows "\<exists>idom. numbered_graph.idom_ok (cfg_graph cfg) (cfg_root cfg) (cfg_nb cfg) (snd (cfg_rpo cfg)) idom \<and>
    numbered_graph.exact (cfg_graph cfg) (cfg_root cfg) idom \<and>
    cfg_compute_dominance cfg = Some (cfg\<lparr>cfg_blocks :=
      List.map (\<lambda>i. (cfg_blocks cfg ! i)\<lparr>cb_idom := idom ! i\<rparr>) [0..<cfg_nb cfg]\<rparr>)"
proof -
  have self: "wf_of cfg = cfg"
    using wf by (simp add: wf_of_def)
  obtain idom where idom: "dom_loop (cfg_root cfg) (build_preds cfg) (snd (cfg_rpo cfg)) (fst (cfg_rpo cfg))
      ((replicate (cfg_nb cfg) None)[cfg_root cfg := Some (cfg_root cfg)]) = Some idom"
    "numbered_graph.exact (cfg_graph cfg) (cfg_root cfg) idom"
    "numbered_graph.idom_ok (cfg_graph cfg) (cfg_root cfg) (cfg_nb cfg) (snd (cfg_rpo cfg)) idom"
    using cd.dom_loop_exact [of cfg] unfolding self by blast
  have "cfg_compute_dominance cfg = Some (cfg\<lparr>cfg_blocks :=
      List.map (\<lambda>i. (cfg_blocks cfg ! i)\<lparr>cb_idom := idom ! i\<rparr>) [0..<cfg_nb cfg]\<rparr>)"
    using wf_cfgD [OF wf] cfg_rpo_spec(1) [OF wf] idom(1)
    by (simp add: cfg_compute_dominance_def Let_def case_prod_beta)
  with idom(2,3) show ?thesis
    by blast
qed

lemma same_graph:
  assumes "cfg_edges cfg' = cfg_edges cfg" and "cfg_entry_block cfg' = cfg_entry_block cfg"
    and "cfg_nb cfg' = cfg_nb cfg"
  shows "cfg_graph cfg' = cfg_graph cfg" and "cfg_root cfg' = cfg_root cfg" and "cfg_rpo cfg' = cfg_rpo cfg"
    and "wf_cfg cfg' = wf_cfg cfg"
  unfolding cfg_graph_def cfg_root_def cfg_rpo_def build_rpo_def wf_cfg_def assms by (rule refl)+

lemma compute_dominance_done:
  assumes wf: "wf_cfg cfg"
  shows "\<exists>cfg'. cfg_compute_dominance cfg = Some cfg' \<and> cfg_edges cfg' = cfg_edges cfg \<and>
    cfg_entry_block cfg' = cfg_entry_block cfg \<and> cfg_nb cfg' = cfg_nb cfg \<and> dominators_done cfg' \<and>
    (\<forall>i < cfg_nb cfg. \<exists>d. cfg_blocks cfg' ! i = (cfg_blocks cfg ! i)\<lparr>cb_idom := d\<rparr>)"
proof -
  obtain idom where idom:
    "numbered_graph.idom_ok (cfg_graph cfg) (cfg_root cfg) (cfg_nb cfg) (snd (cfg_rpo cfg)) idom"
    "numbered_graph.exact (cfg_graph cfg) (cfg_root cfg) idom"
    "cfg_compute_dominance cfg = Some (cfg\<lparr>cfg_blocks :=
      List.map (\<lambda>i. (cfg_blocks cfg ! i)\<lparr>cb_idom := idom ! i\<rparr>) [0..<cfg_nb cfg]\<rparr>)"
    using compute_dominance_idom [OF wf] by blast
  let ?cfg = "cfg\<lparr>cfg_blocks := List.map (\<lambda>i. (cfg_blocks cfg ! i)\<lparr>cb_idom := idom ! i\<rparr>) [0..<cfg_nb cfg]\<rparr>"
  have nb: "cfg_nb ?cfg = cfg_nb cfg"
    by (simp add: cfg_nb_def)
  have "dominators_done ?cfg"
    unfolding dominators_done_def same_graph [of ?cfg cfg, simplified, OF nb [simplified]] nb
    using idom(1,2) by (intro exI [of _ idom]) simp
  then show ?thesis
    using idom(3) nb by (intro exI [of _ ?cfg]) auto
qed

text \<open>What \<open>dominates\<close> answers afterwards.\<close>

definition dom_in :: "Cfg \<Rightarrow> nat \<Rightarrow> nat \<Rightarrow> bool" where
  "dom_in cfg a b \<longleftrightarrow>
     (if reach (cfg_graph cfg) (cfg_root cfg) b then dom_by (cfg_graph cfg) (cfg_root cfg) a b else a = b)"

lemma dom_in_less:
  assumes "wf_cfg cfg" and "b < cfg_nb cfg" and "dom_in cfg a b"
  shows "a < cfg_nb cfg"
proof -
  have self: "wf_of cfg = cfg"
    using assms(1) by (simp add: wf_of_def)
  show ?thesis
    using cd.dom_reached [of cfg a b, unfolded self] cd.reached_less [of cfg a, unfolded self] assms(2,3)
    by (auto simp: dom_in_def split: if_splits)
qed

lemma done_idom:
  assumes wf: "wf_cfg cfg" and "dominators_done cfg"
  shows "\<exists>idom. cd.idom_ok cfg idom \<and> cd.exact cfg idom \<and> wf_of cfg = cfg \<and>
    (\<forall>i < cfg_nb cfg. cb_idom (cfg_blocks cfg ! i) = idom ! i)"
  using assms by (auto simp: wf_of_def dominators_done_def)

lemma done_dominates:
  assumes wf: "wf_cfg cfg" and "dominators_done cfg" and b: "b < cfg_nb cfg"
  shows "dominates cfg a (Some b) = Some (dom_in cfg a b)"
proof -
  obtain idom where ok: "cd.idom_ok cfg idom" and ex: "cd.exact cfg idom" and self: "wf_of cfg = cfg"
    and blocks: "\<And>i. i < cfg_nb cfg \<Longrightarrow> cb_idom (cfg_blocks cfg ! i) = idom ! i"
    using done_idom [OF assms(1,2)] by blast
  show ?thesis
  proof (cases "reach (cfg_graph cfg) (cfg_root cfg) b")
    case True
    note facts = cd.exactD [OF ex, unfolded self, OF True]
    show ?thesis
      using cd.dominates_anc [OF ok, of cfg b a, unfolded self, OF blocks facts(3)] facts(2) True
      by (simp add: dom_in_def)
  next
    case False
    have "idom ! b = None"
      using cd.unreached_none [OF ok, of b] False b by (simp add: self)
    with cd.dominates_unreached [of cfg b a] blocks [OF b] False show ?thesis
      by (simp add: dom_in_def)
  qed
qed

lemma done_idom_immediate:
  assumes wf: "wf_cfg cfg" and "dominators_done cfg" and b: "reach (cfg_graph cfg) (cfg_root cfg) b"
    and "b \<noteq> cfg_root cfg"
  shows "\<exists>d. cb_idom (cfg_blocks cfg ! b) = Some d \<and> d \<noteq> b \<and> dom_in cfg d b \<and>
    (\<forall>a. dom_in cfg a b \<longrightarrow> a \<noteq> b \<longrightarrow> dom_in cfg a d)"
proof -
  obtain idom where ok: "cd.idom_ok cfg idom" and ex: "cd.exact cfg idom" and self: "wf_of cfg = cfg"
    and blocks: "\<And>i. i < cfg_nb cfg \<Longrightarrow> cb_idom (cfg_blocks cfg ! i) = idom ! i"
    using done_idom [OF assms(1,2)] by blast
  have less: "b < cfg_nb cfg"
    using cd.reached_less [of cfg b] b by (simp add: self)
  have live: "idom ! b \<noteq> None" and eq: "\<And>a. anc idom a b \<longleftrightarrow> dom_by (cfg_graph cfg) (cfg_root cfg) a b"
    using cd.exactD(1,2) [OF ex, unfolded self, OF b] by blast+
  obtain d where d: "idom ! b = Some d"
    using live by blast
  note facts = cd.idom_okD [OF ok d, unfolded self, OF less assms(4)]
  have "anc idom d b"
    using d by (rule anc_up) (rule anc_refl)
  then have "dom_by (cfg_graph cfg) (cfg_root cfg) d b"
    using eq by blast
  moreover from this b have "reach (cfg_graph cfg) (cfg_root cfg) d"
    using cd.dom_reached [of cfg d b] by (simp add: self)
  moreover have "d \<noteq> b"
    using facts(2) by auto
  ultimately show ?thesis
    using blocks [OF less] d facts(5) b by (auto simp: dom_in_def)
qed

text \<open>
  C24.  On every well-formed graph the iteration of \<open>cfg_compute_dominance\<close> ends, and the
  immediate dominators that it stores are right: \<open>dominates\<close> returns for every pair of blocks and
  answers whether the first one lies on every walk from the entry to the second (for a block
  that the entry does not reach: whether they are the same block), and the immediate dominator
  of a reachable block other than the entry is its closest strict dominator.
\<close>

theorem cfg_dominance_exact:
  assumes wf: "wf_cfg cfg"
  shows "\<exists>cfg'. cfg_compute_dominance cfg = Some cfg' \<and> cfg_edges cfg' = cfg_edges cfg \<and>
    (\<forall>a b. b < cfg_nb cfg \<longrightarrow> dominates cfg' a (Some b) = Some (dom_in cfg a b)) \<and>
    (\<forall>b. reach (cfg_graph cfg) (cfg_root cfg) b \<longrightarrow> b \<noteq> cfg_root cfg \<longrightarrow>
      (\<exists>d. cb_idom (cfg_blocks cfg' ! b) = Some d \<and> d \<noteq> b \<and> dom_in cfg d b \<and>
        (\<forall>a. dom_in cfg a b \<longrightarrow> a \<noteq> b \<longrightarrow> dom_in cfg a d)))"
proof -
  obtain cfg' where cfg': "cfg_compute_dominance cfg = Some cfg'" "cfg_edges cfg' = cfg_edges cfg"
    "cfg_entry_block cfg' = cfg_entry_block cfg" "cfg_nb cfg' = cfg_nb cfg" "dominators_done cfg'"
    using compute_dominance_done [OF wf] by blast
  note same = same_graph [OF cfg'(2-4)]
  have wf': "wf_cfg cfg'" and dom: "\<And>a b. dom_in cfg' a b = dom_in cfg a b"
    using wf same by (simp_all add: dom_in_def)
  note facts = done_dominates [OF wf' cfg'(5)] done_idom_immediate [OF wf' cfg'(5)]
  show ?thesis
    using facts cfg'(1,2) unfolding dom same(1,2) cfg'(4) by blast
qed

text \<open>A loop with two ways into it, a return and a block without a way to it.\<close>

definition sample_graph :: Cfg where
  "sample_graph =
     (let edge = (\<lambda>from to. \<lparr>ce_from = from, ce_to = to, ce_kind = CFG_EDGE_UNCOND, ce_case_value = 0\<rparr>)
      in zero_cfg\<lparr>
        cfg_blocks := List.map new_block [0, 4, 8, 12, 16],
        cfg_edges := [edge 0 (Some 1), edge 0 (Some 2), edge 1 (Some 3), edge 2 (Some 3),
          edge 3 (Some 1), edge 3 None, edge 4 (Some 3)]\<rparr>)"

lemma sample_graph_wf: "wf_cfg sample_graph"
  by (simp add: sample_graph_def wf_cfg_def wf_edges_def zero_cfg_def cfg_nb_def)

lemma cfg_dominance_exact_witness:
  "\<exists>cfg'. cfg_compute_dominance sample_graph = Some cfg' \<and>
    dominates cfg' 1 (Some 3) = Some (dom_in sample_graph 1 3)"
proof -
  have "3 < cfg_nb sample_graph"
    by (simp add: sample_graph_def cfg_nb_def zero_cfg_def)
  with cfg_dominance_exact [OF sample_graph_wf] show ?thesis
    by blast
qed

section \<open>Loops\<close>

context numbered_graph
begin

text \<open>The walk that counts the headers on the chain of a block.\<close>

lemma chain_depth_card:
  assumes ok: "idom_ok idom" and blocks: "\<And>i. i < nb \<Longrightarrow> cb_idom (cfg_blocks cfg ! i) = idom ! i"
  shows "processed idom c \<Longrightarrow> chain_depth cfg i (Some c) d =
    Some (d + of_nat (card {a. anc idom a c \<and> a \<noteq> i \<and> cb_is_loop_header (cfg_blocks cfg ! a)}))"
proof (induction "pos c" arbitrary: c d rule: less_induct)
  case less
  let ?H = "\<lambda>a. a \<noteq> i \<and> cb_is_loop_header (cfg_blocks cfg ! a)"
  have c: "c < nb" "idom ! c \<noteq> None"
    using less.prems by (simp_all add: processed_def)
  show ?case
  proof (cases "c = root")
    case True
    have "{a. anc idom a c \<and> ?H a} = (if ?H c then {c} else {})"
      using anc_root [OF ok] anc_refl True by auto
    then show ?thesis
      using blocks [OF c(1)] idom_root [OF ok] True
      by (subst chain_depth.simps) (simp add: count_header_def)
  next
    case False
    obtain p where p: "idom ! c = Some p"
      using c(2) by blast
    note facts = idom_okD [OF ok p c(1) False]
    have proc: "processed idom p"
      using facts(3,4) by (simp add: processed_def)
    let ?S = "{a. anc idom a p \<and> ?H a}"
    have up: "anc idom a c \<longleftrightarrow> a = c \<or> anc idom a p" for a
      using anc_above [OF _ _ p] anc_up [OF p] anc_refl by blast
    have "\<not> anc idom c p"
      using anc_props [OF ok _ facts(3,4), of c] facts(2) by auto
    moreover have "?S \<subseteq> {..<nb}"
      using anc_props [OF ok _ facts(3,4)] by auto
    moreover have "{a. anc idom a c \<and> ?H a} = (if ?H c then insert c ?S else ?S)"
      using up by auto
    ultimately have "card {a. anc idom a c \<and> ?H a} = (if ?H c then Suc (card ?S) else card ?S)"
      using finite_subset [of ?S "{..<nb}"] by simp
    moreover have "p \<noteq> c"
      using facts(2) by auto
    ultimately show ?thesis
      using less.hyps [OF facts(2) proc] blocks [OF c(1)] p
      by (subst chain_depth.simps) (simp add: count_header_def)
  qed
qed

end

definition headers_above :: "Cfg \<Rightarrow> nat \<Rightarrow> nat set" where
  "headers_above cfg b = {a. dom_in cfg a b \<and> a \<noteq> b \<and> cb_is_loop_header (cfg_blocks cfg ! a)}"

lemma done_depth:
  assumes wf: "wf_cfg cfg" and "dominators_done cfg" and b: "b < cfg_nb cfg"
  shows "chain_depth cfg b (Some b) 0 = Some (of_nat (card (headers_above cfg b)))"
proof -
  obtain idom where ok: "cd.idom_ok cfg idom" and ex: "cd.exact cfg idom" and self: "wf_of cfg = cfg"
    and blocks: "\<And>i. i < cfg_nb cfg \<Longrightarrow> cb_idom (cfg_blocks cfg ! i) = idom ! i"
    using done_idom [OF assms(1,2)] by blast
  show ?thesis
  proof (cases "reach (cfg_graph cfg) (cfg_root cfg) b")
    case True
    note facts = cd.exactD [OF ex, unfolded self, OF True]
    show ?thesis
      using cd.chain_depth_card [OF ok, of cfg b b 0, unfolded self, OF blocks facts(3)] facts(2) True
      by (simp add: dom_in_def headers_above_def)
  next
    case False
    have "idom ! b = None"
      using cd.unreached_none [OF ok, of b] False b by (simp add: self)
    moreover have "headers_above cfg b = {}"
      using False by (auto simp: headers_above_def dom_in_def)
    ultimately show ?thesis
      using blocks [OF b]
      by (subst chain_depth.simps) (simp add: chain_depth.simps [of _ _ None] count_header_def)
  qed
qed

text \<open>Changes of a graph that keep the walks and the immediate dominators.\<close>

definition same_shape :: "Cfg \<Rightarrow> Cfg \<Rightarrow> bool" where
  "same_shape cfg cfg' \<longleftrightarrow>
     cfg_edges cfg' = cfg_edges cfg \<and> cfg_entry_block cfg' = cfg_entry_block cfg \<and> cfg_nb cfg' = cfg_nb cfg \<and>
     (\<forall>i < cfg_nb cfg. cb_idom (cfg_blocks cfg' ! i) = cb_idom (cfg_blocks cfg ! i))"

lemma same_shape_keeps:
  assumes "same_shape cfg cfg'"
  shows "wf_cfg cfg \<Longrightarrow> wf_cfg cfg'" and "dominators_done cfg \<Longrightarrow> dominators_done cfg'"
    and "dom_in cfg' = dom_in cfg" and "cfg_nb cfg' = cfg_nb cfg" and "cfg_edges cfg' = cfg_edges cfg"
proof -
  have shape: "cfg_edges cfg' = cfg_edges cfg" "cfg_entry_block cfg' = cfg_entry_block cfg"
    "cfg_nb cfg' = cfg_nb cfg" "\<And>i. i < cfg_nb cfg \<Longrightarrow> cb_idom (cfg_blocks cfg' ! i) = cb_idom (cfg_blocks cfg ! i)"
    using assms by (simp_all add: same_shape_def)
  note same = same_graph [OF shape(1-3)]
  show "wf_cfg cfg \<Longrightarrow> wf_cfg cfg'"
    using same(4) by simp
  show "dominators_done cfg \<Longrightarrow> dominators_done cfg'"
    using shape(4) unfolding dominators_done_def same(1-3) shape(3) by auto
  show "dom_in cfg' = dom_in cfg"
    unfolding dom_in_def same(1,2) ..
  show "cfg_nb cfg' = cfg_nb cfg" "cfg_edges cfg' = cfg_edges cfg"
    by (rule shape)+
qed

lemma same_shape_refl: "same_shape cfg cfg"
  by (simp add: same_shape_def)

lemma same_shape_trans: "same_shape a b \<Longrightarrow> same_shape b c \<Longrightarrow> same_shape a c"
  by (simp add: same_shape_def)

lemma same_shape_update:
  "(\<And>b. cb_idom (f b) = cb_idom b) \<Longrightarrow> same_shape cfg (update_block cfg i f)"
  by (cases "i < length (cfg_blocks cfg)")
    (auto simp: same_shape_def update_block_def cfg_nb_def nth_list_update)

text \<open>The blocks that the back edges among \<open>es\<close> lead to.\<close>

definition back_target :: "Cfg \<Rightarrow> CfgEdge list \<Rightarrow> nat \<Rightarrow> bool" where
  "back_target cfg es b \<longleftrightarrow> (\<exists>e \<in> set es. ce_to e = Some b \<and> dom_in cfg b (ce_from e))"

lemma back_target_Cons:
  "back_target cfg (e # es) b \<longleftrightarrow> ce_to e = Some b \<and> dom_in cfg b (ce_from e) \<or> back_target cfg es b"
  by (auto simp: back_target_def)

lemma mark_headers_spec:
  "wf_cfg cfg \<Longrightarrow> dominators_done cfg \<Longrightarrow> set es \<subseteq> set (cfg_edges cfg) \<Longrightarrow>
    \<exists>cfg'. mark_headers es cfg = Some cfg' \<and> same_shape cfg cfg' \<and>
      (\<forall>b < cfg_nb cfg. cfg_blocks cfg' ! b = (cfg_blocks cfg ! b)
        \<lparr>cb_is_loop_header := cb_is_loop_header (cfg_blocks cfg ! b) \<or> back_target cfg es b\<rparr>)"
proof (induction es arbitrary: cfg)
  case Nil
  then show ?case
    by (simp add: same_shape_refl back_target_def)
next
  case (Cons e es)
  note wf = wf_cfgD(1) [OF Cons.prems(1)]
  have rest: "set es \<subseteq> set (cfg_edges cfg)" and e: "e \<in> set (cfg_edges cfg)"
    using Cons.prems(3) by simp_all
  show ?case
  proof (cases "ce_to e")
    case None
    with Cons.IH [OF Cons.prems(1,2) rest] show ?thesis
      by (simp add: back_target_Cons)
  next
    case (Some s)
    note dom = done_dominates [OF Cons.prems(1,2) wf_edgesD(1) [OF wf e], of s]
    show ?thesis
    proof (cases "dom_in cfg s (ce_from e)")
      case False
      then have "back_target cfg (e # es) b \<longleftrightarrow> back_target cfg es b" for b
        using Some by (auto simp: back_target_Cons)
      with Cons.IH [OF Cons.prems(1,2) rest] Some dom False show ?thesis
        by simp
    next
      case True
      let ?cfg = "update_block cfg s (\<lambda>b. b\<lparr>cb_is_loop_header := True\<rparr>)"
      have shape: "same_shape cfg ?cfg"
        by (rule same_shape_update) simp
      note keeps = same_shape_keeps [OF shape]
      obtain cfg' where cfg': "mark_headers es ?cfg = Some cfg'" "same_shape ?cfg cfg'"
        "\<And>b. b < cfg_nb cfg \<Longrightarrow> cfg_blocks cfg' ! b = (cfg_blocks ?cfg ! b)
          \<lparr>cb_is_loop_header := cb_is_loop_header (cfg_blocks ?cfg ! b) \<or> back_target cfg es b\<rparr>"
        using Cons.IH [OF keeps(1) [OF Cons.prems(1)] keeps(2) [OF Cons.prems(2)]] rest
        unfolding keeps(3-5) back_target_def by blast
      have "cfg_blocks cfg' ! b = (cfg_blocks cfg ! b)
          \<lparr>cb_is_loop_header := cb_is_loop_header (cfg_blocks cfg ! b) \<or> back_target cfg (e # es) b\<rparr>"
        if "b < cfg_nb cfg" for b
        using cfg'(3) [OF that] that Some True
        by (cases "b = s") (auto simp: back_target_Cons update_block_def cfg_nb_def)
      with cfg'(1) Some True dom same_shape_trans [OF shape cfg'(2)] show ?thesis
        by simp
    qed
  qed
qed

lemma all_depths_map:
  "(\<And>i. i \<in> set is \<Longrightarrow> chain_depth cfg i (Some i) 0 = Some (f i)) \<Longrightarrow> all_depths cfg is = Some (List.map f is)"
  by (induction "is") simp_all

text \<open>The sources of the edges among \<open>es\<close> that lead to a smaller depth.\<close>

definition exit_source :: "Cfg \<Rightarrow> CfgEdge list \<Rightarrow> nat \<Rightarrow> bool" where
  "exit_source cfg es b \<longleftrightarrow> (\<exists>e \<in> set es. ce_from e = b \<and> (\<exists>s. ce_to e = Some s \<and>
     cb_loop_depth (cfg_blocks cfg ! s) < cb_loop_depth (cfg_blocks cfg ! b)))"

lemma mark_exit_nth:
  "wf_edges (cfg_nb cfg) [e] \<Longrightarrow> b < cfg_nb cfg \<Longrightarrow> cfg_blocks (mark_exit cfg e) ! b = (cfg_blocks cfg ! b)
    \<lparr>cb_is_loop_exit := cb_is_loop_exit (cfg_blocks cfg ! b) \<or> exit_source cfg [e] b\<rparr>"
  by (auto simp: mark_exit_def exit_source_def update_block_def wf_edges_def cfg_nb_def nth_list_update
      split: option.splits)

lemma mark_exit_nb [simp]: "cfg_nb (mark_exit cfg e) = cfg_nb cfg"
  by (simp add: mark_exit_def update_block_def cfg_nb_def split: option.splits)

lemma mark_exits_nth:
  "wf_edges (cfg_nb cfg) es \<Longrightarrow> b < cfg_nb cfg \<Longrightarrow> cfg_blocks (foldl mark_exit cfg es) ! b = (cfg_blocks cfg ! b)
    \<lparr>cb_is_loop_exit := cb_is_loop_exit (cfg_blocks cfg ! b) \<or> exit_source cfg es b\<rparr>"
proof (induction es arbitrary: cfg)
  case (Cons e es)
  have wf: "wf_edges (cfg_nb cfg) [e]" "wf_edges (cfg_nb cfg) es"
    using Cons.prems(1) by (simp_all add: wf_edges_def)
  have depth: "cb_loop_depth (cfg_blocks (mark_exit cfg e) ! i) = cb_loop_depth (cfg_blocks cfg ! i)"
    if "i < cfg_nb cfg" for i
    using mark_exit_nth [OF wf(1) that] by simp
  have "exit_source (mark_exit cfg e) es b \<longleftrightarrow> exit_source cfg es b"
    using wf_edgesD(2) [OF wf(2)] Cons.prems(2) depth unfolding exit_source_def by (metis (lifting))
  moreover have "exit_source cfg (e # es) b \<longleftrightarrow> exit_source cfg [e] b \<or> exit_source cfg es b"
    by (auto simp: exit_source_def)
  ultimately show ?case
    using Cons.IH [of "mark_exit cfg e"] wf(2) Cons.prems(2) mark_exit_nth [OF wf(1) Cons.prems(2)] by simp
qed (simp add: exit_source_def)

lemma set_depths_nb [simp]: "cfg_nb (set_depths cfg ds) = cfg_nb cfg"
  by (simp add: set_depths_def cfg_nb_def)

lemma set_depths_nth:
  "b < cfg_nb cfg \<Longrightarrow> cfg_blocks (set_depths cfg ds) ! b = (cfg_blocks cfg ! b)\<lparr>cb_loop_depth := ds ! b\<rparr>"
  by (simp add: set_depths_def)

text \<open>The exits and the depths, once the headers are marked.\<close>

lemma finish_loops:
  assumes wf: "wf_cfg h" and done': "dominators_done h"
  shows "\<exists>cfg2. (case all_depths h [0..<cfg_nb h] of None \<Rightarrow> None
      | Some depth \<Rightarrow> Some (foldl mark_exit (set_depths h depth) (cfg_edges h))) = Some cfg2 \<and>
    (\<forall>b < cfg_nb h.
      cb_is_loop_header (cfg_blocks cfg2 ! b) = cb_is_loop_header (cfg_blocks h ! b) \<and>
      cb_loop_depth (cfg_blocks cfg2 ! b) = of_nat (card (headers_above h b)) \<and>
      (cb_is_loop_exit (cfg_blocks cfg2 ! b) \<longleftrightarrow> cb_is_loop_exit (cfg_blocks h ! b) \<or>
        (\<exists>s. (b, s) \<in> cfg_graph h \<and>
          cb_loop_depth (cfg_blocks cfg2 ! s) < cb_loop_depth (cfg_blocks cfg2 ! b))))"
proof -
  note W = wf_cfgD(1) [OF wf]
  let ?ds = "List.map (\<lambda>b. of_nat (card (headers_above h b)) :: u16) [0..<cfg_nb h]"
  let ?d = "set_depths h ?ds"
  let ?cfg2 = "foldl mark_exit ?d (cfg_edges h)"
  have depths: "all_depths h [0..<cfg_nb h] = Some ?ds"
    by (rule all_depths_map) (simp add: done_depth [OF wf done'])
  have fin: "cfg_blocks ?cfg2 ! b = (cfg_blocks ?d ! b)
      \<lparr>cb_is_loop_exit := cb_is_loop_exit (cfg_blocks ?d ! b) \<or> exit_source ?d (cfg_edges h) b\<rparr>"
    if "b < cfg_nb h" for b
    using W that by (intro mark_exits_nth) simp_all
  have depth: "cb_loop_depth (cfg_blocks ?cfg2 ! b) = of_nat (card (headers_above h b))"
    "cb_loop_depth (cfg_blocks ?d ! b) = of_nat (card (headers_above h b))" if "b < cfg_nb h" for b
    using fin that by (simp_all add: set_depths_nth)
  have "exit_source ?d (cfg_edges h) b \<longleftrightarrow> (\<exists>s. (b, s) \<in> cfg_graph h \<and>
      cb_loop_depth (cfg_blocks ?cfg2 ! s) < cb_loop_depth (cfg_blocks ?cfg2 ! b))" if b: "b < cfg_nb h" for b
  proof -
    have "cb_loop_depth (cfg_blocks ?cfg2 ! s) = cb_loop_depth (cfg_blocks ?d ! s)" if "(b, s) \<in> cfg_graph h" for s
      using depth wf_edges_graph [OF W] that by (simp add: cfg_graph_def)
    moreover have "cb_loop_depth (cfg_blocks ?cfg2 ! b) = cb_loop_depth (cfg_blocks ?d ! b)"
      using depth b by simp
    moreover have "exit_source ?d (cfg_edges h) b \<longleftrightarrow> (\<exists>s. (b, s) \<in> cfg_graph h \<and>
        cb_loop_depth (cfg_blocks ?d ! s) < cb_loop_depth (cfg_blocks ?d ! b))"
      by (auto simp: exit_source_def cfg_graph_def edge_graph_def)
    ultimately show ?thesis
      by (metis (lifting))
  qed
  then show ?thesis
    using fin depth unfolding depths option.case
    by (intro exI [of _ ?cfg2]) (simp add: set_depths_nth)
qed

lemma classify_loops_spec:
  assumes wf: "wf_cfg cfg" and done': "dominators_done cfg"
  shows "\<exists>cfg2. cfg_classify_loops cfg = Some cfg2 \<and>
    (\<forall>b < cfg_nb cfg.
      (cb_is_loop_header (cfg_blocks cfg2 ! b) \<longleftrightarrow> cb_is_loop_header (cfg_blocks cfg ! b) \<or>
        (\<exists>p. (p, b) \<in> cfg_graph cfg \<and> dom_in cfg b p)) \<and>
      cb_loop_depth (cfg_blocks cfg2 ! b) =
        of_nat (card {a. dom_in cfg a b \<and> a \<noteq> b \<and> cb_is_loop_header (cfg_blocks cfg2 ! a)}) \<and>
      (cb_is_loop_exit (cfg_blocks cfg2 ! b) \<longleftrightarrow> cb_is_loop_exit (cfg_blocks cfg ! b) \<or>
        (\<exists>s. (b, s) \<in> cfg_graph cfg \<and>
          cb_loop_depth (cfg_blocks cfg2 ! s) < cb_loop_depth (cfg_blocks cfg2 ! b))))"
proof -
  obtain h where h: "mark_headers (cfg_edges cfg) cfg = Some h" "same_shape cfg h"
    "\<And>b. b < cfg_nb cfg \<Longrightarrow> cfg_blocks h ! b = (cfg_blocks cfg ! b)
      \<lparr>cb_is_loop_header := cb_is_loop_header (cfg_blocks cfg ! b) \<or> back_target cfg (cfg_edges cfg) b\<rparr>"
    using mark_headers_spec [OF wf done' order_refl] by blast
  note keeps = same_shape_keeps [OF h(2)]
  have graph: "cfg_graph h = cfg_graph cfg"
    using keeps(5) by (simp add: cfg_graph_def)
  have run: "cfg_classify_loops cfg = (case all_depths h [0..<cfg_nb cfg] of None \<Rightarrow> None
      | Some depth \<Rightarrow> Some (foldl mark_exit (set_depths h depth) (cfg_edges cfg)))"
    using wf_cfgD(3) [OF wf] by (simp add: cfg_classify_loops_def h(1) keeps(4,5) cong: option.case_cong)
  have targets: "back_target cfg (cfg_edges cfg) b \<longleftrightarrow> (\<exists>p. (p, b) \<in> cfg_graph cfg \<and> dom_in cfg b p)" for b
    by (auto simp: back_target_def cfg_graph_def edge_graph_def)
  obtain cfg2 where cfg2: "cfg_classify_loops cfg = Some cfg2" "\<And>b. b < cfg_nb cfg \<Longrightarrow>
      cb_is_loop_header (cfg_blocks cfg2 ! b) = cb_is_loop_header (cfg_blocks h ! b) \<and>
      cb_loop_depth (cfg_blocks cfg2 ! b) = of_nat (card (headers_above h b)) \<and>
      (cb_is_loop_exit (cfg_blocks cfg2 ! b) \<longleftrightarrow> cb_is_loop_exit (cfg_blocks h ! b) \<or>
        (\<exists>s. (b, s) \<in> cfg_graph cfg \<and>
          cb_loop_depth (cfg_blocks cfg2 ! s) < cb_loop_depth (cfg_blocks cfg2 ! b)))"
    using finish_loops [OF keeps(1) [OF wf] keeps(2) [OF done']]
    unfolding keeps(4,5) graph run [symmetric] by blast
  have "headers_above h b = {a. dom_in cfg a b \<and> a \<noteq> b \<and> cb_is_loop_header (cfg_blocks cfg2 ! a)}"
    if "b < cfg_nb cfg" for b
    using cfg2(2) dom_in_less [OF wf that] unfolding headers_above_def keeps(3) by blast
  then show ?thesis
    using cfg2 h(3) targets by simp
qed

text \<open>The whole of the pass: the marks, with the depths as words of 16 bits.\<close>

lemma loop_marks:
  assumes wf: "wf_cfg cfg" and dominance: "cfg_compute_dominance cfg = Some cfg1"
  shows "\<exists>cfg2. cfg_classify_loops cfg1 = Some cfg2 \<and>
    (\<forall>b < cfg_nb cfg.
      (cb_is_loop_header (cfg_blocks cfg2 ! b) \<longleftrightarrow> cb_is_loop_header (cfg_blocks cfg ! b) \<or>
        (\<exists>p. (p, b) \<in> cfg_graph cfg \<and> dom_in cfg b p)) \<and>
      cb_loop_depth (cfg_blocks cfg2 ! b) =
        of_nat (card {a. dom_in cfg a b \<and> a \<noteq> b \<and> cb_is_loop_header (cfg_blocks cfg2 ! a)}) \<and>
      (cb_is_loop_exit (cfg_blocks cfg2 ! b) \<longleftrightarrow> cb_is_loop_exit (cfg_blocks cfg ! b) \<or>
        (\<exists>s. (b, s) \<in> cfg_graph cfg \<and>
          cb_loop_depth (cfg_blocks cfg2 ! s) < cb_loop_depth (cfg_blocks cfg2 ! b))))"
proof -
  have cfg1: "cfg_edges cfg1 = cfg_edges cfg" "cfg_entry_block cfg1 = cfg_entry_block cfg"
    "cfg_nb cfg1 = cfg_nb cfg" "dominators_done cfg1"
    and blocks: "\<And>i. i < cfg_nb cfg \<Longrightarrow> \<exists>d. cfg_blocks cfg1 ! i = (cfg_blocks cfg ! i)\<lparr>cb_idom := d\<rparr>"
    using compute_dominance_done [OF wf] dominance by auto
  note same = same_graph [OF cfg1(1-3)]
  have wf1: "wf_cfg cfg1" and dom: "dom_in cfg1 = dom_in cfg"
    using wf same by (simp_all add: dom_in_def fun_eq_iff)
  have "cb_is_loop_header (cfg_blocks cfg1 ! b) = cb_is_loop_header (cfg_blocks cfg ! b) \<and>
      cb_is_loop_exit (cfg_blocks cfg1 ! b) = cb_is_loop_exit (cfg_blocks cfg ! b)" if "b < cfg_nb cfg" for b
    using blocks [OF that] by auto
  with classify_loops_spec [OF wf1 cfg1(4)] show ?thesis
    unfolding same(1) dom cfg1(3) by simp
qed

text \<open>The headers above a block of an edge that is followed.\<close>

lemma dom_in_antisym:
  assumes "wf_cfg cfg" and "reach (cfg_graph cfg) (cfg_root cfg) b" and "dom_in cfg a b" and "dom_in cfg b a"
  shows "a = b"
proof -
  have self: "wf_of cfg = cfg"
    using assms(1) by (simp add: wf_of_def)
  have dom: "dom_by (cfg_graph cfg) (cfg_root cfg) a b" "reach (cfg_graph cfg) (cfg_root cfg) a"
    using assms(2,3) cd.dom_reached [of cfg a b] by (simp_all add: self dom_in_def)
  then have "dom_by (cfg_graph cfg) (cfg_root cfg) b a"
    using assms(4) by (simp add: dom_in_def)
  with dom show ?thesis
    using cd.pos_inj [of cfg a b] cd.dom_pos [of cfg a b] cd.dom_pos [of cfg b a] assms(2) by (simp add: self)
qed

lemma dom_in_trans:
  assumes "wf_cfg cfg" and "dominators_done cfg" and "dom_in cfg a b" and "dom_in cfg b c"
  shows "dom_in cfg a c"
proof (cases "reach (cfg_graph cfg) (cfg_root cfg) c")
  case True
  obtain idom where ex: "cd.exact cfg idom" and self: "wf_of cfg = cfg"
    using done_idom [OF assms(1,2)] by blast
  have "reach (cfg_graph cfg) (cfg_root cfg) b"
    using True assms(4) cd.dom_reached [of cfg b c] by (simp add: self dom_in_def)
  then have "anc idom a b" "anc idom b c"
    using assms(3,4) True cd.exactD(2) [OF ex, unfolded self] by (simp_all add: dom_in_def)
  then have "anc idom a c"
    using cd.anc_trans by blast
  then show ?thesis
    using True cd.exactD(2) [OF ex, unfolded self] by (simp add: dom_in_def)
qed (use assms(3,4) in \<open>simp add: dom_in_def\<close>)

lemma dom_in_pred:
  assumes "reach (cfg_graph cfg) (cfg_root cfg) b" and "(b, s) \<in> cfg_graph cfg" and "dom_in cfg a s" and "a \<noteq> s"
  shows "dom_in cfg a b"
  using assms reach_step [OF assms(1,2)] dom_pred [OF _ assms(4,2)] by (simp add: dom_in_def)

text \<open>
  Which blocks the pass marks as exits: those with an edge to a header that strictly dominates them,
  or to a block that such a header does not dominate.
\<close>

lemma loop_exits_exact:
  assumes wf: "wf_cfg cfg" and dominance: "cfg_compute_dominance cfg = Some cfg1"
    and loops: "cfg_classify_loops cfg1 = Some cfg2" and few: "cfg_nb cfg \<le> 65536" and b: "b < cfg_nb cfg"
  shows "cb_is_loop_exit (cfg_blocks cfg2 ! b) \<longleftrightarrow> cb_is_loop_exit (cfg_blocks cfg ! b) \<or>
    (\<exists>s h. (b, s) \<in> cfg_graph cfg \<and> cb_is_loop_header (cfg_blocks cfg2 ! h) \<and> dom_in cfg h b \<and> h \<noteq> b \<and>
      (s = h \<or> \<not> dom_in cfg h s))"
proof -
  let ?A = "\<lambda>b. {a. dom_in cfg a b \<and> a \<noteq> b \<and> cb_is_loop_header (cfg_blocks cfg2 ! a)}"
  have cfg1: "cfg_edges cfg1 = cfg_edges cfg" "cfg_entry_block cfg1 = cfg_entry_block cfg"
    "cfg_nb cfg1 = cfg_nb cfg" "dominators_done cfg1"
    using compute_dominance_done [OF wf] dominance by auto
  note same = same_graph [OF cfg1(1-3)]
  have wf1: "wf_cfg cfg1" and dom1: "dom_in cfg1 = dom_in cfg"
    using wf same by (simp_all add: dom_in_def fun_eq_iff)
  note marks = loop_marks [OF wf dominance, unfolded loops, simplified]
  have small: "finite (?A c)" "card (?A c) < 65536" if "c < cfg_nb cfg" for c
  proof -
    have "?A c \<subseteq> {..<cfg_nb cfg} - {c}"
      using dom_in_less [OF wf that] by blast
    then show "finite (?A c)" "card (?A c) < 65536"
      using card_mono [of "{..<cfg_nb cfg} - {c}" "?A c"] that few by (auto intro: finite_subset)
  qed
  have less: "cb_loop_depth (cfg_blocks cfg2 ! s) < cb_loop_depth (cfg_blocks cfg2 ! b) \<longleftrightarrow>
      (\<exists>h \<in> ?A b. s = h \<or> \<not> dom_in cfg h s)" if s: "(b, s) \<in> cfg_graph cfg" for s
  proof -
    have snb: "s < cfg_nb cfg"
      using s wf_edges_graph [OF wf_cfgD(1) [OF wf]] by (simp add: cfg_graph_def)
    have "cb_loop_depth (cfg_blocks cfg2 ! c) = of_nat (card (?A c))" if "c < cfg_nb cfg" for c
      using marks that by blast
    then have cards: "cb_loop_depth (cfg_blocks cfg2 ! s) < cb_loop_depth (cfg_blocks cfg2 ! b) \<longleftrightarrow>
        card (?A s) < card (?A b)"
      using small(2) [OF b] small(2) [OF snb] b snb by (simp add: word_less_nat_alt unsigned_of_nat take_bit_nat_eq_self)
    have alt: "(\<exists>h \<in> ?A b. s = h \<or> \<not> dom_in cfg h s) \<longleftrightarrow> \<not> ?A b \<subseteq> ?A s"
      by blast
    show ?thesis
      unfolding cards alt
    proof
      show "card (?A s) < card (?A b) \<Longrightarrow> \<not> ?A b \<subseteq> ?A s"
        using card_mono [OF small(1) [OF snb], of "?A b"] by linarith
    next
      assume out: "\<not> ?A b \<subseteq> ?A s"
      then obtain h where h: "dom_in cfg h b" "h \<noteq> b" "\<not> (dom_in cfg h s \<and> h \<noteq> s)"
        by blast
      then have rb: "reach (cfg_graph cfg) (cfg_root cfg) b"
        by (simp add: dom_in_def split: if_splits)
      have "\<not> (dom_in cfg b s \<and> b \<noteq> s)"
        using h dom_in_trans [OF wf1 cfg1(4), unfolded dom1, of h b s] dom_in_antisym [OF wf rb, of h] by metis
      then have "?A s \<subseteq> ?A b"
        using dom_in_pred [OF rb s] by auto
      then show "card (?A s) < card (?A b)"
        using out by (intro psubset_card_mono [OF small(1) [OF b]]) blast
    qed
  qed
  have "(\<exists>s. (b, s) \<in> cfg_graph cfg \<and> cb_loop_depth (cfg_blocks cfg2 ! s) < cb_loop_depth (cfg_blocks cfg2 ! b)) \<longleftrightarrow>
      (\<exists>s h. (b, s) \<in> cfg_graph cfg \<and> cb_is_loop_header (cfg_blocks cfg2 ! h) \<and> dom_in cfg h b \<and> h \<noteq> b \<and>
        (s = h \<or> \<not> dom_in cfg h s))"
    using less by blast
  moreover have "cb_is_loop_exit (cfg_blocks cfg2 ! b) \<longleftrightarrow> cb_is_loop_exit (cfg_blocks cfg ! b) \<or>
      (\<exists>s. (b, s) \<in> cfg_graph cfg \<and> cb_loop_depth (cfg_blocks cfg2 ! s) < cb_loop_depth (cfg_blocks cfg2 ! b))"
    using marks b by blast
  ultimately show ?thesis
    by (simp only:)
qed


lemma edge_graph_simps:
  "edge_graph [] = {}"
  "edge_graph (e # es) = (case ce_to e of None \<Rightarrow> {} | Some t \<Rightarrow> {(ce_from e, t)}) \<union> edge_graph es"
  by (auto simp: edge_graph_def split: option.splits)

text \<open>\<open>0 > 1, 1 > 2, 1 > 3, 2 > 1\<close>: a loop of 1 and 2 with the way out at its header.\<close>

definition loop_graph :: Cfg where
  "loop_graph =
     (let edge = (\<lambda>from to. \<lparr>ce_from = from, ce_to = Some to, ce_kind = CFG_EDGE_UNCOND, ce_case_value = 0\<rparr>)
      in zero_cfg\<lparr>
        cfg_blocks := List.map new_block [0, 4, 8, 12],
        cfg_edges := [edge 0 1, edge 1 2, edge 1 3, edge 2 1]\<rparr>)"

lemma loop_graph_wf: "wf_cfg loop_graph" "cfg_nb loop_graph = 4" "cfg_root loop_graph = 0"
  "cfg_graph loop_graph = {(0, 1), (1, 2), (1, 3), (2, 1)}"
  "b < 4 \<Longrightarrow> \<not> cb_is_loop_header (cfg_blocks loop_graph ! b) \<and> \<not> cb_is_loop_exit (cfg_blocks loop_graph ! b)"
proof -
  show "wf_cfg loop_graph" "cfg_nb loop_graph = 4" "cfg_root loop_graph = 0"
    "cfg_graph loop_graph = {(0, 1), (1, 2), (1, 3), (2, 1)}"
    by (auto simp: loop_graph_def wf_cfg_def wf_edges_def zero_cfg_def cfg_nb_def cfg_graph_def cfg_root_def
        edge_graph_simps)
  show "\<not> cb_is_loop_header (cfg_blocks loop_graph ! b) \<and> \<not> cb_is_loop_exit (cfg_blocks loop_graph ! b)" if "b < 4" for b
    using that by (auto simp: loop_graph_def zero_cfg_def new_block_def numeral_eq_Suc less_Suc_eq)
qed

lemma loop_graph_dom:
  "dom_in loop_graph 1 2" "dom_in loop_graph 1 3" "dom_in loop_graph h 0 \<Longrightarrow> h = 0"
  "dom_in loop_graph h 1 \<Longrightarrow> h = 0 \<or> h = 1"
proof -
  let ?G = "{(0, 1), (1, 2), (1, 3), (2, 1)} :: (nat \<times> nat) set"
  have walks: "walk ?G 0 [0] 0" "walk ?G 0 [0, 1] 1" "walk ?G 0 [0, 1, 2] 2" "walk ?G 0 [0, 1, 3] 3"
    using walk_root [of ?G 0] walk_step [of ?G 0 "[0]" 0 1] walk_step [of ?G 0 "[0, 1]" 1 2]
      walk_step [of ?G 0 "[0, 1]" 1 3] by simp_all
  have "1 \<in> set w" if "walk ?G 0 w b" "b \<noteq> 0" for w b
    using that by (induction rule: walk.induct) auto
  with walks show "dom_in loop_graph 1 2" "dom_in loop_graph 1 3" "dom_in loop_graph h 0 \<Longrightarrow> h = 0"
    "dom_in loop_graph h 1 \<Longrightarrow> h = 0 \<or> h = 1"
    by (auto simp: dom_in_def loop_graph_wf reach_def dom_by_def split: if_splits)
qed

text \<open>The end of the loop is marked as an exit of it, the header that leaves it is not.\<close>

lemma latch_is_marked:
  "\<exists>cfg1 cfg2. cfg_compute_dominance loop_graph = Some cfg1 \<and> cfg_classify_loops cfg1 = Some cfg2 \<and>
    cb_is_loop_exit (cfg_blocks cfg2 ! 2) \<and> \<not> cb_is_loop_exit (cfg_blocks cfg2 ! 1)"
proof -
  obtain cfg1 where cfg1: "cfg_compute_dominance loop_graph = Some cfg1"
    using compute_dominance_done [OF loop_graph_wf(1)] by blast
  obtain cfg2 where cfg2: "cfg_classify_loops cfg1 = Some cfg2"
    using loop_marks [OF loop_graph_wf(1) cfg1] by blast
  note marks = loop_marks [OF loop_graph_wf(1) cfg1, unfolded cfg2 loop_graph_wf, simplified]
  note exits = loop_exits_exact [OF loop_graph_wf(1) cfg1 cfg2, unfolded loop_graph_wf, simplified]
  have "cb_is_loop_header (cfg_blocks cfg2 ! 1)"
    using marks loop_graph_dom(1) by auto
  moreover have "\<not> cb_is_loop_header (cfg_blocks cfg2 ! 0)"
    using marks loop_graph_wf(5) [of 0] by auto
  moreover have "\<not> (cb_is_loop_header (cfg_blocks cfg2 ! h) \<and> dom_in loop_graph h 1 \<and> h \<noteq> 1)" for h
    using calculation loop_graph_dom(4) [of h] by auto
  ultimately have "cb_is_loop_exit (cfg_blocks cfg2 ! 2)" "\<not> cb_is_loop_exit (cfg_blocks cfg2 ! 1)"
    using exits [of 2] exits [of 1] loop_graph_wf(5) [of 1] loop_graph_dom(1) by auto
  then show ?thesis
    using cfg1 cfg2 by blast
qed


end
