(* ===== verification/CfgSwitch.thy ===== *)
theory CfgSwitch
  imports CfgLoops
begin

unbundle bit_operations_syntax

text \<open>
  The recovery of jump tables (decompiler/src/cli/cfg/cfg_switch.c): the search for the
  instructions that build the address of a table, the table itself, and the edges and the
  switch that replace the unknown successor of the block.  The model keeps the order in which
  the code looks at the instructions: from the last one of the block backwards.
\<close>

section \<open>Operations\<close>

definition vaddr_in_text :: "DolImage \<Rightarrow> u32 \<Rightarrow> bool" where
  "vaddr_in_text img va =
     (case dol_section_for_vaddr img va of
        None \<Rightarrow> False
      | Some s \<Rightarrow> ds_kind s = DOL_SECTION_TEXT)"

text \<open>
  The loop over at most \<open>n\<close> instructions below \<open>va\<close>; \<open>hi\<close> holds the upper half and its
  register once an \<open>addis\<close> has been seen (\<open>have_hi\<close>, \<open>hi\<close>, \<open>hi_reg\<close>).
\<close>

fun table_scan :: "DolImage \<Rightarrow> u32 \<Rightarrow> nat \<Rightarrow> u32 \<Rightarrow> (u32 \<times> u8) option \<Rightarrow> u32 option" where
  "table_scan img stop 0 va hi = None"
| "table_scan img stop (Suc n) va hi =
     (if va > stop
      then case cfg_read_word img (va - 4) of
             None \<Rightarrow> None
           | Some w \<Rightarrow>
               let i = ppc_decode w (va - 4)
               in if pi_op i = PPC_OP_ADDIS \<and> pi_ra i = 0
                  then table_scan img stop n (va - 4) (Some (push_bit 16 (pi_imm i), pi_rd i))
                  else case hi of
                         None \<Rightarrow> table_scan img stop n (va - 4) None
                       | Some (h, r) \<Rightarrow>
                           if pi_op i = PPC_OP_ADDI \<and> pi_ra i = r \<and> pi_rd i = r
                           then Some (h + pi_imm i)
                           else if pi_op i = PPC_OP_ORI \<and> pi_ra i = r \<and> pi_rd i = r
                           then Some (h OR pi_imm i)
                           else table_scan img stop n (va - 4) (Some (h, r))
      else None)"

definition find_table_base :: "DolImage \<Rightarrow> CfgBlock \<Rightarrow> u32 option" where
  "find_table_base img b = table_scan img (cb_start_vaddr b) 16 (cb_end_vaddr b - 4) None"

text \<open>The loop over the table from entry \<open>i\<close> on, for at most \<open>n\<close> entries.\<close>

fun case_scan :: "DolImage \<Rightarrow> u32 \<Rightarrow> nat \<Rightarrow> nat \<Rightarrow> CfgSwitchCase list \<Rightarrow> CfgSwitchCase list" where
  "case_scan img table_va 0 i arr = arr"
| "case_scan img table_va (Suc n) i arr =
     (case cfg_read_word img (table_va + of_nat i * 4) of
        None \<Rightarrow> arr
      | Some w \<Rightarrow>
          if w AND 3 \<noteq> 0 then arr
          else if \<not> vaddr_in_text img w then arr
          else case_scan img table_va n (i + 1) (arr @ [\<lparr>sc_case_value = i, sc_target_vaddr = w\<rparr>]))"

definition recover_cases :: "DolImage \<Rightarrow> u32 \<Rightarrow> CfgSwitchCase list" where
  "recover_cases img table_va = case_scan img table_va 256 0 []"

text \<open>The loop that takes the unknown successors of block \<open>bi\<close> out of the edges.\<close>

fun drop_unknown :: "nat \<Rightarrow> CfgEdge list \<Rightarrow> CfgEdge list" where
  "drop_unknown bi [] = []"
| "drop_unknown bi (e # es) =
     (if ce_from e = bi \<and> ce_kind e = CFG_EDGE_INDIRECT_UNKNOWN
      then drop_unknown bi es else e # drop_unknown bi es)"

fun add_case_edges :: "nat \<Rightarrow> CfgSwitchCase list \<Rightarrow> Cfg \<Rightarrow> Cfg" where
  "add_case_edges bi [] cfg = cfg"
| "add_case_edges bi (c # cs) cfg =
     (case cfg_block_of_vaddr cfg (sc_target_vaddr c) of
        None \<Rightarrow> add_case_edges bi cs cfg
      | Some t \<Rightarrow>
          add_case_edges bi cs
            (cfg_add_edge cfg bi (Some t) CFG_EDGE_SWITCH_CASE (int (sc_case_value c))))"

definition register_switch :: "Cfg \<Rightarrow> nat \<Rightarrow> u32 \<Rightarrow> CfgSwitchCase list \<Rightarrow> Cfg" where
  "register_switch cfg bi table_va cases =
     (let cfg = cfg\<lparr>cfg_edges := drop_unknown bi (cfg_edges cfg)\<rparr>;
          cfg = add_case_edges bi cases cfg;
          cfg = cfg\<lparr>cfg_switches := cfg_switches cfg @
            [\<lparr>sw_block_index = bi, sw_table_vaddr = table_va, sw_default_vaddr = 0, sw_cases = cases\<rparr>]\<rparr>
      in update_block cfg bi (\<lambda>b. b\<lparr>cb_region_kind := CFG_REGION_SWITCH\<rparr>))"

text \<open>The body of the loop over the blocks: the table of a block, if it has one.\<close>

definition block_switch :: "DolImage \<Rightarrow> CfgBlock \<Rightarrow> (u32 \<times> CfgSwitchCase list) option" where
  "block_switch img b =
     (if cb_insn_count b = 0 then None
      else case cfg_read_word img (cb_end_vaddr b - 4) of
             None \<Rightarrow> None
           | Some w \<Rightarrow>
               if pi_op (ppc_decode w (cb_end_vaddr b - 4)) \<noteq> PPC_OP_BCTR then None
               else case find_table_base img b of
                      None \<Rightarrow> None
                    | Some table_va \<Rightarrow>
                        let cases = recover_cases img table_va
                        in if cases = [] then None else Some (table_va, cases))"

fun recover_loop :: "DolImage \<Rightarrow> nat list \<Rightarrow> nat \<Rightarrow> Cfg \<Rightarrow> nat \<times> Cfg" where
  "recover_loop img [] recovered cfg = (recovered, cfg)"
| "recover_loop img (bi # bis) recovered cfg =
     (case block_switch img (cfg_blocks cfg ! bi) of
        None \<Rightarrow> recover_loop img bis recovered cfg
      | Some (table_va, cases) \<Rightarrow>
          recover_loop img bis (recovered + 1) (register_switch cfg bi table_va cases))"

definition cfg_recover_switches :: "Cfg \<Rightarrow> DolImage \<Rightarrow> nat \<times> Cfg" where
  "cfg_recover_switches cfg img = recover_loop img [0..<cfg_nb cfg] 0 cfg"

section \<open>The search for the table\<close>

text \<open>The instructions that the search accepts as the two halves of the address.\<close>

definition loads_high :: "PpcInsn \<Rightarrow> u8 \<Rightarrow> u32 \<Rightarrow> bool" where
  "loads_high i r h \<longleftrightarrow> pi_op i = PPC_OP_ADDIS \<and> pi_ra i = 0 \<and> pi_rd i = r \<and> h = push_bit 16 (pi_imm i)"

definition adds_low :: "PpcInsn \<Rightarrow> u8 \<Rightarrow> u32 \<Rightarrow> u32 \<Rightarrow> bool" where
  "adds_low i r h t \<longleftrightarrow> pi_ra i = r \<and> pi_rd i = r \<and>
     (pi_op i = PPC_OP_ADDI \<and> t = h + pi_imm i \<or> pi_op i = PPC_OP_ORI \<and> t = h OR pi_imm i)"

lemma prev_insn:
  assumes "aligned4 v" and "aligned4 w" and "v < w"
  shows "v \<le> w - 4" and "w - 4 < w" and "aligned4 (w - 4)"
proof -
  obtain i j where ij: "unat v = 4 * i" "unat w = 4 * j"
    using assms(1,2) by (metis aligned4_def mod_eq_0_iff_dvd dvdE)
  with assms(3) have "unat v + 4 \<le> unat w"
    by (simp add: word_less_nat_alt)
  moreover from this have "unat (w - 4) = unat w - 4"
    by (simp add: unat_sub word_le_nat_alt)
  ultimately show "v \<le> w - 4" "w - 4 < w" "aligned4 (w - 4)"
    using ij by (simp_all add: word_le_nat_alt word_less_nat_alt aligned4_def)
qed

lemma table_scan_found:
  assumes "aligned4 stop"
  shows "aligned4 va \<Longrightarrow> table_scan img stop n va hi = Some t \<Longrightarrow>
    (\<forall>h r. hi = Some (h, r) \<longrightarrow> (\<exists>up. va \<le> up \<and> up < last_va \<and> loads_high (insn_at img up) r h)) \<Longrightarrow>
    va \<le> last_va \<Longrightarrow>
    \<exists>low up r h. stop \<le> low \<and> low < up \<and> up < last_va \<and>
      adds_low (insn_at img low) r h t \<and> loads_high (insn_at img up) r h"
proof (induction n arbitrary: va hi)
  case (Suc n)
  then have va: "stop < va"
    by (simp split: if_splits)
  note prev = prev_insn [OF assms Suc.prems(1) va]
  from Suc.prems(2) va obtain w where w: "cfg_read_word img (va - 4) = Some w"
    by (auto split: option.splits)
  define i where "i = ppc_decode w (va - 4)"
  have i: "insn_at img (va - 4) = i"
    by (simp add: insn_at_def w i_def)
  have below: "va - 4 \<le> last_va" "va - 4 < last_va"
    using order.strict_trans2 [OF prev(2) Suc.prems(4)] by simp_all
  show ?case
  proof (cases "pi_op i = PPC_OP_ADDIS \<and> pi_ra i = 0")
    case True
    then have "table_scan img stop n (va - 4) (Some (push_bit 16 (pi_imm i), pi_rd i)) = Some t"
      using Suc.prems(2) va w by (simp add: i_def Let_def)
    from Suc.IH [OF prev(3) this _ below(1)] show ?thesis
      using True below(2) i by (auto simp: loads_high_def)
  next
    case other: False
    show ?thesis
    proof (cases hi)
      case None
      then have "table_scan img stop n (va - 4) None = Some t"
        using Suc.prems(2) va w other by (auto simp: i_def Let_def)
      from Suc.IH [OF prev(3) this _ below(1)] show ?thesis
        by simp
    next
      case (Some p)
      then obtain h r where hi: "hi = Some (h, r)"
        by (cases p) auto
      with Suc.prems(3) obtain up where up: "va \<le> up" "up < last_va" "loads_high (insn_at img up) r h"
        by blast
      have lower: "va - 4 < up"
        using prev(2) up(1) by simp
      show ?thesis
      proof (cases "adds_low i r h t")
        case True
        with up lower prev(1) i show ?thesis
          by blast
      next
        case False
        then have "table_scan img stop n (va - 4) (Some (h, r)) = Some t"
          using Suc.prems(2) va w other hi by (auto simp: i_def adds_low_def Let_def split: if_splits)
        from Suc.IH [OF prev(3) this _ below(1)] show ?thesis
          using up lower by (auto intro: less_imp_le)
      qed
    qed
  qed
qed simp

section \<open>The table\<close>

text \<open>What the code accepts as entry \<open>k\<close> of a table.\<close>

definition table_entry :: "DolImage \<Rightarrow> u32 \<Rightarrow> nat \<Rightarrow> u32 \<Rightarrow> bool" where
  "table_entry img table_va k w \<longleftrightarrow>
     cfg_read_word img (table_va + of_nat k * 4) = Some w \<and> w AND 3 = 0 \<and> vaddr_in_text img w"

definition is_case :: "DolImage \<Rightarrow> u32 \<Rightarrow> nat \<Rightarrow> CfgSwitchCase \<Rightarrow> bool" where
  "is_case img table_va k c \<longleftrightarrow> sc_case_value c = k \<and> table_entry img table_va k (sc_target_vaddr c)"

lemma case_scan_cases:
  "\<forall>k < length arr. is_case img table_va k (arr ! k) \<Longrightarrow> i = length arr \<Longrightarrow>
   (let cs = case_scan img table_va n i arr
    in length cs \<le> i + n \<and> (\<forall>k < length cs. is_case img table_va k (cs ! k)) \<and>
      (length cs < i + n \<longrightarrow> (\<forall>w. \<not> table_entry img table_va (length cs) w)))"
proof (induction n arbitrary: i arr)
  case 0
  then show ?case
    by simp
next
  case (Suc n)
  show ?case
  proof (cases "\<exists>w. table_entry img table_va i w")
    case True
    then obtain w where w: "cfg_read_word img (table_va + of_nat i * 4) = Some w" "w AND 3 = 0"
      "vaddr_in_text img w"
      by (auto simp: table_entry_def)
    let ?arr = "arr @ [\<lparr>sc_case_value = i, sc_target_vaddr = w\<rparr>]"
    have "\<forall>k < length ?arr. is_case img table_va k (?arr ! k)"
      using Suc.prems w by (auto simp: nth_append is_case_def table_entry_def less_Suc_eq)
    from Suc.IH [OF this, of "i + 1"] show ?thesis
      using w Suc.prems(2) by (simp add: Let_def)
  next
    case False
    then have "case_scan img table_va (Suc n) i arr = arr"
      by (auto simp: table_entry_def split: option.splits)
    with Suc.prems False show ?thesis
      by (simp add: Let_def)
  qed
qed

lemma recover_cases_spec:
  "length (recover_cases img table_va) \<le> 256 \<and>
   (\<forall>k < length (recover_cases img table_va). is_case img table_va k (recover_cases img table_va ! k)) \<and>
   (length (recover_cases img table_va) < 256 \<longrightarrow>
     (\<forall>w. \<not> table_entry img table_va (length (recover_cases img table_va)) w))"
  using case_scan_cases [of "[]" img table_va 0 256] by (simp add: recover_cases_def Let_def)

lemma block_switch_Some:
  assumes "block_switch img b = Some (table_va, cases)"
  shows "find_table_base img b = Some table_va" and "cases = recover_cases img table_va" and "cases \<noteq> []"
    and "pi_op (insn_at img (cb_end_vaddr b - 4)) = PPC_OP_BCTR"
  using assms by (auto simp: block_switch_def insn_at_def Let_def split: if_splits option.splits)

section \<open>The recovered graph\<close>

lemma drop_unknown_filter:
  "drop_unknown bi es = filter (\<lambda>e. \<not> (ce_from e = bi \<and> ce_kind e = CFG_EDGE_INDIRECT_UNKNOWN)) es"
  by (induction es) auto

text \<open>The edges of a switch: to the blocks that begin at the targets of its cases.\<close>

definition case_edges :: "CfgBlock list \<Rightarrow> nat \<Rightarrow> CfgSwitchCase list \<Rightarrow> CfgEdge list" where
  "case_edges bs bi cases = concat (List.map (\<lambda>c.
     case block_at bs (sc_target_vaddr c) of
       None \<Rightarrow> []
     | Some t \<Rightarrow> [\<lparr>ce_from = bi, ce_to = Some t, ce_kind = CFG_EDGE_SWITCH_CASE,
                  ce_case_value = int (sc_case_value c)\<rparr>]) cases)"

lemma add_case_edges_eq:
  "add_case_edges bi cases cfg = cfg\<lparr>cfg_edges := cfg_edges cfg @ case_edges (cfg_blocks cfg) bi cases\<rparr>"
proof (induction cases arbitrary: cfg)
  case (Cons c cs)
  then show ?case
    by (cases "block_at (cfg_blocks cfg) (sc_target_vaddr c)")
      (simp_all add: case_edges_def cfg_block_of_vaddr_def cfg_add_edge_def block_at_def)
qed (simp add: case_edges_def)

definition as_switch :: "nat \<Rightarrow> u32 \<times> CfgSwitchCase list \<Rightarrow> CfgSwitch" where
  "as_switch bi s = \<lparr>sw_block_index = bi, sw_table_vaddr = fst s, sw_default_vaddr = 0, sw_cases = snd s\<rparr>"

definition switches_in :: "DolImage \<Rightarrow> CfgBlock list \<Rightarrow> nat list \<Rightarrow> CfgSwitch list" where
  "switches_in img bs bis = concat (List.map (\<lambda>bi.
     case block_switch img (bs ! bi) of None \<Rightarrow> [] | Some s \<Rightarrow> [as_switch bi s]) bis)"

definition switched :: "CfgSwitch list \<Rightarrow> nat \<Rightarrow> bool" where
  "switched sws bi \<longleftrightarrow> bi \<in> sw_block_index ` set sws"

definition mark_switched :: "CfgSwitch list \<Rightarrow> CfgBlock list \<Rightarrow> CfgBlock list" where
  "mark_switched sws bs = List.map (\<lambda>i.
     if switched sws i then (bs ! i)\<lparr>cb_region_kind := CFG_REGION_SWITCH\<rparr> else bs ! i) [0..<length bs]"

definition switch_edges :: "CfgBlock list \<Rightarrow> CfgSwitch list \<Rightarrow> CfgEdge list" where
  "switch_edges bs sws = concat (List.map (\<lambda>s. case_edges bs (sw_block_index s) (sw_cases s)) sws)"

definition keeps_edge :: "CfgSwitch list \<Rightarrow> CfgEdge \<Rightarrow> bool" where
  "keeps_edge sws e \<longleftrightarrow> \<not> (switched sws (ce_from e) \<and> ce_kind e = CFG_EDGE_INDIRECT_UNKNOWN)"

text \<open>The graph with the switches \<open>sws\<close> put in, in their order.\<close>

definition with_switches :: "CfgSwitch list \<Rightarrow> Cfg \<Rightarrow> Cfg" where
  "with_switches sws cfg = cfg
     \<lparr>cfg_blocks := mark_switched sws (cfg_blocks cfg),
      cfg_edges := filter (keeps_edge sws) (cfg_edges cfg) @ switch_edges (cfg_blocks cfg) sws,
      cfg_switches := cfg_switches cfg @ sws\<rparr>"

lemma with_no_switches: "with_switches [] cfg = cfg"
  by (simp add: with_switches_def mark_switched_def switched_def switch_edges_def keeps_edge_def map_nth)

lemma mark_switched_nth:
  "i < length bs \<Longrightarrow> mark_switched sws bs ! i =
    (if switched sws i then (bs ! i)\<lparr>cb_region_kind := CFG_REGION_SWITCH\<rparr> else bs ! i)"
  by (simp add: mark_switched_def)

lemma mark_switched_length [simp]: "length (mark_switched sws bs) = length bs"
  by (simp add: mark_switched_def)

lemma find_index_cong:
  "length xs = length ys \<Longrightarrow> (\<And>i. i < length xs \<Longrightarrow> P (xs ! i) = P (ys ! i)) \<Longrightarrow>
    find_index P xs k = find_index P ys k"
proof (induction xs arbitrary: ys k)
  case (Cons x xs)
  then obtain y ys' where ys: "ys = y # ys'"
    by (cases ys) auto
  have "P x = P y" "\<And>i. i < length xs \<Longrightarrow> P (xs ! i) = P (ys' ! i)"
    using Cons.prems(2) [of 0] Cons.prems(2) [of "Suc _"] by (simp_all add: ys)
  with Cons.IH [of ys'] Cons.prems(1) show ?case
    by (simp add: ys)
qed simp

lemma block_at_mark [simp]: "block_at (mark_switched sws bs) v = block_at bs v"
  unfolding block_at_def by (rule find_index_cong) (simp_all add: mark_switched_nth)

lemma case_edges_mark [simp]: "case_edges (mark_switched sws bs) bi cs = case_edges bs bi cs"
  by (simp add: case_edges_def)

lemma block_switch_mark:
  "i < length bs \<Longrightarrow> block_switch img (mark_switched sws bs ! i) = block_switch img (bs ! i)"
proof -
  have "find_table_base img (b\<lparr>cb_region_kind := r\<rparr>) = find_table_base img b" for b :: CfgBlock and r
    by (simp add: find_table_base_def)
  then have "block_switch img (b\<lparr>cb_region_kind := r\<rparr>) = block_switch img b" for b :: CfgBlock and r
    by (simp add: block_switch_def split: option.split)
  then show "i < length bs \<Longrightarrow> block_switch img (mark_switched sws bs ! i) = block_switch img (bs ! i)"
    by (simp add: mark_switched_nth)
qed

lemma case_edges_kind: "e \<in> set (case_edges bs bi cs) \<Longrightarrow> ce_kind e = CFG_EDGE_SWITCH_CASE"
  by (auto simp: case_edges_def split: option.splits)

lemma switch_edges_kind: "e \<in> set (switch_edges bs sws) \<Longrightarrow> ce_kind e = CFG_EDGE_SWITCH_CASE"
  by (auto simp: switch_edges_def dest: case_edges_kind)

lemma register_with:
  assumes "bi < length (cfg_blocks cfg)"
  shows "register_switch (with_switches sws cfg) bi (fst s) (snd s) = with_switches (sws @ [as_switch bi s]) cfg"
proof -
  have keep: "keeps_edge (sws @ [as_switch bi s]) e \<longleftrightarrow>
      keeps_edge sws e \<and> \<not> (ce_from e = bi \<and> ce_kind e = CFG_EDGE_INDIRECT_UNKNOWN)" for e
    by (auto simp: keeps_edge_def switched_def as_switch_def)
  then have keeps: "keeps_edge (sws @ [as_switch bi s]) =
      (\<lambda>e. keeps_edge sws e \<and> \<not> (ce_from e = bi \<and> ce_kind e = CFG_EDGE_INDIRECT_UNKNOWN))"
    by (rule ext)
  have edges: "drop_unknown bi (cfg_edges (with_switches sws cfg)) @ case_edges (cfg_blocks cfg) bi (snd s) =
      cfg_edges (with_switches (sws @ [as_switch bi s]) cfg)"
  proof -
    have "filter (\<lambda>e. \<not> (ce_from e = bi \<and> ce_kind e = CFG_EDGE_INDIRECT_UNKNOWN)) (switch_edges (cfg_blocks cfg) sws) =
        switch_edges (cfg_blocks cfg) sws"
      by (rule filter_True) (auto dest: switch_edges_kind)
    then show ?thesis
      by (simp add: drop_unknown_filter with_switches_def switch_edges_def keeps)
        (simp add: as_switch_def)
  qed
  have blocks: "(mark_switched sws (cfg_blocks cfg))[bi :=
        (mark_switched sws (cfg_blocks cfg) ! bi)\<lparr>cb_region_kind := CFG_REGION_SWITCH\<rparr>] =
      mark_switched (sws @ [as_switch bi s]) (cfg_blocks cfg)"
    using assms by (intro nth_equalityI) (auto simp: mark_switched_nth nth_list_update switched_def as_switch_def)
  show ?thesis
    using edges blocks
    by (simp add: register_switch_def add_case_edges_eq update_block_def Let_def)
      (simp add: with_switches_def as_switch_def)
qed

lemma recover_loop_eq:
  assumes "\<forall>bi \<in> set bis. bi < length (cfg_blocks cfg)"
  shows "recover_loop img bis n (with_switches sws cfg) =
    (n + length (switches_in img (cfg_blocks cfg) bis),
     with_switches (sws @ switches_in img (cfg_blocks cfg) bis) cfg)"
  using assms
proof (induction bis arbitrary: n sws)
  case (Cons bi bis)
  have bi: "bi < length (cfg_blocks cfg)" "\<forall>bi \<in> set bis. bi < length (cfg_blocks cfg)"
    using Cons.prems by simp_all
  have at: "block_switch img (cfg_blocks (with_switches sws cfg) ! bi) = block_switch img (cfg_blocks cfg ! bi)"
    using block_switch_mark [OF bi(1)] by (simp add: with_switches_def)
  show ?case
  proof (cases "block_switch img (cfg_blocks cfg ! bi)")
    case None
    with Cons.IH [OF bi(2)] at show ?thesis
      by (simp add: switches_in_def)
  next
    case (Some s)
    with Cons.IH [OF bi(2)] at register_with [OF bi(1), of sws s] show ?thesis
      by (cases s) (simp add: switches_in_def)
  qed
qed (simp add: switches_in_def)

lemma recover_switches_eq:
  "cfg_recover_switches cfg img =
    (let sws = switches_in img (cfg_blocks cfg) [0..<cfg_nb cfg] in (length sws, with_switches sws cfg))"
  using recover_loop_eq [of "[0..<cfg_nb cfg]" cfg img 0 "[]"]
  by (simp add: cfg_recover_switches_def cfg_nb_def with_no_switches Let_def)

section \<open>The properties\<close>

text \<open>
  The order of the two halves: the search for the table of a block looks at its
  instructions from the last one backwards and accepts the lower half only after the upper
  one, so an address that it finds comes from an \<open>addi\<close> or \<open>ori\<close> that stands before the
  \<open>addis\<close> of the same register.  A block in which the upper half is loaded first, as the code
  says it expects, has no table for it.
\<close>

lemma table_base_reversed:
  assumes "block_ok img b" and "find_table_base img b = Some t"
  shows "\<exists>low up r h. cb_start_vaddr b \<le> low \<and> low < up \<and> up < cb_end_vaddr b - 4 \<and>
    adds_low (insn_at img low) r h t \<and> loads_high (insn_at img up) r h"
proof -
  have ok: "aligned4 (cb_start_vaddr b)" "aligned4 (cb_end_vaddr b)" "cb_start_vaddr b < cb_end_vaddr b"
    using assms(1) by (simp_all add: block_ok_def)
  from table_scan_found [OF ok(1) prev_insn(3) [OF ok], where n = 16 and hi = None and last_va = "cb_end_vaddr b - 4"] assms(2)
  show ?thesis
    by (simp add: find_table_base_def)
qed

text \<open>
  C31. What the recovery adds: every switch belongs to a block that ends in \<open>bctr\<close> with a table;
  its cases are the first 1 to 256 entries of the table, numbered from 0, each one an aligned
  address inside a text section; its block becomes a switch region; and the edges are those
  of before without the unknown successors of the switches, and one edge for every case whose
  target begins a block.
\<close>

theorem switches_recovered:
  assumes "cfg_recover_switches cfg img = (n, cfg')" and "cfg_switches cfg = []"
  shows "n = length (cfg_switches cfg') \<and>
    (\<forall>s \<in> set (cfg_switches cfg').
       sw_block_index s < cfg_nb cfg \<and>
       pi_op (insn_at img (cb_end_vaddr (cfg_blocks cfg ! sw_block_index s) - 4)) = PPC_OP_BCTR \<and>
       find_table_base img (cfg_blocks cfg ! sw_block_index s) = Some (sw_table_vaddr s) \<and>
       0 < length (sw_cases s) \<and> length (sw_cases s) \<le> 256 \<and>
       (\<forall>k < length (sw_cases s). is_case img (sw_table_vaddr s) k (sw_cases s ! k)) \<and>
       cb_region_kind (cfg_blocks cfg' ! sw_block_index s) = CFG_REGION_SWITCH) \<and>
    (\<forall>e. e \<in> set (cfg_edges cfg') \<longleftrightarrow>
       e \<in> set (cfg_edges cfg) \<and>
         \<not> (ce_kind e = CFG_EDGE_INDIRECT_UNKNOWN \<and> (\<exists>s \<in> set (cfg_switches cfg'). sw_block_index s = ce_from e)) \<or>
       (\<exists>s \<in> set (cfg_switches cfg'). \<exists>c \<in> set (sw_cases s). \<exists>t.
         cfg_block_of_vaddr cfg (sc_target_vaddr c) = Some t \<and>
         e = \<lparr>ce_from = sw_block_index s, ce_to = Some t, ce_kind = CFG_EDGE_SWITCH_CASE,
              ce_case_value = int (sc_case_value c)\<rparr>))"
proof -
  let ?sws = "switches_in img (cfg_blocks cfg) [0..<cfg_nb cfg]"
  have run: "n = length ?sws" "cfg' = with_switches ?sws cfg"
    using assms(1) by (simp_all add: recover_switches_eq Let_def)
  then have sws: "cfg_switches cfg' = ?sws"
    using assms(2) by (simp add: with_switches_def)
  have edges: "e \<in> set (cfg_edges cfg') \<longleftrightarrow>
      e \<in> set (cfg_edges cfg) \<and> keeps_edge ?sws e \<or> e \<in> set (switch_edges (cfg_blocks cfg) ?sws)" for e
    by (auto simp: run(2) with_switches_def)
  have case_edge: "e \<in> set (case_edges (cfg_blocks cfg) bi cs) \<longleftrightarrow> (\<exists>c \<in> set cs. \<exists>t.
      cfg_block_of_vaddr cfg (sc_target_vaddr c) = Some t \<and>
      e = \<lparr>ce_from = bi, ce_to = Some t, ce_kind = CFG_EDGE_SWITCH_CASE, ce_case_value = int (sc_case_value c)\<rparr>)"
    for e bi cs
    unfolding case_edges_def cfg_block_of_vaddr_def block_at_def
    by (force split: option.splits)
  have one: "sw_block_index s < cfg_nb cfg \<and>
      block_switch img (cfg_blocks cfg ! sw_block_index s) = Some (sw_table_vaddr s, sw_cases s)" if "s \<in> set ?sws" for s
    using that by (auto simp: switches_in_def as_switch_def split: option.splits)
  have switch: "sw_block_index s < cfg_nb cfg \<and>
      pi_op (insn_at img (cb_end_vaddr (cfg_blocks cfg ! sw_block_index s) - 4)) = PPC_OP_BCTR \<and>
      find_table_base img (cfg_blocks cfg ! sw_block_index s) = Some (sw_table_vaddr s) \<and>
      0 < length (sw_cases s) \<and> length (sw_cases s) \<le> 256 \<and>
      (\<forall>k < length (sw_cases s). is_case img (sw_table_vaddr s) k (sw_cases s ! k)) \<and>
      cb_region_kind (cfg_blocks cfg' ! sw_block_index s) = CFG_REGION_SWITCH" if s: "s \<in> set ?sws" for s
  proof -
    note facts = block_switch_Some [OF one [OF s, THEN conjunct2]]
    have "cb_region_kind (cfg_blocks cfg' ! sw_block_index s) = CFG_REGION_SWITCH"
      using one [OF s] s by (simp add: run(2) with_switches_def mark_switched_nth cfg_nb_def switched_def)
    with facts one [OF s] recover_cases_spec [of img "sw_table_vaddr s"] show ?thesis
      by simp
  qed
  show ?thesis
    using switch unfolding sws edges run(1) keeps_edge_def switched_def switch_edges_def
    by (intro conjI ballI allI) (auto simp: case_edge image_iff)
qed

section \<open>A sample table\<close>

text \<open>A block with the halves in the accepted order, and a table of one entry behind it.\<close>

definition sample_switch :: "u32 list" where
  "sample_switch = [0x398C400C, 0x3D808000, 0x4E800420, 0x80004000]"

definition switch_block :: CfgBlock where
  "switch_block = (new_block 0x80004000)\<lparr>cb_end_vaddr := 0x8000400C, cb_insn_count := 3\<rparr>"

definition switch_cfg :: Cfg where
  "switch_cfg = zero_cfg\<lparr>cfg_blocks := [switch_block],
     cfg_edges := [edge 0 None CFG_EDGE_INDIRECT_UNKNOWN]\<rparr>"

lemma switch_words:
  "cfg_read_word (code_image sample_switch) 0x80004000 = Some 0x398C400C"
  "cfg_read_word (code_image sample_switch) 0x80004004 = Some 0x3D808000"
  "cfg_read_word (code_image sample_switch) 0x80004008 = Some 0x4E800420"
  "cfg_read_word (code_image sample_switch) 0x8000400C = Some 0x80004000"
  using code_image_word [of 0 sample_switch] code_image_word [of 1 sample_switch]
    code_image_word [of 2 sample_switch] code_image_word [of 3 sample_switch]
  by (simp_all add: sample_switch_def)

lemma switch_insns:
  "pi_op (ppc_decode 0x398C400C va) = PPC_OP_ADDI" "pi_ra (ppc_decode 0x398C400C va) = 12"
  "pi_rd (ppc_decode 0x398C400C va) = 12" "pi_imm (ppc_decode 0x398C400C va) = 0x400C"
  "pi_op (ppc_decode 0x3D808000 va) = PPC_OP_ADDIS" "pi_ra (ppc_decode 0x3D808000 va) = 0"
  "pi_rd (ppc_decode 0x3D808000 va) = 12" "pi_imm (ppc_decode 0x3D808000 va) = 0xFFFF8000"
  "pi_op (ppc_decode 0x4E800420 va) = PPC_OP_BCTR"
  by (simp_all add: ppc_decode_def decode_primary_def decode_dform_arith_def decode_opcode19_def
      ppc_bits_def field8_def ppc_sext_def zero_insn_def Let_def)

lemma switch_base: "find_table_base (code_image sample_switch) switch_block = Some 0x8000400C"
proof -
  obtain n :: nat where n: "16 = Suc (Suc n)"
    by (rule that [of 14]) simp
  show ?thesis
    unfolding find_table_base_def n
    by (simp add: switch_block_def new_block_def switch_words switch_insns Let_def)
qed

lemma switch_block_ok: "block_ok (code_image sample_switch) switch_block"
proof -
  have no_end: "\<not> ends_block (pi_op (insn_at (code_image sample_switch) va))"
    if va: "0x80004000 \<le> va" "va + 4 < 0x8000400C" "aligned4 va" "va < 0x8000400C" for va :: u32
  proof -
    obtain k where k: "unat va = 4 * k"
      using va(3) by (auto simp: aligned4_def mod_eq_0_iff_dvd)
    have "unat (va + 4) = unat va + 4"
      using va(4) by (intro unat_add_u32 [of va 4, simplified]) (simp add: word_less_nat_alt)
    then have "k = 0x20001000 \<or> k = 0x20001001"
      using va(1,2) k by (auto simp: word_le_nat_alt word_less_nat_alt)
    with k have "va = 0x80004000 \<or> va = 0x80004004"
      by (auto simp: word_unat_eq_iff)
    then show ?thesis
      by (auto simp: insn_at_def ends_block_def switch_words switch_insns)
  qed
  have "aligned4 0x80004000" "aligned4 0x8000400C"
    by (simp_all add: aligned4_def)
  with no_end show ?thesis
    by (simp add: block_ok_def switch_block_def new_block_def)
qed

lemma switch_cases: "recover_cases (code_image sample_switch) 0x8000400C \<noteq> []"
proof -
  have "vaddr_in_text (code_image sample_switch) 0x80004000"
    by (simp add: vaddr_in_text_def dol_section_for_vaddr_def covers_vaddr_def code_image_def sample_switch_def)
  then have "table_entry (code_image sample_switch) 0x8000400C 0 0x80004000"
    by (simp add: table_entry_def switch_words)
  with recover_cases_spec [of "code_image sample_switch" "0x8000400C"] show ?thesis
    by auto
qed

theorem switches_recovered_witness:
  "\<exists>n cfg'. cfg_recover_switches switch_cfg (code_image sample_switch) = (n, cfg') \<and> 0 < n \<and>
    (\<forall>s \<in> set (cfg_switches cfg').
       find_table_base (code_image sample_switch) (cfg_blocks switch_cfg ! sw_block_index s) = Some (sw_table_vaddr s))"
proof -
  obtain n cfg' where run: "cfg_recover_switches switch_cfg (code_image sample_switch) = (n, cfg')"
    by (cases "cfg_recover_switches switch_cfg (code_image sample_switch)") simp
  have "cfg_switches switch_cfg = []"
    by (simp add: switch_cfg_def zero_cfg_def)
  note facts = switches_recovered [OF run this]
  have "cb_end_vaddr switch_block - 4 = 0x80004008" "cb_insn_count switch_block \<noteq> 0"
    by (simp_all add: switch_block_def)
  then have "block_switch (code_image sample_switch) switch_block \<noteq> None"
    using switch_base switch_cases by (simp add: block_switch_def switch_words switch_insns Let_def)
  then have "0 < n"
    using run by (auto simp: recover_switches_eq Let_def switches_in_def switch_cfg_def zero_cfg_def cfg_nb_def)
  with run facts show ?thesis
    by blast
qed

text \<open>The usual order of the two instructions finds nothing.\<close>

definition usual_switch :: "u32 list" where
  "usual_switch = [0x3D808000, 0x398C400C, 0x4E800420, 0x80004000]"

lemma usual_words:
  "cfg_read_word (code_image usual_switch) 0x80004000 = Some 0x3D808000"
  "cfg_read_word (code_image usual_switch) 0x80004004 = Some 0x398C400C"
  using code_image_word [of 0 usual_switch] code_image_word [of 1 usual_switch]
  by (simp_all add: usual_switch_def)

lemma usual_order_missed: "find_table_base (code_image usual_switch) switch_block = None"
proof -
  obtain n :: nat where n: "16 = Suc (Suc (Suc n))"
    by (rule that [of 13]) simp
  show ?thesis
    unfolding find_table_base_def n
    by (simp add: switch_block_def new_block_def usual_words switch_insns Let_def)
qed

lemma table_base_reversed_sample:
  "find_table_base (code_image usual_switch) switch_block = None \<and>
   (\<exists>low up r h. 0x80004000 \<le> low \<and> low < up \<and> up < 0x80004008 \<and>
     adds_low (insn_at (code_image sample_switch) low) r h 0x8000400C \<and>
     loads_high (insn_at (code_image sample_switch) up) r h)"
  using table_base_reversed [OF switch_block_ok switch_base] usual_order_missed
  by (simp add: switch_block_def new_block_def)

end
