(* ===== verification/CfgRegions.thy ===== *)
theory CfgRegions
  imports CfgSwitch
begin

text \<open>
  The classification of the blocks into regions (decompiler/src/cli/cfg/cfg_regions.c).  The
  stack of \<open>forward_reach\<close> and the queue of \<open>first_common\<close> are arrays with one entry for each
  block; an entry written behind their end is the value \<open>None\<close>, as is a loop that does not end.
\<close>

section \<open>Operations\<close>

text \<open>The walk up the immediate dominators of \<open>from\<close> in search of \<open>to\<close>.\<close>

partial_function (option) idom_walk :: "Cfg \<Rightarrow> nat option \<Rightarrow> nat \<Rightarrow> bool option" where
  "idom_walk cfg cur to =
     (case cur of
        None \<Rightarrow> Some False
      | Some c \<Rightarrow>
          if c = to then Some True
          else if cb_idom (cfg_blocks cfg ! c) = Some c then Some False
          else idom_walk cfg (cb_idom (cfg_blocks cfg ! c)) to)"

definition is_back :: "Cfg \<Rightarrow> nat \<Rightarrow> nat \<Rightarrow> bool option" where
  "is_back cfg from to = idom_walk cfg (Some from) to"

text \<open>The loop over the edges in \<open>forward_reach\<close>; the top of the stack is the head of the list.\<close>

fun push_succs :: "Cfg \<Rightarrow> nat \<Rightarrow> bool list \<Rightarrow> CfgEdge list \<Rightarrow> nat list \<Rightarrow> nat list option" where
  "push_succs cfg b mark [] stack = Some stack"
| "push_succs cfg b mark (e # es) stack =
     (if ce_from e \<noteq> b then push_succs cfg b mark es stack
      else case ce_to e of
             None \<Rightarrow> push_succs cfg b mark es stack
           | Some to \<Rightarrow>
               if ce_kind e = CFG_EDGE_SWITCH_CASE then push_succs cfg b mark es stack
               else case is_back cfg (ce_from e) to of
                      None \<Rightarrow> None
                    | Some r \<Rightarrow>
                        if r \<or> mark ! to then push_succs cfg b mark es stack
                        else if length stack < cfg_nb cfg
                        then push_succs cfg b mark es (to # stack)
                        else None)"

partial_function (option) reach_loop :: "Cfg \<Rightarrow> nat list \<Rightarrow> bool list \<Rightarrow> bool list option" where
  "reach_loop cfg stack mark =
     (case stack of
        [] \<Rightarrow> Some mark
      | b # stack \<Rightarrow>
          if mark ! b then reach_loop cfg stack mark
          else case push_succs cfg b (mark[b := True]) (cfg_edges cfg) stack of
                 None \<Rightarrow> None
               | Some stack \<Rightarrow> reach_loop cfg stack (mark[b := True]))"

definition forward_reach :: "Cfg \<Rightarrow> nat \<Rightarrow> bool list \<Rightarrow> bool list option" where
  "forward_reach cfg start mark = (if 0 < cfg_nb cfg then reach_loop cfg [start] mark else None)"

text \<open>The loop over the edges in \<open>first_common\<close>, with the queue and the array of seen blocks.\<close>

fun enqueue_succs :: "Cfg \<Rightarrow> nat \<Rightarrow> CfgEdge list \<Rightarrow> nat list \<Rightarrow> bool list \<Rightarrow> (nat list \<times> bool list) option" where
  "enqueue_succs cfg b [] q seen = Some (q, seen)"
| "enqueue_succs cfg b (e # es) q seen =
     (if ce_from e \<noteq> b then enqueue_succs cfg b es q seen
      else case ce_to e of
             None \<Rightarrow> enqueue_succs cfg b es q seen
           | Some to \<Rightarrow>
               if ce_kind e = CFG_EDGE_SWITCH_CASE then enqueue_succs cfg b es q seen
               else case is_back cfg (ce_from e) to of
                      None \<Rightarrow> None
                    | Some r \<Rightarrow>
                        if r \<or> seen ! to then enqueue_succs cfg b es q seen
                        else if length q < cfg_nb cfg
                        then enqueue_succs cfg b es (q @ [to]) (seen[to := True])
                        else None)"

partial_function (option) bfs_loop ::
  "Cfg \<Rightarrow> bool list \<Rightarrow> nat list \<Rightarrow> nat \<Rightarrow> bool list \<Rightarrow> nat option option" where
  "bfs_loop cfg m1 q qh seen =
     (if qh < length q
      then if m1 ! (q ! qh) then Some (Some (q ! qh))
           else case enqueue_succs cfg (q ! qh) (cfg_edges cfg) q seen of
                  None \<Rightarrow> None
                | Some r \<Rightarrow> bfs_loop cfg m1 (fst r) (qh + 1) (snd r)
      else Some None)"

definition first_common :: "Cfg \<Rightarrow> nat \<Rightarrow> nat \<Rightarrow> nat option option" where
  "first_common cfg s1 s2 =
     (case forward_reach cfg s1 (replicate (cfg_nb cfg) False) of
        None \<Rightarrow> None
      | Some m1 \<Rightarrow> bfs_loop cfg m1 [s2] 0 ((replicate (cfg_nb cfg) False)[s2 := True]))"

text \<open>The first two forward successors of a block.\<close>

fun succs_scan :: "Cfg \<Rightarrow> nat \<Rightarrow> CfgEdge list \<Rightarrow> nat option \<Rightarrow> nat option \<Rightarrow> (nat option \<times> nat option) option" where
  "succs_scan cfg bi [] s1 s2 = Some (s1, s2)"
| "succs_scan cfg bi (e # es) s1 s2 =
     (if ce_from e \<noteq> bi then succs_scan cfg bi es s1 s2
      else case ce_to e of
             None \<Rightarrow> succs_scan cfg bi es s1 s2
           | Some to \<Rightarrow>
               if ce_kind e = CFG_EDGE_SWITCH_CASE \<or> ce_kind e = CFG_EDGE_SWITCH_DEFAULT
               then succs_scan cfg bi es s1 s2
               else case is_back cfg (ce_from e) to of
                      None \<Rightarrow> None
                    | Some r \<Rightarrow>
                        if r then succs_scan cfg bi es s1 s2
                        else if s1 = None then succs_scan cfg bi es (Some to) s2
                        else if s2 = None then succs_scan cfg bi es s1 (Some to)
                        else succs_scan cfg bi es s1 s2)"

definition forward_succs :: "Cfg \<Rightarrow> nat \<Rightarrow> (nat option \<times> nat option) option" where
  "forward_succs cfg bi = succs_scan cfg bi (cfg_edges cfg) None None"

text \<open>
  The search for an edge into the blocks that a loop header dominates; the two inner loops of
  the code are the walk of \<open>is_back\<close>, from the target and from the source of the edge.
\<close>

fun enters_loop :: "Cfg \<Rightarrow> nat \<Rightarrow> CfgEdge list \<Rightarrow> bool option" where
  "enters_loop cfg h [] = Some False"
| "enters_loop cfg h (e # es) =
     (case ce_to e of
        None \<Rightarrow> enters_loop cfg h es
      | Some to \<Rightarrow>
          if to = h then enters_loop cfg h es
          else case idom_walk cfg (Some to) h of
                 None \<Rightarrow> None
               | Some to_in \<Rightarrow>
                   (case idom_walk cfg (Some (ce_from e)) h of
                      None \<Rightarrow> None
                    | Some fr_in \<Rightarrow> if to_in \<and> \<not> fr_in then Some True else enters_loop cfg h es))"

fun irreducible_scan :: "Cfg \<Rightarrow> nat list \<Rightarrow> bool option" where
  "irreducible_scan cfg [] = Some False"
| "irreducible_scan cfg (h # hs) =
     (if \<not> cb_is_loop_header (cfg_blocks cfg ! h) then irreducible_scan cfg hs
      else case enters_loop cfg h (cfg_edges cfg) of
             None \<Rightarrow> None
           | Some r \<Rightarrow> if r then Some True else irreducible_scan cfg hs)"

definition detect_irreducible :: "Cfg \<Rightarrow> bool option" where
  "detect_irreducible cfg = irreducible_scan cfg [0..<cfg_nb cfg]"

definition set_region :: "CfgRegionKind \<Rightarrow> CfgBlock \<Rightarrow> CfgBlock" where
  "set_region kind b = b\<lparr>cb_region_kind := kind\<rparr>"

text \<open>The body of the loop over the blocks.\<close>

definition classify_block :: "Cfg \<Rightarrow> nat \<Rightarrow> Cfg option" where
  "classify_block cfg i =
     (if cb_region_kind (cfg_blocks cfg ! i) = CFG_REGION_SWITCH then Some cfg
      else if cb_is_loop_header (cfg_blocks cfg ! i)
      then Some (update_block cfg i (set_region CFG_REGION_LOOP))
      else case forward_succs cfg i of
             None \<Rightarrow> None
           | Some (Some s1, Some s2) \<Rightarrow>
               (case first_common cfg s1 s2 of
                  None \<Rightarrow> None
                | Some None \<Rightarrow> Some (update_block cfg i (set_region CFG_REGION_UNSTRUCTURED))
                | Some (Some merge) \<Rightarrow>
                    Some (update_block cfg i (\<lambda>b. set_region
                      (if s1 = merge \<or> s2 = merge then CFG_REGION_IF else CFG_REGION_IF_ELSE)
                      (b\<lparr>cb_if_merge := Some merge\<rparr>))))
           | Some _ \<Rightarrow> Some (update_block cfg i (set_region CFG_REGION_LINEAR)))"

fun classify_blocks :: "Cfg \<Rightarrow> nat list \<Rightarrow> Cfg option" where
  "classify_blocks cfg [] = Some cfg"
| "classify_blocks cfg (i # is) =
     (case classify_block cfg i of None \<Rightarrow> None | Some cfg \<Rightarrow> classify_blocks cfg is)"

definition cfg_classify_regions :: "Cfg \<Rightarrow> Cfg option" where
  "cfg_classify_regions cfg =
     (if cfg_nb cfg = 0 then Some cfg
      else case detect_irreducible cfg of
             None \<Rightarrow> None
           | Some irreducible \<Rightarrow>
               if irreducible
               then Some (cfg\<lparr>cfg_is_irreducible := True,
                 cfg_blocks := List.map (set_region CFG_REGION_UNSTRUCTURED) (cfg_blocks cfg)\<rparr>)
               else classify_blocks cfg [0..<cfg_nb cfg])"

section \<open>Back edges\<close>


text \<open>The walk is the one of \<open>dominates\<close>.\<close>

lemma walk_dominates: "dominates cfg a cur = Some d \<Longrightarrow> idom_walk cfg cur a = Some d"
  by (erule dominates.raw_induct [rotated], subst idom_walk.simps) (auto split: option.splits if_splits)

text \<open>Every walk of the graph returns, as it does once the dominators are computed.\<close>

definition walks_return :: "Cfg \<Rightarrow> bool" where
  "walks_return cfg \<longleftrightarrow> (\<forall>from < cfg_nb cfg. \<forall>to. is_back cfg from to \<noteq> None)"

section \<open>Forward successors\<close>

definition forward_edge :: "Cfg \<Rightarrow> nat \<Rightarrow> CfgEdge \<Rightarrow> bool" where
  "forward_edge cfg b e \<longleftrightarrow>
     ce_from e = b \<and> ce_kind e \<noteq> CFG_EDGE_SWITCH_CASE \<and> ce_to e \<noteq> None \<and>
     is_back cfg b (the (ce_to e)) = Some False"

definition fsuccs_in :: "Cfg \<Rightarrow> nat \<Rightarrow> CfgEdge list \<Rightarrow> nat list" where
  "fsuccs_in cfg b es = List.map (\<lambda>e. the (ce_to e)) (filter (forward_edge cfg b) es)"

definition fgraph :: "Cfg \<Rightarrow> (nat \<times> nat) set" where
  "fgraph cfg = {(b, t). t \<in> set (fsuccs_in cfg b (cfg_edges cfg))}"

text \<open>
  What the searches need of the graph: its edges join blocks, the walks return, and no block
  has more than two successors that they follow.
\<close>

definition search_ok :: "Cfg \<Rightarrow> bool" where
  "search_ok cfg \<longleftrightarrow> wf_edges (cfg_nb cfg) (cfg_edges cfg) \<and> walks_return cfg \<and>
     (\<forall>b < cfg_nb cfg. length (fsuccs_in cfg b (cfg_edges cfg)) \<le> 2)"

lemma fgraph_less: "search_ok cfg \<Longrightarrow> (b, t) \<in> fgraph cfg \<Longrightarrow> b < cfg_nb cfg \<and> t < cfg_nb cfg"
  by (auto simp: search_ok_def fgraph_def fsuccs_in_def forward_edge_def dest: wf_edgesD)

lemma fgraph_reach_less: "search_ok cfg \<Longrightarrow> b < cfg_nb cfg \<Longrightarrow> (b, t) \<in> (fgraph cfg)\<^sup>* \<Longrightarrow> t < cfg_nb cfg"
  by (rotate_tac 2, induction rule: rtrancl_induct) (auto dest: fgraph_less)

text \<open>An edge is followed or not; the walk that decides it returns.\<close>

lemma forward_edge_cases:
  assumes "walks_return cfg" and "b < cfg_nb cfg"
  obtains "ce_from e \<noteq> b" "\<not> forward_edge cfg b e"
    | "ce_from e = b" "ce_to e = None" "\<not> forward_edge cfg b e"
    | "ce_from e = b" "ce_kind e = CFG_EDGE_SWITCH_CASE" "\<not> forward_edge cfg b e"
    | to r where "ce_from e = b" "ce_to e = Some to" "ce_kind e \<noteq> CFG_EDGE_SWITCH_CASE"
      "is_back cfg b to = Some r" "forward_edge cfg b e \<longleftrightarrow> \<not> r"
proof -
  obtain r where "is_back cfg b (the (ce_to e)) = Some r"
    using assms by (auto simp: walks_return_def)
  with that show thesis
    by (cases "ce_to e") (auto simp: forward_edge_def)
qed

lemma fsuccs_in_simps [simp]:
  "fsuccs_in cfg b [] = []"
  "fsuccs_in cfg b (e # es) = (if forward_edge cfg b e then the (ce_to e) # fsuccs_in cfg b es else fsuccs_in cfg b es)"
  by (simp_all add: fsuccs_in_def)

lemma push_succs_eq:
  assumes "walks_return cfg" and "b < cfg_nb cfg"
  shows "length stack + length (filter (\<lambda>t. \<not> mark ! t) (fsuccs_in cfg b es)) \<le> cfg_nb cfg \<Longrightarrow>
    push_succs cfg b mark es stack = Some (rev (filter (\<lambda>t. \<not> mark ! t) (fsuccs_in cfg b es)) @ stack)"
proof (induction es arbitrary: stack)
  case (Cons e es)
  show ?case
  proof (rule forward_edge_cases [OF assms, of e])
    fix to r
    assume "ce_from e = b" "ce_to e = Some to" "ce_kind e \<noteq> CFG_EDGE_SWITCH_CASE"
      "is_back cfg b to = Some r" "forward_edge cfg b e \<longleftrightarrow> \<not> r"
    with Cons.IH [of stack] Cons.IH [of "to # stack"] Cons.prems show ?thesis
      by (cases r; cases "mark ! to") simp_all
  qed (use Cons.IH [of stack] Cons.prems in \<open>simp_all split: option.split\<close>)
qed simp

section \<open>The depth-first search\<close>

lemma unseen_le: "unseen mark \<le> length mark"
  using card_mono [of "{..<length mark}" "{i. i < length mark \<and> \<not> mark ! i}"] by (auto simp: unseen_def)

lemma unseen_mark_Suc:
  assumes "b < length mark" and "\<not> mark ! b"
  shows "Suc (unseen (mark[b := True])) = unseen mark"
proof -
  have "{i. i < length mark \<and> \<not> mark ! i} = insert b {i. i < length mark \<and> \<not> mark[b := True] ! i}"
    using assms by (auto simp: nth_list_update)
  moreover have "b \<notin> {i. i < length mark \<and> \<not> mark[b := True] ! i}"
    using assms(1) by simp
  ultimately show ?thesis
    by (simp add: unseen_def)
qed

lemma unseen_0: "unseen mark = 0 \<Longrightarrow> b < length mark \<Longrightarrow> mark ! b"
  by (auto simp: unseen_def)

text \<open>
  The search from a stack: closed but for the stack, at most one entry more on the stack than
  blocks are marked.  It ends with the marks of what the stack reaches added.
\<close>

definition closed_but :: "(nat \<times> nat) set \<Rightarrow> bool list \<Rightarrow> nat set \<Rightarrow> bool" where
  "closed_but G mark S \<longleftrightarrow> (\<forall>m t. m < length mark \<and> mark ! m \<and> (m, t) \<in> G \<longrightarrow> mark ! t \<or> t \<in> S)"

lemma reach_loop_spec:
  assumes ok: "search_ok cfg"
  shows "length mark = cfg_nb cfg \<Longrightarrow> set stack \<subseteq> {..<cfg_nb cfg} \<Longrightarrow>
    length stack + unseen mark \<le> cfg_nb cfg + 1 \<Longrightarrow> closed_but (fgraph cfg) mark (set stack) \<Longrightarrow>
    \<exists>mark'. reach_loop cfg stack mark = Some mark' \<and> length mark' = cfg_nb cfg \<and>
      closed_but (fgraph cfg) mark' {} \<and>
      (\<forall>b < cfg_nb cfg. mark ! b \<or> b \<in> set stack \<longrightarrow> mark' ! b) \<and>
      (\<forall>b < cfg_nb cfg. mark' ! b \<longrightarrow> mark ! b \<or> (\<exists>s \<in> set stack. (s, b) \<in> (fgraph cfg)\<^sup>*))"
proof (induction "3 * unseen mark + length stack" arbitrary: mark stack rule: less_induct)
  case less
  show ?case
  proof (cases stack)
    case Nil
    with less.prems show ?thesis
      by (subst reach_loop.simps) (auto simp: closed_but_def)
  next
    case (Cons b st)
    have b: "b < cfg_nb cfg" and st: "set st \<subseteq> {..<cfg_nb cfg}"
      using less.prems(2) by (simp_all add: Cons)
    show ?thesis
    proof (cases "mark ! b")
      case True
      then have run: "reach_loop cfg stack mark = reach_loop cfg st mark"
        by (subst reach_loop.simps) (simp add: Cons)
      have "closed_but (fgraph cfg) mark (set st)"
        using less.prems(4) True by (auto simp: closed_but_def Cons)
      from less.hyps [OF _ less.prems(1) st _ this] show ?thesis
        using less.prems(3) True unfolding run by (auto simp: Cons)
    next
      case False
      let ?mark = "mark[b := True]"
      let ?new = "filter (\<lambda>t. \<not> ?mark ! t) (fsuccs_in cfg b (cfg_edges cfg))"
      have two: "length ?new \<le> 2"
        using ok b length_filter_le [of "\<lambda>t. \<not> ?mark ! t" "fsuccs_in cfg b (cfg_edges cfg)"]
        unfolding search_ok_def by (metis le_trans)
      have count: "Suc (unseen ?mark) = unseen mark"
        using unseen_mark_Suc [of b mark] b False less.prems(1) by simp
      have new_less: "set ?new \<subseteq> {..<cfg_nb cfg}"
        using fgraph_less [OF ok] by (auto simp: fgraph_def)
      have new_none: "?new = []" if "unseen ?mark = 0"
        using unseen_0 [OF that] new_less less.prems(1) by (fastforce simp: filter_empty_conv)
      have room: "length st + length ?new \<le> cfg_nb cfg"
        using less.prems(3) count two new_none by (cases "unseen ?mark") (auto simp: Cons)
      have run: "reach_loop cfg stack mark = reach_loop cfg (rev ?new @ st) ?mark"
        using False push_succs_eq [OF _ b room] ok
        by (subst reach_loop.simps) (simp add: Cons search_ok_def)
      have closed: "closed_but (fgraph cfg) ?mark (set (rev ?new @ st))"
        using less.prems(1,4) b by (auto simp: closed_but_def Cons fgraph_def nth_list_update split: if_splits)
      obtain mark' where mark': "reach_loop cfg stack mark = Some mark'" "length mark' = cfg_nb cfg"
        "closed_but (fgraph cfg) mark' {}"
        "\<And>c. c < cfg_nb cfg \<Longrightarrow> ?mark ! c \<or> c \<in> set (rev ?new @ st) \<Longrightarrow> mark' ! c"
        "\<And>c. c < cfg_nb cfg \<Longrightarrow> mark' ! c \<Longrightarrow> ?mark ! c \<or> (\<exists>s \<in> set (rev ?new @ st). (s, c) \<in> (fgraph cfg)\<^sup>*)"
        using less.hyps [OF _ _ _ _ closed] less.prems(1,3) two count st new_less room unfolding run by (auto simp: Cons)
      have "mark ! c \<or> (\<exists>s \<in> set stack. (s, c) \<in> (fgraph cfg)\<^sup>*)" if c: "c < cfg_nb cfg" "mark' ! c" for c
      proof -
        have "(b, t) \<in> fgraph cfg" if "t \<in> set (fsuccs_in cfg b (cfg_edges cfg))" for t
          using that by (simp add: fgraph_def)
        then show ?thesis
          using mark'(5) [OF c] less.prems(1) c(1) b
          by (auto simp: Cons nth_list_update split: if_splits intro: converse_rtrancl_into_rtrancl)
      qed
      moreover have "mark' ! c" if "c < cfg_nb cfg" "mark ! c \<or> c \<in> set stack" for c
        using mark'(4) [OF that(1)] that less.prems(1) b by (auto simp: Cons nth_list_update)
      ultimately show ?thesis
        using mark'(1-3) by blast
    qed
  qed
qed

lemma closed_reach:
  assumes ok: "search_ok cfg" and closed: "closed_but (fgraph cfg) mark {}" and len: "length mark = cfg_nb cfg"
    and s: "s < cfg_nb cfg" "mark ! s" and reach: "(s, t) \<in> (fgraph cfg)\<^sup>*"
  shows "mark ! t"
  using reach
proof (induction rule: rtrancl_induct)
  case (step m t)
  then show ?case
    using closed fgraph_reach_less [OF ok s(1)] len by (auto simp: closed_but_def)
qed (rule s(2))

text \<open>The blocks that \<open>forward_reach\<close> marks from an empty array.\<close>

lemma forward_reach_spec:
  assumes ok: "search_ok cfg" and s: "s < cfg_nb cfg"
  shows "\<exists>mark. forward_reach cfg s (replicate (cfg_nb cfg) False) = Some mark \<and> length mark = cfg_nb cfg \<and>
    (\<forall>b < cfg_nb cfg. mark ! b \<longleftrightarrow> (s, b) \<in> (fgraph cfg)\<^sup>*)"
proof -
  let ?none = "replicate (cfg_nb cfg) False"
  have "length [s] + unseen ?none \<le> cfg_nb cfg + 1"
    using unseen_le [of ?none] by simp
  moreover have "closed_but (fgraph cfg) ?none (set [s])"
    by (auto simp: closed_but_def)
  ultimately obtain mark where mark: "reach_loop cfg [s] ?none = Some mark" "length mark = cfg_nb cfg"
    "closed_but (fgraph cfg) mark {}" "mark ! s"
    "\<And>b. b < cfg_nb cfg \<Longrightarrow> mark ! b \<Longrightarrow> (s, b) \<in> (fgraph cfg)\<^sup>*"
    using reach_loop_spec [OF ok, of ?none "[s]"] s by auto
  have "mark ! b \<longleftrightarrow> (s, b) \<in> (fgraph cfg)\<^sup>*" if "b < cfg_nb cfg" for b
    using mark(5) [OF that] closed_reach [OF ok mark(3,2) s mark(4)] by blast
  with mark(1,2) s show ?thesis
    by (intro exI [of _ mark]) (simp add: forward_reach_def)
qed

section \<open>The breadth-first search\<close>

text \<open>
  The queue holds every seen block once, so it never outgrows its array: the successors that
  are not seen yet go to its end.
\<close>

definition queued :: "Cfg \<Rightarrow> nat list \<Rightarrow> bool list \<Rightarrow> bool" where
  "queued cfg q seen \<longleftrightarrow> length seen = cfg_nb cfg \<and> distinct q \<and> set q = {b. b < cfg_nb cfg \<and> seen ! b}"

lemma queued_length: "queued cfg q seen \<Longrightarrow> length q \<le> cfg_nb cfg"
  using distinct_card [of q] card_mono [of "{..<cfg_nb cfg}" "set q"] by (auto simp: queued_def)

lemma queued_less: "queued cfg q seen \<Longrightarrow> b < cfg_nb cfg \<Longrightarrow> \<not> seen ! b \<Longrightarrow> length q < cfg_nb cfg"
  using distinct_card [of q] psubset_card_mono [of "{..<cfg_nb cfg}" "set q"] by (auto simp: queued_def)

lemma enqueue_succs_spec:
  assumes ok: "search_ok cfg" and b: "b < cfg_nb cfg"
  shows "queued cfg q seen \<Longrightarrow> set es \<subseteq> set (cfg_edges cfg) \<Longrightarrow>
    \<exists>new seen'. enqueue_succs cfg b es q seen = Some (q @ new, seen') \<and> queued cfg (q @ new) seen' \<and>
      set q \<union> set new = set q \<union> set (fsuccs_in cfg b es)"
proof (induction es arbitrary: q seen)
  case (Cons e es)
  have walks: "walks_return cfg" and edges: "wf_edges (cfg_nb cfg) (cfg_edges cfg)"
    using ok by (simp_all add: search_ok_def)
  have es: "set es \<subseteq> set (cfg_edges cfg)" "e \<in> set (cfg_edges cfg)"
    using Cons.prems(2) by simp_all
  show ?case
  proof (rule forward_edge_cases [OF walks b, of e])
    fix to r
    assume e: "ce_from e = b" "ce_to e = Some to" "ce_kind e \<noteq> CFG_EDGE_SWITCH_CASE"
      "is_back cfg b to = Some r" "forward_edge cfg b e \<longleftrightarrow> \<not> r"
    have to: "to < cfg_nb cfg"
      using wf_edgesD(2) [OF edges es(2) e(2)] .
    show ?thesis
    proof (cases "r \<or> seen ! to")
      case True
      then have "to \<in> set q \<or> r"
        using Cons.prems(1) to by (auto simp: queued_def)
      with True e Cons.IH [OF Cons.prems(1) es(1)] show ?thesis
        by auto
    next
      case False
      have "queued cfg (q @ [to]) (seen[to := True])"
        using Cons.prems(1) False to by (auto simp: queued_def nth_list_update split: if_splits)
      from Cons.IH [OF this es(1)] obtain new seen' where
        "enqueue_succs cfg b es (q @ [to]) (seen[to := True]) = Some (q @ to # new, seen')"
        "queued cfg (q @ to # new) seen'"
        "set (q @ [to]) \<union> set new = set (q @ [to]) \<union> set (fsuccs_in cfg b es)"
        by auto
      with False e queued_less [OF Cons.prems(1) to] show ?thesis
        by (intro exI [of _ "to # new"] exI [of _ seen']) auto
    qed
  qed (use Cons.IH [OF Cons.prems(1) es(1)] in \<open>auto split: option.split\<close>)
qed simp

text \<open>The blocks at a distance below \<open>k\<close> from \<open>s\<close>.\<close>

definition within :: "(nat \<times> nat) set \<Rightarrow> nat \<Rightarrow> nat \<Rightarrow> nat set" where
  "within G s k = {b. \<exists>j < k. (s, b) \<in> G ^^ j}"

lemma within_0 [simp]: "within G s 0 = {}"
  by (simp add: within_def)

lemma within_Suc: "within G s (Suc k) = insert s (G `` within G s k)"
proof (intro set_eqI iffI)
  fix b
  assume "b \<in> within G s (Suc k)"
  then obtain j where j: "j < Suc k" "(s, b) \<in> G ^^ j"
    by (auto simp: within_def)
  then show "b \<in> insert s (G `` within G s k)"
    by (cases j) (auto simp: within_def)
next
  fix b
  assume "b \<in> insert s (G `` within G s k)"
  then show "b \<in> within G s (Suc k)"
    by (force simp: within_def intro: exI [of _ 0] exI [of _ "Suc _" for j])
qed

lemma within_reach: "b \<in> within G s k \<Longrightarrow> (s, b) \<in> G\<^sup>*"
  by (auto simp: within_def rtrancl_power)

text \<open>
  The level invariant: the first \<open>p\<close> entries of the queue are the blocks at distance at most
  \<open>k\<close>, those closer than \<open>k\<close> are in front of the head at \<open>qh\<close>, and the queue holds the start and
  the successors of what is in front of the head.
\<close>

definition levels :: "Cfg \<Rightarrow> nat \<Rightarrow> nat list \<Rightarrow> nat \<Rightarrow> nat \<Rightarrow> nat \<Rightarrow> bool" where
  "levels cfg s q qh p k \<longleftrightarrow>
     qh \<le> p \<and> p \<le> length q \<and> set (take p q) = within (fgraph cfg) s (Suc k) \<and>
     within (fgraph cfg) s k \<subseteq> set (take qh q) \<and>
     set q = insert s (fgraph cfg `` set (take qh q))"

lemma levels_next:
  assumes "levels cfg s q qh p k" and "qh < length q"
  shows "\<exists>p k. levels cfg s q qh p k \<and> qh < p"
proof (cases "qh < p")
  case False
  then have eq: "qh = p"
    using assms(1) by (simp add: levels_def)
  have "levels cfg s q qh (length q) (Suc k)"
    using assms by (simp add: levels_def eq within_Suc [of _ _ "Suc k"])
  with assms(2) show ?thesis
    by blast
qed (use assms(1) in blast)

lemma levels_step:
  assumes inv: "levels cfg s q qh p k" and "qh < p"
    and new: "set q \<union> set new = set q \<union> set (fsuccs_in cfg (q ! qh) (cfg_edges cfg))"
  shows "levels cfg s (q @ new) (qh + 1) p k"
proof -
  have less: "qh < length q"
    using assms(1,2) by (simp add: levels_def)
  then have "take (qh + 1) (q @ new) = take qh q @ [q ! qh]"
    by (simp add: take_Suc_conv_app_nth)
  moreover have "fgraph cfg `` {q ! qh} = set (fsuccs_in cfg (q ! qh) (cfg_edges cfg))"
    by (auto simp: fgraph_def)
  ultimately show ?thesis
    using inv new assms(2) by (auto simp: levels_def)
qed

text \<open>The nearest marked block, or none when no marked block can be reached.\<close>

definition nearest :: "Cfg \<Rightarrow> nat \<Rightarrow> (nat \<Rightarrow> bool) \<Rightarrow> nat option \<Rightarrow> bool" where
  "nearest cfg s P r \<longleftrightarrow>
     (case r of
        None \<Rightarrow> \<forall>b. (s, b) \<in> (fgraph cfg)\<^sup>* \<longrightarrow> \<not> P b
      | Some b \<Rightarrow> P b \<and> (\<exists>k. (s, b) \<in> fgraph cfg ^^ k \<and> (\<forall>j < k. \<forall>c. (s, c) \<in> fgraph cfg ^^ j \<longrightarrow> \<not> P c)))"

lemma nearestI:
  assumes "b \<in> within (fgraph cfg) s (Suc k)" and "P b" and "\<forall>c \<in> within (fgraph cfg) s k. \<not> P c"
  shows "nearest cfg s P (Some b)"
proof -
  obtain j where j: "j \<le> k" "(s, b) \<in> fgraph cfg ^^ j"
    using assms(1) by (auto simp: within_def less_Suc_eq_le)
  then have "\<forall>i < j. \<forall>c. (s, c) \<in> fgraph cfg ^^ i \<longrightarrow> \<not> P c"
    using assms(3) j(1) by (fastforce simp: within_def)
  with j(2) assms(2) show ?thesis
    by (auto simp: nearest_def)
qed

lemma nearest_cong:
  assumes "nearest cfg s P r" and "\<And>b. (s, b) \<in> (fgraph cfg)\<^sup>* \<Longrightarrow> P b = Q b"
  shows "nearest cfg s Q r"
proof -
  have "P b = Q b" if "(s, b) \<in> fgraph cfg ^^ k" for b k
    using that assms(2) by (meson relpow_imp_rtrancl)
  with assms show ?thesis
    unfolding nearest_def by (cases r) (simp, simp, metis)
qed

lemma bfs_loop_spec:
  assumes ok: "search_ok cfg"
  shows "queued cfg q seen \<Longrightarrow> levels cfg s q qh p k \<Longrightarrow> \<forall>b \<in> set (take qh q). \<not> m1 ! b \<Longrightarrow>
    \<exists>r. bfs_loop cfg m1 q qh seen = Some r \<and> nearest cfg s (\<lambda>b. m1 ! b) r"
proof (induction "cfg_nb cfg - qh" arbitrary: q seen qh p k rule: less_induct)
  case less
  show ?case
  proof (cases "qh < length q")
    case False
    then have q: "set q = insert s (fgraph cfg `` set q)" "\<forall>b \<in> set q. \<not> m1 ! b"
      using less.prems(2,3) by (simp_all add: levels_def)
    have "b \<in> set q" if "(s, b) \<in> (fgraph cfg)\<^sup>*" for b
      using that by (induction rule: rtrancl_induct) (use q(1) in auto)
    with q(2) False show ?thesis
      by (subst bfs_loop.simps) (auto simp: nearest_def)
  next
    case True
    obtain p k where inv: "levels cfg s q qh p k" "qh < p"
      using levels_next [OF less.prems(2) True] by blast
    let ?b = "q ! qh"
    show ?thesis
    proof (cases "m1 ! ?b")
      case hit: True
      have "?b \<in> set (take p q)"
        using inv True nth_mem [of qh "take p q"] by (simp add: levels_def)
      then have "nearest cfg s (\<lambda>b. m1 ! b) (Some ?b)"
        using inv(1) hit less.prems(3) by (intro nearestI [of _ _ _ k]) (auto simp: levels_def)
      with True hit show ?thesis
        by (subst bfs_loop.simps) simp
    next
      case miss: False
      have b: "?b < cfg_nb cfg" and qh: "qh < cfg_nb cfg"
        using less.prems(1) nth_mem [OF True] True queued_length [OF less.prems(1)] by (auto simp: queued_def)
      obtain new seen' where run: "enqueue_succs cfg ?b (cfg_edges cfg) q seen = Some (q @ new, seen')"
        "queued cfg (q @ new) seen'" "set q \<union> set new = set q \<union> set (fsuccs_in cfg ?b (cfg_edges cfg))"
        using enqueue_succs_spec [OF ok b less.prems(1) order_refl] by blast
      have "\<forall>b \<in> set (take (qh + 1) (q @ new)). \<not> m1 ! b"
        using less.prems(3) miss True by (simp add: take_Suc_conv_app_nth)
      from less.hyps [OF _ run(2) levels_step [OF inv run(3)] this] qh
      show ?thesis
        using True miss run(1) by (subst bfs_loop.simps) simp
    qed
  qed
qed

text \<open>\<open>first_common\<close>: nearest to \<open>s2\<close> among the blocks that \<open>s1\<close> also reaches.\<close>

lemma first_common_spec:
  assumes ok: "search_ok cfg" and s: "s1 < cfg_nb cfg" "s2 < cfg_nb cfg"
  shows "\<exists>r. first_common cfg s1 s2 = Some r \<and> nearest cfg s2 (\<lambda>b. (s1, b) \<in> (fgraph cfg)\<^sup>*) r"
proof -
  obtain m1 where m1: "forward_reach cfg s1 (replicate (cfg_nb cfg) False) = Some m1"
    "\<And>b. b < cfg_nb cfg \<Longrightarrow> m1 ! b \<longleftrightarrow> (s1, b) \<in> (fgraph cfg)\<^sup>*"
    using forward_reach_spec [OF ok s(1)] by blast
  let ?seen = "(replicate (cfg_nb cfg) False)[s2 := True]"
  have "queued cfg [s2] ?seen"
    using s(2) by (auto simp: queued_def nth_list_update split: if_splits)
  moreover have "levels cfg s2 [s2] 0 1 0"
    by (simp add: levels_def within_Suc)
  ultimately obtain r where r: "bfs_loop cfg m1 [s2] 0 ?seen = Some r" "nearest cfg s2 (\<lambda>b. m1 ! b) r"
    using bfs_loop_spec [OF ok, of "[s2]" ?seen s2 0 1 0 m1] by auto
  have same: "m1 ! b \<longleftrightarrow> (s1, b) \<in> (fgraph cfg)\<^sup>*" if "(s2, b) \<in> (fgraph cfg)\<^sup>*" for b
    using m1(2) fgraph_reach_less [OF ok s(2) that] by blast
  have "nearest cfg s2 (\<lambda>b. (s1, b) \<in> (fgraph cfg)\<^sup>*) r"
    using r(2) by (rule nearest_cong) (rule same)
  with m1(1) r(1) show ?thesis
    by (simp add: first_common_def)
qed

section \<open>Graphs with the same walks\<close>

text \<open>The walks depend on the immediate dominators alone, which join blocks.\<close>

definition chains_in :: "Cfg \<Rightarrow> bool" where
  "chains_in cfg \<longleftrightarrow> (\<forall>i < cfg_nb cfg. \<forall>d. cb_idom (cfg_blocks cfg ! i) = Some d \<longrightarrow> d < cfg_nb cfg)"

definition same_walks :: "Cfg \<Rightarrow> Cfg \<Rightarrow> bool" where
  "same_walks cfg cfg' \<longleftrightarrow> cfg_nb cfg' = cfg_nb cfg \<and>
     (\<forall>i < cfg_nb cfg. cb_idom (cfg_blocks cfg' ! i) = cb_idom (cfg_blocks cfg ! i))"

lemma same_walks_refl: "same_walks cfg cfg"
  by (simp add: same_walks_def)

lemma same_walks_sym: "same_walks cfg cfg' \<Longrightarrow> same_walks cfg' cfg"
  by (simp add: same_walks_def)

lemma same_walks_trans: "same_walks a b \<Longrightarrow> same_walks b c \<Longrightarrow> same_walks a c"
  by (simp add: same_walks_def)

lemma same_walks_chains: "chains_in cfg \<Longrightarrow> same_walks cfg cfg' \<Longrightarrow> chains_in cfg'"
  by (simp add: same_walks_def chains_in_def)

lemma same_walks_update:
  "(\<And>b. cb_idom (f b) = cb_idom b) \<Longrightarrow> same_walks cfg (update_block cfg i f)"
  using same_shape_update [of f cfg i] by (simp add: same_walks_def same_shape_def)

lemma walk_same:
  assumes "chains_in cfg" and "same_walks cfg cfg'"
  shows "idom_walk cfg cur to = Some r \<Longrightarrow> \<forall>c. cur = Some c \<longrightarrow> c < cfg_nb cfg \<Longrightarrow> idom_walk cfg' cur to = Some r"
proof -
  have "\<forall>cfg. chains_in cfg \<longrightarrow> same_walks cfg cfg' \<longrightarrow> (\<forall>c. cur = Some c \<longrightarrow> c < cfg_nb cfg) \<longrightarrow>
      cfg = cfg0 \<longrightarrow> idom_walk cfg' cur to = Some r" if "idom_walk cfg0 cur to = Some r" for cfg0
    using that
    by (rule idom_walk.raw_induct [rotated], subst idom_walk.simps)
      (auto simp: chains_in_def same_walks_def split: option.splits if_splits)
  then show "idom_walk cfg cur to = Some r \<Longrightarrow> \<forall>c. cur = Some c \<longrightarrow> c < cfg_nb cfg \<Longrightarrow> idom_walk cfg' cur to = Some r"
    using assms by blast
qed

lemma same_walks_back:
  assumes "chains_in cfg" and "same_walks cfg cfg'" and "from < cfg_nb cfg"
  shows "is_back cfg' from to = is_back cfg from to"
proof -
  have "cfg_nb cfg' = cfg_nb cfg"
    using assms(2) by (simp add: same_walks_def)
  then show ?thesis
    using walk_same [OF assms(1,2), of "Some from" to]
      walk_same [OF same_walks_chains [OF assms(1,2)] same_walks_sym [OF assms(2)], of "Some from" to] assms(3)
    unfolding is_back_def by (cases "idom_walk cfg (Some from) to"; cases "idom_walk cfg' (Some from) to") auto
qed

lemma same_walks_fsuccs:
  assumes "chains_in cfg" and "same_walks cfg cfg'" and "b < cfg_nb cfg"
  shows "forward_edge cfg' b e = forward_edge cfg b e" and "fsuccs_in cfg' b es = fsuccs_in cfg b es"
proof -
  show "forward_edge cfg' b e = forward_edge cfg b e" for e
    using same_walks_back [OF assms] by (simp add: forward_edge_def)
  then have "forward_edge cfg' b = forward_edge cfg b"
    by (rule ext)
  then show "fsuccs_in cfg' b es = fsuccs_in cfg b es"
    by (simp add: fsuccs_in_def)
qed

lemma same_walks_search:
  assumes "chains_in cfg" and "same_walks cfg cfg'" and "cfg_edges cfg' = cfg_edges cfg" and "search_ok cfg"
  shows "search_ok cfg'" and "fgraph cfg' = fgraph cfg"
proof -
  have nb: "cfg_nb cfg' = cfg_nb cfg"
    using assms(2) by (simp add: same_walks_def)
  note same = same_walks_back [OF assms(1,2)] same_walks_fsuccs(2) [OF assms(1,2)]
  show ok: "search_ok cfg'"
    using assms(4) same unfolding search_ok_def walks_return_def assms(3) nb by simp
  have "(b, t) \<in> fgraph cfg' \<longleftrightarrow> (b, t) \<in> fgraph cfg" for b t
  proof (cases "b < cfg_nb cfg")
    case True
    with same(2) [of b] show ?thesis
      by (simp add: fgraph_def assms(3))
  next
    case False
    with fgraph_less [OF ok, of b t] fgraph_less [OF assms(4), of b t] nb show ?thesis
      by auto
  qed
  then show "fgraph cfg' = fgraph cfg"
    by auto
qed

lemma nearest_same: "fgraph cfg' = fgraph cfg \<Longrightarrow> nearest cfg' s P r = nearest cfg s P r"
  by (simp add: nearest_def split: option.split)

section \<open>The arms of a branch\<close>

text \<open>The forward successors that \<open>forward_succs\<close> counts, and the first two of a list.\<close>

definition arms :: "Cfg \<Rightarrow> nat \<Rightarrow> CfgEdge list \<Rightarrow> nat list" where
  "arms cfg b es = fsuccs_in cfg b (filter (\<lambda>e. ce_kind e \<noteq> CFG_EDGE_SWITCH_DEFAULT) es)"

fun first_two :: "nat list \<Rightarrow> nat option \<times> nat option" where
  "first_two [] = (None, None)"
| "first_two [s1] = (Some s1, None)"
| "first_two (s1 # s2 # ss) = (Some s1, Some s2)"

lemma succs_scan_full: "walks_return cfg \<Longrightarrow> b < cfg_nb cfg \<Longrightarrow>
    succs_scan cfg b es (Some s1) (Some s2) = Some (Some s1, Some s2)"
proof (induction es)
  case (Cons e es)
  then show ?case
    by (rule_tac e = e in forward_edge_cases [OF Cons.prems]) (auto split: option.split)
qed simp

lemma succs_scan_one:
  assumes "walks_return cfg" and "b < cfg_nb cfg"
  shows "succs_scan cfg b es (Some s1) None = Some (first_two (s1 # arms cfg b es))"
proof (induction es)
  case (Cons e es)
  show ?case
    by (rule forward_edge_cases [OF assms, of e])
      (use Cons.IH succs_scan_full [OF assms] in \<open>auto simp: arms_def split: option.split\<close>)
qed (simp add: arms_def)

lemma forward_succs_eq:
  assumes "walks_return cfg" and "b < cfg_nb cfg"
  shows "forward_succs cfg b = Some (first_two (arms cfg b (cfg_edges cfg)))"
proof -
  have "succs_scan cfg b es None None = Some (first_two (arms cfg b es))" for es
  proof (induction es)
    case (Cons e es)
    show ?case
      by (rule forward_edge_cases [OF assms, of e])
        (use Cons.IH succs_scan_one [OF assms] in \<open>auto simp: arms_def split: option.split\<close>)
  qed (simp add: arms_def)
  then show ?thesis
    by (simp add: forward_succs_def)
qed

lemma arms_in: "search_ok cfg \<Longrightarrow> t \<in> set (arms cfg b (cfg_edges cfg)) \<Longrightarrow> t < cfg_nb cfg"
  by (auto simp: arms_def search_ok_def fsuccs_in_def forward_edge_def dest: wf_edgesD)

section \<open>The classification\<close>

text \<open>The region that the code gives to block \<open>i\<close>, whose record was \<open>b\<close>, as its record \<open>b'\<close>.\<close>

definition region_ok :: "Cfg \<Rightarrow> nat \<Rightarrow> CfgBlock \<Rightarrow> CfgBlock \<Rightarrow> bool" where
  "region_ok cfg i b b' \<longleftrightarrow>
     (if cb_region_kind b = CFG_REGION_SWITCH then b' = b
      else if cb_is_loop_header b then b' = b\<lparr>cb_region_kind := CFG_REGION_LOOP\<rparr>
      else case arms cfg i (cfg_edges cfg) of
             s1 # s2 # ss \<Rightarrow>
               (\<exists>r. nearest cfg s2 (\<lambda>c. (s1, c) \<in> (fgraph cfg)\<^sup>*) r \<and>
                  b' = (case r of
                          None \<Rightarrow> b\<lparr>cb_region_kind := CFG_REGION_UNSTRUCTURED\<rparr>
                        | Some m \<Rightarrow> b\<lparr>cb_if_merge := Some m, cb_region_kind :=
                            (if m = s1 \<or> m = s2 then CFG_REGION_IF else CFG_REGION_IF_ELSE)\<rparr>))
           | _ \<Rightarrow> b' = b\<lparr>cb_region_kind := CFG_REGION_LINEAR\<rparr>)"

definition searchable :: "Cfg \<Rightarrow> bool" where
  "searchable cfg \<longleftrightarrow> search_ok cfg \<and> chains_in cfg"

text \<open>A graph that differs from another in the regions at most.\<close>

definition regions_of :: "Cfg \<Rightarrow> Cfg \<Rightarrow> bool" where
  "regions_of cfg cfg' \<longleftrightarrow> same_walks cfg cfg' \<and> cfg_edges cfg' = cfg_edges cfg"

lemma regions_of_search:
  assumes "searchable cfg" and "regions_of cfg cfg'"
  shows "searchable cfg'" and "fgraph cfg' = fgraph cfg" and "cfg_nb cfg' = cfg_nb cfg"
    and "i < cfg_nb cfg \<Longrightarrow> arms cfg' i (cfg_edges cfg') = arms cfg i (cfg_edges cfg)"
proof -
  have cfg: "chains_in cfg" "search_ok cfg" and cfg': "same_walks cfg cfg'" "cfg_edges cfg' = cfg_edges cfg"
    using assms by (simp_all add: searchable_def regions_of_def)
  show "searchable cfg'" "fgraph cfg' = fgraph cfg"
    using same_walks_search [OF cfg(1) cfg' cfg(2)] same_walks_chains [OF cfg(1) cfg'(1)]
    by (simp_all add: searchable_def)
  show "cfg_nb cfg' = cfg_nb cfg"
    using cfg'(1) by (simp add: same_walks_def)
  show "i < cfg_nb cfg \<Longrightarrow> arms cfg' i (cfg_edges cfg') = arms cfg i (cfg_edges cfg)"
    by (simp add: arms_def cfg'(2) same_walks_fsuccs(2) [OF cfg(1) cfg'(1)])
qed

lemma classify_block_spec:
  assumes ok: "searchable cfg" and i: "i < cfg_nb cfg"
  shows "\<exists>b'. classify_block cfg i = Some (update_block cfg i (\<lambda>_. b')) \<and>
    region_ok cfg i (cfg_blocks cfg ! i) b' \<and> cb_idom b' = cb_idom (cfg_blocks cfg ! i)"
proof -
  have search: "search_ok cfg" and walks: "walks_return cfg"
    using ok by (simp_all add: searchable_def search_ok_def)
  let ?b = "cfg_blocks cfg ! i"
  have self: "update_block cfg i (\<lambda>_. f ?b) = update_block cfg i f" for f
    by (simp add: update_block_def)
  have same: "update_block cfg i (\<lambda>_. ?b) = cfg"
    by (simp add: update_block_def)
  show ?thesis
  proof (cases "cb_region_kind ?b = CFG_REGION_SWITCH \<or> cb_is_loop_header ?b")
    case True
    then show ?thesis
      by (cases "cb_region_kind ?b = CFG_REGION_SWITCH")
        (auto simp: classify_block_def region_ok_def same self set_region_def update_block_def)
  next
    case False
    show ?thesis
    proof (cases "arms cfg i (cfg_edges cfg)" rule: first_two.cases)
      case (3 s1 s2 ss)
      then have less: "s1 < cfg_nb cfg" "s2 < cfg_nb cfg"
        using arms_in [OF search, of _ i] by auto
      obtain r where r: "first_common cfg s1 s2 = Some r" "nearest cfg s2 (\<lambda>c. (s1, c) \<in> (fgraph cfg)\<^sup>*) r"
        using first_common_spec [OF search less] by blast
      let ?b' = "case r of None \<Rightarrow> ?b\<lparr>cb_region_kind := CFG_REGION_UNSTRUCTURED\<rparr>
        | Some m \<Rightarrow> ?b\<lparr>cb_if_merge := Some m,
            cb_region_kind := (if m = s1 \<or> m = s2 then CFG_REGION_IF else CFG_REGION_IF_ELSE)\<rparr>"
      have "classify_block cfg i = Some (update_block cfg i (\<lambda>_. ?b'))"
        using False 3 r(1) by (auto simp: classify_block_def forward_succs_eq [OF walks i] update_block_def set_region_def
            split: option.split)
      moreover have "region_ok cfg i ?b ?b'"
        using False 3 r(2) by (auto simp: region_ok_def)
      ultimately show ?thesis
        by (intro exI [of _ ?b']) (simp split: option.split)
    qed (use False in \<open>auto simp: classify_block_def forward_succs_eq [OF walks i] region_ok_def set_region_def update_block_def\<close>)
  qed
qed

lemma region_ok_same:
  "fgraph cfg' = fgraph cfg \<Longrightarrow> arms cfg' i (cfg_edges cfg') = arms cfg i (cfg_edges cfg) \<Longrightarrow>
    region_ok cfg' i b b' = region_ok cfg i b b'"
  by (simp add: region_ok_def nearest_same [of cfg' cfg] cong: list.case_cong)

lemma classify_blocks_spec:
  "searchable cfg \<Longrightarrow> distinct is \<Longrightarrow> set is \<subseteq> {..<cfg_nb cfg} \<Longrightarrow>
    \<exists>cfg'. classify_blocks cfg is = Some cfg' \<and> regions_of cfg cfg' \<and>
      cfg_switches cfg' = cfg_switches cfg \<and> cfg_is_irreducible cfg' = cfg_is_irreducible cfg \<and>
      (\<forall>i < cfg_nb cfg. if i \<in> set is then region_ok cfg i (cfg_blocks cfg ! i) (cfg_blocks cfg' ! i)
         else cfg_blocks cfg' ! i = cfg_blocks cfg ! i)"
proof (induction "is" arbitrary: cfg)
  case Nil
  then show ?case
    by (simp add: regions_of_def same_walks_refl)
next
  case (Cons i "is")
  have i: "i < cfg_nb cfg" "i \<notin> set is" "distinct is" "set is \<subseteq> {..<cfg_nb cfg}"
    using Cons.prems by simp_all
  obtain b' where b': "classify_block cfg i = Some (update_block cfg i (\<lambda>_. b'))"
    "region_ok cfg i (cfg_blocks cfg ! i) b'" "cb_idom b' = cb_idom (cfg_blocks cfg ! i)"
    using classify_block_spec [OF Cons.prems(1) i(1)] by blast
  let ?cfg = "update_block cfg i (\<lambda>_. b')"
  have step: "regions_of cfg ?cfg"
    using b'(3) i(1) by (auto simp: regions_of_def same_walks_def update_block_def cfg_nb_def nth_list_update)
  note keep = regions_of_search [OF Cons.prems(1) step]
  obtain cfg' where cfg': "classify_blocks ?cfg is = Some cfg'" "regions_of ?cfg cfg'"
    "cfg_switches cfg' = cfg_switches ?cfg" "cfg_is_irreducible cfg' = cfg_is_irreducible ?cfg"
    "\<And>j. j < cfg_nb cfg \<Longrightarrow> if j \<in> set is then region_ok ?cfg j (cfg_blocks ?cfg ! j) (cfg_blocks cfg' ! j)
         else cfg_blocks cfg' ! j = cfg_blocks ?cfg ! j"
    using Cons.IH [OF keep(1) i(3)] i(4) unfolding keep(3) by blast
  have at: "cfg_blocks ?cfg ! j = (if j = i then b' else cfg_blocks cfg ! j)" if "j < cfg_nb cfg" for j
    using that by (simp add: update_block_def cfg_nb_def nth_list_update)
  have "if j \<in> set (i # is) then region_ok cfg j (cfg_blocks cfg ! j) (cfg_blocks cfg' ! j)
      else cfg_blocks cfg' ! j = cfg_blocks cfg ! j" if j: "j < cfg_nb cfg" for j
    using cfg'(5) [OF j] region_ok_same [OF keep(2) keep(4) [OF j]] at [OF j] b'(2) i(2) by (auto split: if_splits)
  moreover have "regions_of cfg cfg'"
    using step cfg'(2) same_walks_trans by (auto simp: regions_of_def)
  ultimately show ?case
    using b'(1) cfg'(1,3,4) by (intro exI [of _ cfg']) (simp add: update_block_def)
qed

section \<open>The search for a second entry\<close>

text \<open>
  Block \<open>h\<close> is on the way up from block \<open>b\<close>.
\<close>

definition above :: "Cfg \<Rightarrow> nat \<Rightarrow> nat \<Rightarrow> bool" where
  "above cfg h b \<longleftrightarrow> is_back cfg b h = Some True"

definition side_entry :: "Cfg \<Rightarrow> nat \<Rightarrow> CfgEdge \<Rightarrow> bool" where
  "side_entry cfg h e \<longleftrightarrow> (\<exists>to. ce_to e = Some to \<and> to \<noteq> h \<and> above cfg h to \<and> \<not> above cfg h (ce_from e))"

lemma enters_loop_eq:
  assumes "walks_return cfg"
  shows "wf_edges (cfg_nb cfg) es \<Longrightarrow> enters_loop cfg h es = Some (\<exists>e \<in> set es. side_entry cfg h e)"
proof (induction es)
  case (Cons e es)
  then have es: "wf_edges (cfg_nb cfg) es" and e: "ce_from e < cfg_nb cfg" "\<And>s. ce_to e = Some s \<Longrightarrow> s < cfg_nb cfg"
    by (auto simp: wf_edges_def split: option.splits)
  have walk: "idom_walk cfg (Some b) h = Some (above cfg h b)" if b: "b < cfg_nb cfg" for b
  proof -
    obtain r where "is_back cfg b h = Some r"
      using assms b by (auto simp: walks_return_def)
    then show ?thesis
      by (cases r) (simp_all add: above_def is_back_def)
  qed
  show ?case
    using Cons.IH [OF es] e walk by (cases "ce_to e") (auto simp: side_entry_def)
qed simp

lemma detect_irreducible_eq:
  assumes "walks_return cfg" and "wf_edges (cfg_nb cfg) (cfg_edges cfg)"
  shows "detect_irreducible cfg = Some (\<exists>h < cfg_nb cfg. cb_is_loop_header (cfg_blocks cfg ! h) \<and>
    (\<exists>e \<in> set (cfg_edges cfg). side_entry cfg h e))"
proof -
  have "irreducible_scan cfg hs = Some (\<exists>h \<in> set hs. cb_is_loop_header (cfg_blocks cfg ! h) \<and>
      (\<exists>e \<in> set (cfg_edges cfg). side_entry cfg h e))" for hs
    by (induction hs) (auto simp: enters_loop_eq [OF assms])
  then show ?thesis
    by (auto simp: detect_irreducible_def)
qed

end
