(* ===== verification/CfgBuild.thy ===== *)
theory CfgBuild
  imports CfgRegions
begin

text \<open>
  The construction of the whole graph (\<open>cfg_build\<close> of decompiler/src/cli/cfg/cfg_build.c): the
  passes one after the other, on the graph that the one before leaves.  The lemmas follow what
  each pass keeps of the graph, so that the last one finds all that its searches need.
\<close>

section \<open>The whole graph\<close>

text \<open>
  \<open>cfg_build\<close>: the result is the success of the call and the graph that the caller's structure
  holds then.  A null pointer for the image is \<open>None\<close>.
\<close>

definition cfg_build :: "DolImage option \<Rightarrow> u32 \<Rightarrow> u32 \<Rightarrow> Cfg \<Rightarrow> (bool \<times> Cfg) option" where
  "cfg_build image_ptr start stop out =
     (case image_ptr of
        None \<Rightarrow> Some (False, out)
      | Some img \<Rightarrow>
          if start \<ge> stop \<or> \<not> aligned4 start \<or> \<not> aligned4 stop then Some (False, out)
          else let out = zero_cfg\<lparr>cfg_entry_block := None\<rparr>
               in case collect_leaders img start stop of
                    None \<Rightarrow> Some (False, out)
                  | Some leaders \<Rightarrow>
                      (case split_and_wire out img stop leaders of
                         None \<Rightarrow> Some (False, zero_cfg)
                       | Some out \<Rightarrow>
                           (case cfg_compute_dominance out of
                              None \<Rightarrow> None
                            | Some out \<Rightarrow>
                                (case cfg_classify_loops out of
                                   None \<Rightarrow> None
                                 | Some out \<Rightarrow>
                                     (case cfg_classify_regions (snd (cfg_recover_switches out img)) of
                                        None \<Rightarrow> None
                                      | Some out \<Rightarrow> Some (True, out))))))"

section \<open>What the passes keep\<close>

text \<open>A block without what dominators and loops write into it.\<close>

definition layout :: "CfgBlock \<Rightarrow> CfgBlock" where
  "layout b = b\<lparr>cb_idom := None, cb_is_loop_header := False, cb_is_loop_exit := False, cb_loop_depth := 0\<rparr>"

definition keeps_layout :: "Cfg \<Rightarrow> Cfg \<Rightarrow> bool" where
  "keeps_layout cfg cfg' \<longleftrightarrow> List.map layout (cfg_blocks cfg') = List.map layout (cfg_blocks cfg) \<and>
     cfg_edges cfg' = cfg_edges cfg \<and> cfg_entry_block cfg' = cfg_entry_block cfg \<and>
     cfg_switches cfg' = cfg_switches cfg \<and> cfg_is_irreducible cfg' = cfg_is_irreducible cfg"

lemma keeps_layout_refl: "keeps_layout cfg cfg"
  by (simp add: keeps_layout_def)

lemma keeps_layout_trans: "keeps_layout a b \<Longrightarrow> keeps_layout b c \<Longrightarrow> keeps_layout a c"
  by (simp add: keeps_layout_def)

lemma keeps_layout_nb: "keeps_layout cfg cfg' \<Longrightarrow> cfg_nb cfg' = cfg_nb cfg"
  unfolding keeps_layout_def cfg_nb_def by (metis length_map)

lemma keeps_layout_nth: "keeps_layout cfg cfg' \<Longrightarrow> i < cfg_nb cfg \<Longrightarrow>
    layout (cfg_blocks cfg' ! i) = layout (cfg_blocks cfg ! i)"
  using keeps_layout_nb [of cfg cfg'] unfolding keeps_layout_def cfg_nb_def by (metis nth_map)

lemma keeps_layout_map:
  "(\<And>i. i < cfg_nb cfg \<Longrightarrow> layout (f i) = layout (cfg_blocks cfg ! i)) \<Longrightarrow>
    keeps_layout cfg (cfg\<lparr>cfg_blocks := List.map f [0..<cfg_nb cfg]\<rparr>)"
  by (auto simp: keeps_layout_def cfg_nb_def intro: nth_equalityI)

lemma keeps_layout_update:
  "(\<And>b. layout (f b) = layout b) \<Longrightarrow> keeps_layout cfg (update_block cfg i f)"
  by (cases "i < cfg_nb cfg") (auto simp: keeps_layout_def update_block_def cfg_nb_def map_update list_update_same_conv list_update_beyond)

lemma keeps_layout_dominance: "cfg_compute_dominance cfg = Some cfg' \<Longrightarrow> keeps_layout cfg cfg'"
  by (auto simp: cfg_compute_dominance_def Let_def keeps_layout_refl split: if_splits option.splits
      intro!: keeps_layout_map) (simp add: layout_def)

lemma mark_headers_keeps: "mark_headers es cfg = Some cfg' \<Longrightarrow> keeps_layout cfg cfg' \<and> same_shape cfg cfg'"
proof (induction es arbitrary: cfg)
  case (Cons e es)
  have "keeps_layout cfg (update_block cfg i (\<lambda>b. b\<lparr>cb_is_loop_header := True\<rparr>)) \<and>
      same_shape cfg (update_block cfg i (\<lambda>b. b\<lparr>cb_is_loop_header := True\<rparr>))" for i
    by (simp add: keeps_layout_update same_shape_update layout_def)
  with Cons show ?case
    by (auto split: option.splits if_splits intro: keeps_layout_trans same_shape_trans)
qed (simp add: keeps_layout_refl same_shape_refl)

lemma mark_exits_keeps: "keeps_layout cfg (foldl mark_exit cfg es) \<and> same_shape cfg (foldl mark_exit cfg es)"
proof (induction es arbitrary: cfg)
  case (Cons e es)
  have "keeps_layout cfg (mark_exit cfg e) \<and> same_shape cfg (mark_exit cfg e)"
    by (auto simp: mark_exit_def keeps_layout_refl same_shape_refl layout_def split: option.split
        intro!: keeps_layout_update same_shape_update)
  with Cons.IH [of "mark_exit cfg e"] show ?case
    by (auto intro: keeps_layout_trans same_shape_trans)
qed (simp add: keeps_layout_refl same_shape_refl)

lemma set_depths_keeps: "keeps_layout cfg (set_depths cfg ds) \<and> same_shape cfg (set_depths cfg ds)"
  unfolding set_depths_def
  by (intro conjI keeps_layout_map) (simp_all add: layout_def same_shape_def cfg_nb_def)

lemma classify_loops_keeps:
  assumes "cfg_classify_loops cfg = Some cfg'"
  shows "keeps_layout cfg cfg' \<and> same_shape cfg cfg'"
proof (cases "cfg_nb cfg = 0")
  case True
  with assms show ?thesis
    by (simp add: cfg_classify_loops_def keeps_layout_refl same_shape_refl)
next
  case False
  then obtain h ds where h: "mark_headers (cfg_edges cfg) cfg = Some h"
    "cfg' = foldl mark_exit (set_depths h ds) (cfg_edges h)"
    using assms by (auto simp: cfg_classify_loops_def split: option.splits)
  with mark_headers_keeps [OF h(1)] set_depths_keeps [of h ds] mark_exits_keeps [of "set_depths h ds" "cfg_edges h"]
  show ?thesis
    by (auto intro: keeps_layout_trans same_shape_trans)
qed

section \<open>The walks after the dominators\<close>

lemma done_back:
  assumes "wf_cfg cfg" and "dominators_done cfg" and "b < cfg_nb cfg"
  shows "is_back cfg b a = Some (dom_in cfg a b)"
  unfolding is_back_def by (rule walk_dominates [OF done_dominates [OF assms]])

lemma done_chains:
  assumes wf: "wf_cfg cfg" and dom: "dominators_done cfg"
  shows "chains_in cfg"
proof -
  obtain idom where ok: "cd.idom_ok cfg idom" and self: "wf_of cfg = cfg"
    and blocks: "\<And>i. i < cfg_nb cfg \<Longrightarrow> cb_idom (cfg_blocks cfg ! i) = idom ! i"
    using done_idom [OF wf dom] by blast
  have "d < cfg_nb cfg" if i: "i < cfg_nb cfg" "cb_idom (cfg_blocks cfg ! i) = Some d" for i d
  proof (cases "reach (cfg_graph cfg) (cfg_root cfg) i \<and> i \<noteq> cfg_root cfg")
    case True
    with done_idom_immediate [OF wf dom] dom_in_less [OF wf i(1)] i(2) show ?thesis
      by force
  next
    case False
    then show ?thesis
      using cd.idom_root [OF ok] cd.unreached_none [OF ok, of i] blocks [OF i(1)] i wf_cfgD(3) [OF wf]
      by (auto simp: self)
  qed
  then show ?thesis
    by (simp add: chains_in_def)
qed

text \<open>Edges that the searches follow, at most two from every block.\<close>

definition branches_ok :: "Cfg \<Rightarrow> bool" where
  "branches_ok cfg \<longleftrightarrow> wf_edges (cfg_nb cfg) (cfg_edges cfg) \<and>
     (\<forall>b. length (filter (\<lambda>e. ce_from e = b \<and> ce_kind e \<noteq> CFG_EDGE_SWITCH_CASE) (cfg_edges cfg)) \<le> 2)"

lemma fsuccs_le:
  "length (fsuccs_in cfg b es) \<le> length (filter (\<lambda>e. ce_from e = b \<and> ce_kind e \<noteq> CFG_EDGE_SWITCH_CASE) es)"
  by (induction es) (auto simp: forward_edge_def)

lemma searchableI:
  assumes "branches_ok cfg" and "walks_return cfg" and "chains_in cfg"
  shows "searchable cfg"
  using assms fsuccs_le [of cfg _ "cfg_edges cfg"] le_trans
  unfolding searchable_def search_ok_def branches_ok_def by blast

lemma with_switches_branches:
  assumes "branches_ok cfg" and "\<forall>s \<in> set sws. sw_block_index s < cfg_nb cfg"
  shows "branches_ok (with_switches sws cfg)"
proof -
  have nb: "cfg_nb (with_switches sws cfg) = cfg_nb cfg"
    by (simp add: with_switches_def cfg_nb_def)
  have "filter (\<lambda>e. ce_from e = b \<and> ce_kind e \<noteq> CFG_EDGE_SWITCH_CASE) (switch_edges (cfg_blocks cfg) sws) = []" for b
    by (auto simp: filter_empty_conv dest: switch_edges_kind)
  then have fewer: "length (filter (\<lambda>e. ce_from e = b \<and> ce_kind e \<noteq> CFG_EDGE_SWITCH_CASE) (cfg_edges (with_switches sws cfg)))
      \<le> length (filter (\<lambda>e. ce_from e = b \<and> ce_kind e \<noteq> CFG_EDGE_SWITCH_CASE) (cfg_edges cfg))" for b
    using length_filter_le [of "keeps_edge sws"
        "filter (\<lambda>e. ce_from e = b \<and> ce_kind e \<noteq> CFG_EDGE_SWITCH_CASE) (cfg_edges cfg)"]
    by (simp add: with_switches_def conj_commute)
  have "ce_from e < cfg_nb cfg \<and> (case ce_to e of None \<Rightarrow> True | Some t \<Rightarrow> t < cfg_nb cfg)"
    if "e \<in> set (switch_edges (cfg_blocks cfg) sws)" for e
    using that assms(2) block_at_Some [of "cfg_blocks cfg"]
    by (auto simp: switch_edges_def case_edges_def cfg_nb_def split: option.splits)
  moreover have "wf_edges (cfg_nb cfg) (cfg_edges cfg)"
    using assms(1) by (simp add: branches_ok_def)
  ultimately have "wf_edges (cfg_nb cfg) (cfg_edges (with_switches sws cfg))"
    by (auto simp: wf_edges_def with_switches_def)
  with fewer assms(1) show ?thesis
    unfolding branches_ok_def nb by (meson le_trans)
qed

lemma with_switches_walks:
  assumes "searchable cfg" and "\<forall>s \<in> set sws. sw_block_index s < cfg_nb cfg" and "branches_ok cfg"
  shows "searchable (with_switches sws cfg)"
proof (rule searchableI)
  have cfg: "chains_in cfg" "walks_return cfg"
    using assms(1) by (simp_all add: searchable_def search_ok_def)
  have same: "same_walks cfg (with_switches sws cfg)"
    by (simp add: same_walks_def with_switches_def cfg_nb_def mark_switched_nth)
  show "branches_ok (with_switches sws cfg)"
    by (rule with_switches_branches [OF assms(3,2)])
  show "chains_in (with_switches sws cfg)"
    by (rule same_walks_chains [OF cfg(1) same])
  show "walks_return (with_switches sws cfg)"
    using cfg(2) same_walks_back [OF cfg(1) same] same by (simp add: walks_return_def same_walks_def)
qed

lemma switches_in_less: "s \<in> set (switches_in img bs bis) \<Longrightarrow> sw_block_index s \<in> set bis"
  by (auto simp: switches_in_def as_switch_def split: option.splits)

section \<open>The graph of the blocks\<close>

lemma block_edges_two: "length (block_edges img bs i) \<le> 2"
  by (auto simp: block_edges_def Let_def split: option.split)

lemma wired_two:
  "length (filter (\<lambda>e. ce_from e = b \<and> P e) (concat (List.map (block_edges img bs) [0..<n]))) \<le> 2"
proof -
  have "filter (\<lambda>e. ce_from e = b \<and> P e) (concat (List.map (block_edges img bs) [0..<n])) =
      (if b < n then filter P (block_edges img bs b) else [])"
  proof (induction n)
    case (Suc n)
    have "filter (\<lambda>e. ce_from e = b \<and> P e) (block_edges img bs n) = (if b = n then filter P (block_edges img bs n) else [])"
      using block_edges_from [of _ img bs n] by (auto intro!: filter_cong simp: filter_empty_conv)
    with Suc show ?case
      by auto
  qed simp
  then show ?thesis
    using block_edges_two [of img bs b] le_trans [OF length_filter_le [of P "block_edges img bs b"]] by auto
qed

lemma wired_ok:
  assumes ok: "leaders_ok img start stop ls" and "split_and_wire empty_cfg img stop ls = Some cfg"
  shows "wf_cfg cfg" and "branches_ok cfg" and "cfg_blocks cfg = blocks_of stop ls" and "cfg_switches cfg = []"
    and "\<not> cfg_is_irreducible cfg"
proof -
  have cfg: "cfg = empty_cfg\<lparr>cfg_blocks := blocks_of stop ls, cfg_entry_block := Some 0,
      cfg_edges := concat (List.map (block_edges img (blocks_of stop ls)) [0..<length ls])\<rparr>"
    using assms split_and_wire_eq [OF ok] by simp
  have edges: "wf_edges (cfg_nb cfg) (cfg_edges cfg)"
    using block_edges_from block_edges_to [of _ img "blocks_of stop ls"]
    by (fastforce simp: cfg wf_edges_def cfg_nb_def split: option.splits)
  then show "wf_cfg cfg"
    using leaders_nonempty [OF ok] by (simp add: wf_cfg_def) (simp add: cfg cfg_nb_def)
  show "branches_ok cfg"
    using edges wired_two [of _ _ img "blocks_of stop ls" "length ls"] by (simp add: branches_ok_def) (simp add: cfg)
  show "cfg_blocks cfg = blocks_of stop ls" "cfg_switches cfg = []" "\<not> cfg_is_irreducible cfg"
    by (simp_all add: cfg empty_cfg_def zero_cfg_def)
qed

section \<open>The properties\<close>

text \<open>The graph before the regions, with what they need of it.\<close>

lemma before_regions:
  assumes range: "aligned_range start stop" and leaders: "collect_leaders img start stop = Some ls"
  obtains cfg2 where "\<And>out. cfg_build (Some img) start stop out =
      map_option (Pair True) (cfg_classify_regions (snd (cfg_recover_switches cfg2 img)))"
    and "searchable cfg2" and "branches_ok cfg2" and "cfg_switches cfg2 = []" and "0 < cfg_nb cfg2"
    and "\<not> cfg_is_irreducible cfg2"
    and "List.map layout (cfg_blocks cfg2) = blocks_of stop ls"
proof -
  have ok: "leaders_ok img start stop ls"
    by (rule leaders_ok_collect [OF range leaders])
  obtain cfg where cfg: "split_and_wire empty_cfg img stop ls = Some cfg"
    using split_and_wire_eq [OF ok] by blast
  note wired = wired_ok [OF ok cfg]
  obtain cfg1 where cfg1: "cfg_compute_dominance cfg = Some cfg1" "dominators_done cfg1"
    "cfg_edges cfg1 = cfg_edges cfg" "cfg_entry_block cfg1 = cfg_entry_block cfg" "cfg_nb cfg1 = cfg_nb cfg"
    using compute_dominance_done [OF wired(1)] by blast
  have wf1: "wf_cfg cfg1"
    using same_graph(4) [OF cfg1(3-5)] wired(1) by simp
  obtain cfg2 where cfg2: "cfg_classify_loops cfg1 = Some cfg2"
    using classify_loops_spec [OF wf1 cfg1(2)] by blast
  note loops = classify_loops_keeps [OF cfg2]
  note shape = same_shape_keeps [OF loops [THEN conjunct2]]
  have wf2: "wf_cfg cfg2" and dom2: "dominators_done cfg2"
    using shape(1) [OF wf1] shape(2) [OF cfg1(2)] by simp_all
  have keeps: "keeps_layout cfg cfg2"
    using keeps_layout_dominance [OF cfg1(1)] loops keeps_layout_trans by blast
  have nb: "cfg_nb cfg2 = cfg_nb cfg" "cfg_edges cfg2 = cfg_edges cfg"
    using keeps_layout_nb [OF keeps] keeps by (simp_all add: keeps_layout_def)
  have branches: "branches_ok cfg2"
    using wired(2) unfolding branches_ok_def nb .
  have "searchable cfg2"
    by (rule searchableI [OF branches _ done_chains [OF wf2 dom2]])
      (simp add: walks_return_def done_back [OF wf2 dom2])
  moreover have "cfg_build (Some img) start stop out =
      map_option (Pair True) (cfg_classify_regions (snd (cfg_recover_switches cfg2 img)))" for out
    using range leaders cfg cfg1(1) cfg2
    by (auto simp: cfg_build_def aligned_range_def empty_cfg_def Let_def split: option.split)
  moreover have "List.map layout (blocks_of stop ls) = blocks_of stop ls"
    by (induction ls) (simp_all add: layout_def new_block_def Let_def)
  ultimately show thesis
    using that [of cfg2] branches keeps wired(3-5) wf_cfgD(3) [OF wf2] by (simp add: keeps_layout_def)
qed

lemma recovered_searchable:
  assumes "searchable cfg" and "branches_ok cfg" and "0 < cfg_nb cfg"
  shows "searchable (snd (cfg_recover_switches cfg img))" and "0 < cfg_nb (snd (cfg_recover_switches cfg img))"
proof -
  let ?sws = "switches_in img (cfg_blocks cfg) [0..<cfg_nb cfg]"
  have "\<forall>s \<in> set ?sws. sw_block_index s < cfg_nb cfg"
    using switches_in_less [of _ img "cfg_blocks cfg" "[0..<cfg_nb cfg]"] by simp
  from with_switches_walks [OF assms(1) this assms(2)] assms(3)
  show "searchable (snd (cfg_recover_switches cfg img))" "0 < cfg_nb (snd (cfg_recover_switches cfg img))"
    by (simp_all add: recover_switches_eq Let_def) (simp add: with_switches_def cfg_nb_def)
qed

lemma classify_regions_returns:
  assumes "searchable cfg"
  shows "\<exists>cfg'. cfg_classify_regions cfg = Some cfg'"
proof -
  have "walks_return cfg" "wf_edges (cfg_nb cfg) (cfg_edges cfg)"
    using assms by (simp_all add: searchable_def search_ok_def)
  note detect = detect_irreducible_eq [OF this]
  obtain cfg' where "classify_blocks cfg [0..<cfg_nb cfg] = Some cfg'"
    using classify_blocks_spec [OF assms, of "[0..<cfg_nb cfg]"] by (auto simp: lessThan_atLeast0)
  then show ?thesis
    by (simp add: cfg_classify_regions_def detect)
qed

lemma build_succeeds:
  assumes range: "aligned_range start stop" and "readable img start stop"
  shows "\<exists>cfg. cfg_build (Some img) start stop out = Some (True, cfg)"
proof -
  obtain ls where ls: "collect_leaders img start stop = Some ls"
    using collect_leaders_eq [of img start stop] assms(2) by auto
  obtain cfg2 where cfg2: "\<And>out. cfg_build (Some img) start stop out =
      map_option (Pair True) (cfg_classify_regions (snd (cfg_recover_switches cfg2 img)))"
    "searchable cfg2" "branches_ok cfg2" "0 < cfg_nb cfg2"
    using before_regions [OF range ls] by blast
  obtain cfg where "cfg_classify_regions (snd (cfg_recover_switches cfg2 img)) = Some cfg"
    using classify_regions_returns [OF recovered_searchable(1) [OF cfg2(2-4)]] by blast
  with cfg2(1) show ?thesis
    by simp
qed


lemma sample_readable: "readable (code_image sample_code) 0x80004000 0x8000400C"
  using sample_collect collect_leaders_eq [of "code_image sample_code" "0x80004000" "0x8000400C"] by auto


text \<open>The region of a block of a finished graph.\<close>

definition region_is :: "Cfg \<Rightarrow> nat \<Rightarrow> bool" where
  "region_is cfg i \<longleftrightarrow>
     (let kind = cb_region_kind (cfg_blocks cfg ! i); merge = cb_if_merge (cfg_blocks cfg ! i)
      in if switched (cfg_switches cfg) i then kind = CFG_REGION_SWITCH \<and> merge = None
         else if cb_is_loop_header (cfg_blocks cfg ! i) then kind = CFG_REGION_LOOP \<and> merge = None
         else case arms cfg i (cfg_edges cfg) of
                s1 # s2 # ss \<Rightarrow>
                  nearest cfg s2 (\<lambda>c. (s1, c) \<in> (fgraph cfg)\<^sup>*) merge \<and>
                  kind = (case merge of
                            None \<Rightarrow> CFG_REGION_UNSTRUCTURED
                          | Some m \<Rightarrow> if m = s1 \<or> m = s2 then CFG_REGION_IF else CFG_REGION_IF_ELSE)
              | _ \<Rightarrow> kind = CFG_REGION_LINEAR \<and> merge = None)"

lemma region_ok_is:
  assumes "region_ok cfg i (cfg_blocks cfg ! i) (cfg_blocks cfg' ! i)"
    and same: "fgraph cfg' = fgraph cfg" "arms cfg' i (cfg_edges cfg') = arms cfg i (cfg_edges cfg)"
      "cfg_switches cfg' = cfg_switches cfg"
    and kind: "cb_region_kind (cfg_blocks cfg ! i) = (if switched (cfg_switches cfg) i then CFG_REGION_SWITCH else CFG_REGION_LINEAR)"
    and merge: "cb_if_merge (cfg_blocks cfg ! i) = None"
  shows "region_is cfg' i"
proof (cases "switched (cfg_switches cfg) i \<or> cb_is_loop_header (cfg_blocks cfg ! i)")
  case True
  with assms show ?thesis
    by (cases "switched (cfg_switches cfg) i") (simp_all add: region_ok_def region_is_def Let_def)
next
  case False
  then have old: "cb_region_kind (cfg_blocks cfg ! i) = CFG_REGION_LINEAR"
    "\<not> cb_is_loop_header (cfg_blocks cfg ! i)" "\<not> switched (cfg_switches cfg') i"
    using kind same(3) by simp_all
  show ?thesis
  proof (cases "arms cfg i (cfg_edges cfg)" rule: first_two.cases)
    case (3 s1 s2 ss)
    then obtain r where r: "nearest cfg s2 (\<lambda>c. (s1, c) \<in> (fgraph cfg)\<^sup>*) r"
      "cfg_blocks cfg' ! i = (case r of
         None \<Rightarrow> (cfg_blocks cfg ! i)\<lparr>cb_region_kind := CFG_REGION_UNSTRUCTURED\<rparr>
       | Some m \<Rightarrow> (cfg_blocks cfg ! i)\<lparr>cb_if_merge := Some m, cb_region_kind :=
           (if m = s1 \<or> m = s2 then CFG_REGION_IF else CFG_REGION_IF_ELSE)\<rparr>)"
      using assms(1) old by (auto simp: region_ok_def)
    with 3 old merge nearest_same [OF same(1)] show ?thesis
      by (cases r) (auto simp: region_is_def Let_def same(1,2))
  qed (use assms(1) old merge in \<open>auto simp: region_is_def region_ok_def Let_def same(2)\<close>)
qed

lemma recovered_block:
  assumes "cfg_switches cfg = []" and "List.map layout (cfg_blocks cfg) = blocks_of stop ls" and "i < cfg_nb cfg"
    and "snd (cfg_recover_switches cfg img) = cfg3"
  shows "cb_region_kind (cfg_blocks cfg3 ! i) = (if switched (cfg_switches cfg3) i then CFG_REGION_SWITCH else CFG_REGION_LINEAR)"
    and "cb_if_merge (cfg_blocks cfg3 ! i) = None"
proof -
  have fresh: "\<forall>b \<in> set (blocks_of stop ls). cb_region_kind b = CFG_REGION_LINEAR \<and> cb_if_merge b = None"
    by (induction ls) (simp_all add: Let_def new_block_def)
  have "layout (cfg_blocks cfg ! i) \<in> set (blocks_of stop ls)"
    using assms(3) unfolding assms(2) [symmetric] cfg_nb_def by simp
  with fresh have "cb_region_kind (cfg_blocks cfg ! i) = CFG_REGION_LINEAR" "cb_if_merge (cfg_blocks cfg ! i) = None"
    by (auto simp: layout_def)
  then show "cb_region_kind (cfg_blocks cfg3 ! i) = (if switched (cfg_switches cfg3) i then CFG_REGION_SWITCH else CFG_REGION_LINEAR)"
    "cb_if_merge (cfg_blocks cfg3 ! i) = None"
    using assms(1,3,4) by (auto simp: recover_switches_eq Let_def with_switches_def mark_switched_nth cfg_nb_def)
qed

text \<open>
  C29. The regions of a graph that \<open>cfg_build\<close> returns.  It is marked irreducible only when an
  edge enters the blocks below a loop header from the side, and then every block is
  unstructured.  Otherwise a recovered switch is a switch region, a loop header a loop region
  and a block with fewer than two forward arms linear; with two arms the merge block is one
  that both arms reach along forward edges and the nearest such block to the second arm, the
  region is \<open>IF\<close> when an arm is the merge block itself and \<open>IF_ELSE\<close> when it is not, and
  unstructured when the arms never meet.
\<close>

theorem cfg_regions_exact:
  assumes "cfg_build (Some img) start stop out = Some (True, cfg)" and "i < cfg_nb cfg"
  shows "if cfg_is_irreducible cfg
    then cb_region_kind (cfg_blocks cfg ! i) = CFG_REGION_UNSTRUCTURED \<and>
      (\<exists>h < cfg_nb cfg. cb_is_loop_header (cfg_blocks cfg ! h) \<and> (\<exists>e \<in> set (cfg_edges cfg). side_entry cfg h e))
    else region_is cfg i"
proof -
  obtain ls where range: "aligned_range start stop" and ls: "collect_leaders img start stop = Some ls"
    using assms(1) by (auto simp: cfg_build_def aligned_range_def Let_def split: if_splits option.splits)
  obtain cfg2 where cfg2: "\<And>out. cfg_build (Some img) start stop out =
      map_option (Pair True) (cfg_classify_regions (snd (cfg_recover_switches cfg2 img)))"
    "searchable cfg2" "branches_ok cfg2" "cfg_switches cfg2 = []" "0 < cfg_nb cfg2"
    "\<not> cfg_is_irreducible cfg2" "List.map layout (cfg_blocks cfg2) = blocks_of stop ls"
    using before_regions [OF range ls] by metis
  define cfg3 where "cfg3 = snd (cfg_recover_switches cfg2 img)"
  have run: "cfg_classify_regions cfg3 = Some cfg"
    using assms(1) cfg2(1) by (auto simp: cfg3_def)
  have cfg3: "searchable cfg3" "0 < cfg_nb cfg3" "\<not> cfg_is_irreducible cfg3"
    using recovered_searchable [OF cfg2(2,3,5), of img] cfg2(6)
    by (simp_all add: cfg3_def) (simp add: recover_switches_eq Let_def with_switches_def)
  then have search: "walks_return cfg3" "wf_edges (cfg_nb cfg3) (cfg_edges cfg3)" "chains_in cfg3"
    by (simp_all add: searchable_def search_ok_def)
  have nb23: "cfg_nb cfg3 = cfg_nb cfg2"
    by (simp add: cfg3_def recover_switches_eq Let_def with_switches_def cfg_nb_def)
  show ?thesis
  proof (cases "\<exists>h < cfg_nb cfg3. cb_is_loop_header (cfg_blocks cfg3 ! h) \<and>
      (\<exists>e \<in> set (cfg_edges cfg3). side_entry cfg3 h e)")
    case True
    with run cfg3(2) have cfg: "cfg = cfg3\<lparr>cfg_is_irreducible := True,
        cfg_blocks := List.map (set_region CFG_REGION_UNSTRUCTURED) (cfg_blocks cfg3)\<rparr>"
      by (simp add: cfg_classify_regions_def detect_irreducible_eq [OF search(1,2)])
    have same: "same_walks cfg3 cfg"
      by (simp add: cfg same_walks_def cfg_nb_def set_region_def)
    have "side_entry cfg h e \<longleftrightarrow> side_entry cfg3 h e" if "e \<in> set (cfg_edges cfg3)" for h e
      using same_walks_back [OF search(3) same] wf_edgesD [OF search(2) that]
      by (auto simp: side_entry_def above_def)
    moreover have "cfg_nb cfg = cfg_nb cfg3" "cfg_edges cfg = cfg_edges cfg3" "cfg_is_irreducible cfg"
      "\<And>h. h < cfg_nb cfg3 \<Longrightarrow> cfg_blocks cfg ! h = set_region CFG_REGION_UNSTRUCTURED (cfg_blocks cfg3 ! h)"
      by (simp_all add: cfg cfg_nb_def)
    ultimately show ?thesis
      using True assms(2) by (auto simp: set_region_def)
  next
    case False
    with run cfg3(2) have "classify_blocks cfg3 [0..<cfg_nb cfg3] = Some cfg"
      by (simp add: cfg_classify_regions_def detect_irreducible_eq [OF search(1,2)])
    with classify_blocks_spec [OF cfg3(1), of "[0..<cfg_nb cfg3]"]
    have cfg: "regions_of cfg3 cfg" "cfg_switches cfg = cfg_switches cfg3" "\<not> cfg_is_irreducible cfg"
      "\<And>i. i < cfg_nb cfg3 \<Longrightarrow> region_ok cfg3 i (cfg_blocks cfg3 ! i) (cfg_blocks cfg ! i)"
      using cfg3(3) by (auto simp: lessThan_atLeast0)
    note same = regions_of_search [OF cfg3(1) cfg(1)]
    have i: "i < cfg_nb cfg3" "i < cfg_nb cfg2"
      using assms(2) same(3) nb23 by simp_all
    have "region_is cfg i"
      by (rule region_ok_is [OF cfg(4) [OF i(1)] same(2) same(4) [OF i(1)] cfg(2)
            recovered_block [OF cfg2(4,7) i(2) cfg3_def [symmetric]]])
    with cfg(3) show ?thesis
      by simp
  qed
qed

theorem cfg_regions_exact_witness:
  "\<exists>cfg. cfg_build (Some (code_image sample_code)) 0x80004000 0x8000400C zero_cfg = Some (True, cfg) \<and>
    (\<forall>i < cfg_nb cfg. cfg_is_irreducible cfg \<or> region_is cfg i)"
  using build_succeeds [OF sample_range sample_readable, of zero_cfg] cfg_regions_exact by metis

section \<open>Irreducible loops\<close>

lemma side_entries:
  assumes wf: "wf_cfg cfg" and "cfg_compute_dominance cfg = Some cfg1" and "cfg_classify_loops cfg1 = Some cfg2"
  shows "detect_irreducible cfg2 = Some (\<exists>h p b. h < cfg_nb cfg \<and> cb_is_loop_header (cfg_blocks cfg2 ! h) \<and>
    (p, b) \<in> cfg_graph cfg \<and> b \<noteq> h \<and> dom_in cfg h b \<and> \<not> dom_in cfg h p)"
proof -
  have cfg1: "cfg_edges cfg1 = cfg_edges cfg" "cfg_entry_block cfg1 = cfg_entry_block cfg"
    "cfg_nb cfg1 = cfg_nb cfg" "dominators_done cfg1"
    using compute_dominance_done [OF wf] assms(2) by auto
  note same = same_graph [OF cfg1(1-3)]
  note shape = same_shape_keeps [OF classify_loops_keeps [OF assms(3), THEN conjunct2]]
  have wf2: "wf_cfg cfg2" and dom2: "dominators_done cfg2"
    using shape(1,2) cfg1(4) wf same(4) by simp_all
  have eq: "dom_in cfg2 = dom_in cfg" "cfg_nb cfg2 = cfg_nb cfg" "cfg_edges cfg2 = cfg_edges cfg"
    using shape(3-5) cfg1(1,3) same by (simp_all add: dom_in_def fun_eq_iff)
  have up: "above cfg2 h b \<longleftrightarrow> dom_in cfg h b" if "b < cfg_nb cfg" for h b
    using done_back [OF wf2 dom2, of b h] that by (simp add: above_def eq)
  have "side_entry cfg2 h e \<longleftrightarrow> (\<exists>b. ce_to e = Some b \<and> b \<noteq> h \<and> dom_in cfg h b \<and> \<not> dom_in cfg h (ce_from e))"
    if "e \<in> set (cfg_edges cfg)" for h e
    using up wf_edgesD [OF wf_cfgD(1) [OF wf] that] unfolding side_entry_def by blast
  then have side: "(\<exists>e \<in> set (cfg_edges cfg). side_entry cfg2 h e) \<longleftrightarrow>
      (\<exists>p b. (p, b) \<in> cfg_graph cfg \<and> b \<noteq> h \<and> dom_in cfg h b \<and> \<not> dom_in cfg h p)" for h
    by (auto simp: cfg_graph_def edge_graph_def)
  have "walks_return cfg2"
    by (simp add: walks_return_def done_back [OF wf2 dom2])
  from detect_irreducible_eq [OF this wf_cfgD(1) [OF wf2]] show ?thesis
    unfolding eq side by auto
qed






text \<open>
  An edge between two blocks that the entry reaches never counts: a header that dominates its target
  dominates its source too.  A loop of reachable blocks with two entries is not found.
\<close>

lemma irreducible_only_unreached:
  assumes wf: "wf_cfg cfg" and "cfg_compute_dominance cfg = Some cfg1" and "cfg_classify_loops cfg1 = Some cfg2"
    and all: "\<And>p b. (p, b) \<in> cfg_graph cfg \<Longrightarrow> reach (cfg_graph cfg) (cfg_root cfg) p"
  shows "detect_irreducible cfg2 = Some False"
proof -
  have "dom_in cfg h p" if "(p, b) \<in> cfg_graph cfg" "b \<noteq> h" "dom_in cfg h b" for h p b
    using dom_in_pred [OF all [OF that(1)] that(1,3)] that(2) by blast
  then show ?thesis
    unfolding side_entries [OF assms(1-3)] by blast
qed

text \<open>A loop of two blocks with an edge from the entry to each of them.\<close>

definition two_entries :: Cfg where
  "two_entries = zero_cfg\<lparr>cfg_blocks := List.map new_block [0, 4, 8],
     cfg_edges := [edge 0 (Some 1) CFG_EDGE_COND_TAKEN, edge 0 (Some 2) CFG_EDGE_COND_NOT_TAKEN,
       edge 1 (Some 2) CFG_EDGE_FALLTHROUGH, edge 2 (Some 1) CFG_EDGE_UNCOND]\<rparr>"

lemma two_entries_missed:
  assumes "cfg_compute_dominance two_entries = Some cfg1" and "cfg_classify_loops cfg1 = Some cfg2"
  shows "detect_irreducible cfg2 = Some False"
proof (rule irreducible_only_unreached [OF _ assms])
  show "wf_cfg two_entries"
    by (simp add: two_entries_def wf_cfg_def wf_edges_def zero_cfg_def cfg_nb_def edge_def)
  have graph: "cfg_graph two_entries = {(0, 1), (0, 2), (1, 2), (2, 1)}" "cfg_root two_entries = 0"
    by (auto simp: two_entries_def cfg_graph_def edge_graph_simps cfg_root_def zero_cfg_def edge_def)
  show "reach (cfg_graph two_entries) (cfg_root two_entries) p" if "(p, b) \<in> cfg_graph two_entries" for p b
    using that reach_root [of "{(0, 1), (0, 2), (1, 2), (2, 1)}" 0]
      reach_step [of "{(0, 1), (0, 2), (1, 2), (2, 1)}" 0 0 1] reach_step [of "{(0, 1), (0, 2), (1, 2), (2, 1)}" 0 0 2]
    unfolding graph by auto
qed

end
