(* ===== verification/Ast.thy ===== *)
theory Ast
  imports TokenStream TypeAlgebra
begin

text \<open>
  The syntax tree (compiler/src/ast/ast_types.h and ast_decl_types.h) as datatypes: a tagged
  union becomes a datatype with a constructor per tag, which keeps the source span of the node;
  the counted arrays of the code are lists.  An optional pointer is an option.
\<close>

section \<open>Types and parameters\<close>

datatype AstModifier =
    AST_MODIFIER_PUBLIC | AST_MODIFIER_PRIVATE | AST_MODIFIER_FINAL | AST_MODIFIER_EXPORT
  | AST_MODIFIER_STATIC | AST_MODIFIER_INTERNAL

record AstArrayDimension =
  ad_has_size :: bool
  ad_size_literal :: string

text \<open>\<open>void\<close> has neither arguments nor dimensions; \<open>arr\<close> has no dimensions.\<close>

datatype AstType =
    AST_TYPE_VOID
  | AST_TYPE_PRIMITIVE AstPrimitiveType "AstGenericArg list" "AstArrayDimension list"
  | AST_TYPE_ARR "AstGenericArg list"
  | AST_TYPE_NAMED string "AstGenericArg list" "AstArrayDimension list"
and AstGenericArg =
    AST_GENERIC_ARG_WILDCARD
  | AST_GENERIC_ARG_TYPE AstType

record AstQualifiedName =
  qn_segments :: "string list"
  qn_source_span :: AstSourceSpan
  qn_tail_span :: AstSourceSpan

record AstParameter =
  ap_type :: AstType
  ap_name :: string
  ap_name_span :: AstSourceSpan
  ap_is_varargs :: bool

section \<open>Expressions and statements\<close>

datatype AstUnaryOperator =
    AST_UNARY_OP_LOGICAL_NOT | AST_UNARY_OP_BITWISE_NOT | AST_UNARY_OP_NEGATE | AST_UNARY_OP_PLUS
  | AST_UNARY_OP_PRE_INCREMENT | AST_UNARY_OP_PRE_DECREMENT | AST_UNARY_OP_DEREF
  | AST_UNARY_OP_ADDRESS_OF

text \<open>An inferred type of a local binding is \<open>None\<close>.\<close>

datatype (plugins only: size) AstExpression =
    AST_EXPR_LITERAL AstSourceSpan AstLiteral
  | AST_EXPR_IDENTIFIER AstSourceSpan string
  | AST_EXPR_LAMBDA AstSourceSpan "AstParameter list" AstLambdaBody
  | AST_EXPR_ASSIGNMENT AstSourceSpan AstAssignmentOperator AstExpression AstExpression
  | AST_EXPR_TERNARY AstSourceSpan AstExpression AstExpression AstExpression
  | AST_EXPR_BINARY AstSourceSpan AstBinaryOperator AstExpression AstExpression
  | AST_EXPR_UNARY AstSourceSpan AstUnaryOperator AstExpression
  | AST_EXPR_CALL AstSourceSpan AstExpression "AstExpression list"
  | AST_EXPR_INDEX AstSourceSpan AstExpression AstExpression
  | AST_EXPR_MEMBER AstSourceSpan AstExpression string
  | AST_EXPR_CAST AstSourceSpan AstPrimitiveType AstExpression
  | AST_EXPR_ARRAY_LITERAL AstSourceSpan "AstExpression list"
  | AST_EXPR_GROUPING AstSourceSpan AstExpression
  | AST_EXPR_DISCARD AstSourceSpan
  | AST_EXPR_POST_INCREMENT AstSourceSpan AstExpression
  | AST_EXPR_POST_DECREMENT AstSourceSpan AstExpression
and AstLiteral =
    AST_LITERAL_INTEGER string
  | AST_LITERAL_FLOAT string
  | AST_LITERAL_BOOL bool
  | AST_LITERAL_CHAR string
  | AST_LITERAL_STRING string
  | AST_LITERAL_TEMPLATE "AstTemplatePart list"
  | AST_LITERAL_NULL
and AstTemplatePart =
    AST_TEMPLATE_PART_TEXT string
  | AST_TEMPLATE_PART_EXPRESSION AstExpression
and AstLambdaBody =
    AST_LAMBDA_BODY_BLOCK AstBlock
  | AST_LAMBDA_BODY_EXPRESSION AstExpression
and AstStatement =
    AST_STMT_LOCAL_BINDING AstSourceSpan bool bool "AstType option" string AstSourceSpan AstExpression
  | AST_STMT_RETURN AstSourceSpan "AstExpression option"
  | AST_STMT_EXIT AstSourceSpan
  | AST_STMT_THROW AstSourceSpan AstExpression
  | AST_STMT_EXPRESSION AstSourceSpan AstExpression
  | AST_STMT_MANUAL AstSourceSpan bool AstBlock
and AstBlock = AstBlock "AstStatement list"

text \<open>The field \<open>source_span\<close> that every expression has.\<close>

primrec expr_span :: "AstExpression \<Rightarrow> AstSourceSpan" where
  "expr_span (AST_EXPR_LITERAL span l) = span"
| "expr_span (AST_EXPR_IDENTIFIER span n) = span"
| "expr_span (AST_EXPR_LAMBDA span ps b) = span"
| "expr_span (AST_EXPR_ASSIGNMENT span op t v) = span"
| "expr_span (AST_EXPR_TERNARY span c t e) = span"
| "expr_span (AST_EXPR_BINARY span op l r) = span"
| "expr_span (AST_EXPR_UNARY span op e) = span"
| "expr_span (AST_EXPR_CALL span f args) = span"
| "expr_span (AST_EXPR_INDEX span t i) = span"
| "expr_span (AST_EXPR_MEMBER span t n) = span"
| "expr_span (AST_EXPR_CAST span ty e) = span"
| "expr_span (AST_EXPR_ARRAY_LITERAL span es) = span"
| "expr_span (AST_EXPR_GROUPING span e) = span"
| "expr_span (AST_EXPR_DISCARD span) = span"
| "expr_span (AST_EXPR_POST_INCREMENT span e) = span"
| "expr_span (AST_EXPR_POST_DECREMENT span e) = span"

section \<open>Declarations\<close>

record AstBindingDecl =
  bd_modifiers :: "AstModifier list"
  bd_declared_type :: "AstType option"
  bd_name :: string
  bd_name_span :: AstSourceSpan
  bd_initializer :: AstExpression

record AstStartDecl =
  sd_parameters :: "AstParameter list"
  sd_body :: AstLambdaBody
  sd_start_span :: AstSourceSpan

record AstBootDecl =
  bo_parameters :: "AstParameter list"
  bo_body :: AstLambdaBody
  bo_boot_span :: AstSourceSpan

record AstExternDecl =
  xd_name :: string
  xd_return_type :: AstType
  xd_parameters :: "AstParameter list"
  xd_name_span :: AstSourceSpan

record AstUnionVariant =
  uv_name :: string
  uv_payload_type :: "AstType option"

record AstUnionDecl =
  ud_modifiers :: "AstModifier list"
  ud_name :: string
  ud_name_span :: AstSourceSpan
  ud_generic_params :: "string list"
  ud_variants :: "AstUnionVariant list"

datatype AstTopLevelDecl =
    AST_TOP_LEVEL_START AstStartDecl
  | AST_TOP_LEVEL_BOOT AstBootDecl
  | AST_TOP_LEVEL_BINDING AstBindingDecl
  | AST_TOP_LEVEL_UNION AstUnionDecl
  | AST_TOP_LEVEL_EXTERN AstExternDecl

datatype AstImportKind =
    AST_IMPORT_PLAIN | AST_IMPORT_ALIAS | AST_IMPORT_WILDCARD | AST_IMPORT_SELECTIVE

record AstImportDecl =
  id_kind :: AstImportKind
  id_module_name :: AstQualifiedName
  id_alias :: "string option"
  id_selected_names :: "string list"

record AstProgram =
  pr_package_name :: "AstQualifiedName option"
  pr_imports :: "AstImportDecl list"
  pr_top_level_decls :: "AstTopLevelDecl list"

end
