(* ===== verification/Parser.thy ===== *)
theory Parser
  imports Ast
begin

text \<open>
  The recursive-descent parser (compiler/src/parser/): lookahead, types, expressions,
  statements and declarations over the token buffer of \<open>TokenStream\<close>.  A parsing function
  returns its node and the new state, or fails in a state with the error recorded; the mutual
  recursion is cut at six functions, which a level of recursion takes from the level below it
  (\<open>Knots\<close>), and the loops carry fuel.  Allocation succeeds, so the branches for memory that
  runs out are not in the model.
\<close>

section \<open>Parsing functions\<close>

datatype 'a presult = Parsed 'a Parser | Failed Parser | Out_of_fuel

type_synonym 'a parse = "Parser \<Rightarrow> 'a presult"

definition returns :: "'a \<Rightarrow> 'a parse" where
  "returns x p = Parsed x p"

definition out_of_fuel :: "'a parse" where
  "out_of_fuel p = Out_of_fuel"

definition andthen :: "'a parse \<Rightarrow> ('a \<Rightarrow> 'b parse) \<Rightarrow> 'b parse" where
  "andthen m f p =
     (case m p of Parsed x p \<Rightarrow> f x p | Failed p \<Rightarrow> Failed p | Out_of_fuel \<Rightarrow> Out_of_fuel)"

text \<open>Reading the state, and the operations of the token buffer as parsing functions.\<close>

definition reads :: "(Parser \<Rightarrow> 'a) \<Rightarrow> ('a \<Rightarrow> 'b parse) \<Rightarrow> 'b parse" where
  "reads f k p = k (f p) p"

definition fails_with :: "string \<Rightarrow> 'a parse" where
  "fails_with message p = Failed (parser_set_error p (parser_current_token p) message)"

definition advances :: "Token parse" where
  "advances p = (case parser_advance p of (token, p) \<Rightarrow> Parsed token p)"

definition expects :: "TokenType \<Rightarrow> string \<Rightarrow> unit parse" where
  "expects type message p =
     (case parser_consume p type message of (ok, p) \<Rightarrow> if ok then Parsed () p else Failed p)"

definition expects_gt :: "string \<Rightarrow> unit parse" where
  "expects_gt message p =
     (case parser_consume_gt p message of (ok, p) \<Rightarrow> if ok then Parsed () p else Failed p)"

definition expects_identifier :: "string \<Rightarrow> string parse" where
  "expects_identifier message p =
     (case parser_consume_identifier p message of
        (None, p) \<Rightarrow> Failed p
      | (Some name, p) \<Rightarrow> Parsed name p)"

text \<open>\<open>if (parser_check ...)\<close>, and \<open>if (parser_match ...)\<close> with the token that was matched.\<close>

definition if_check :: "TokenType \<Rightarrow> 'a parse \<Rightarrow> 'a parse \<Rightarrow> 'a parse" where
  "if_check type m n p = (if parser_check p type then m p else n p)"

definition if_match :: "TokenType \<Rightarrow> (Token \<Rightarrow> 'a parse) \<Rightarrow> 'a parse \<Rightarrow> 'a parse" where
  "if_match type k n p =
     (case parser_match p type of
        (True, p) \<Rightarrow> k (parser_previous_token p) p
      | (False, p) \<Rightarrow> n p)"

text \<open>\<open>do { item } while (parser_match(parser, TOK_COMMA));\<close>\<close>

fun comma_list :: "nat \<Rightarrow> 'a parse \<Rightarrow> 'a list \<Rightarrow> 'a list parse" where
  "comma_list 0 item xs = out_of_fuel"
| "comma_list (Suc fuel) item xs =
     andthen item (\<lambda>x. if_match TOK_COMMA (\<lambda>_. comma_list fuel item (xs @ [x])) (returns (xs @ [x])))"

section \<open>Lookahead\<close>

definition is_primitive_type_token :: "TokenType \<Rightarrow> bool" where
  "is_primitive_type_token type \<longleftrightarrow>
     type \<in> {TOK_INT8, TOK_INT16, TOK_INT32, TOK_INT64, TOK_UINT8, TOK_UINT16, TOK_UINT32, TOK_UINT64,
       TOK_FLOAT32, TOK_FLOAT64, TOK_BOOL, TOK_CHAR, TOK_STRING, TOK_BYTE, TOK_SBYTE, TOK_SHORT,
       TOK_INT, TOK_LONG, TOK_ULONG, TOK_UINT, TOK_FLOAT, TOK_DOUBLE}"

definition is_type_start_token :: "TokenType \<Rightarrow> bool" where
  "is_type_start_token type \<longleftrightarrow>
     type = TOK_VOID \<or> type = TOK_IDENTIFIER \<or> type = TOK_ARR \<or> is_primitive_type_token type"

definition type_at :: "Parser \<Rightarrow> nat \<Rightarrow> TokenType" where
  "type_at p index = tok_type (parser_token_at p index)"

text \<open>
  The loop of \<open>scan_generic_args_pattern\<close> stops at the end-of-file token; \<open>None\<close> also stands
  for a buffer without one, in which it would not stop.
\<close>

partial_function (option) scan_generic_loop :: "Parser \<Rightarrow> int \<Rightarrow> nat \<Rightarrow> (bool \<times> nat) option" where
  "scan_generic_loop p depth index =
     (if depth > 0
      then let t = type_at p index in
           if t = TOK_EOF then Some (False, index)
           else if t = TOK_LT then scan_generic_loop p (depth + 1) (index + 1)
           else if t = TOK_GT then scan_generic_loop p (depth - 1) (index + 1)
           else if t = TOK_RSHIFT
           then if depth < 2 then Some (False, index) else scan_generic_loop p (depth - 2) (index + 1)
           else scan_generic_loop p depth (index + 1)
      else Some (True, index))"

definition scan_generic_args_pattern :: "Parser \<Rightarrow> nat \<Rightarrow> (bool \<times> nat) option" where
  "scan_generic_args_pattern p index = scan_generic_loop p 1 (index + 1)"

partial_function (option) scan_dimensions :: "Parser \<Rightarrow> nat \<Rightarrow> (bool \<times> nat) option" where
  "scan_dimensions p index =
     (if type_at p index = TOK_LBRACKET
      then let index = index + 1;
               index = (if type_at p index = TOK_INT_LIT then index + 1 else index)
           in if type_at p index \<noteq> TOK_RBRACKET then Some (False, index)
              else scan_dimensions p (index + 1)
      else Some (True, index))"

definition scan_type_pattern :: "Parser \<Rightarrow> nat \<Rightarrow> (bool \<times> nat) option" where
  "scan_type_pattern p index =
     (let t = type_at p index in
      if t = TOK_VOID then Some (True, index + 1)
      else if t = TOK_ARR
      then if type_at p (index + 1) \<noteq> TOK_LT then Some (False, index + 1)
           else scan_generic_args_pattern p (index + 1)
      else if t \<noteq> TOK_IDENTIFIER \<and> \<not> is_primitive_type_token t then Some (False, index)
      else let index = index + 1 in
           case (if type_at p index = TOK_LT then scan_generic_args_pattern p index else Some (True, index)) of
             None \<Rightarrow> None
           | Some (ok, index) \<Rightarrow> if \<not> ok then Some (False, index) else scan_dimensions p index)"

partial_function (option) lambda_parameters :: "Parser \<Rightarrow> nat \<Rightarrow> bool option" where
  "lambda_parameters p index =
     (case scan_type_pattern p index of
        None \<Rightarrow> None
      | Some r \<Rightarrow>
          if \<not> fst r then Some False
          else let index = (if type_at p (snd r) = TOK_ELLIPSIS then snd r + 1 else snd r) in
               if type_at p index \<noteq> TOK_IDENTIFIER then Some False
               else if type_at p (index + 1) = TOK_COMMA then lambda_parameters p (index + 2)
               else if type_at p (index + 1) \<noteq> TOK_RPAREN then Some False
               else Some (type_at p (index + 2) = TOK_ARROW))"

definition looks_like_lambda_expression :: "Parser \<Rightarrow> bool option" where
  "looks_like_lambda_expression p =
     (let index = ps_current p in
      if type_at p index \<noteq> TOK_LPAREN then Some False
      else if type_at p (index + 1) = TOK_RPAREN then Some (type_at p (index + 2) = TOK_ARROW)
      else lambda_parameters p (index + 1))"

definition looks_like_local_binding_statement :: "Parser \<Rightarrow> bool option" where
  "looks_like_local_binding_statement p =
     (let index = ps_current p;
          index = (if type_at p index = TOK_INTERNAL then index + 1 else index);
          index = (if type_at p index = TOK_FINAL then index + 1 else index)
      in case (if type_at p index = TOK_VAR then Some (True, index + 1) else scan_type_pattern p index) of
           None \<Rightarrow> None
         | Some (ok, index) \<Rightarrow>
             Some (ok \<and> type_at p index = TOK_IDENTIFIER \<and> type_at p (index + 1) = TOK_ASSIGN))"

definition primitive_type_from_token :: "TokenType \<Rightarrow> AstPrimitiveType" where
  "primitive_type_from_token type =
     (if type = TOK_INT8 then AST_PRIMITIVE_INT8
      else if type = TOK_INT16 then AST_PRIMITIVE_INT16
      else if type = TOK_INT32 then AST_PRIMITIVE_INT32
      else if type = TOK_INT64 then AST_PRIMITIVE_INT64
      else if type = TOK_UINT8 then AST_PRIMITIVE_UINT8
      else if type = TOK_UINT16 then AST_PRIMITIVE_UINT16
      else if type = TOK_UINT32 then AST_PRIMITIVE_UINT32
      else if type = TOK_UINT64 then AST_PRIMITIVE_UINT64
      else if type = TOK_FLOAT32 then AST_PRIMITIVE_FLOAT32
      else if type = TOK_FLOAT64 then AST_PRIMITIVE_FLOAT64
      else if type = TOK_BOOL then AST_PRIMITIVE_BOOL
      else if type = TOK_CHAR then AST_PRIMITIVE_CHAR
      else if type = TOK_BYTE then AST_PRIMITIVE_BYTE
      else if type = TOK_SBYTE then AST_PRIMITIVE_SBYTE
      else if type = TOK_SHORT then AST_PRIMITIVE_SHORT
      else if type = TOK_INT then AST_PRIMITIVE_INT
      else if type = TOK_LONG then AST_PRIMITIVE_LONG
      else if type = TOK_ULONG then AST_PRIMITIVE_ULONG
      else if type = TOK_UINT then AST_PRIMITIVE_UINT
      else if type = TOK_FLOAT then AST_PRIMITIVE_FLOAT
      else if type = TOK_DOUBLE then AST_PRIMITIVE_DOUBLE
      else AST_PRIMITIVE_STRING)"

text \<open>The text of a template token without its delimiters; \<open>None\<close> for any other token.\<close>

definition copy_template_segment_text :: "Parser \<Rightarrow> Token \<Rightarrow> string option" where
  "copy_template_segment_text p token =
     (if tok_type token \<notin> {TOK_TEMPLATE_FULL, TOK_TEMPLATE_START, TOK_TEMPLATE_MIDDLE, TOK_TEMPLATE_END}
      then None
      else let start_offset = 1;
               end_offset = (if tok_type token \<in> {TOK_TEMPLATE_FULL, TOK_TEMPLATE_END} then 1 else 0)
           in if tok_length token < start_offset + end_offset then Some []
              else Some (take (tok_length token - start_offset - end_offset)
                     (drop start_offset (parser_copy_token_text p token))))"

end
