(* ===== verification/ParserRules.thy ===== *)
theory ParserRules
  imports Parser
begin

text \<open>
  The grammar functions of the parser, in the order of parser_types.c, parser_literals.c,
  parser_postfix.c, parser_expr.c, parser_binary.c, parser_stmt.c, parser_decl.c,
  parser_union.c and parser.c.  Each takes the functions that it calls recursively from
  \<open>Knots\<close>; \<open>knots n\<close> ties them with recursion depth \<open>n\<close>.
\<close>

record Knots =
  k_fuel :: nat
  k_type :: "AstType parse"
  k_expression :: "AstExpression parse"
  k_assignment :: "AstExpression parse"
  k_ternary :: "AstExpression parse"
  k_unary :: "AstExpression parse"
  k_block :: "AstBlock parse"

section \<open>Names and types\<close>

fun name_loop :: "nat \<Rightarrow> AstQualifiedName \<Rightarrow> AstQualifiedName parse" where
  "name_loop 0 name = out_of_fuel"
| "name_loop (Suc fuel) name =
     reads parser_current_token (\<lambda>segment_token.
       if tok_type segment_token \<noteq> TOK_IDENTIFIER
       then fails_with ''Expected identifier in qualified name.''
       else reads (\<lambda>p. parser_copy_token_text p segment_token) (\<lambda>segment.
         let name = \<lparr>qn_segments = qn_segments name @ [segment],
                      qn_source_span = parser_extend_source_span (qn_source_span name) segment_token,
                      qn_tail_span = parser_source_span segment_token\<rparr>
         in andthen advances (\<lambda>_.
           if_check TOK_DOT
             (reads (\<lambda>p. type_at p (ps_current p + 1)) (\<lambda>after_dot.
               if after_dot = TOK_STAR \<or> after_dot = TOK_LBRACE then returns name
               else andthen advances (\<lambda>_. name_loop fuel name)))
             (returns name))))"

definition parser_parse_qualified_name :: "Knots \<Rightarrow> AstQualifiedName parse" where
  "parser_parse_qualified_name R =
     name_loop (k_fuel R) \<lparr>qn_segments = [], qn_source_span = zero_span, qn_tail_span = zero_span\<rparr>"

definition parser_parse_generic_args :: "Knots \<Rightarrow> AstGenericArg list parse" where
  "parser_parse_generic_args R =
     andthen (expects TOK_LT ''Expected '<'.'') (\<lambda>_.
     andthen (comma_list (k_fuel R)
       (if_match TOK_QUESTION (\<lambda>_. returns AST_GENERIC_ARG_WILDCARD)
          (andthen (k_type R) (\<lambda>type. returns (AST_GENERIC_ARG_TYPE type)))) []) (\<lambda>args.
     andthen (expects_gt ''Expected '>' to close generic arguments.'') (\<lambda>_. returns args)))"

fun dimension_loop :: "nat \<Rightarrow> AstArrayDimension list \<Rightarrow> AstArrayDimension list parse" where
  "dimension_loop 0 dims = out_of_fuel"
| "dimension_loop (Suc fuel) dims =
     if_match TOK_LBRACKET (\<lambda>_.
       if_match TOK_INT_LIT
         (\<lambda>token. reads (\<lambda>p. parser_copy_token_text p token) (\<lambda>size_literal.
           andthen (expects TOK_RBRACKET ''Expected ']' after sized array dimension.'') (\<lambda>_.
           dimension_loop fuel (dims @ [\<lparr>ad_has_size = True, ad_size_literal = size_literal\<rparr>]))))
         (andthen (expects TOK_RBRACKET ''Expected ']' after array dimension.'') (\<lambda>_.
           dimension_loop fuel (dims @ [\<lparr>ad_has_size = False, ad_size_literal = []\<rparr>]))))
       (returns dims)"

text \<open>The optional generic arguments and dimensions after the name of a type.\<close>

definition type_suffix ::
    "Knots \<Rightarrow> (AstGenericArg list \<Rightarrow> AstArrayDimension list \<Rightarrow> AstType) \<Rightarrow> AstType parse" where
  "type_suffix R build =
     andthen (if_check TOK_LT (parser_parse_generic_args R) (returns [])) (\<lambda>args.
     andthen (dimension_loop (k_fuel R) []) (\<lambda>dims. returns (build args dims)))"

definition parser_parse_type :: "Knots \<Rightarrow> AstType parse" where
  "parser_parse_type R =
     if_match TOK_VOID (\<lambda>_. returns AST_TYPE_VOID)
     (if_match TOK_ARR (\<lambda>_. andthen (parser_parse_generic_args R) (\<lambda>args. returns (AST_TYPE_ARR args)))
     (reads parser_current_token (\<lambda>token.
       if tok_type token = TOK_IDENTIFIER
       then reads (\<lambda>p. parser_copy_token_text p token) (\<lambda>name.
         andthen advances (\<lambda>_. type_suffix R (AST_TYPE_NAMED name)))
       else if is_primitive_type_token (tok_type token)
       then andthen advances (\<lambda>_.
         type_suffix R (AST_TYPE_PRIMITIVE (primitive_type_from_token (tok_type token))))
       else fails_with ''Expected type.'')))"

section \<open>Parameters\<close>

text \<open>Appending copies the parameter into the list and clears the variable of the caller.\<close>

definition zero_parameter :: AstParameter where
  "zero_parameter = \<lparr>ap_type = AST_TYPE_VOID, ap_name = [], ap_name_span = zero_span, ap_is_varargs = False\<rparr>"

definition ast_parameter_list_append ::
    "AstParameter list \<Rightarrow> AstParameter \<Rightarrow> AstParameter list \<times> AstParameter" where
  "ast_parameter_list_append list parameter = (list @ [parameter], zero_parameter)"

text \<open>A parameter with a type: \<open>Type [...] name\<close>.\<close>

definition typed_parameter :: "Knots \<Rightarrow> string \<Rightarrow> AstParameter parse" where
  "typed_parameter R message =
     andthen (parser_parse_type R) (\<lambda>type.
     andthen (if_match TOK_ELLIPSIS (\<lambda>_. returns True) (returns False)) (\<lambda>is_varargs.
     reads parser_current_token (\<lambda>name_token.
     andthen (expects_identifier message) (\<lambda>name.
     returns \<lparr>ap_type = type, ap_name = name, ap_name_span = parser_source_span name_token,
       ap_is_varargs = is_varargs\<rparr>))))"

fun parameter_loop :: "nat \<Rightarrow> Knots \<Rightarrow> AstParameter list \<Rightarrow> AstParameter list parse" where
  "parameter_loop 0 R list = out_of_fuel"
| "parameter_loop (Suc fuel) R list =
     andthen (typed_parameter R ''Expected parameter name.'') (\<lambda>parameter.
       case ast_parameter_list_append list parameter of (list, parameter) \<Rightarrow>
         if ap_is_varargs parameter then returns list
         else if_match TOK_COMMA (\<lambda>_. parameter_loop fuel R list) (returns list))"

definition parser_parse_parameter_list :: "Knots \<Rightarrow> bool \<Rightarrow> AstParameter list parse" where
  "parser_parse_parameter_list R allow_empty =
     if_check TOK_RPAREN
       (if allow_empty then returns [] else fails_with ''Expected at least one parameter.'')
       (parameter_loop (k_fuel R) R [])"

definition ellipsis_parameter :: AstParameter where
  "ellipsis_parameter =
     \<lparr>ap_type = AST_TYPE_VOID, ap_name = ''...'', ap_name_span = zero_span, ap_is_varargs = True\<rparr>"

fun extern_parameter_loop :: "nat \<Rightarrow> Knots \<Rightarrow> AstParameter list \<Rightarrow> AstParameter list parse" where
  "extern_parameter_loop 0 R list = out_of_fuel"
| "extern_parameter_loop (Suc fuel) R list =
     if_check TOK_ELLIPSIS
       (andthen advances (\<lambda>_. returns (fst (ast_parameter_list_append list ellipsis_parameter))))
       (andthen (typed_parameter R ''Expected extern parameter name.'') (\<lambda>parameter.
         case ast_parameter_list_append list parameter of (list, parameter) \<Rightarrow>
           if ap_is_varargs parameter then returns list
           else if_match TOK_COMMA (\<lambda>_. extern_parameter_loop fuel R list) (returns list)))"

definition parser_parse_extern_param_list :: "Knots \<Rightarrow> AstParameter list parse" where
  "parser_parse_extern_param_list R =
     if_check TOK_RPAREN (returns []) (extern_parameter_loop (k_fuel R) R [])"

section \<open>Literals\<close>

definition oom_error :: "'a parse" where
  "oom_error p =
     Failed (parser_set_error p (parser_current_token p) ''Out of memory while building the AST.'')"

definition parser_add_template_text :: "AstTemplatePart list \<Rightarrow> Token \<Rightarrow> AstTemplatePart list parse" where
  "parser_add_template_text parts token =
     reads (\<lambda>p. copy_template_segment_text p token) (\<lambda>text'.
       case text' of None \<Rightarrow> oom_error | Some text' \<Rightarrow> returns (parts @ [AST_TEMPLATE_PART_TEXT text']))"

fun template_loop :: "nat \<Rightarrow> Knots \<Rightarrow> AstTemplatePart list \<Rightarrow> AstTemplatePart list parse" where
  "template_loop 0 R parts = out_of_fuel"
| "template_loop (Suc fuel) R parts =
     andthen (k_expression R) (\<lambda>interpolation.
       let parts = parts @ [AST_TEMPLATE_PART_EXPRESSION interpolation] in
       if_match TOK_TEMPLATE_MIDDLE
         (\<lambda>token. andthen (parser_add_template_text parts token) (\<lambda>parts. template_loop fuel R parts))
         (if_match TOK_TEMPLATE_END
           (\<lambda>token. parser_add_template_text parts token)
           (fails_with ''Expected template continuation after interpolation.'')))"

definition parse_template_literal_expression :: "Knots \<Rightarrow> AstExpression parse" where
  "parse_template_literal_expression R =
     reads (\<lambda>p. parser_source_span (parser_current_token p)) (\<lambda>span.
     if_match TOK_TEMPLATE_FULL
       (\<lambda>token. andthen (parser_add_template_text [] token) (\<lambda>parts.
         returns (AST_EXPR_LITERAL span (AST_LITERAL_TEMPLATE parts))))
       (if_match TOK_TEMPLATE_START
         (\<lambda>token. andthen (parser_add_template_text [] token) (\<lambda>parts.
           andthen (template_loop (k_fuel R) R parts) (\<lambda>parts.
           returns (AST_EXPR_LITERAL span (AST_LITERAL_TEMPLATE parts)))))
         (fails_with ''Expected template literal start token.'')))"

definition parse_array_literal_expression :: "Knots \<Rightarrow> AstExpression parse" where
  "parse_array_literal_expression R =
     reads (\<lambda>p. parser_source_span (parser_current_token p)) (\<lambda>span.
     andthen (expects TOK_LBRACKET ''Expected '[' to start array literal.'') (\<lambda>_.
     andthen (if_check TOK_RBRACKET (returns []) (comma_list (k_fuel R) (k_expression R) [])) (\<lambda>elements.
     andthen (expects TOK_RBRACKET ''Expected ']' after array literal.'') (\<lambda>_.
     returns (AST_EXPR_ARRAY_LITERAL span elements)))))"

definition parse_cast_expression :: "Knots \<Rightarrow> AstExpression parse" where
  "parse_cast_expression R =
     reads parser_current_token (\<lambda>token.
     andthen advances (\<lambda>_.
     andthen (expects TOK_LPAREN ''Expected '(' after cast type.'') (\<lambda>_.
     andthen (k_expression R) (\<lambda>e.
     andthen (expects TOK_RPAREN ''Expected ')' after cast expression.'') (\<lambda>_.
     returns (AST_EXPR_CAST (parser_source_span token) (primitive_type_from_token (tok_type token)) e))))))"

section \<open>Primary and postfix expressions\<close>

definition parse_primary_expression :: "Knots \<Rightarrow> AstExpression parse" where
  "parse_primary_expression R =
     reads parser_current_token (\<lambda>token.
     let type = tok_type token; span = parser_source_span token in
     if type \<in> {TOK_INT_LIT, TOK_FLOAT_LIT, TOK_CHAR_LIT, TOK_STRING_LIT}
     then reads (\<lambda>p. parser_copy_token_text p token) (\<lambda>text'.
       andthen advances (\<lambda>_. returns (AST_EXPR_LITERAL span
         (if type = TOK_INT_LIT then AST_LITERAL_INTEGER text'
          else if type = TOK_FLOAT_LIT then AST_LITERAL_FLOAT text'
          else if type = TOK_CHAR_LIT then AST_LITERAL_CHAR text'
          else AST_LITERAL_STRING text'))))
     else if type \<in> {TOK_TRUE, TOK_FALSE}
     then andthen advances (\<lambda>_. returns (AST_EXPR_LITERAL span (AST_LITERAL_BOOL (type = TOK_TRUE))))
     else if type = TOK_NULL
     then andthen advances (\<lambda>_. returns (AST_EXPR_LITERAL span AST_LITERAL_NULL))
     else if type \<in> {TOK_TEMPLATE_FULL, TOK_TEMPLATE_START}
     then parse_template_literal_expression R
     else if type = TOK_IDENTIFIER
     then reads (\<lambda>p. parser_copy_token_text p token) (\<lambda>name.
       andthen advances (\<lambda>_. returns (AST_EXPR_IDENTIFIER span name)))
     else if type = TOK_LPAREN
     then andthen advances (\<lambda>_.
       andthen (k_expression R) (\<lambda>inner.
       andthen (expects TOK_RPAREN ''Expected ')' after grouped expression.'') (\<lambda>_.
       returns (AST_EXPR_GROUPING span inner))))
     else if type = TOK_UNDERSCORE
     then andthen advances (\<lambda>_. returns (AST_EXPR_DISCARD span))
     else if type = TOK_LBRACKET
     then parse_array_literal_expression R
     else reads (\<lambda>p. type_at p (ps_current p + 1)) (\<lambda>after.
       if is_primitive_type_token type \<and> after = TOK_LPAREN
       then parse_cast_expression R
       else fails_with ''Expected expression.''))"

fun postfix_loop :: "nat \<Rightarrow> Knots \<Rightarrow> AstExpression \<Rightarrow> AstExpression parse" where
  "postfix_loop 0 R e = out_of_fuel"
| "postfix_loop (Suc fuel) R e =
     if_match TOK_LPAREN
       (\<lambda>_. andthen (if_check TOK_RPAREN (returns []) (comma_list (k_fuel R) (k_expression R) [])) (\<lambda>arguments.
         andthen (expects TOK_RPAREN ''Expected ')' after argument list.'') (\<lambda>_.
         postfix_loop fuel R (AST_EXPR_CALL (expr_span e) e arguments))))
     (if_match TOK_LBRACKET
       (\<lambda>_. andthen (k_expression R) (\<lambda>index.
         andthen (expects TOK_RBRACKET ''Expected ']' after index expression.'') (\<lambda>_.
         postfix_loop fuel R (AST_EXPR_INDEX (expr_span e) e index))))
     (if_match TOK_DOT
       (\<lambda>_. andthen (expects_identifier ''Expected member name after '.'.'') (\<lambda>member.
         postfix_loop fuel R (AST_EXPR_MEMBER (expr_span e) e member)))
     (if_match TOK_PLUS_PLUS
       (\<lambda>_. postfix_loop fuel R (AST_EXPR_POST_INCREMENT (expr_span e) e))
     (if_match TOK_MINUS_MINUS
       (\<lambda>_. postfix_loop fuel R (AST_EXPR_POST_DECREMENT (expr_span e) e))
       (returns e)))))"

definition parse_postfix_expression :: "Knots \<Rightarrow> AstExpression parse" where
  "parse_postfix_expression R = andthen (parse_primary_expression R) (postfix_loop (k_fuel R) R)"

section \<open>Unary and binary operators\<close>

definition unary_operators :: "(TokenType \<times> AstUnaryOperator) list" where
  "unary_operators =
     [(TOK_BANG, AST_UNARY_OP_LOGICAL_NOT), (TOK_TILDE, AST_UNARY_OP_BITWISE_NOT),
      (TOK_MINUS, AST_UNARY_OP_NEGATE), (TOK_PLUS, AST_UNARY_OP_PLUS)]"

definition unary_operand :: "Knots \<Rightarrow> AstUnaryOperator \<Rightarrow> AstExpression parse" where
  "unary_operand R operator =
     andthen advances (\<lambda>operator_token.
     andthen (k_unary R) (\<lambda>operand.
     returns (AST_EXPR_UNARY (parser_source_span operator_token) operator operand)))"

definition parse_unary_expression :: "Knots \<Rightarrow> AstExpression parse" where
  "parse_unary_expression R =
     reads parser_current_token (\<lambda>token.
     if tok_type token = TOK_PLUS_PLUS then unary_operand R AST_UNARY_OP_PRE_INCREMENT
     else if tok_type token = TOK_MINUS_MINUS then unary_operand R AST_UNARY_OP_PRE_DECREMENT
     else case map_of unary_operators (tok_type token) of
            Some operator \<Rightarrow> unary_operand R operator
          | None \<Rightarrow> parse_postfix_expression R)"

type_synonym binary_mappings = "(TokenType \<times> AstBinaryOperator) list"

fun binary_loop :: "nat \<Rightarrow> AstExpression parse \<Rightarrow> binary_mappings \<Rightarrow> AstExpression \<Rightarrow> AstExpression parse" where
  "binary_loop 0 operand_parser mappings e = out_of_fuel"
| "binary_loop (Suc fuel) operand_parser mappings e =
     reads parser_current_token (\<lambda>token.
     case map_of mappings (tok_type token) of
       None \<Rightarrow> returns e
     | Some operator \<Rightarrow>
         andthen advances (\<lambda>_.
         andthen operand_parser (\<lambda>right.
         binary_loop fuel operand_parser mappings (AST_EXPR_BINARY (expr_span e) operator e right))))"

definition parser_parse_binary_level :: "Knots \<Rightarrow> AstExpression parse \<Rightarrow> binary_mappings \<Rightarrow> AstExpression parse" where
  "parser_parse_binary_level R operand_parser mappings =
     andthen operand_parser (binary_loop (k_fuel R) operand_parser mappings)"

definition logical_or_operators :: binary_mappings where
  "logical_or_operators = [(TOK_LOGIC_OR, AST_BINARY_OP_LOGICAL_OR)]"
definition logical_and_operators :: binary_mappings where
  "logical_and_operators = [(TOK_LOGIC_AND, AST_BINARY_OP_LOGICAL_AND)]"
definition bitwise_or_operators :: binary_mappings where
  "bitwise_or_operators = [(TOK_PIPE, AST_BINARY_OP_BIT_OR)]"
definition bitwise_nand_operators :: binary_mappings where
  "bitwise_nand_operators = [(TOK_TILDE_AMP, AST_BINARY_OP_BIT_NAND)]"
definition bitwise_xor_operators :: binary_mappings where
  "bitwise_xor_operators = [(TOK_CARET, AST_BINARY_OP_BIT_XOR)]"
definition bitwise_xnor_operators :: binary_mappings where
  "bitwise_xnor_operators = [(TOK_TILDE_CARET, AST_BINARY_OP_BIT_XNOR)]"
definition bitwise_and_operators :: binary_mappings where
  "bitwise_and_operators = [(TOK_AMP, AST_BINARY_OP_BIT_AND)]"
definition equality_operators :: binary_mappings where
  "equality_operators = [(TOK_EQ, AST_BINARY_OP_EQUAL), (TOK_NEQ, AST_BINARY_OP_NOT_EQUAL)]"
definition relational_operators :: binary_mappings where
  "relational_operators =
     [(TOK_LT, AST_BINARY_OP_LESS), (TOK_GT, AST_BINARY_OP_GREATER),
      (TOK_LTE, AST_BINARY_OP_LESS_EQUAL), (TOK_GTE, AST_BINARY_OP_GREATER_EQUAL)]"
definition shift_operators :: binary_mappings where
  "shift_operators = [(TOK_LSHIFT, AST_BINARY_OP_SHIFT_LEFT), (TOK_RSHIFT, AST_BINARY_OP_SHIFT_RIGHT)]"
definition additive_operators :: binary_mappings where
  "additive_operators = [(TOK_PLUS, AST_BINARY_OP_ADD), (TOK_MINUS, AST_BINARY_OP_SUBTRACT)]"
definition multiplicative_operators :: binary_mappings where
  "multiplicative_operators =
     [(TOK_STAR, AST_BINARY_OP_MULTIPLY), (TOK_SLASH, AST_BINARY_OP_DIVIDE), (TOK_PERCENT, AST_BINARY_OP_MODULO)]"

definition parse_multiplicative_expression :: "Knots \<Rightarrow> AstExpression parse" where
  "parse_multiplicative_expression R =
     parser_parse_binary_level R (parse_unary_expression R) multiplicative_operators"
definition parse_additive_expression :: "Knots \<Rightarrow> AstExpression parse" where
  "parse_additive_expression R =
     parser_parse_binary_level R (parse_multiplicative_expression R) additive_operators"
definition parse_shift_expression :: "Knots \<Rightarrow> AstExpression parse" where
  "parse_shift_expression R =
     parser_parse_binary_level R (parse_additive_expression R) shift_operators"
definition parse_relational_expression :: "Knots \<Rightarrow> AstExpression parse" where
  "parse_relational_expression R =
     parser_parse_binary_level R (parse_shift_expression R) relational_operators"
definition parse_equality_expression :: "Knots \<Rightarrow> AstExpression parse" where
  "parse_equality_expression R =
     parser_parse_binary_level R (parse_relational_expression R) equality_operators"
definition parse_bitwise_and_expression :: "Knots \<Rightarrow> AstExpression parse" where
  "parse_bitwise_and_expression R =
     parser_parse_binary_level R (parse_equality_expression R) bitwise_and_operators"
definition parse_bitwise_xnor_expression :: "Knots \<Rightarrow> AstExpression parse" where
  "parse_bitwise_xnor_expression R =
     parser_parse_binary_level R (parse_bitwise_and_expression R) bitwise_xnor_operators"
definition parse_bitwise_xor_expression :: "Knots \<Rightarrow> AstExpression parse" where
  "parse_bitwise_xor_expression R =
     parser_parse_binary_level R (parse_bitwise_xnor_expression R) bitwise_xor_operators"
definition parse_bitwise_nand_expression :: "Knots \<Rightarrow> AstExpression parse" where
  "parse_bitwise_nand_expression R =
     parser_parse_binary_level R (parse_bitwise_xor_expression R) bitwise_nand_operators"
definition parse_bitwise_or_expression :: "Knots \<Rightarrow> AstExpression parse" where
  "parse_bitwise_or_expression R =
     parser_parse_binary_level R (parse_bitwise_nand_expression R) bitwise_or_operators"
definition parse_logical_and_expression :: "Knots \<Rightarrow> AstExpression parse" where
  "parse_logical_and_expression R =
     parser_parse_binary_level R (parse_bitwise_or_expression R) logical_and_operators"
definition parse_logical_or_expression :: "Knots \<Rightarrow> AstExpression parse" where
  "parse_logical_or_expression R =
     parser_parse_binary_level R (parse_logical_and_expression R) logical_or_operators"

section \<open>Ternary, assignment and lambda expressions\<close>

definition parse_ternary_expression :: "Knots \<Rightarrow> AstExpression parse" where
  "parse_ternary_expression R =
     andthen (parse_logical_or_expression R) (\<lambda>condition.
     if_match TOK_QUESTION
       (\<lambda>_. andthen (k_expression R) (\<lambda>then_branch.
         andthen (expects TOK_COLON ''Expected ':' after ternary true branch.'') (\<lambda>_.
         andthen (k_ternary R) (\<lambda>else_branch.
         returns (AST_EXPR_TERNARY (expr_span condition) condition then_branch else_branch)))))
       (returns condition))"

definition assignment_operators :: "(TokenType \<times> AstAssignmentOperator) list" where
  "assignment_operators =
     [(TOK_ASSIGN, AST_ASSIGN_OP_ASSIGN), (TOK_PLUS_ASSIGN, AST_ASSIGN_OP_ADD),
      (TOK_MINUS_ASSIGN, AST_ASSIGN_OP_SUBTRACT), (TOK_STAR_ASSIGN, AST_ASSIGN_OP_MULTIPLY),
      (TOK_SLASH_ASSIGN, AST_ASSIGN_OP_DIVIDE), (TOK_PERCENT_ASSIGN, AST_ASSIGN_OP_MODULO),
      (TOK_AMP_ASSIGN, AST_ASSIGN_OP_BIT_AND), (TOK_PIPE_ASSIGN, AST_ASSIGN_OP_BIT_OR),
      (TOK_CARET_ASSIGN, AST_ASSIGN_OP_BIT_XOR), (TOK_LSHIFT_ASSIGN, AST_ASSIGN_OP_SHIFT_LEFT),
      (TOK_RSHIFT_ASSIGN, AST_ASSIGN_OP_SHIFT_RIGHT)]"

definition parse_assignment_expression :: "Knots \<Rightarrow> AstExpression parse" where
  "parse_assignment_expression R =
     andthen (parse_ternary_expression R) (\<lambda>e.
     reads parser_current_token (\<lambda>token.
     case map_of assignment_operators (tok_type token) of
       None \<Rightarrow> returns e
     | Some operator \<Rightarrow>
         andthen advances (\<lambda>_.
         andthen (k_assignment R) (\<lambda>value.
         returns (AST_EXPR_ASSIGNMENT (expr_span e) operator e value)))))"

definition parser_parse_lambda_body :: "Knots \<Rightarrow> AstLambdaBody parse" where
  "parser_parse_lambda_body R =
     if_check TOK_LBRACE
       (andthen (k_block R) (\<lambda>block. returns (AST_LAMBDA_BODY_BLOCK block)))
       (andthen (k_assignment R) (\<lambda>e. returns (AST_LAMBDA_BODY_EXPRESSION e)))"

definition parse_lambda_expression :: "Knots \<Rightarrow> AstExpression parse" where
  "parse_lambda_expression R =
     reads (\<lambda>p. parser_source_span (parser_current_token p)) (\<lambda>span.
     andthen (expects TOK_LPAREN ''Expected '(' to start lambda parameters.'') (\<lambda>_.
     andthen (parser_parse_parameter_list R True) (\<lambda>parameters.
     andthen (expects TOK_RPAREN ''Expected ')' after lambda parameters.'') (\<lambda>_.
     andthen (expects TOK_ARROW ''Expected '->' after lambda parameters.'') (\<lambda>_.
     andthen (parser_parse_lambda_body R) (\<lambda>body.
     returns (AST_EXPR_LAMBDA span parameters body)))))))"

definition parse_expression_node :: "Knots \<Rightarrow> AstExpression parse" where
  "parse_expression_node R =
     reads looks_like_lambda_expression (\<lambda>lambda.
     case lambda of
       None \<Rightarrow> out_of_fuel
     | Some b \<Rightarrow> if b then parse_lambda_expression R else parse_assignment_expression R)"

section \<open>Statements and blocks\<close>

definition local_binding :: "Knots \<Rightarrow> AstStatement parse" where
  "local_binding R =
     reads (\<lambda>p. parser_source_span (parser_current_token p)) (\<lambda>span.
     andthen (if_match TOK_INTERNAL (\<lambda>_. returns True) (returns False)) (\<lambda>is_internal.
     andthen (if_match TOK_FINAL (\<lambda>_. returns True) (returns False)) (\<lambda>is_final.
     andthen (if_match TOK_VAR (\<lambda>_. returns None) (andthen (parser_parse_type R) (\<lambda>type. returns (Some type))))
       (\<lambda>declared_type.
     reads parser_current_token (\<lambda>name_token.
     andthen (expects_identifier ''Expected local binding name.'') (\<lambda>name.
     andthen (expects TOK_ASSIGN ''Expected '=' after local binding name.'') (\<lambda>_.
     andthen (k_expression R) (\<lambda>initializer.
     andthen (expects TOK_SEMICOLON ''Expected ';' after local binding statement.'') (\<lambda>_.
     returns (AST_STMT_LOCAL_BINDING span is_final is_internal declared_type name
       (parser_source_span name_token) initializer))))))))))"

definition manual_statement :: "Knots \<Rightarrow> AstStatement parse" where
  "manual_statement R =
     reads (\<lambda>p. parser_source_span (parser_current_token p)) (\<lambda>span.
     andthen advances (\<lambda>_.
     reads parser_current_token (\<lambda>t.
     reads (\<lambda>p. parser_copy_token_text p t) (\<lambda>text'.
     andthen (if tok_type t = TOK_IDENTIFIER \<and> text' = ''checked''
              then andthen advances (\<lambda>_. returns True) else returns False) (\<lambda>is_checked.
     andthen (k_block R) (\<lambda>body.
     andthen (expects TOK_SEMICOLON ''Expected ';' after manual block.'') (\<lambda>_.
     returns (AST_STMT_MANUAL span is_checked body))))))))"

definition parse_statement :: "Knots \<Rightarrow> AstStatement parse" where
  "parse_statement R =
     reads parser_current_token (\<lambda>token.
     let span = parser_source_span token in
     if tok_type token = TOK_RETURN
     then andthen advances (\<lambda>_.
       andthen (if_check TOK_SEMICOLON (returns None)
         (andthen (k_expression R) (\<lambda>e. returns (Some e)))) (\<lambda>e.
       andthen (expects TOK_SEMICOLON ''Expected ';' after return statement.'') (\<lambda>_.
       returns (AST_STMT_RETURN span e))))
     else if tok_type token = TOK_EXIT
     then andthen advances (\<lambda>_.
       andthen (expects TOK_SEMICOLON ''Expected ';' after exit statement.'') (\<lambda>_.
       returns (AST_STMT_EXIT span)))
     else if tok_type token = TOK_THROW
     then andthen advances (\<lambda>_.
       andthen (k_expression R) (\<lambda>e.
       andthen (expects TOK_SEMICOLON ''Expected ';' after throw statement.'') (\<lambda>_.
       returns (AST_STMT_THROW span e))))
     else reads looks_like_local_binding_statement (\<lambda>binding.
     case binding of
       None \<Rightarrow> out_of_fuel
     | Some b \<Rightarrow>
       if tok_type token \<in> {TOK_INTERNAL, TOK_FINAL, TOK_VAR} \<or> is_type_start_token (tok_type token) \<and> b
       then local_binding R
       else if tok_type token = TOK_MANUAL
       then manual_statement R
       else andthen (k_expression R) (\<lambda>e.
         andthen (expects TOK_SEMICOLON ''Expected ';' after expression statement.'') (\<lambda>_.
         returns (AST_STMT_EXPRESSION (expr_span e) e)))))"

fun block_loop :: "nat \<Rightarrow> Knots \<Rightarrow> AstStatement list \<Rightarrow> AstStatement list parse" where
  "block_loop 0 R statements = out_of_fuel"
| "block_loop (Suc fuel) R statements =
     reads parser_current_token (\<lambda>token.
     if tok_type token = TOK_RBRACE \<or> tok_type token = TOK_EOF then returns statements
     else andthen (parse_statement R) (\<lambda>statement. block_loop fuel R (statements @ [statement])))"

definition parse_block :: "Knots \<Rightarrow> AstBlock parse" where
  "parse_block R =
     andthen (expects TOK_LBRACE ''Expected '{' to start block.'') (\<lambda>_.
     andthen (block_loop (k_fuel R) R []) (\<lambda>statements.
     andthen (expects TOK_RBRACE ''Expected '}' after block.'') (\<lambda>_.
     returns (AstBlock statements))))"

section \<open>The recursion\<close>

text \<open>Level \<open>Suc n\<close> calls level \<open>n\<close>, always after at least one token has been consumed.\<close>

primrec knots :: "nat \<Rightarrow> Knots" where
  "knots 0 =
     \<lparr>k_fuel = 2, k_type = out_of_fuel, k_expression = out_of_fuel, k_assignment = out_of_fuel,
      k_ternary = out_of_fuel, k_unary = out_of_fuel, k_block = out_of_fuel\<rparr>"
| "knots (Suc n) =
     \<lparr>k_fuel = n + 3, k_type = parser_parse_type (knots n),
      k_expression = parse_expression_node (knots n),
      k_assignment = parse_assignment_expression (knots n),
      k_ternary = parse_ternary_expression (knots n),
      k_unary = parse_unary_expression (knots n),
      k_block = parse_block (knots n)\<rparr>"

section \<open>Declarations\<close>

definition parser_parse_block_or_expression_body :: "Knots \<Rightarrow> AstLambdaBody parse" where
  "parser_parse_block_or_expression_body R =
     if_check TOK_LBRACE
       (andthen (k_block R) (\<lambda>block. returns (AST_LAMBDA_BODY_BLOCK block)))
       (andthen (k_expression R) (\<lambda>e. returns (AST_LAMBDA_BODY_EXPRESSION e)))"

definition parse_start_decl :: "Knots \<Rightarrow> AstTopLevelDecl parse" where
  "parse_start_decl R =
     reads (\<lambda>p. parser_source_span (parser_current_token p)) (\<lambda>span.
     andthen (expects TOK_START ''Expected 'start'.'') (\<lambda>_.
     andthen (expects TOK_LPAREN ''Expected '(' after 'start'.'') (\<lambda>_.
     andthen (parser_parse_parameter_list R False) (\<lambda>parameters.
     andthen (expects TOK_RPAREN ''Expected ')' after start parameters.'') (\<lambda>_.
     andthen (expects TOK_ARROW ''Expected '->' after start parameters.'') (\<lambda>_.
     andthen (parser_parse_block_or_expression_body R) (\<lambda>body.
     andthen (expects TOK_SEMICOLON ''Expected ';' after start declaration.'') (\<lambda>_.
     returns (AST_TOP_LEVEL_START \<lparr>sd_parameters = parameters, sd_body = body, sd_start_span = span\<rparr>)))))))))"

definition parse_boot_decl :: "Knots \<Rightarrow> AstTopLevelDecl parse" where
  "parse_boot_decl R =
     reads (\<lambda>p. parser_source_span (parser_current_token p)) (\<lambda>span.
     andthen (expects TOK_BOOT ''Expected 'boot'.'') (\<lambda>_.
     andthen (expects TOK_LPAREN ''Expected '(' after 'boot'.'') (\<lambda>_.
     andthen (parser_parse_parameter_list R True) (\<lambda>parameters.
     andthen (expects TOK_RPAREN ''Expected ')' after boot parameters.'') (\<lambda>_.
     andthen (expects TOK_ARROW ''Expected '->' after boot parameters.'') (\<lambda>_.
     andthen (parser_parse_block_or_expression_body R) (\<lambda>body.
     andthen (expects TOK_SEMICOLON ''Expected ';' after boot declaration.'') (\<lambda>_.
     returns (AST_TOP_LEVEL_BOOT \<lparr>bo_parameters = parameters, bo_body = body, bo_boot_span = span\<rparr>)))))))))"

definition parse_extern_decl :: "Knots \<Rightarrow> AstTopLevelDecl parse" where
  "parse_extern_decl R =
     andthen (expects TOK_EXTERN ''Expected 'extern'.'') (\<lambda>_.
     andthen (parser_parse_type R) (\<lambda>return_type.
     reads parser_current_token (\<lambda>name_token.
     andthen (expects_identifier ''Expected C function name after extern return type.'') (\<lambda>name.
     andthen (expects TOK_ASSIGN ''Expected '=' after extern name.'') (\<lambda>_.
     reads parser_current_token (\<lambda>tag.
     reads (\<lambda>p. parser_copy_token_text p tag) (\<lambda>text'.
     if tok_type tag \<noteq> TOK_IDENTIFIER \<or> text' \<noteq> ''c''
     then fails_with ''Expected 'c' to introduce an extern C signature.''
     else andthen advances (\<lambda>_.
     andthen (expects TOK_LPAREN ''Expected '(' after 'c' in extern declaration.'') (\<lambda>_.
     andthen (parser_parse_extern_param_list R) (\<lambda>parameters.
     andthen (expects TOK_RPAREN ''Expected ')' after extern parameter list.'') (\<lambda>_.
     andthen (expects TOK_SEMICOLON ''Expected ';' after extern declaration.'') (\<lambda>_.
     returns (AST_TOP_LEVEL_EXTERN \<lparr>xd_name = name, xd_return_type = return_type,
       xd_parameters = parameters, xd_name_span = parser_source_span name_token\<rparr>)))))))))))))"

definition is_modifier_token :: "TokenType \<Rightarrow> bool" where
  "is_modifier_token type \<longleftrightarrow>
     type \<in> {TOK_PUBLIC, TOK_PRIVATE, TOK_FINAL, TOK_EXPORT, TOK_STATIC, TOK_INTERNAL}"

definition modifier_from_token :: "TokenType \<Rightarrow> AstModifier" where
  "modifier_from_token type =
     (if type = TOK_PUBLIC then AST_MODIFIER_PUBLIC
      else if type = TOK_PRIVATE then AST_MODIFIER_PRIVATE
      else if type = TOK_EXPORT then AST_MODIFIER_EXPORT
      else if type = TOK_STATIC then AST_MODIFIER_STATIC
      else if type = TOK_INTERNAL then AST_MODIFIER_INTERNAL
      else AST_MODIFIER_FINAL)"

fun modifier_loop :: "nat \<Rightarrow> AstModifier list \<Rightarrow> AstModifier list parse" where
  "modifier_loop 0 modifiers = out_of_fuel"
| "modifier_loop (Suc fuel) modifiers =
     reads parser_current_token (\<lambda>token.
     if \<not> is_modifier_token (tok_type token) then returns modifiers
     else andthen advances (\<lambda>_.
       modifier_loop fuel (modifiers @ [modifier_from_token (tok_type token)])))"

definition parse_binding_decl :: "Knots \<Rightarrow> AstTopLevelDecl parse" where
  "parse_binding_decl R =
     andthen (modifier_loop (k_fuel R) []) (\<lambda>modifiers.
     andthen (if_match TOK_VAR (\<lambda>_. returns None) (andthen (parser_parse_type R) (\<lambda>type. returns (Some type))))
       (\<lambda>declared_type.
     reads parser_current_token (\<lambda>name_token.
     andthen (expects_identifier ''Expected binding name.'') (\<lambda>name.
     andthen (expects TOK_ASSIGN ''Expected '=' after binding name.'') (\<lambda>_.
     andthen (k_expression R) (\<lambda>initializer.
     andthen (expects TOK_SEMICOLON ''Expected ';' after binding declaration.'') (\<lambda>_.
     returns (AST_TOP_LEVEL_BINDING \<lparr>bd_modifiers = modifiers, bd_declared_type = declared_type,
       bd_name = name, bd_name_span = parser_source_span name_token, bd_initializer = initializer\<rparr>))))))))"

definition union_variant :: "Knots \<Rightarrow> AstUnionVariant parse" where
  "union_variant R =
     andthen (expects_identifier ''Expected union variant name.'') (\<lambda>name.
     if_match TOK_LPAREN
       (\<lambda>_. andthen (parser_parse_type R) (\<lambda>payload.
         andthen (expects TOK_RPAREN ''Expected ')' after variant payload type.'') (\<lambda>_.
         returns \<lparr>uv_name = name, uv_payload_type = Some payload\<rparr>)))
       (returns \<lparr>uv_name = name, uv_payload_type = None\<rparr>))"

text \<open>The list of generic parameters is absent or not empty.\<close>

definition generic_parameters :: "Knots \<Rightarrow> string list parse" where
  "generic_parameters R =
     if_match TOK_LT
       (\<lambda>_. andthen (comma_list (k_fuel R) (expects_identifier ''Expected generic parameter name.'') []) (\<lambda>params.
         andthen (expects TOK_GT ''Expected '>' after generic parameters.'') (\<lambda>_. returns params)))
       (returns [])"

definition parse_union_decl :: "Knots \<Rightarrow> AstTopLevelDecl parse" where
  "parse_union_decl R =
     andthen (modifier_loop (k_fuel R) []) (\<lambda>modifiers.
     andthen (expects TOK_UNION ''Expected 'union'.'') (\<lambda>_.
     reads parser_current_token (\<lambda>name_token.
     andthen (expects_identifier ''Expected union name.'') (\<lambda>name.
     andthen (generic_parameters R) (\<lambda>params.
     andthen (expects TOK_LBRACE ''Expected '{' to start union variants.'') (\<lambda>_.
     andthen (comma_list (k_fuel R) (union_variant R) []) (\<lambda>variants.
     andthen (expects TOK_RBRACE ''Expected '}' after union variants.'') (\<lambda>_.
     andthen (expects TOK_SEMICOLON ''Expected ';' after union declaration.'') (\<lambda>_.
     returns (AST_TOP_LEVEL_UNION \<lparr>ud_modifiers = modifiers, ud_name = name,
       ud_name_span = parser_source_span name_token, ud_generic_params = params, ud_variants = variants\<rparr>))))))))))"

text \<open>The index of the first token from \<open>ahead\<close> on that is not a modifier.\<close>

partial_function (option) skip_modifiers :: "Parser \<Rightarrow> nat \<Rightarrow> nat option" where
  "skip_modifiers p ahead =
     (if is_modifier_token (type_at p ahead) then skip_modifiers p (ahead + 1) else Some ahead)"

definition parse_top_level_decl :: "Knots \<Rightarrow> AstTopLevelDecl parse" where
  "parse_top_level_decl R =
     reads parser_current_token (\<lambda>token.
     let type = tok_type token in
     if type = TOK_START then parse_start_decl R
     else if type = TOK_BOOT then parse_boot_decl R
     else if type = TOK_EXTERN then parse_extern_decl R
     else if is_modifier_token type
     then reads (\<lambda>p. map_option (type_at p) (skip_modifiers p (ps_current p))) (\<lambda>after.
       case after of
         None \<Rightarrow> out_of_fuel
       | Some t \<Rightarrow> if t = TOK_UNION then parse_union_decl R else parse_binding_decl R)
     else if type = TOK_VAR \<or> is_type_start_token type then parse_binding_decl R
     else if type = TOK_UNION then parse_union_decl R
     else fails_with ''Expected top-level declaration.'')"

section \<open>Programs\<close>

text \<open>The part of an import between its name and the semicolon.\<close>

definition import_tail :: "Knots \<Rightarrow> AstQualifiedName \<Rightarrow> AstImportDecl parse" where
  "import_tail R name =
     if_match TOK_AS
       (\<lambda>_. andthen (expects_identifier ''Expected alias name after 'as'.'') (\<lambda>alias.
         returns \<lparr>id_kind = AST_IMPORT_ALIAS, id_module_name = name, id_alias = Some alias, id_selected_names = []\<rparr>))
     (if_match TOK_DOT
       (\<lambda>_. if_match TOK_STAR
         (\<lambda>_. returns \<lparr>id_kind = AST_IMPORT_WILDCARD, id_module_name = name, id_alias = None, id_selected_names = []\<rparr>)
         (if_match TOK_LBRACE
           (\<lambda>_. andthen (comma_list (k_fuel R)
               (expects_identifier ''Expected identifier in selective import.'') []) (\<lambda>selected.
             andthen (expects TOK_RBRACE ''Expected '}' after selective import list.'') (\<lambda>_.
             returns \<lparr>id_kind = AST_IMPORT_SELECTIVE, id_module_name = name, id_alias = None,
               id_selected_names = selected\<rparr>)))
           (fails_with ''Expected '*' or '{' after '.' in import declaration.'')))
     (returns \<lparr>id_kind = AST_IMPORT_PLAIN, id_module_name = name, id_alias = None, id_selected_names = []\<rparr>))"

fun import_loop :: "nat \<Rightarrow> Knots \<Rightarrow> AstImportDecl list \<Rightarrow> AstImportDecl list parse" where
  "import_loop 0 R imports = out_of_fuel"
| "import_loop (Suc fuel) R imports =
     if_match TOK_IMPORT
       (\<lambda>_. andthen (parser_parse_qualified_name R) (\<lambda>name.
         andthen (import_tail R name) (\<lambda>import_decl.
         andthen (expects TOK_SEMICOLON ''Expected ';' after import declaration.'') (\<lambda>_.
         import_loop fuel R (imports @ [import_decl])))))
       (returns imports)"

fun decl_loop :: "nat \<Rightarrow> Knots \<Rightarrow> AstTopLevelDecl list \<Rightarrow> AstTopLevelDecl list parse" where
  "decl_loop 0 R decls = out_of_fuel"
| "decl_loop (Suc fuel) R decls =
     if_check TOK_EOF (returns decls)
       (andthen (parse_top_level_decl R) (\<lambda>decl. decl_loop fuel R (decls @ [decl])))"

definition program_body :: "Knots \<Rightarrow> AstProgram parse" where
  "program_body R =
     andthen (if_match TOK_PACKAGE
       (\<lambda>_. andthen (parser_parse_qualified_name R) (\<lambda>name.
         andthen (expects TOK_SEMICOLON ''Expected ';' after package declaration.'') (\<lambda>_. returns (Some name))))
       (returns None)) (\<lambda>package_name.
     andthen (import_loop (k_fuel R) R []) (\<lambda>imports.
     andthen (decl_loop (k_fuel R) R []) (\<lambda>decls.
     returns \<lparr>pr_package_name = package_name, pr_imports = imports, pr_top_level_decls = decls\<rparr>)))"

text \<open>Two levels for every token are enough, see \<open>ParserProgram\<close>.\<close>

definition parser_levels :: "Parser \<Rightarrow> Knots" where
  "parser_levels p = knots (2 * length (ps_tokens p))"

definition parser_parse_program :: "AstProgram parse" where
  "parser_parse_program p =
     (if ps_has_error p then Failed p
      else program_body (parser_levels p) (p\<lparr>ps_current := 0\<rparr>))"

definition parser_parse_expression :: "AstExpression parse" where
  "parser_parse_expression p =
     (if ps_has_error p then Failed p
      else andthen (parse_expression_node (parser_levels p)) (\<lambda>e.
             if_check TOK_EOF (returns e) (fails_with ''Expected end of expression.''))
        (p\<lparr>ps_current := 0\<rparr>))"

end
