(* ===== verification/ParserLaws.thy ===== *)
theory ParserLaws
  imports ParserRules
begin

text \<open>
  What a syntax tree stands for, and a calculus for the parsing functions.  \<open>tview\<close> is what a
  tree keeps of a token (its type, and the text of a name or literal; a \<open>>>\<close> counts as two
  \<open>>\<close>); \<open>y_expr\<close> and its companions give back the tokens of a tree, and \<open>ok_expr\<close> says that
  operators are grouped by precedence and associativity.  A judgement \<open>spec\<close> states of a parsing
  function that it returns within its fuel, consumes exactly the tokens of its result, and
  records an error at a token it looked at when it fails.
\<close>

section \<open>Tokens as a tree keeps them\<close>

type_synonym view = "TokenType \<times> string"

abbreviation kw :: "TokenType \<Rightarrow> view" where "kw t \<equiv> (t, [])"

definition seg_text :: "string \<Rightarrow> Token \<Rightarrow> string" where
  "seg_text S tok =
     (let e = (if tok_type tok \<in> {TOK_TEMPLATE_FULL, TOK_TEMPLATE_END} then 1 else 0)
      in if tok_length tok < 1 + e then []
         else take (tok_length tok - 1 - e) (drop 1 (token_text S tok)))"

definition text_token :: "TokenType \<Rightarrow> bool" where
  "text_token t \<longleftrightarrow> t \<in> {TOK_IDENTIFIER, TOK_INT_LIT, TOK_FLOAT_LIT, TOK_CHAR_LIT, TOK_STRING_LIT}"

definition template_token :: "TokenType \<Rightarrow> bool" where
  "template_token t \<longleftrightarrow> t \<in> {TOK_TEMPLATE_FULL, TOK_TEMPLATE_START, TOK_TEMPLATE_MIDDLE, TOK_TEMPLATE_END}"

text \<open>A token of which the type says all.\<close>

definition plain :: "TokenType \<Rightarrow> bool" where
  "plain t \<longleftrightarrow> t \<noteq> TOK_RSHIFT \<and> t \<noteq> TOK_EOF \<and> \<not> text_token t \<and> \<not> template_token t"

definition tview :: "string \<Rightarrow> Token \<Rightarrow> view list" where
  "tview S tok =
     (let t = tok_type tok in
      if t = TOK_RSHIFT then [kw TOK_GT, kw TOK_GT]
      else if text_token t then [(t, token_text S tok)]
      else if template_token t then [(t, seg_text S tok)]
      else [kw t])"

lemma tview_plain: "plain (tok_type tok) \<Longrightarrow> tview S tok = [kw (tok_type tok)]"
  by (simp add: plain_def tview_def)

lemma tview_text: "text_token (tok_type tok) \<Longrightarrow> tview S tok = [(tok_type tok, token_text S tok)]"
  by (auto simp: text_token_def tview_def)

lemma tview_template: "template_token (tok_type tok) \<Longrightarrow> tview S tok = [(tok_type tok, seg_text S tok)]"
  by (auto simp: text_token_def template_token_def tview_def)

lemma tview_rshift: "tok_type tok = TOK_RSHIFT \<Longrightarrow> tview S tok = [kw TOK_GT, kw TOK_GT]"
  by (simp add: tview_def)

lemma tview_length: "1 \<le> length (tview S tok) \<and> length (tview S tok) \<le> 2"
  by (simp add: tview_def Let_def)

definition prest :: "string \<Rightarrow> Parser \<Rightarrow> view list" where
  "prest S p = concat (List.map (tview S) (drop (ps_current p) (ps_tokens p)))"

text \<open>The state while parsing; the name \<open>...\<close> marks the variable part of an extern signature.\<close>

definition pinv :: "string \<Rightarrow> Parser \<Rightarrow> bool" where
  "pinv S p \<longleftrightarrow> parser_ok p \<and> \<not> ps_has_error p \<and> parser_source p = S \<and>
     (\<forall>tok \<in> set (ps_tokens p). tok_type tok = TOK_IDENTIFIER \<longrightarrow> token_text S tok \<noteq> ''...'')"

text \<open>A failure: the error is recorded, at a token that had not been consumed.\<close>

definition failure :: "Parser \<Rightarrow> Parser \<Rightarrow> bool" where
  "failure p p' \<longleftrightarrow> ps_has_error p' \<and> err_token (ps_error p') \<in> set (drop (ps_current p) (ps_tokens p'))"

section \<open>The judgement\<close>

definition spec :: "string \<Rightarrow> nat \<Rightarrow> (Token \<Rightarrow> bool) \<Rightarrow> view list \<Rightarrow> 'a parse \<Rightarrow>
    ('a \<Rightarrow> view list) \<Rightarrow> ('a \<Rightarrow> bool) \<Rightarrow> bool" where
  "spec S N P pre m U Q \<longleftrightarrow>
     (\<forall>p. pinv S p \<longrightarrow> length (prest S p) \<le> N \<longrightarrow> P (parser_current_token p) \<longrightarrow>
       (case m p of
          Parsed x p' \<Rightarrow> pinv S p' \<and> ps_current p \<le> ps_current p' \<and> pre @ prest S p = U x @ prest S p' \<and> Q x
        | Failed p' \<Rightarrow> failure p p'
        | Out_of_fuel \<Rightarrow> False))"

abbreviation anytok :: "Token \<Rightarrow> bool" where "anytok \<equiv> \<lambda>_. True"

lemma specI:
  assumes "\<And>p. pinv S p \<Longrightarrow> length (prest S p) \<le> N \<Longrightarrow> P (parser_current_token p) \<Longrightarrow>
    (case m p of
       Parsed x p' \<Rightarrow> pinv S p' \<and> ps_current p \<le> ps_current p' \<and> pre @ prest S p = U x @ prest S p' \<and> Q x
     | Failed p' \<Rightarrow> failure p p'
     | Out_of_fuel \<Rightarrow> False)"
  shows "spec S N P pre m U Q"
  using assms by (simp add: spec_def)

lemma prest_cons: "pinv S p \<Longrightarrow> prest S p =
    tview S (parser_current_token p) @ concat (List.map (tview S) (drop (Suc (ps_current p)) (ps_tokens p)))"
  using parser_ok_nth [of p] by (simp add: prest_def pinv_def parser_ok_def Cons_nth_drop_Suc [symmetric])

lemma prest_pos: "pinv S p \<Longrightarrow> 0 < length (prest S p)"
  using prest_cons [of S p] tview_length [of S "parser_current_token p"]
  by (cases "tview S (parser_current_token p)") auto

lemma spec_pos: "(0 < N \<Longrightarrow> spec S N P pre m U Q) \<Longrightarrow> spec S N P pre m U Q"
  using prest_pos by (cases "0 < N") (fastforce simp: spec_def)+

lemma spec_mono: "spec S M P pre m U Q \<Longrightarrow> N \<le> M \<Longrightarrow> spec S N P pre m U Q"
  by (simp add: spec_def)

lemma spec_weaken: "spec S N P' pre m U Q' \<Longrightarrow> (\<And>tok. P tok \<Longrightarrow> P' tok) \<Longrightarrow> (\<And>x. Q' x \<Longrightarrow> Q x) \<Longrightarrow>
    spec S N P pre m U Q"
  by (fastforce simp: spec_def split: presult.splits)

lemma failure_trans: "failure p' p'' \<Longrightarrow> ps_current p \<le> ps_current p' \<Longrightarrow> failure p p''"
  using set_drop_subset_set_drop [of "ps_current p" "ps_current p'" "ps_tokens p''"]
  unfolding failure_def by blast

lemma spec_bind:
  assumes m: "spec S N P [] m V Q1"
    and f: "\<And>x. Q1 x \<Longrightarrow> spec S (N - length (V x)) anytok (pre @ V x) (f x) U Q"
  shows "spec S N P pre (andthen m f) U Q"
proof (rule specI)
  fix p
  assume p: "pinv S p" "length (prest S p) \<le> N" "P (parser_current_token p)"
  show "case andthen m f p of
      Parsed x p' \<Rightarrow> pinv S p' \<and> ps_current p \<le> ps_current p' \<and> pre @ prest S p = U x @ prest S p' \<and> Q x
    | Failed p' \<Rightarrow> failure p p' | Out_of_fuel \<Rightarrow> False"
  proof (cases "m p")
    case (Parsed x p')
    then have step: "pinv S p'" "ps_current p \<le> ps_current p'" "prest S p = V x @ prest S p'" "Q1 x"
      using m p by (auto simp: spec_def)
    then have "case f x p' of
        Parsed y p'' \<Rightarrow> pinv S p'' \<and> ps_current p' \<le> ps_current p'' \<and>
          (pre @ V x) @ prest S p' = U y @ prest S p'' \<and> Q y
      | Failed p'' \<Rightarrow> failure p' p'' | Out_of_fuel \<Rightarrow> False"
      using f [OF step(4)] p(2) by (auto simp: spec_def)
    then show ?thesis
      using Parsed step failure_trans by (auto simp: andthen_def split: presult.splits)
  next
    case (Failed p')
    then show ?thesis
      using m p by (auto simp: spec_def andthen_def)
  next
    case Out_of_fuel
    then show ?thesis
      using m p by (auto simp: spec_def)
  qed
qed

lemma spec_returns: "pre = U x \<Longrightarrow> Q x \<Longrightarrow> spec S N P pre (returns x) U Q"
  by (rule specI) (simp add: returns_def)

lemma spec_if: "(b \<Longrightarrow> spec S N P pre m U Q) \<Longrightarrow> (\<not> b \<Longrightarrow> spec S N P pre n U Q) \<Longrightarrow>
    spec S N P pre (if b then m else n) U Q"
  by simp

lemma spec_reads: "(\<And>v. spec S N P pre (k v) U Q) \<Longrightarrow> spec S N P pre (reads f k) U Q"
  by (simp add: spec_def reads_def)

lemma spec_current: "(\<And>tok. P tok \<Longrightarrow> spec S N (\<lambda>t. t = tok) pre (k tok) U Q) \<Longrightarrow>
    spec S N P pre (reads parser_current_token k) U Q"
  by (simp add: spec_def reads_def)

lemma spec_text: "spec S N P pre (k (token_text S tok)) U Q \<Longrightarrow>
    spec S N P pre (reads (\<lambda>p. parser_copy_token_text p tok) k) U Q"
  by (auto simp: spec_def reads_def pinv_def parser_copy_token_text_def)

lemma spec_reads_option: "(\<And>p. pinv S p \<Longrightarrow> f p \<noteq> None) \<Longrightarrow> (\<And>v. spec S N P pre (k (Some v)) U Q) \<Longrightarrow>
    spec S N P pre (reads f k) U Q"
  by (fastforce simp: spec_def reads_def)

lemma spec_if_check:
  "spec S N (\<lambda>tok. P tok \<and> tok_type tok = t) pre m U Q \<Longrightarrow>
   spec S N (\<lambda>tok. P tok \<and> tok_type tok \<noteq> t) pre n U Q \<Longrightarrow> spec S N P pre (if_check t m n) U Q"
  by (simp add: spec_def if_check_def parser_check_def)

section \<open>The token operations\<close>

lemma set_error_failure:
  assumes "pinv S p"
  shows "failure p (parser_set_error p (parser_current_token p) msg)"
proof -
  have "parser_current_token p \<in> set (drop (ps_current p) (ps_tokens p))"
    using assms parser_ok_nth [of p]
    by (auto simp: pinv_def parser_ok_def in_set_conv_nth intro!: exI [of _ 0])
  then show ?thesis
    using assms by (simp add: pinv_def failure_def parser_set_error_def)
qed

lemma spec_fails: "spec S N P pre (fails_with msg) U Q"
  by (rule specI) (simp add: fails_with_def set_error_failure)

lemma advance_step:
  assumes "pinv S p" and "tok_type (parser_current_token p) \<noteq> TOK_EOF"
  shows "pinv S (snd (parser_advance p))"
    and "ps_current p \<le> ps_current (snd (parser_advance p))"
    and "prest S p = tview S (parser_current_token p) @ prest S (snd (parser_advance p))"
    and "fst (parser_advance p) = parser_current_token p"
    and "parser_previous_token (snd (parser_advance p)) = parser_current_token p"
proof -
  have adv: "snd (parser_advance p) = p\<lparr>ps_current := Suc (ps_current p)\<rparr>"
    using assms(2) by (simp add: parser_advance_eq parser_is_at_end_def)
  show "pinv S (snd (parser_advance p))"
    using assms parser_advance_ok [of p] by (simp add: pinv_def adv parser_source_def)
  show "ps_current p \<le> ps_current (snd (parser_advance p))"
    by (simp add: adv)
  show "prest S p = tview S (parser_current_token p) @ prest S (snd (parser_advance p))"
    using prest_cons [OF assms(1)] by (simp add: adv prest_def)
  show prev: "parser_previous_token (snd (parser_advance p)) = parser_current_token p"
    by (simp add: adv parser_previous_token_def parser_current_token_def parser_token_at_def)
  then show "fst (parser_advance p) = parser_current_token p"
    by (simp add: parser_advance_def Let_def)
qed

lemma spec_advances:
  assumes "tok_type tok \<noteq> TOK_EOF"
  shows "spec S N (\<lambda>t. t = tok) [] advances (\<lambda>_. tview S tok) (\<lambda>x. x = tok)"
proof (rule specI)
  fix p
  assume "pinv S p" "parser_current_token p = tok"
  then show "case advances p of
      Parsed x p' \<Rightarrow> pinv S p' \<and> ps_current p \<le> ps_current p' \<and> [] @ prest S p = tview S tok @ prest S p' \<and> x = tok
    | Failed p' \<Rightarrow> failure p p' | Out_of_fuel \<Rightarrow> False"
    using advance_step [of S p] assms by (simp add: advances_def case_prod_beta)
qed

lemma spec_advances_kw:
  assumes "plain t" and "\<And>tok. P tok \<Longrightarrow> tok_type tok = t"
  shows "spec S N P [] advances (\<lambda>_. [kw t]) (\<lambda>_. True)"
proof (rule specI)
  fix p
  assume p: "pinv S p" "P (parser_current_token p)"
  then have "tok_type (parser_current_token p) = t"
    using assms(2) by blast
  with p assms(1) show "case advances p of
      Parsed x p' \<Rightarrow> pinv S p' \<and> ps_current p \<le> ps_current p' \<and> [] @ prest S p = [kw t] @ prest S p' \<and> True
    | Failed p' \<Rightarrow> failure p p' | Out_of_fuel \<Rightarrow> False"
    using advance_step [of S p] tview_plain [of "parser_current_token p" S]
    by (simp add: advances_def case_prod_beta plain_def)
qed

lemma spec_expects:
  assumes "plain t"
  shows "spec S N P [] (expects t msg) (\<lambda>_. [kw t]) (\<lambda>_. True)"
proof (rule specI)
  fix p
  assume p: "pinv S p"
  show "case expects t msg p of
      Parsed x p' \<Rightarrow> pinv S p' \<and> ps_current p \<le> ps_current p' \<and> [] @ prest S p = [kw t] @ prest S p' \<and> True
    | Failed p' \<Rightarrow> failure p p' | Out_of_fuel \<Rightarrow> False"
    using advance_step [OF p] tview_plain [of "parser_current_token p" S] assms set_error_failure [OF p]
    by (simp add: expects_def parser_consume_def parser_check_def plain_def)
qed

lemma spec_identifier: "spec S N P [] (expects_identifier msg) (\<lambda>name. [(TOK_IDENTIFIER, name)]) (\<lambda>name. name \<noteq> ''...'')"
proof (rule specI)
  fix p
  assume p: "pinv S p"
  have mem: "parser_current_token p \<in> set (ps_tokens p)"
    using p parser_ok_nth [of p] by (simp add: pinv_def parser_ok_def)
  have name: "parser_copy_token_text p (parser_current_token p) = token_text S (parser_current_token p)"
    using p by (simp add: pinv_def parser_copy_token_text_def)
  show "case expects_identifier msg p of
      Parsed x p' \<Rightarrow> pinv S p' \<and> ps_current p \<le> ps_current p' \<and>
        [] @ prest S p = [(TOK_IDENTIFIER, x)] @ prest S p' \<and> x \<noteq> ''...''
    | Failed p' \<Rightarrow> failure p p' | Out_of_fuel \<Rightarrow> False"
  proof (cases "parser_check p TOK_IDENTIFIER")
    case True
    then have t: "tok_type (parser_current_token p) = TOK_IDENTIFIER"
      by (simp add: parser_check_def)
    then have "token_text S (parser_current_token p) \<noteq> ''...''"
      using p mem by (simp add: pinv_def)
    with True t name show ?thesis
      using advance_step [OF p] tview_text [of "parser_current_token p" S]
      by (simp add: expects_identifier_def parser_consume_identifier_def text_token_def)
  next
    case False
    then show ?thesis
      by (simp add: expects_identifier_def parser_consume_identifier_def set_error_failure [OF p])
  qed
qed

lemma spec_if_match:
  assumes "t \<noteq> TOK_EOF"
    and k: "\<And>tok. tok_type tok = t \<Longrightarrow>
      spec S (N - length (tview S tok)) anytok (pre @ tview S tok) (k tok) U Q"
    and n: "spec S N (\<lambda>tok. P tok \<and> tok_type tok \<noteq> t) pre n U Q"
  shows "spec S N P pre (if_match t k n) U Q"
proof -
  have "if_match t k n = if_check t (andthen advances k) n"
  proof
    fix p
    show "if_match t k n p = if_check t (andthen advances k) n p"
    proof (cases "parser_check p t")
      case True
      then have "tok_type (parser_current_token p) \<noteq> TOK_EOF"
        using assms(1) by (simp add: parser_check_def)
      then have "parser_previous_token (snd (parser_advance p)) = fst (parser_advance p)"
        by (simp add: parser_advance_def parser_is_at_end_def Let_def)
      with True show ?thesis
        by (simp add: if_match_def if_check_def parser_match_def andthen_def advances_def case_prod_beta)
    qed (simp add: if_match_def if_check_def parser_match_def)
  qed
  moreover have "spec S N (\<lambda>tok. P tok \<and> tok_type tok = t) pre (andthen advances k) U Q"
  proof (rule specI)
    fix p
    let ?tok = "parser_current_token p"
    assume p: "pinv S p" "length (prest S p) \<le> N" "P ?tok \<and> tok_type ?tok = t"
    have "tok_type ?tok \<noteq> TOK_EOF"
      using p(3) assms(1) by simp
    then have "spec S N (\<lambda>t. t = ?tok) pre (andthen advances k) U Q"
      using p(3) k by (intro spec_bind [OF spec_advances]) auto
    with p show "case andthen advances k p of
        Parsed x p' \<Rightarrow> pinv S p' \<and> ps_current p \<le> ps_current p' \<and> pre @ prest S p = U x @ prest S p' \<and> Q x
      | Failed p' \<Rightarrow> failure p p' | Out_of_fuel \<Rightarrow> False"
      by (simp add: spec_def)
  qed
  ultimately show ?thesis
    using n by (simp add: spec_if_check)
qed

lemma spec_match_kw:
  assumes "plain t"
    and "\<And>tok. tok_type tok = t \<Longrightarrow> spec S (N - 1) anytok (pre @ [kw t]) (k tok) U Q"
    and "spec S N (\<lambda>tok. P tok \<and> tok_type tok \<noteq> t) pre n U Q"
  shows "spec S N P pre (if_match t k n) U Q"
  using assms by (intro spec_if_match) (auto simp: tview_plain plain_def)

lemma spec_match_text:
  assumes "text_token t"
    and "\<And>tok. tok_type tok = t \<Longrightarrow> spec S (N - 1) anytok (pre @ [(t, token_text S tok)]) (k tok) U Q"
    and "spec S N (\<lambda>tok. P tok \<and> tok_type tok \<noteq> t) pre n U Q"
  shows "spec S N P pre (if_match t k n) U Q"
  using assms by (intro spec_if_match) (auto simp: tview_text text_token_def)

lemma spec_match_template:
  assumes "template_token t"
    and "\<And>tok. tok_type tok = t \<Longrightarrow> spec S (N - 1) anytok (pre @ [(t, seg_text S tok)]) (k tok) U Q"
    and "spec S N (\<lambda>tok. P tok \<and> tok_type tok \<noteq> t) pre n U Q"
  shows "spec S N P pre (if_match t k n) U Q"
  using assms by (intro spec_if_match) (auto simp: tview_template template_token_def)

text \<open>Closing a generic argument list takes one \<open>>\<close>, also out of a \<open>>>\<close>.\<close>

lemma gt_remainder_view: "tview S (gt_remainder tok) = [kw TOK_GT]"
  by (simp add: tview_plain plain_def gt_remainder_def text_token_def template_token_def)

lemma split_gt:
  assumes "pinv S p" and "parser_check p TOK_RSHIFT"
  defines "p' \<equiv> p\<lparr>ps_tokens := (ps_tokens p)[ps_current p := gt_remainder (parser_current_token p)]\<rparr>"
  shows "pinv S p' \<and> prest S p = kw TOK_GT # prest S p'"
proof -
  have cur: "ps_current p < length (ps_tokens p)"
    using assms(1) by (simp add: pinv_def parser_ok_def)
  have type: "tok_type (gt_remainder (parser_current_token p)) = TOK_GT"
    by (simp add: gt_remainder_def)
  have "parser_ok p'"
    using assms parser_consume_gt_ok [of p "[]"] by (simp add: pinv_def p'_def parser_consume_gt_rshift)
  moreover have "set (ps_tokens p') \<subseteq> insert (gt_remainder (parser_current_token p)) (set (ps_tokens p))"
    by (simp add: p'_def set_update_subset_insert)
  ultimately have inv': "pinv S p'"
    using assms(1) type by (auto simp: pinv_def p'_def parser_source_def)
  have "parser_current_token p' = gt_remainder (parser_current_token p)"
    using parser_ok_nth [of p'] inv' cur by (simp add: pinv_def p'_def)
  then have "prest S p' = kw TOK_GT # concat (List.map (tview S) (drop (Suc (ps_current p)) (ps_tokens p)))"
    using prest_cons [OF inv'] gt_remainder_view by (simp add: p'_def)
  moreover have "tview S (parser_current_token p) = [kw TOK_GT, kw TOK_GT]"
    using assms(2) by (simp add: tview_rshift parser_check_def)
  ultimately show ?thesis
    using inv' prest_cons [OF assms(1)] by simp
qed

lemma spec_expects_gt: "spec S N P [] (expects_gt msg) (\<lambda>_. [kw TOK_GT]) (\<lambda>_. True)"
proof (rule specI)
  fix p
  assume p: "pinv S p"
  show "case expects_gt msg p of
      Parsed x p' \<Rightarrow> pinv S p' \<and> ps_current p \<le> ps_current p' \<and> [] @ prest S p = [kw TOK_GT] @ prest S p' \<and> True
    | Failed p' \<Rightarrow> failure p p' | Out_of_fuel \<Rightarrow> False"
  proof (cases "parser_check p TOK_RSHIFT")
    case True
    then show ?thesis
      using split_gt [OF p True] by (simp add: expects_gt_def parser_consume_gt_rshift)
  next
    case False
    then show ?thesis
      using advance_step [OF p] tview_plain [of "parser_current_token p" S] set_error_failure [OF p]
      by (simp add: expects_gt_def parser_consume_gt_def parser_match_def parser_check_def plain_def
          text_token_def template_token_def)
  qed
qed

section \<open>Lists with commas\<close>

fun commas :: "view list list \<Rightarrow> view list" where
  "commas [] = []"
| "commas [v] = v"
| "commas (v # w # vs) = v @ kw TOK_COMMA # commas (w # vs)"

lemma commas_snoc: "commas (vs @ [v]) = concat (List.map (\<lambda>w. w @ [kw TOK_COMMA]) vs) @ v"
proof (induction vs)
  case (Cons w ws)
  then show ?case
    by (cases ws) simp_all
qed simp

lemma plain_comma: "plain TOK_COMMA"
  by (simp add: plain_def text_token_def template_token_def)

lemma spec_comma_loop:
  assumes item: "\<And>M P. M \<le> N0 \<Longrightarrow> spec S M P [] item V Qi"
  shows "N \<le> N0 \<Longrightarrow> N < fuel \<Longrightarrow> list_all Qi acc \<Longrightarrow>
    spec S N P (concat (List.map (\<lambda>x. V x @ [kw TOK_COMMA]) acc)) (comma_list fuel item acc)
      (\<lambda>xs. commas (List.map V xs)) (\<lambda>xs. xs \<noteq> [] \<and> list_all Qi xs)"
proof (induction fuel arbitrary: N P acc)
  case (Suc fuel)
  show ?case
  proof (rule spec_pos)
    assume pos: "0 < N"
    show ?thesis
      unfolding comma_list.simps
    proof (rule spec_bind [OF item])
      show "N \<le> N0"
        by (rule Suc.prems)
      fix x
      assume x: "Qi x"
      have "N - length (V x) - 1 \<le> N0" "N - length (V x) - 1 < fuel"
        using Suc.prems pos by simp_all
      then show "spec S (N - length (V x)) anytok (concat (List.map (\<lambda>x. V x @ [kw TOK_COMMA]) acc) @ V x)
          (if_match TOK_COMMA (\<lambda>_. comma_list fuel item (acc @ [x])) (returns (acc @ [x])))
          (\<lambda>xs. commas (List.map V xs)) (\<lambda>xs. xs \<noteq> [] \<and> list_all Qi xs)"
        using Suc.IH [of "N - length (V x) - 1" "acc @ [x]" anytok] Suc.prems(3) x
        by (intro spec_match_kw plain_comma spec_returns) (simp_all add: commas_snoc comp_def)
    qed
  qed
qed simp

lemma spec_comma_list:
  assumes "\<And>M P. M \<le> N \<Longrightarrow> spec S M P [] item V Qi" and "N < fuel"
  shows "spec S N P [] (comma_list fuel item []) (\<lambda>xs. commas (List.map V xs)) (\<lambda>xs. xs \<noteq> [] \<and> list_all Qi xs)"
  using spec_comma_loop [OF assms(1), where acc = "[]" and N = N and P = P and fuel = fuel] assms(2) by simp

section \<open>The lookahead ends\<close>

lemma type_at_past:
  assumes "parser_ok p" and "length (ps_tokens p) - 1 \<le> i"
  shows "type_at p i = TOK_EOF"
  using assms last_conv_nth [of "ps_tokens p"]
  by (auto simp: type_at_def parser_token_at_def parser_ok_def not_le dest: le_antisym)

lemma type_at_inner:
  assumes "parser_ok p" and "type_at p i \<noteq> TOK_EOF"
  shows "Suc i < length (ps_tokens p)"
  using type_at_past [OF assms(1), of i] assms(2) by linarith

lemma ex_bool [simp]: "\<exists>b. b" "\<exists>b. \<not> b"
  by blast+

lemma scan_generic_loop_ends:
  "parser_ok p \<Longrightarrow> \<exists>r. scan_generic_loop p depth i = Some r \<and> i \<le> snd r"
proof (induction "length (ps_tokens p) - i" arbitrary: depth i rule: less_induct)
  case less
  show ?case
  proof (cases "depth > 0 \<and> type_at p i \<noteq> TOK_EOF")
    case False
    then show ?thesis
      by (subst scan_generic_loop.simps) (auto simp: Let_def)
  next
    case True
    then have "length (ps_tokens p) - (i + 1) < length (ps_tokens p) - i"
      using type_at_inner [OF less.prems, of i] by simp
    from less.hyps [OF this less.prems]
    have "\<exists>r. scan_generic_loop p d (i + 1) = Some r \<and> i \<le> snd r" for d
      using Suc_leD by fastforce
    with True show ?thesis
      by (subst scan_generic_loop.simps) (simp add: Let_def)
  qed
qed

lemma scan_dimensions_ends:
  "parser_ok p \<Longrightarrow> \<exists>r. scan_dimensions p i = Some r \<and> i \<le> snd r"
proof (induction "length (ps_tokens p) - i" arbitrary: i rule: less_induct)
  case less
  show ?case
  proof (cases "type_at p i = TOK_LBRACKET")
    case False
    then show ?thesis
      by (subst scan_dimensions.simps) simp
  next
    case True
    then have "Suc i < length (ps_tokens p)"
      using type_at_inner [OF less.prems, of i] by simp
    then have "\<exists>r. scan_dimensions p j = Some r \<and> i \<le> snd r" if "i < j" for j
      using less.hyps [OF _ less.prems, of j] that order_trans [of i j] by fastforce
    with True show ?thesis
      by (subst scan_dimensions.simps) (simp add: Let_def)
  qed
qed

lemma scan_generic_args_ends:
  "parser_ok p \<Longrightarrow> \<exists>r. scan_generic_args_pattern p i = Some r \<and> i \<le> snd r"
  using scan_generic_loop_ends [of p 1 "i + 1"] by (auto simp: scan_generic_args_pattern_def)

lemma scan_type_ends:
  assumes "parser_ok p"
  shows "\<exists>r. scan_type_pattern p i = Some r \<and> i \<le> snd r"
proof -
  have dims: "\<exists>r. scan_dimensions p j = Some r \<and> i \<le> snd r" if "i \<le> j" for j
    using scan_dimensions_ends [OF assms, of j] that order_trans by blast
  obtain ok j where args: "scan_generic_args_pattern p (i + 1) = Some (ok, j)" "i + 1 \<le> j"
    using scan_generic_args_ends [OF assms, of "i + 1"] by auto
  then show ?thesis
    using dims [of j] dims [of "i + 1"] by (simp add: scan_type_pattern_def Let_def)
qed

lemma lambda_parameters_ends: "parser_ok p \<Longrightarrow> lambda_parameters p i \<noteq> None"
proof (induction "length (ps_tokens p) - i" arbitrary: i rule: less_induct)
  case less
  obtain r where r: "scan_type_pattern p i = Some r" "i \<le> snd r"
    using scan_type_ends [OF less.prems] by blast
  define j where "j = (if type_at p (snd r) = TOK_ELLIPSIS then snd r + 1 else snd r)"
  have "lambda_parameters p (j + 2) \<noteq> None" if "type_at p (j + 1) = TOK_COMMA"
  proof (rule less.hyps [OF _ less.prems])
    have "Suc (j + 1) < length (ps_tokens p)"
      using type_at_inner [OF less.prems, of "j + 1"] that by simp
    moreover have "i \<le> j"
      using r(2) by (simp add: j_def)
    ultimately show "length (ps_tokens p) - (j + 2) < length (ps_tokens p) - i"
      by linarith
  qed
  then show ?case
    using r(1) by (subst lambda_parameters.simps) (simp add: Let_def j_def [symmetric])
qed

lemma lambda_lookahead_ends: "pinv S p \<Longrightarrow> looks_like_lambda_expression p \<noteq> None"
  using lambda_parameters_ends by (simp add: looks_like_lambda_expression_def pinv_def Let_def)

lemma binding_lookahead_ends: "pinv S p \<Longrightarrow> looks_like_local_binding_statement p \<noteq> None"
proof -
  assume "pinv S p"
  then obtain f where "\<And>i. scan_type_pattern p i = Some (f i)"
    using scan_type_ends [of p] unfolding pinv_def by metis
  then show ?thesis
    by (simp add: looks_like_local_binding_statement_def Let_def case_prod_beta)
qed

lemma skip_modifiers_ends: "parser_ok p \<Longrightarrow> skip_modifiers p i \<noteq> None"
proof (induction "length (ps_tokens p) - i" arbitrary: i rule: less_induct)
  case less
  show ?case
  proof (cases "is_modifier_token (type_at p i)")
    case True
    then have "type_at p i \<noteq> TOK_EOF"
      by (auto simp: is_modifier_token_def)
    then have "length (ps_tokens p) - (i + 1) < length (ps_tokens p) - i"
      using type_at_inner [OF less.prems, of i] by simp
    from less.hyps [OF this less.prems] True show ?thesis
      by (subst skip_modifiers.simps) simp
  qed (subst skip_modifiers.simps, simp)
qed

end
