(* ===== verification/ParserYield.thy ===== *)
theory ParserYield
  imports ParserLaws
begin

text \<open>
  The tokens that a syntax tree stands for (\<open>y_type\<close>, \<open>y_expr\<close>, \<open>y_decl\<close>, \<open>y_program\<close>) and the
  trees in which operators are grouped by precedence and associativity (\<open>ok_expr\<close>).
\<close>

section \<open>Tokens of operators and types\<close>

primrec primitive_token :: "AstPrimitiveType \<Rightarrow> TokenType" where
  "primitive_token AST_PRIMITIVE_INT8 = TOK_INT8"
| "primitive_token AST_PRIMITIVE_INT16 = TOK_INT16"
| "primitive_token AST_PRIMITIVE_INT32 = TOK_INT32"
| "primitive_token AST_PRIMITIVE_INT64 = TOK_INT64"
| "primitive_token AST_PRIMITIVE_UINT8 = TOK_UINT8"
| "primitive_token AST_PRIMITIVE_UINT16 = TOK_UINT16"
| "primitive_token AST_PRIMITIVE_UINT32 = TOK_UINT32"
| "primitive_token AST_PRIMITIVE_UINT64 = TOK_UINT64"
| "primitive_token AST_PRIMITIVE_FLOAT32 = TOK_FLOAT32"
| "primitive_token AST_PRIMITIVE_FLOAT64 = TOK_FLOAT64"
| "primitive_token AST_PRIMITIVE_BOOL = TOK_BOOL"
| "primitive_token AST_PRIMITIVE_CHAR = TOK_CHAR"
| "primitive_token AST_PRIMITIVE_STRING = TOK_STRING"
| "primitive_token AST_PRIMITIVE_BYTE = TOK_BYTE"
| "primitive_token AST_PRIMITIVE_SBYTE = TOK_SBYTE"
| "primitive_token AST_PRIMITIVE_SHORT = TOK_SHORT"
| "primitive_token AST_PRIMITIVE_INT = TOK_INT"
| "primitive_token AST_PRIMITIVE_LONG = TOK_LONG"
| "primitive_token AST_PRIMITIVE_ULONG = TOK_ULONG"
| "primitive_token AST_PRIMITIVE_UINT = TOK_UINT"
| "primitive_token AST_PRIMITIVE_FLOAT = TOK_FLOAT"
| "primitive_token AST_PRIMITIVE_DOUBLE = TOK_DOUBLE"

text \<open>The level of a binary operator, from \<open>||\<close> to the multiplicative ones.\<close>

primrec prec :: "AstBinaryOperator \<Rightarrow> nat" where
  "prec AST_BINARY_OP_LOGICAL_OR = 0"
| "prec AST_BINARY_OP_LOGICAL_AND = 1"
| "prec AST_BINARY_OP_BIT_OR = 2"
| "prec AST_BINARY_OP_BIT_NAND = 3"
| "prec AST_BINARY_OP_BIT_XOR = 4"
| "prec AST_BINARY_OP_BIT_XNOR = 5"
| "prec AST_BINARY_OP_BIT_AND = 6"
| "prec AST_BINARY_OP_EQUAL = 7"
| "prec AST_BINARY_OP_NOT_EQUAL = 7"
| "prec AST_BINARY_OP_LESS = 8"
| "prec AST_BINARY_OP_GREATER = 8"
| "prec AST_BINARY_OP_LESS_EQUAL = 8"
| "prec AST_BINARY_OP_GREATER_EQUAL = 8"
| "prec AST_BINARY_OP_SHIFT_LEFT = 9"
| "prec AST_BINARY_OP_SHIFT_RIGHT = 9"
| "prec AST_BINARY_OP_ADD = 10"
| "prec AST_BINARY_OP_SUBTRACT = 10"
| "prec AST_BINARY_OP_MULTIPLY = 11"
| "prec AST_BINARY_OP_DIVIDE = 11"
| "prec AST_BINARY_OP_MODULO = 11"

primrec binary_view :: "AstBinaryOperator \<Rightarrow> view list" where
  "binary_view AST_BINARY_OP_LOGICAL_OR = [kw TOK_LOGIC_OR]"
| "binary_view AST_BINARY_OP_LOGICAL_AND = [kw TOK_LOGIC_AND]"
| "binary_view AST_BINARY_OP_BIT_OR = [kw TOK_PIPE]"
| "binary_view AST_BINARY_OP_BIT_NAND = [kw TOK_TILDE_AMP]"
| "binary_view AST_BINARY_OP_BIT_XOR = [kw TOK_CARET]"
| "binary_view AST_BINARY_OP_BIT_XNOR = [kw TOK_TILDE_CARET]"
| "binary_view AST_BINARY_OP_BIT_AND = [kw TOK_AMP]"
| "binary_view AST_BINARY_OP_EQUAL = [kw TOK_EQ]"
| "binary_view AST_BINARY_OP_NOT_EQUAL = [kw TOK_NEQ]"
| "binary_view AST_BINARY_OP_LESS = [kw TOK_LT]"
| "binary_view AST_BINARY_OP_GREATER = [kw TOK_GT]"
| "binary_view AST_BINARY_OP_LESS_EQUAL = [kw TOK_LTE]"
| "binary_view AST_BINARY_OP_GREATER_EQUAL = [kw TOK_GTE]"
| "binary_view AST_BINARY_OP_SHIFT_LEFT = [kw TOK_LSHIFT]"
| "binary_view AST_BINARY_OP_SHIFT_RIGHT = [kw TOK_GT, kw TOK_GT]"
| "binary_view AST_BINARY_OP_ADD = [kw TOK_PLUS]"
| "binary_view AST_BINARY_OP_SUBTRACT = [kw TOK_MINUS]"
| "binary_view AST_BINARY_OP_MULTIPLY = [kw TOK_STAR]"
| "binary_view AST_BINARY_OP_DIVIDE = [kw TOK_SLASH]"
| "binary_view AST_BINARY_OP_MODULO = [kw TOK_PERCENT]"

primrec assignment_token :: "AstAssignmentOperator \<Rightarrow> TokenType" where
  "assignment_token AST_ASSIGN_OP_ASSIGN = TOK_ASSIGN"
| "assignment_token AST_ASSIGN_OP_ADD = TOK_PLUS_ASSIGN"
| "assignment_token AST_ASSIGN_OP_SUBTRACT = TOK_MINUS_ASSIGN"
| "assignment_token AST_ASSIGN_OP_MULTIPLY = TOK_STAR_ASSIGN"
| "assignment_token AST_ASSIGN_OP_DIVIDE = TOK_SLASH_ASSIGN"
| "assignment_token AST_ASSIGN_OP_MODULO = TOK_PERCENT_ASSIGN"
| "assignment_token AST_ASSIGN_OP_BIT_AND = TOK_AMP_ASSIGN"
| "assignment_token AST_ASSIGN_OP_BIT_OR = TOK_PIPE_ASSIGN"
| "assignment_token AST_ASSIGN_OP_BIT_XOR = TOK_CARET_ASSIGN"
| "assignment_token AST_ASSIGN_OP_SHIFT_LEFT = TOK_LSHIFT_ASSIGN"
| "assignment_token AST_ASSIGN_OP_SHIFT_RIGHT = TOK_RSHIFT_ASSIGN"

text \<open>The parser makes neither a dereference nor an address-of node.\<close>

primrec unary_token :: "AstUnaryOperator \<Rightarrow> TokenType" where
  "unary_token AST_UNARY_OP_LOGICAL_NOT = TOK_BANG"
| "unary_token AST_UNARY_OP_BITWISE_NOT = TOK_TILDE"
| "unary_token AST_UNARY_OP_NEGATE = TOK_MINUS"
| "unary_token AST_UNARY_OP_PLUS = TOK_PLUS"
| "unary_token AST_UNARY_OP_PRE_INCREMENT = TOK_PLUS_PLUS"
| "unary_token AST_UNARY_OP_PRE_DECREMENT = TOK_MINUS_MINUS"
| "unary_token AST_UNARY_OP_DEREF = TOK_STAR"
| "unary_token AST_UNARY_OP_ADDRESS_OF = TOK_AMP"

primrec modifier_token :: "AstModifier \<Rightarrow> TokenType" where
  "modifier_token AST_MODIFIER_PUBLIC = TOK_PUBLIC"
| "modifier_token AST_MODIFIER_PRIVATE = TOK_PRIVATE"
| "modifier_token AST_MODIFIER_FINAL = TOK_FINAL"
| "modifier_token AST_MODIFIER_EXPORT = TOK_EXPORT"
| "modifier_token AST_MODIFIER_STATIC = TOK_STATIC"
| "modifier_token AST_MODIFIER_INTERNAL = TOK_INTERNAL"

section \<open>Tokens of names, types and parameters\<close>

fun dotted :: "string list \<Rightarrow> view list" where
  "dotted [] = []"
| "dotted [s] = [(TOK_IDENTIFIER, s)]"
| "dotted (s # t # ss) = (TOK_IDENTIFIER, s) # kw TOK_DOT # dotted (t # ss)"

definition angled :: "view list list \<Rightarrow> view list" where
  "angled vs = (if vs = [] then [] else kw TOK_LT # commas vs @ [kw TOK_GT])"

definition y_dimension :: "AstArrayDimension \<Rightarrow> view list" where
  "y_dimension d =
     kw TOK_LBRACKET # (if ad_has_size d then [(TOK_INT_LIT, ad_size_literal d)] else []) @ [kw TOK_RBRACKET]"

definition y_dimensions :: "AstArrayDimension list \<Rightarrow> view list" where
  "y_dimensions ds = concat (List.map y_dimension ds)"

primrec y_type :: "AstType \<Rightarrow> view list" and y_generic_arg :: "AstGenericArg \<Rightarrow> view list" where
  "y_type AST_TYPE_VOID = [kw TOK_VOID]"
| "y_type (AST_TYPE_PRIMITIVE t args ds) =
     kw (primitive_token t) # angled (List.map y_generic_arg args) @ y_dimensions ds"
| "y_type (AST_TYPE_ARR args) = kw TOK_ARR # angled (List.map y_generic_arg args)"
| "y_type (AST_TYPE_NAMED name args ds) =
     (TOK_IDENTIFIER, name) # angled (List.map y_generic_arg args) @ y_dimensions ds"
| "y_generic_arg AST_GENERIC_ARG_WILDCARD = [kw TOK_QUESTION]"
| "y_generic_arg (AST_GENERIC_ARG_TYPE t) = y_type t"

definition y_parameter :: "AstParameter \<Rightarrow> view list" where
  "y_parameter p =
     y_type (ap_type p) @ (if ap_is_varargs p then [kw TOK_ELLIPSIS] else []) @ [(TOK_IDENTIFIER, ap_name p)]"

definition y_extern_parameter :: "AstParameter \<Rightarrow> view list" where
  "y_extern_parameter p = (if ap_name p = ''...'' then [kw TOK_ELLIPSIS] else y_parameter p)"

definition y_parameters :: "AstParameter list \<Rightarrow> view list" where
  "y_parameters ps = commas (List.map y_parameter ps)"

section \<open>Tokens of expressions and statements\<close>

text \<open>The first and the last text of a template have delimiters of their own.\<close>

definition template_views :: "view list list \<Rightarrow> view list" where
  "template_views vs =
     (if length vs = 1 then [(TOK_TEMPLATE_FULL, snd (hd (hd vs)))]
      else (TOK_TEMPLATE_START, snd (hd (hd vs))) # concat (butlast (tl vs)) @
        [(TOK_TEMPLATE_END, snd (hd (last vs)))])"

primrec y_expr :: "AstExpression \<Rightarrow> view list"
  and y_literal :: "AstLiteral \<Rightarrow> view list"
  and y_part :: "AstTemplatePart \<Rightarrow> view list"
  and y_body :: "AstLambdaBody \<Rightarrow> view list"
  and y_statement :: "AstStatement \<Rightarrow> view list"
  and y_block :: "AstBlock \<Rightarrow> view list" where
  "y_expr (AST_EXPR_LITERAL span l) = y_literal l"
| "y_expr (AST_EXPR_IDENTIFIER span name) = [(TOK_IDENTIFIER, name)]"
| "y_expr (AST_EXPR_LAMBDA span ps b) =
     kw TOK_LPAREN # y_parameters ps @ kw TOK_RPAREN # kw TOK_ARROW # y_body b"
| "y_expr (AST_EXPR_ASSIGNMENT span op t v) = y_expr t @ kw (assignment_token op) # y_expr v"
| "y_expr (AST_EXPR_TERNARY span c t e) = y_expr c @ kw TOK_QUESTION # y_expr t @ kw TOK_COLON # y_expr e"
| "y_expr (AST_EXPR_BINARY span op l r) = y_expr l @ binary_view op @ y_expr r"
| "y_expr (AST_EXPR_UNARY span op e) = kw (unary_token op) # y_expr e"
| "y_expr (AST_EXPR_CALL span f args) =
     y_expr f @ kw TOK_LPAREN # commas (List.map y_expr args) @ [kw TOK_RPAREN]"
| "y_expr (AST_EXPR_INDEX span t i) = y_expr t @ kw TOK_LBRACKET # y_expr i @ [kw TOK_RBRACKET]"
| "y_expr (AST_EXPR_MEMBER span t name) = y_expr t @ [kw TOK_DOT, (TOK_IDENTIFIER, name)]"
| "y_expr (AST_EXPR_CAST span t e) = kw (primitive_token t) # kw TOK_LPAREN # y_expr e @ [kw TOK_RPAREN]"
| "y_expr (AST_EXPR_ARRAY_LITERAL span es) =
     kw TOK_LBRACKET # commas (List.map y_expr es) @ [kw TOK_RBRACKET]"
| "y_expr (AST_EXPR_GROUPING span e) = kw TOK_LPAREN # y_expr e @ [kw TOK_RPAREN]"
| "y_expr (AST_EXPR_DISCARD span) = [kw TOK_UNDERSCORE]"
| "y_expr (AST_EXPR_POST_INCREMENT span e) = y_expr e @ [kw TOK_PLUS_PLUS]"
| "y_expr (AST_EXPR_POST_DECREMENT span e) = y_expr e @ [kw TOK_MINUS_MINUS]"
| "y_literal (AST_LITERAL_INTEGER s) = [(TOK_INT_LIT, s)]"
| "y_literal (AST_LITERAL_FLOAT s) = [(TOK_FLOAT_LIT, s)]"
| "y_literal (AST_LITERAL_BOOL b) = [kw (if b then TOK_TRUE else TOK_FALSE)]"
| "y_literal (AST_LITERAL_CHAR s) = [(TOK_CHAR_LIT, s)]"
| "y_literal (AST_LITERAL_STRING s) = [(TOK_STRING_LIT, s)]"
| "y_literal (AST_LITERAL_TEMPLATE parts) = template_views (List.map y_part parts)"
| "y_literal AST_LITERAL_NULL = [kw TOK_NULL]"
| "y_part (AST_TEMPLATE_PART_TEXT s) = [(TOK_TEMPLATE_MIDDLE, s)]"
| "y_part (AST_TEMPLATE_PART_EXPRESSION e) = y_expr e"
| "y_body (AST_LAMBDA_BODY_BLOCK b) = y_block b"
| "y_body (AST_LAMBDA_BODY_EXPRESSION e) = y_expr e"
| "y_statement (AST_STMT_LOCAL_BINDING span is_final is_internal type name name_span e) =
     (if is_internal then [kw TOK_INTERNAL] else []) @ (if is_final then [kw TOK_FINAL] else []) @
     (case type of None \<Rightarrow> [kw TOK_VAR] | Some t \<Rightarrow> y_type t) @
     (TOK_IDENTIFIER, name) # kw TOK_ASSIGN # y_expr e @ [kw TOK_SEMICOLON]"
| "y_statement (AST_STMT_RETURN span e) =
     kw TOK_RETURN # (case map_option y_expr e of None \<Rightarrow> [] | Some v \<Rightarrow> v) @ [kw TOK_SEMICOLON]"
| "y_statement (AST_STMT_EXIT span) = [kw TOK_EXIT, kw TOK_SEMICOLON]"
| "y_statement (AST_STMT_THROW span e) = kw TOK_THROW # y_expr e @ [kw TOK_SEMICOLON]"
| "y_statement (AST_STMT_EXPRESSION span e) = y_expr e @ [kw TOK_SEMICOLON]"
| "y_statement (AST_STMT_MANUAL span is_checked b) =
     kw TOK_MANUAL # (if is_checked then [(TOK_IDENTIFIER, ''checked'')] else []) @ y_block b @ [kw TOK_SEMICOLON]"
| "y_block (AstBlock ss) = kw TOK_LBRACE # concat (List.map y_statement ss) @ [kw TOK_RBRACE]"

section \<open>Grouping by precedence\<close>

text \<open>
  How tightly the outermost construct of an expression binds: lambda, assignment, ternary, the
  twelve levels of binary operators, unary operators, postfix and primary expressions.
\<close>

primrec tightness :: "AstExpression \<Rightarrow> nat" where
  "tightness (AST_EXPR_LITERAL span l) = 16"
| "tightness (AST_EXPR_IDENTIFIER span n) = 16"
| "tightness (AST_EXPR_LAMBDA span ps b) = 0"
| "tightness (AST_EXPR_ASSIGNMENT span op t v) = 1"
| "tightness (AST_EXPR_TERNARY span c t e) = 2"
| "tightness (AST_EXPR_BINARY span op l r) = 3 + prec op"
| "tightness (AST_EXPR_UNARY span op e) = 15"
| "tightness (AST_EXPR_CALL span f args) = 16"
| "tightness (AST_EXPR_INDEX span t i) = 16"
| "tightness (AST_EXPR_MEMBER span t n) = 16"
| "tightness (AST_EXPR_CAST span ty e) = 16"
| "tightness (AST_EXPR_ARRAY_LITERAL span es) = 16"
| "tightness (AST_EXPR_GROUPING span e) = 16"
| "tightness (AST_EXPR_DISCARD span) = 16"
| "tightness (AST_EXPR_POST_INCREMENT span e) = 16"
| "tightness (AST_EXPR_POST_DECREMENT span e) = 16"

text \<open>
  Binary operators group to the left, assignments and ternaries to the right, and no looser
  construct stands inside a tighter one without parentheses.
\<close>

primrec ok_expr :: "AstExpression \<Rightarrow> bool"
  and ok_literal :: "AstLiteral \<Rightarrow> bool"
  and ok_part :: "AstTemplatePart \<Rightarrow> bool"
  and ok_body :: "AstLambdaBody \<Rightarrow> bool"
  and ok_statement :: "AstStatement \<Rightarrow> bool"
  and ok_block :: "AstBlock \<Rightarrow> bool" where
  "ok_expr (AST_EXPR_LITERAL span l) = ok_literal l"
| "ok_expr (AST_EXPR_IDENTIFIER span name) = True"
| "ok_expr (AST_EXPR_LAMBDA span ps b) = ok_body b"
| "ok_expr (AST_EXPR_ASSIGNMENT span op t v) = (ok_expr t \<and> ok_expr v \<and> 2 \<le> tightness t \<and> 1 \<le> tightness v)"
| "ok_expr (AST_EXPR_TERNARY span c t e) =
     (ok_expr c \<and> ok_expr t \<and> ok_expr e \<and> 3 \<le> tightness c \<and> 2 \<le> tightness e)"
| "ok_expr (AST_EXPR_BINARY span op l r) =
     (ok_expr l \<and> ok_expr r \<and> 3 + prec op \<le> tightness l \<and> 3 + prec op < tightness r)"
| "ok_expr (AST_EXPR_UNARY span op e) = (ok_expr e \<and> 15 \<le> tightness e)"
| "ok_expr (AST_EXPR_CALL span f args) =
     (ok_expr f \<and> 16 \<le> tightness f \<and> list_all (\<lambda>b. b) (List.map ok_expr args))"
| "ok_expr (AST_EXPR_INDEX span t i) = (ok_expr t \<and> 16 \<le> tightness t \<and> ok_expr i)"
| "ok_expr (AST_EXPR_MEMBER span t name) = (ok_expr t \<and> 16 \<le> tightness t)"
| "ok_expr (AST_EXPR_CAST span t e) = ok_expr e"
| "ok_expr (AST_EXPR_ARRAY_LITERAL span es) = list_all (\<lambda>b. b) (List.map ok_expr es)"
| "ok_expr (AST_EXPR_GROUPING span e) = ok_expr e"
| "ok_expr (AST_EXPR_DISCARD span) = True"
| "ok_expr (AST_EXPR_POST_INCREMENT span e) = (ok_expr e \<and> 16 \<le> tightness e)"
| "ok_expr (AST_EXPR_POST_DECREMENT span e) = (ok_expr e \<and> 16 \<le> tightness e)"
| "ok_literal (AST_LITERAL_INTEGER s) = True"
| "ok_literal (AST_LITERAL_FLOAT s) = True"
| "ok_literal (AST_LITERAL_BOOL b) = True"
| "ok_literal (AST_LITERAL_CHAR s) = True"
| "ok_literal (AST_LITERAL_STRING s) = True"
| "ok_literal (AST_LITERAL_TEMPLATE parts) = list_all (\<lambda>b. b) (List.map ok_part parts)"
| "ok_literal AST_LITERAL_NULL = True"
| "ok_part (AST_TEMPLATE_PART_TEXT s) = True"
| "ok_part (AST_TEMPLATE_PART_EXPRESSION e) = ok_expr e"
| "ok_body (AST_LAMBDA_BODY_BLOCK b) = ok_block b"
| "ok_body (AST_LAMBDA_BODY_EXPRESSION e) = ok_expr e"
| "ok_statement (AST_STMT_LOCAL_BINDING span is_final is_internal type name name_span e) = ok_expr e"
| "ok_statement (AST_STMT_RETURN span e) = (case map_option ok_expr e of None \<Rightarrow> True | Some b \<Rightarrow> b)"
| "ok_statement (AST_STMT_EXIT span) = True"
| "ok_statement (AST_STMT_THROW span e) = ok_expr e"
| "ok_statement (AST_STMT_EXPRESSION span e) = ok_expr e"
| "ok_statement (AST_STMT_MANUAL span is_checked b) = ok_block b"
| "ok_block (AstBlock ss) = list_all (\<lambda>b. b) (List.map ok_statement ss)"

section \<open>Tokens of declarations and programs\<close>

definition y_modifiers :: "AstModifier list \<Rightarrow> view list" where
  "y_modifiers ms = List.map (\<lambda>m. kw (modifier_token m)) ms"

definition y_variant :: "AstUnionVariant \<Rightarrow> view list" where
  "y_variant v = (TOK_IDENTIFIER, uv_name v) #
     (case uv_payload_type v of None \<Rightarrow> [] | Some t \<Rightarrow> kw TOK_LPAREN # y_type t @ [kw TOK_RPAREN])"

primrec y_decl :: "AstTopLevelDecl \<Rightarrow> view list" where
  "y_decl (AST_TOP_LEVEL_START d) =
     kw TOK_START # kw TOK_LPAREN # y_parameters (sd_parameters d) @
     kw TOK_RPAREN # kw TOK_ARROW # y_body (sd_body d) @ [kw TOK_SEMICOLON]"
| "y_decl (AST_TOP_LEVEL_BOOT d) =
     kw TOK_BOOT # kw TOK_LPAREN # y_parameters (bo_parameters d) @
     kw TOK_RPAREN # kw TOK_ARROW # y_body (bo_body d) @ [kw TOK_SEMICOLON]"
| "y_decl (AST_TOP_LEVEL_BINDING d) =
     y_modifiers (bd_modifiers d) @ (case bd_declared_type d of None \<Rightarrow> [kw TOK_VAR] | Some t \<Rightarrow> y_type t) @
     (TOK_IDENTIFIER, bd_name d) # kw TOK_ASSIGN # y_expr (bd_initializer d) @ [kw TOK_SEMICOLON]"
| "y_decl (AST_TOP_LEVEL_UNION d) =
     y_modifiers (ud_modifiers d) @ kw TOK_UNION # (TOK_IDENTIFIER, ud_name d) #
     angled (List.map (\<lambda>s. [(TOK_IDENTIFIER, s)]) (ud_generic_params d)) @
     kw TOK_LBRACE # commas (List.map y_variant (ud_variants d)) @ [kw TOK_RBRACE, kw TOK_SEMICOLON]"
| "y_decl (AST_TOP_LEVEL_EXTERN d) =
     kw TOK_EXTERN # y_type (xd_return_type d) @ (TOK_IDENTIFIER, xd_name d) # kw TOK_ASSIGN #
     (TOK_IDENTIFIER, ''c'') # kw TOK_LPAREN # commas (List.map y_extern_parameter (xd_parameters d)) @
     [kw TOK_RPAREN, kw TOK_SEMICOLON]"

primrec ok_decl :: "AstTopLevelDecl \<Rightarrow> bool" where
  "ok_decl (AST_TOP_LEVEL_START d) = ok_body (sd_body d)"
| "ok_decl (AST_TOP_LEVEL_BOOT d) = ok_body (bo_body d)"
| "ok_decl (AST_TOP_LEVEL_BINDING d) = ok_expr (bd_initializer d)"
| "ok_decl (AST_TOP_LEVEL_UNION d) = True"
| "ok_decl (AST_TOP_LEVEL_EXTERN d) = True"

definition y_import :: "AstImportDecl \<Rightarrow> view list" where
  "y_import d = kw TOK_IMPORT # dotted (qn_segments (id_module_name d)) @
     (case id_kind d of
        AST_IMPORT_PLAIN \<Rightarrow> []
      | AST_IMPORT_ALIAS \<Rightarrow> [kw TOK_AS, (TOK_IDENTIFIER, case id_alias d of None \<Rightarrow> [] | Some s \<Rightarrow> s)]
      | AST_IMPORT_WILDCARD \<Rightarrow> [kw TOK_DOT, kw TOK_STAR]
      | AST_IMPORT_SELECTIVE \<Rightarrow> kw TOK_DOT # kw TOK_LBRACE #
          commas (List.map (\<lambda>s. [(TOK_IDENTIFIER, s)]) (id_selected_names d)) @ [kw TOK_RBRACE]) @
     [kw TOK_SEMICOLON]"

definition y_program :: "AstProgram \<Rightarrow> view list" where
  "y_program d =
     (case pr_package_name d of None \<Rightarrow> []
      | Some n \<Rightarrow> kw TOK_PACKAGE # dotted (qn_segments n) @ [kw TOK_SEMICOLON]) @
     concat (List.map y_import (pr_imports d)) @ concat (List.map y_decl (pr_top_level_decls d))"

end
