(* ===== verification/ParserSound.thy ===== *)
theory ParserSound
  imports ParserYield
begin

text \<open>
  Every grammar function meets its judgement when the functions of the level below do: it
  returns, consumes the tokens of the tree that it builds, and groups operators by precedence.
\<close>

section \<open>Levels of recursion\<close>

definition level_ok :: "string \<Rightarrow> nat \<Rightarrow> Knots \<Rightarrow> bool" where
  "level_ok S n R \<longleftrightarrow> Suc n < k_fuel R \<and>
     (\<forall>N \<le> n. \<forall>P. spec S N P [] (k_type R) y_type (\<lambda>_. True) \<and>
       spec S N P [] (k_expression R) y_expr ok_expr \<and>
       spec S N P [] (k_assignment R) y_expr (\<lambda>e. ok_expr e \<and> 1 \<le> tightness e) \<and>
       spec S N P [] (k_ternary R) y_expr (\<lambda>e. ok_expr e \<and> 2 \<le> tightness e) \<and>
       spec S N P [] (k_unary R) y_expr (\<lambda>e. ok_expr e \<and> 15 \<le> tightness e) \<and>
       spec S N P [] (k_block R) y_block ok_block)"

lemma level_knots:
  assumes "level_ok S n R" and "N \<le> n"
  shows "spec S N P [] (k_type R) y_type (\<lambda>_. True)"
    and "spec S N P [] (k_expression R) y_expr ok_expr"
    and "spec S N P [] (k_assignment R) y_expr (\<lambda>e. ok_expr e \<and> 1 \<le> tightness e)"
    and "spec S N P [] (k_ternary R) y_expr (\<lambda>e. ok_expr e \<and> 2 \<le> tightness e)"
    and "spec S N P [] (k_unary R) y_expr (\<lambda>e. ok_expr e \<and> 15 \<le> tightness e)"
    and "spec S N P [] (k_block R) y_block ok_block"
  using assms by (simp_all add: level_ok_def)

lemma level_fuel: "level_ok S n R \<Longrightarrow> N \<le> Suc n \<Longrightarrow> N < k_fuel R"
  by (simp add: level_ok_def)

named_theorems plain_tokens

lemma plain_token [plain_tokens]: "plain t \<longleftrightarrow> t \<notin> {TOK_RSHIFT, TOK_EOF, TOK_IDENTIFIER, TOK_INT_LIT,
    TOK_FLOAT_LIT, TOK_CHAR_LIT, TOK_STRING_LIT, TOK_TEMPLATE_FULL, TOK_TEMPLATE_START, TOK_TEMPLATE_MIDDLE,
    TOK_TEMPLATE_END}"
  by (auto simp: plain_def text_token_def template_token_def)

text \<open>A table of binary operators holds the operators of one level.\<close>

definition level_operators :: "binary_mappings \<Rightarrow> nat \<Rightarrow> bool" where
  "level_operators mappings k \<longleftrightarrow> (\<forall>(t, op) \<in> set mappings. 3 + prec op = k \<and> t \<noteq> TOK_EOF \<and>
     (\<forall>S tok. tok_type tok = t \<longrightarrow> tview S tok = binary_view op))"

lemma level_operator:
  "level_operators mappings k \<Longrightarrow> map_of mappings (tok_type tok) = Some op \<Longrightarrow>
    3 + prec op = k \<and> tok_type tok \<noteq> TOK_EOF \<and> tview S tok = binary_view op"
  by (fastforce simp: level_operators_def dest: map_of_SomeD)

lemma operator_levels:
  "level_operators logical_or_operators 3" "level_operators logical_and_operators 4"
  "level_operators bitwise_or_operators 5" "level_operators bitwise_nand_operators 6"
  "level_operators bitwise_xor_operators 7" "level_operators bitwise_xnor_operators 8"
  "level_operators bitwise_and_operators 9" "level_operators equality_operators 10"
  "level_operators relational_operators 11" "level_operators shift_operators 12"
  "level_operators additive_operators 13" "level_operators multiplicative_operators 14"
  by (simp_all add: level_operators_def logical_or_operators_def logical_and_operators_def
      bitwise_or_operators_def bitwise_nand_operators_def bitwise_xor_operators_def bitwise_xnor_operators_def
      bitwise_and_operators_def equality_operators_def relational_operators_def shift_operators_def
      additive_operators_def multiplicative_operators_def tview_plain tview_rshift plain_tokens)

section \<open>Names and types\<close>

definition dotted_prefix :: "string list \<Rightarrow> view list" where
  "dotted_prefix ss = concat (List.map (\<lambda>s. [(TOK_IDENTIFIER, s), kw TOK_DOT]) ss)"

lemma dotted_snoc: "dotted (ss @ [s]) = dotted_prefix ss @ [(TOK_IDENTIFIER, s)]"
proof (induction ss)
  case (Cons t ts)
  then show ?case
    by (cases ts) (simp_all add: dotted_prefix_def)
qed (simp add: dotted_prefix_def)

lemma spec_advances_text:
  assumes "text_token (tok_type tok)"
  shows "spec S N (\<lambda>t. t = tok) [] advances (\<lambda>_. [(tok_type tok, token_text S tok)]) (\<lambda>_. True)"
  using spec_advances [of tok S N] assms
  by (auto simp: tview_text text_token_def elim: spec_weaken)

lemma spec_type_at: "(\<And>v. spec S N P pre (k v) U Q) \<Longrightarrow>
    spec S N P pre (reads (\<lambda>p. type_at p (ps_current p + 1)) k) U Q"
  by (rule spec_reads)

lemma spec_span: "(\<And>v. spec S N P pre (k v) U Q) \<Longrightarrow>
    spec S N P pre (reads (\<lambda>p. parser_source_span (parser_current_token p)) k) U Q"
  by (rule spec_reads)

lemmas spec_intros = spec_current spec_text spec_type_at spec_span spec_if spec_if_check spec_fails spec_returns

lemma spec_case_option:
  "(x = None \<Longrightarrow> spec S N P pre m U Q) \<Longrightarrow> (\<And>y. x = Some y \<Longrightarrow> spec S N P pre (k y) U Q) \<Longrightarrow>
    spec S N P pre (case x of None \<Rightarrow> m | Some y \<Rightarrow> k y) U Q"
  by (cases x) simp_all

lemmas spec_steps = spec_intros spec_case_option
  spec_bind [OF spec_expects] spec_bind [OF spec_expects_gt] spec_bind [OF spec_identifier]

text \<open>A loop that continues a construct whose first tokens have been consumed.\<close>

lemma spec_bind_loop:
  assumes m: "spec S N P pre m V Q1" and f: "\<And>x. Q1 x \<Longrightarrow> spec S (N + length pre) anytok (V x) (f x) U Q"
  shows "spec S N P pre (andthen m f) U Q"
proof (rule specI)
  fix p
  assume p: "pinv S p" "length (prest S p) \<le> N" "P (parser_current_token p)"
  show "case andthen m f p of
      Parsed x p' \<Rightarrow> pinv S p' \<and> ps_current p \<le> ps_current p' \<and> pre @ prest S p = U x @ prest S p' \<and> Q x
    | Failed p' \<Rightarrow> failure p p' | Out_of_fuel \<Rightarrow> False"
  proof (cases "m p")
    case (Parsed x p')
    then have step: "pinv S p'" "ps_current p \<le> ps_current p'" "pre @ prest S p = V x @ prest S p'" "Q1 x"
      using m p by (auto simp: spec_def)
    then have "length (prest S p') \<le> N + length pre"
      using p(2) arg_cong [OF step(3), of length] unfolding length_append by linarith
    then have "case f x p' of
        Parsed y p'' \<Rightarrow> pinv S p'' \<and> ps_current p' \<le> ps_current p'' \<and>
          V x @ prest S p' = U y @ prest S p'' \<and> Q y
      | Failed p'' \<Rightarrow> failure p' p'' | Out_of_fuel \<Rightarrow> False"
      using f [OF step(4)] step(1) by (auto simp: spec_def)
    then show ?thesis
      using Parsed step failure_trans by (auto simp: andthen_def split: presult.splits)
  next
    case (Failed p')
    then show ?thesis
      using m p by (auto simp: spec_def andthen_def)
  next
    case Out_of_fuel
    then show ?thesis
      using m p by (auto simp: spec_def)
  qed
qed

lemma spec_lookahead:
  "(\<And>p. pinv S p \<Longrightarrow> f p \<noteq> None) \<Longrightarrow> (\<And>v. spec S N P pre (k v) U Q) \<Longrightarrow>
    spec S N P pre (reads f (\<lambda>x. case x of None \<Rightarrow> out_of_fuel | Some v \<Rightarrow> k v)) U Q"
  by (rule spec_reads_option) simp_all

lemma spec_flag:
  "plain t \<Longrightarrow> spec S N P [] (if_match t (\<lambda>_. returns True) (returns False))
     (\<lambda>b. if b then [kw t] else []) (\<lambda>_. True)"
  by (intro spec_match_kw spec_returns) simp_all

lemma spec_name_loop:
  "N < fuel \<Longrightarrow> pre = dotted_prefix (qn_segments name) \<Longrightarrow>
    spec S N P pre (name_loop fuel name) (\<lambda>x. dotted (qn_segments x)) (\<lambda>_. True)"
proof (induction fuel arbitrary: N P pre name)
  case (Suc fuel)
  show ?case
  proof (rule spec_pos)
    assume pos: "0 < N"
    show ?thesis
      unfolding name_loop.simps Let_def
      by (intro spec_steps spec_bind [OF spec_advances_text]
          spec_bind [OF spec_advances_kw [where t = TOK_DOT]] Suc.IH)
        (use pos Suc.prems in \<open>simp_all add: text_token_def plain_tokens dotted_snoc dotted_prefix_def\<close>)
  qed
qed simp

lemma spec_dimension_loop:
  "N < fuel \<Longrightarrow> pre = y_dimensions dims \<Longrightarrow>
    spec S N P pre (dimension_loop fuel dims) y_dimensions (\<lambda>_. True)"
proof (induction fuel arbitrary: N P pre dims)
  case (Suc fuel)
  show ?case
  proof (rule spec_pos)
    assume pos: "0 < N"
    show ?thesis
      unfolding dimension_loop.simps
      by (intro spec_steps spec_match_kw [where t = TOK_LBRACKET] spec_match_text [where t = TOK_INT_LIT] Suc.IH)
        (use pos Suc.prems in \<open>simp_all add: text_token_def plain_tokens y_dimensions_def y_dimension_def\<close>)
  qed
qed simp

text \<open>
  The cleared variable never says that the list has ended, so a parameter may follow one with
  \<open>...\<close> and the loop is a plain list with commas.
\<close>

lemma parameter_loop_is_list:
  "parameter_loop fuel R list = comma_list fuel (typed_parameter R ''Expected parameter name.'') list"
  by (induction fuel arbitrary: list)
    (simp_all add: ast_parameter_list_append_def zero_parameter_def)

locale parse_level =
  fixes S :: string and n :: nat and R :: Knots
  assumes level: "level_ok S n R"
begin

lemmas knot_type = spec_bind [OF level_knots(1) [OF level]]
lemmas knot_expression = spec_bind [OF level_knots(2) [OF level]]
lemmas knot_assignment = spec_bind [OF level_knots(3) [OF level]]
lemmas knot_ternary = spec_bind [OF level_knots(4) [OF level]]
lemmas knot_unary = spec_bind [OF level_knots(5) [OF level]]
lemmas knot_block = spec_bind [OF level_knots(6) [OF level]]
lemmas fuel = level_fuel [OF level]

lemma spec_qualified_name:
  "N \<le> Suc n \<Longrightarrow> spec S N P [] (parser_parse_qualified_name R) (\<lambda>x. dotted (qn_segments x)) (\<lambda>_. True)"
  unfolding parser_parse_qualified_name_def
  by (rule spec_name_loop) (simp_all add: fuel dotted_prefix_def)

lemma spec_generic_item: "N \<le> n \<Longrightarrow> spec S N P []
    (if_match TOK_QUESTION (\<lambda>_. returns AST_GENERIC_ARG_WILDCARD)
      (andthen (k_type R) (\<lambda>type. returns (AST_GENERIC_ARG_TYPE type)))) y_generic_arg (\<lambda>_. True)"
  by (intro spec_steps spec_match_kw knot_type) (simp_all add: plain_tokens)

lemma spec_generic_args: "N \<le> Suc n \<Longrightarrow> spec S N P [] (parser_parse_generic_args R)
    (\<lambda>args. angled (List.map y_generic_arg args)) (\<lambda>args. args \<noteq> [])"
  unfolding parser_parse_generic_args_def
  by (intro spec_steps spec_bind [OF spec_comma_list [OF spec_generic_item]])
    (simp_all add: plain_tokens fuel angled_def)

lemma spec_type_suffix:
  assumes "N \<le> Suc n" and "\<And>args ds. pre @ angled (List.map y_generic_arg args) @ y_dimensions ds = y_type (build args ds)"
  shows "spec S N P pre (type_suffix R build) y_type (\<lambda>_. True)"
proof -
  have args: "spec S N P [] (if_check TOK_LT (parser_parse_generic_args R) (returns []))
      (\<lambda>args. angled (List.map y_generic_arg args)) (\<lambda>_. True)"
    by (intro spec_steps spec_weaken [OF spec_generic_args]) (use assms(1) in \<open>simp_all add: angled_def\<close>)
  show ?thesis
    unfolding type_suffix_def
    by (rule spec_bind [OF args], intro spec_steps spec_bind [OF spec_dimension_loop])
      (use assms in \<open>simp_all add: fuel y_dimensions_def [of "[]"]\<close>)
qed

lemma primitive_round: "is_primitive_type_token t \<Longrightarrow> primitive_token (primitive_type_from_token t) = t"
  by (auto simp: is_primitive_type_token_def primitive_type_from_token_def)

lemma primitive_plain: "is_primitive_type_token t \<Longrightarrow> plain t"
  by (auto simp: is_primitive_type_token_def plain_tokens)

lemma spec_primitive:
  assumes "is_primitive_type_token (tok_type tok)"
  shows "spec S N (\<lambda>t. t = tok) [] advances
    (\<lambda>_. [kw (primitive_token (primitive_type_from_token (tok_type tok)))]) (\<lambda>_. True)"
  using assms by (intro spec_advances_kw) (auto simp: primitive_round primitive_plain)

lemma spec_type: "N \<le> Suc n \<Longrightarrow> spec S N P [] (parser_parse_type R) y_type (\<lambda>_. True)"
  unfolding parser_parse_type_def
  by (intro spec_steps spec_match_kw [where t = TOK_VOID] spec_match_kw [where t = TOK_ARR]
      spec_bind [OF spec_generic_args] spec_bind [OF spec_advances_text] spec_bind [OF spec_primitive] spec_type_suffix)
    (simp_all add: plain_tokens text_token_def)

section \<open>Parameters\<close>

lemma spec_typed_parameter: "N \<le> Suc n \<Longrightarrow>
    spec S N P [] (typed_parameter R msg) y_parameter (\<lambda>x. ap_name x \<noteq> ''...'')"
  unfolding typed_parameter_def
  by (intro spec_bind [OF spec_type] spec_bind [OF spec_flag] spec_steps) (simp_all add: plain_tokens y_parameter_def)

lemma spec_parameters: "N \<le> Suc n \<Longrightarrow>
    spec S N P [] (parser_parse_parameter_list R allow) y_parameters (\<lambda>_. True)"
  unfolding parser_parse_parameter_list_def parameter_loop_is_list y_parameters_def
  by (intro spec_steps spec_weaken [OF spec_comma_list [OF spec_typed_parameter]]) (simp_all add: fuel)

lemma spec_extern_loop:
  "N \<le> Suc n \<Longrightarrow> N < f \<Longrightarrow> pre = concat (List.map (\<lambda>x. y_extern_parameter x @ [kw TOK_COMMA]) list) \<Longrightarrow>
    spec S N P pre (extern_parameter_loop f R list) (\<lambda>xs. commas (List.map y_extern_parameter xs)) (\<lambda>_. True)"
proof (induction f arbitrary: N P pre list)
  case (Suc f)
  show ?case
  proof (rule spec_pos)
    assume pos: "0 < N"
    show ?thesis
      unfolding extern_parameter_loop.simps ast_parameter_list_append_def prod.case zero_parameter_def
      by (intro spec_steps spec_bind [OF spec_advances_kw [where t = TOK_ELLIPSIS]]
          spec_bind [OF spec_typed_parameter] spec_match_kw [where t = TOK_COMMA] Suc.IH)
        (use pos Suc.prems in \<open>simp_all add: plain_tokens commas_snoc comp_def y_extern_parameter_def ellipsis_parameter_def\<close>)
  qed
qed simp

lemma spec_extern_parameters: "N \<le> Suc n \<Longrightarrow> spec S N P [] (parser_parse_extern_param_list R)
    (\<lambda>xs. commas (List.map y_extern_parameter xs)) (\<lambda>_. True)"
  unfolding parser_parse_extern_param_list_def
  by (intro spec_steps spec_extern_loop) (simp_all add: fuel)

section \<open>Literals\<close>

lemma spec_add_text:
  assumes "template_token (tok_type tok)"
    and "pre = U (parts @ [AST_TEMPLATE_PART_TEXT (seg_text S tok)])"
    and "Q (parts @ [AST_TEMPLATE_PART_TEXT (seg_text S tok)])"
  shows "spec S N P pre (parser_add_template_text parts tok) U Q"
proof (rule specI)
  fix p
  assume "pinv S p"
  then have "copy_template_segment_text p tok = Some (seg_text S tok)"
    using assms(1)
    by (auto simp: copy_template_segment_text_def seg_text_def pinv_def parser_copy_token_text_def template_token_def)
  with \<open>pinv S p\<close> assms(2,3) show "case parser_add_template_text parts tok p of
      Parsed x p' \<Rightarrow> pinv S p' \<and> ps_current p \<le> ps_current p' \<and> pre @ prest S p = U x @ prest S p' \<and> Q x
    | Failed p' \<Rightarrow> failure p p' | Out_of_fuel \<Rightarrow> False"
    by (simp add: parser_add_template_text_def reads_def returns_def)
qed

lemma spec_then_text:
  assumes "template_token (tok_type tok)"
    and "spec S N anytok pre (k (parts @ [AST_TEMPLATE_PART_TEXT (seg_text S tok)])) U Q"
  shows "spec S N P pre (andthen (parser_add_template_text parts tok) k) U Q"
  by (rule spec_bind [where V = "\<lambda>_. []"],
      rule spec_add_text [where Q = "\<lambda>x. x = parts @ [AST_TEMPLATE_PART_TEXT (seg_text S tok)]"])
    (use assms in simp_all)

lemma spec_template_loop:
  "N \<le> n \<Longrightarrow> N < f \<Longrightarrow> parts = AST_TEMPLATE_PART_TEXT s # ps \<Longrightarrow> list_all ok_part parts \<Longrightarrow>
    pre = (TOK_TEMPLATE_START, s) # concat (List.map y_part ps) \<Longrightarrow>
    spec S N P pre (template_loop f R parts) (\<lambda>x. template_views (List.map y_part x)) (list_all ok_part)"
proof (induction f arbitrary: N P pre parts ps)
  case (Suc f)
  show ?case
  proof (rule spec_pos)
    assume pos: "0 < N"
    show ?thesis
      unfolding template_loop.simps Let_def
      by (intro knot_expression spec_match_template [where t = TOK_TEMPLATE_MIDDLE]
          spec_match_template [where t = TOK_TEMPLATE_END] spec_then_text spec_fails Suc.IH spec_add_text)
        (use pos Suc.prems in \<open>(simp_all add: template_token_def template_views_def butlast_append)+\<close>)
  qed
qed simp

lemma spec_template: "N \<le> Suc n \<Longrightarrow> spec S N P [] (parse_template_literal_expression R) y_expr
    (\<lambda>e. ok_expr e \<and> 16 \<le> tightness e)"
  unfolding parse_template_literal_expression_def
  by (intro spec_steps spec_match_template [where t = TOK_TEMPLATE_FULL]
      spec_match_template [where t = TOK_TEMPLATE_START] spec_then_text spec_bind_loop [OF spec_template_loop])
    ((simp_all add: template_token_def template_views_def fuel list.pred_map comp_def)+)

lemma spec_expressions: "N \<le> n \<Longrightarrow> spec S N P []
    (if_check t (returns []) (comma_list (k_fuel R) (k_expression R) []))
    (\<lambda>es. commas (List.map y_expr es)) (list_all ok_expr)"
  by (intro spec_steps spec_weaken [OF spec_comma_list [OF level_knots(2) [OF level]]]) (simp_all add: fuel)

lemma spec_array: "N \<le> Suc n \<Longrightarrow> spec S N P [] (parse_array_literal_expression R) y_expr
    (\<lambda>e. ok_expr e \<and> 16 \<le> tightness e)"
  unfolding parse_array_literal_expression_def
  by (intro spec_steps spec_bind [OF spec_expressions]) (simp_all add: plain_tokens list.pred_map comp_def)

lemma spec_cast: "N \<le> Suc n \<Longrightarrow> (\<And>tok. P tok \<Longrightarrow> is_primitive_type_token (tok_type tok)) \<Longrightarrow>
    spec S N P [] (parse_cast_expression R) y_expr (\<lambda>e. ok_expr e \<and> 16 \<le> tightness e)"
  unfolding parse_cast_expression_def
  by (intro spec_steps spec_bind [OF spec_primitive] knot_expression) (simp_all add: plain_tokens)

section \<open>Primary, postfix and unary expressions\<close>

lemma spec_primary: "N \<le> Suc n \<Longrightarrow> spec S N P [] (parse_primary_expression R) y_expr
    (\<lambda>e. ok_expr e \<and> 16 \<le> tightness e)"
  unfolding parse_primary_expression_def Let_def
  by (intro spec_current spec_text spec_type_at spec_if spec_fails spec_bind [OF spec_advances]
      spec_bind [OF spec_expects] spec_returns knot_expression spec_array spec_template spec_cast)
    (auto simp: plain_tokens text_token_def template_token_def tview_def)

lemma spec_postfix_loop:
  "N \<le> Suc n \<Longrightarrow> N < f \<Longrightarrow> pre = y_expr e \<Longrightarrow> ok_expr e \<Longrightarrow> 16 \<le> tightness e \<Longrightarrow>
    spec S N P pre (postfix_loop f R e) y_expr (\<lambda>e. ok_expr e \<and> 16 \<le> tightness e)"
proof (induction f arbitrary: N P pre e)
  case (Suc f)
  show ?case
  proof (rule spec_pos)
    assume pos: "0 < N"
    show ?thesis
      unfolding postfix_loop.simps
      by (intro spec_match_kw [where t = TOK_LPAREN] spec_match_kw [where t = TOK_LBRACKET]
          spec_match_kw [where t = TOK_DOT] spec_match_kw [where t = TOK_PLUS_PLUS]
          spec_match_kw [where t = TOK_MINUS_MINUS] spec_bind [OF spec_expressions] knot_expression
          spec_bind [OF spec_expects] spec_bind [OF spec_identifier] spec_returns Suc.IH)
        (use pos Suc.prems in \<open>simp_all add: plain_tokens list.pred_map comp_def\<close>)
  qed
qed simp

lemma spec_postfix: "N \<le> Suc n \<Longrightarrow> spec S N P [] (parse_postfix_expression R) y_expr
    (\<lambda>e. ok_expr e \<and> 16 \<le> tightness e)"
  unfolding parse_postfix_expression_def
  by (intro spec_bind [OF spec_primary] spec_postfix_loop) (auto simp: fuel intro: le_less_trans [OF diff_le_self])

lemma spec_unary_operand:
  assumes "N \<le> Suc n" and "\<And>tok. P tok \<Longrightarrow> tok_type tok = unary_token op" and "plain (unary_token op)"
  shows "spec S N P [] (unary_operand R op) y_expr (\<lambda>e. ok_expr e \<and> 15 \<le> tightness e)"
  unfolding unary_operand_def
  by (intro spec_bind [OF spec_advances_kw [where t = "unary_token op"]] knot_unary spec_returns)
    (use assms in simp_all)

lemma unary_operators_token: "map_of unary_operators t = Some op \<Longrightarrow> unary_token op = t \<and> plain t"
  by (auto simp: unary_operators_def plain_tokens split: if_splits)

lemma spec_unary: "N \<le> Suc n \<Longrightarrow> spec S N P [] (parse_unary_expression R) y_expr
    (\<lambda>e. ok_expr e \<and> 15 \<le> tightness e)"
  unfolding parse_unary_expression_def
  by (intro spec_current spec_if spec_case_option spec_unary_operand spec_weaken [OF spec_postfix])
    (auto simp: plain_tokens dest: unary_operators_token)

section \<open>Binary operators\<close>

lemma spec_binary_loop:
  assumes operand: "\<And>M P. M \<le> Suc n \<Longrightarrow>
      spec S M P [] operand y_expr (\<lambda>e. ok_expr e \<and> Suc k \<le> tightness e)"
    and ops: "level_operators mappings k"
  shows "N \<le> Suc n \<Longrightarrow> N < f \<Longrightarrow> pre = y_expr e \<Longrightarrow> ok_expr e \<Longrightarrow> k \<le> tightness e \<Longrightarrow>
    spec S N P pre (binary_loop f operand mappings e) y_expr (\<lambda>e. ok_expr e \<and> k \<le> tightness e)"
proof (induction f arbitrary: N P pre e)
  case (Suc f)
  show ?case
  proof (rule spec_pos)
    assume pos: "0 < N"
    have op: "3 + prec op = k" "tok_type tok \<noteq> TOK_EOF" "tview S tok = binary_view op"
      if "map_of mappings (tok_type tok) = Some op" for tok op
      using level_operator [OF ops that] by blast+
    have tl: "0 < length (tview S tok)" for tok
      using tview_length [of S tok] by linarith
    show ?thesis
      unfolding binary_loop.simps
    proof (intro spec_current spec_case_option spec_returns spec_bind [OF spec_advances] spec_bind [OF operand])
      fix tok :: Token and op x y
      assume "map_of mappings (tok_type tok) = Some op" and y: "ok_expr y \<and> Suc k \<le> tightness y"
      note o = op [OF this(1)]
      have "N - length (tview S tok) - length (y_expr y) < f"
        using pos tl [of tok] Suc.prems(2) by linarith
      note o = o this
      show "spec S (N - length (tview S tok) - length (y_expr y)) anytok ((pre @ tview S tok) @ y_expr y)
          (binary_loop f operand mappings (AST_EXPR_BINARY (expr_span e) op e y)) y_expr
          (\<lambda>e. ok_expr e \<and> k \<le> tightness e)"
        by (rule Suc.IH) (use o y Suc.prems in auto)
    qed (use op Suc.prems in auto)
  qed
qed simp

lemma spec_binary_level:
  assumes "\<And>M P. M \<le> Suc n \<Longrightarrow> spec S M P [] operand y_expr (\<lambda>e. ok_expr e \<and> k' \<le> tightness e)"
    and "level_operators mappings k" and "k' = Suc k" and "N \<le> Suc n"
  shows "spec S N P [] (parser_parse_binary_level R operand mappings) y_expr
    (\<lambda>e. ok_expr e \<and> k \<le> tightness e)"
  unfolding parser_parse_binary_level_def
  by (rule spec_bind [OF assms(1)], rule assms(4), rule spec_binary_loop [OF assms(1) [unfolded assms(3)] assms(2)])
    (use assms in \<open>auto simp: fuel intro: le_less_trans [OF diff_le_self]\<close>)

lemma spec_logical_or: "N \<le> Suc n \<Longrightarrow> spec S N P [] (parse_logical_or_expression R) y_expr
    (\<lambda>e. ok_expr e \<and> 3 \<le> tightness e)"
  unfolding parse_logical_or_expression_def parse_logical_and_expression_def parse_bitwise_or_expression_def
    parse_bitwise_nand_expression_def parse_bitwise_xor_expression_def parse_bitwise_xnor_expression_def
    parse_bitwise_and_expression_def parse_equality_expression_def parse_relational_expression_def
    parse_shift_expression_def parse_additive_expression_def parse_multiplicative_expression_def
  by (intro spec_binary_level) (simp_all add: operator_levels spec_unary)

section \<open>Ternary, assignment and lambda expressions\<close>

lemma spec_ternary: "N \<le> Suc n \<Longrightarrow> spec S N P [] (parse_ternary_expression R) y_expr
    (\<lambda>e. ok_expr e \<and> 2 \<le> tightness e)"
  unfolding parse_ternary_expression_def
  by (intro spec_bind [OF spec_logical_or] spec_match_kw [where t = TOK_QUESTION] knot_expression
      spec_bind [OF spec_expects] knot_ternary spec_returns)
    (simp_all add: plain_tokens)

lemma assignment_operators_token:
  "map_of assignment_operators t = Some op \<Longrightarrow> plain t \<and> assignment_token op = t"
  by (auto simp: assignment_operators_def plain_tokens split: if_splits)

lemma spec_assignment: "N \<le> Suc n \<Longrightarrow> spec S N P [] (parse_assignment_expression R) y_expr
    (\<lambda>e. ok_expr e \<and> 1 \<le> tightness e)"
  unfolding parse_assignment_expression_def
  by (intro spec_bind [OF spec_ternary] spec_current spec_case_option spec_bind [OF spec_advances]
      knot_assignment spec_returns)
    (auto simp: tview_plain plain_def dest!: assignment_operators_token)

lemma spec_lambda_body: "N \<le> n \<Longrightarrow> spec S N P [] (parser_parse_lambda_body R) y_body ok_body"
  unfolding parser_parse_lambda_body_def
  by (intro spec_steps knot_block knot_assignment) simp_all

lemma spec_lambda: "N \<le> Suc n \<Longrightarrow> spec S N P [] (parse_lambda_expression R) y_expr ok_expr"
  unfolding parse_lambda_expression_def
  by (intro spec_steps spec_bind [OF spec_parameters] spec_bind [OF spec_lambda_body])
    (simp_all add: plain_tokens)

lemma spec_expression_node: "N \<le> Suc n \<Longrightarrow> spec S N P [] (parse_expression_node R) y_expr ok_expr"
  unfolding parse_expression_node_def
  by (rule spec_reads_option [OF lambda_lookahead_ends])
    (simp_all add: spec_lambda spec_weaken [OF spec_assignment])

section \<open>Statements and blocks\<close>

definition y_declared :: "AstType option \<Rightarrow> view list" where
  "y_declared t = (case t of None \<Rightarrow> [kw TOK_VAR] | Some t \<Rightarrow> y_type t)"

lemma spec_declared_type: "N \<le> Suc n \<Longrightarrow> spec S N P []
    (if_match TOK_VAR (\<lambda>_. returns None) (andthen (parser_parse_type R) (\<lambda>type. returns (Some type))))
    y_declared (\<lambda>_. True)"
  by (intro spec_match_kw spec_bind [OF spec_type] spec_returns) (simp_all add: plain_tokens y_declared_def)

lemma spec_local_binding: "N \<le> Suc n \<Longrightarrow> spec S N P [] (local_binding R) y_statement ok_statement"
  unfolding local_binding_def
  by (intro spec_span spec_bind [OF spec_flag] spec_bind [OF spec_declared_type] spec_current
      spec_bind [OF spec_identifier] spec_bind [OF spec_expects] knot_expression spec_returns)
    (simp_all add: plain_tokens y_declared_def)

lemma spec_checked: "spec S N (\<lambda>t. t = tok) []
    (if tok_type tok = TOK_IDENTIFIER \<and> token_text S tok = ''checked''
     then andthen advances (\<lambda>_. returns True) else returns False)
    (\<lambda>b. if b then [(TOK_IDENTIFIER, ''checked'')] else []) (\<lambda>_. True)"
  by (intro spec_if spec_bind [OF spec_advances] spec_returns) (simp_all add: tview_text text_token_def)

lemma spec_manual: "N \<le> Suc n \<Longrightarrow> (\<And>tok. P tok \<Longrightarrow> tok_type tok = TOK_MANUAL) \<Longrightarrow>
    spec S N P [] (manual_statement R) y_statement ok_statement"
  unfolding manual_statement_def
  by (intro spec_span spec_bind [OF spec_advances_kw [where t = TOK_MANUAL]] spec_current spec_text
      spec_bind [OF spec_checked] knot_block spec_bind [OF spec_expects] spec_returns)
    (simp_all add: plain_tokens)

lemma spec_return_value: "N \<le> n \<Longrightarrow> spec S N P []
    (if_check TOK_SEMICOLON (returns None) (andthen (k_expression R) (\<lambda>e. returns (Some e))))
    (\<lambda>e. case map_option y_expr e of None \<Rightarrow> [] | Some v \<Rightarrow> v)
    (\<lambda>e. case map_option ok_expr e of None \<Rightarrow> True | Some b \<Rightarrow> b)"
  by (intro spec_if_check spec_returns knot_expression) simp_all

lemma spec_statement: "N \<le> n \<Longrightarrow> spec S N P [] (parse_statement R) y_statement ok_statement"
  unfolding parse_statement_def Let_def
  by (intro spec_current spec_if spec_lookahead [OF binding_lookahead_ends] spec_bind [OF spec_advances]
      spec_bind [OF spec_return_value] knot_expression spec_bind [OF spec_expects] spec_returns
      spec_local_binding spec_manual)
    (simp_all add: plain_tokens tview_plain)

lemma y_statement_pos: "0 < length (y_statement s)"
  by (cases s) simp_all

lemma spec_block_loop:
  "N \<le> n \<Longrightarrow> N < f \<Longrightarrow> pre = concat (List.map y_statement ss) \<Longrightarrow> list_all ok_statement ss \<Longrightarrow>
    spec S N P pre (block_loop f R ss) (\<lambda>ss. concat (List.map y_statement ss)) (list_all ok_statement)"
proof (induction f arbitrary: N P pre ss)
  case (Suc f)
  show ?case
  proof (rule spec_pos)
    assume pos: "0 < N"
    have less: "N - length (y_statement s) < f" for s
      using pos y_statement_pos [of s] Suc.prems(2) by linarith
    show ?thesis
      unfolding block_loop.simps
      by (intro spec_current spec_if spec_bind [OF spec_statement] spec_returns Suc.IH)
        (use less Suc.prems in simp_all)
  qed
qed simp

lemma spec_block: "N \<le> Suc n \<Longrightarrow> spec S N P [] (parse_block R) y_block ok_block"
  unfolding parse_block_def
  by (intro spec_bind [OF spec_expects] spec_bind [OF spec_block_loop] spec_returns)
    (simp_all add: plain_tokens fuel list.pred_map comp_def)

end

section \<open>All levels\<close>

lemma spec_none: "spec S 0 P pre m U Q"
  by (rule spec_pos) simp

lemma knots_level: "level_ok S n (knots n)"
proof (induction n)
  case 0
  show ?case
    by (simp add: level_ok_def spec_none)
next
  case (Suc n)
  note R = parse_level.intro [OF Suc]
  show ?case
    unfolding level_ok_def
    using parse_level.spec_type [OF R] parse_level.spec_expression_node [OF R] parse_level.spec_assignment [OF R]
      parse_level.spec_ternary [OF R] parse_level.spec_unary [OF R] parse_level.spec_block [OF R]
    by simp
qed

interpretation levels: parse_level S n "knots n" for S n
  by unfold_locales (rule knots_level)

end
