(* ===== verification/ParserProgram.thy ===== *)
theory ParserProgram
  imports ParserSound
begin

text \<open>
  Declarations, imports and whole programs: the judgements of the remaining grammar functions,
  and the properties of \<open>parser_parse_program\<close> on the buffer that \<open>parser_init\<close> leaves.
\<close>

section \<open>Names in the buffer\<close>

text \<open>Only the scanner of identifiers makes a name, and a name starts with a letter or an underscore.\<close>

definition nameless :: "Token \<times> Tokenizer \<Rightarrow> bool" where
  "nameless r \<longleftrightarrow> tok_type (fst r) \<noteq> TOK_IDENTIFIER"

lemma nameless_error: "nameless (error_token msg line col, t)"
  by (simp add: nameless_def error_token_def)

lemma nameless_make: "type \<noteq> TOK_IDENTIFIER \<Longrightarrow> nameless (make_token t type start line col, t')"
  by (simp add: nameless_def make_token_def)

lemma nameless_if: "(b \<Longrightarrow> nameless x) \<Longrightarrow> (\<not> b \<Longrightarrow> nameless y) \<Longrightarrow> nameless (if b then x else y)"
  by simp

lemma nameless_match:
  "(\<And>u. nameless (f u)) \<Longrightarrow> nameless g \<Longrightarrow> nameless (case match_char t d of (True, u) \<Rightarrow> f u | (False, _) \<Rightarrow> g)"
  by (simp add: match_char_fields)

lemma nameless_prefixed: "nameless (scan_prefixed digit msg t start line col)"
  by (auto simp: scan_prefixed_def Let_def intro!: nameless_error nameless_make)

lemma nameless_number: "nameless (tokenizer_scan_number t start line col)"
  unfolding tokenizer_scan_number_def scan_exponent_def Let_def
  by (auto split: prod.split intro!: nameless_if nameless_prefixed nameless_error nameless_make)

lemma nameless_char: "nameless (tokenizer_scan_char t start line col)"
  by (auto simp: tokenizer_scan_char_def Let_def intro!: nameless_error nameless_make)

lemma nameless_string: "nameless (tokenizer_scan_string t start line col)"
  by (auto simp: tokenizer_scan_string_def Let_def split: prod.split option.split
      intro!: nameless_error nameless_make)

lemma nameless_table:
  "list_all (\<lambda>type. type \<noteq> TOK_IDENTIFIER) (otherwise # List.map snd table) \<Longrightarrow>
   nameless (match_table table otherwise t start line col)"
proof (induction table)
  case (Cons entry table)
  then show ?case
    by (cases entry) (auto simp: match_char_fields intro!: nameless_make)
qed (simp add: nameless_make)

lemma nameless_template:
  "on_interp \<noteq> TOK_IDENTIFIER \<Longrightarrow> on_end \<noteq> TOK_IDENTIFIER \<Longrightarrow>
   nameless (tokenizer_scan_template_body t start line col on_interp on_end)"
proof (induction t start line col on_interp on_end rule: tokenizer_scan_template_body.induct)
  case (1 t start line col on_interp on_end)
  then show ?case
    by (subst tokenizer_scan_template_body.simps)
      (auto simp: Let_def split: prod.split intro!: nameless_error nameless_make)
qed

lemma nameless_punctuation: "nameless (tokenizer_scan_punctuation t c start line col)"
  unfolding tokenizer_scan_punctuation_def Let_def
  by (intro nameless_if nameless_match nameless_char nameless_string nameless_template nameless_table
      nameless_make nameless_error) simp_all

lemma name_text:
  assumes "tokenizer_valid S t" and "tok_type (fst (tokenizer_next t)) = TOK_IDENTIFIER"
  shows "token_text S (fst (tokenizer_next t)) \<noteq> ''...''"
proof -
  define u where "u = skip_whitespace t"
  let ?s = "tk_current u" and ?l = "tk_line u" and ?c = "tk_column u"
  have S: "tk_source u = S"
    using assms(1) skip_whitespace_moves [of t] by (simp add: u_def tokenizer_valid_def moves_def)
  have other: "tok_type (fst (tokenizer_scan_number (advance u) ?s ?l ?c)) \<noteq> TOK_IDENTIFIER"
    "tok_type (fst (tokenizer_scan_punctuation (advance u) (peek u) ?s ?l ?c)) \<noteq> TOK_IDENTIFIER"
    "tok_type (fst (tokenizer_scan_template_body v ?s ?l ?c TOK_TEMPLATE_MIDDLE TOK_TEMPLATE_END)) \<noteq> TOK_IDENTIFIER"
    for v
    using nameless_number nameless_punctuation nameless_template by (simp_all add: nameless_def)
  have u: "isalpha (peek u) \<or> peek u = CHR ''_''" "\<not> is_at_end u"
      "tokenizer_next t = tokenizer_scan_identifier (advance u) ?s ?l ?c"
    using assms(2) other unfolding tokenizer_next_def [of t, folded u_def] Let_def
    by (auto simp: make_token_def split: if_splits)
  then have "ident_char (peek u)"
    by (auto simp: ident_char_def isalnum_def)
  then obtain w where "identifier_lexeme u = peek u # w"
    using u(2) by (simp add: identifier_lexeme_def rest_not_end [of u])
  moreover have "token_text S (fst (tokenizer_next t)) = identifier_lexeme u"
    using u(3) scan_identifier_munch [OF u(2) \<open>ident_char (peek u)\<close>] S
    by (simp add: token_text_def identifier_lexeme_def rest_def slice_takeWhile)
  ultimately show ?thesis
    using u(1) by (auto simp: isalpha_def)
qed

context token_source
begin

lemma pull_all:
  assumes "\<And>s. valid s \<Longrightarrow> Q (fst (get s))"
  shows "valid s \<Longrightarrow> list_all Q (fst (pull get n s))"
  using assms get_valid by (induction n arbitrary: s) simp_all

end

text \<open>A buffer without an error is a state in which the parser can start.\<close>

lemma parser_init_pinv:
  assumes "parser_init source = Some p" and "\<not> ps_has_error p"
  shows "pinv source p"
proof -
  define Q where "Q tok \<longleftrightarrow> (tok_type tok = TOK_IDENTIFIER \<longrightarrow> token_text source tok \<noteq> ''...'')" for tok
  obtain toks t tok t' where r:
    "pull tokenizer_next (length toks) (tokenizer_init source) = (toks, t)"
    "list_all (\<lambda>tok. \<not> stop_token tok) toks" "tokenizer_next t = (tok, t')" "stop_token tok"
    "tokenizer_valid source t" "tokenizer_valid source t'"
    "parser_init source =
       Some (finish_loop ((append_tokens (empty_parser source) toks)\<lparr>ps_tokenizer := t'\<rparr>) tok)"
    by (rule parser_init_result)
  have empty: "ps_tokens (empty_parser source) = []" "\<not> ps_has_error (empty_parser source)"
      "ps_current (empty_parser source) = 0"
    by (simp_all add: empty_parser_def)
  have eof: "tok_type tok = TOK_EOF"
    using r(4,7) assms empty by (auto simp: finish_loop_def parser_set_error_def stop_token_def split: if_splits)
  have p: "ps_tokens p = toks @ [tok]" "ps_current p = 0" "ps_tokenizer p = t'"
    using r(7) assms(1) empty eof by (auto simp: finish_loop_def)
  have "list_all Q (fst (pull tokenizer_next (length toks) (tokenizer_init source)))"
    by (rule tokens.pull_all [OF _ tokenizer_init_valid]) (simp add: Q_def name_text)
  then have "list_all Q toks"
    by (simp add: r(1))
  moreover have "parser_ok p"
    using r(2) eof by (simp add: parser_ok_def p)
  ultimately show ?thesis
    using assms(2) r(6) eof
    by (auto simp: pinv_def p list_all_iff Q_def parser_source_def tokenizer_valid_def)
qed

section \<open>Declarations\<close>

lemma modifier_round: "is_modifier_token t \<Longrightarrow> plain t \<and> modifier_token (modifier_from_token t) = t"
  by (auto simp: is_modifier_token_def modifier_from_token_def plain_tokens)

lemma spec_modifier_loop:
  "N < fuel \<Longrightarrow> pre = y_modifiers ms \<Longrightarrow>
    spec S N P pre (modifier_loop fuel ms) y_modifiers (\<lambda>_. True)"
proof (induction fuel arbitrary: N P pre ms)
  case (Suc fuel)
  show ?case
  proof (rule spec_pos)
    assume pos: "0 < N"
    show ?thesis
      unfolding modifier_loop.simps
      by (intro spec_current spec_if spec_bind [OF spec_advances] spec_returns Suc.IH)
        (use pos Suc.prems in \<open>auto simp: y_modifiers_def tview_plain plain_def dest!: modifier_round\<close>)
  qed
qed simp

definition y_import_tail :: "AstImportDecl \<Rightarrow> view list" where
  "y_import_tail d =
     (case id_kind d of
        AST_IMPORT_PLAIN \<Rightarrow> []
      | AST_IMPORT_ALIAS \<Rightarrow> [kw TOK_AS, (TOK_IDENTIFIER, case id_alias d of None \<Rightarrow> [] | Some s \<Rightarrow> s)]
      | AST_IMPORT_WILDCARD \<Rightarrow> [kw TOK_DOT, kw TOK_STAR]
      | AST_IMPORT_SELECTIVE \<Rightarrow> kw TOK_DOT # kw TOK_LBRACE #
          commas (List.map (\<lambda>s. [(TOK_IDENTIFIER, s)]) (id_selected_names d)) @ [kw TOK_RBRACE])"

context parse_level
begin

lemma spec_names: "N < f \<Longrightarrow> spec S N P [] (comma_list f (expects_identifier msg) [])
    (\<lambda>xs. commas (List.map (\<lambda>s. [(TOK_IDENTIFIER, s)]) xs)) (\<lambda>xs. xs \<noteq> [])"
  by (rule spec_weaken [OF spec_comma_list [OF spec_identifier]]) auto

lemma spec_body: "N \<le> n \<Longrightarrow> spec S N P [] (parser_parse_block_or_expression_body R) y_body ok_body"
  unfolding parser_parse_block_or_expression_body_def
  by (intro spec_if_check knot_block knot_expression spec_returns) simp_all

lemma spec_start: "N \<le> Suc n \<Longrightarrow> spec S N P [] (parse_start_decl R) y_decl ok_decl"
  unfolding parse_start_decl_def
  by (intro spec_span spec_bind [OF spec_expects] spec_bind [OF spec_parameters] spec_bind [OF spec_body] spec_returns)
    (simp_all add: plain_tokens)

lemma spec_boot: "N \<le> Suc n \<Longrightarrow> spec S N P [] (parse_boot_decl R) y_decl ok_decl"
  unfolding parse_boot_decl_def
  by (intro spec_span spec_bind [OF spec_expects] spec_bind [OF spec_parameters] spec_bind [OF spec_body] spec_returns)
    (simp_all add: plain_tokens)

lemma spec_extern: "N \<le> Suc n \<Longrightarrow> spec S N P [] (parse_extern_decl R) y_decl ok_decl"
  unfolding parse_extern_decl_def
  by (intro spec_current spec_text spec_if spec_fails spec_bind [OF spec_expects] spec_bind [OF spec_type]
      spec_bind [OF spec_identifier] spec_bind [OF spec_advances] spec_bind [OF spec_extern_parameters] spec_returns)
    (simp_all add: plain_tokens tview_text text_token_def)

lemma spec_binding: "N \<le> Suc n \<Longrightarrow> spec S N P [] (parse_binding_decl R) y_decl ok_decl"
  unfolding parse_binding_decl_def
  by (intro spec_current spec_bind [OF spec_modifier_loop] spec_bind [OF spec_declared_type]
      spec_bind [OF spec_identifier] spec_bind [OF spec_expects] knot_expression spec_returns)
    (simp_all add: plain_tokens fuel y_modifiers_def y_declared_def)

lemma spec_union_variant: "N \<le> Suc n \<Longrightarrow> spec S N P [] (union_variant R) y_variant (\<lambda>_. True)"
  unfolding union_variant_def
  by (intro spec_bind [OF spec_identifier] spec_match_kw [where t = TOK_LPAREN] spec_bind [OF spec_type]
      spec_bind [OF spec_expects] spec_returns)
    (simp_all add: plain_tokens y_variant_def)

lemma spec_generic_parameters: "N \<le> Suc n \<Longrightarrow> spec S N P [] (generic_parameters R)
    (\<lambda>xs. angled (List.map (\<lambda>s. [(TOK_IDENTIFIER, s)]) xs)) (\<lambda>_. True)"
  unfolding generic_parameters_def
  by (intro spec_match_kw [where t = TOK_LT] spec_bind [OF spec_names] spec_bind [OF spec_expects] spec_returns)
    (simp_all add: plain_tokens fuel angled_def)

lemma spec_union: "N \<le> Suc n \<Longrightarrow> spec S N P [] (parse_union_decl R) y_decl ok_decl"
  unfolding parse_union_decl_def
  by (intro spec_current spec_bind [OF spec_modifier_loop] spec_bind [OF spec_identifier] spec_bind [OF spec_expects]
      spec_bind [OF spec_generic_parameters] spec_bind [OF spec_comma_list [OF spec_union_variant]] spec_returns)
    (simp_all add: plain_tokens fuel y_modifiers_def)

lemma spec_decl: "N \<le> Suc n \<Longrightarrow> spec S N P [] (parse_top_level_decl R) y_decl ok_decl"
  unfolding parse_top_level_decl_def Let_def
  by (intro spec_current spec_if spec_lookahead spec_fails spec_start spec_boot spec_extern spec_binding spec_union)
    (auto simp: pinv_def dest: skip_modifiers_ends)

section \<open>Programs\<close>

lemma spec_import_tail: "N \<le> Suc n \<Longrightarrow> spec S N P [] (import_tail R name) y_import_tail (\<lambda>d. id_module_name d = name)"
  unfolding import_tail_def
  by (intro spec_match_kw [where t = TOK_AS] spec_match_kw [where t = TOK_DOT] spec_match_kw [where t = TOK_STAR]
      spec_match_kw [where t = TOK_LBRACE] spec_bind [OF spec_identifier] spec_bind [OF spec_names]
      spec_bind [OF spec_expects] spec_fails spec_returns)
    (simp_all add: plain_tokens y_import_tail_def fuel)

lemma spec_import_loop:
  "N \<le> Suc n \<Longrightarrow> N < f \<Longrightarrow> pre = concat (List.map y_import ds) \<Longrightarrow>
    spec S N P pre (import_loop f R ds) (\<lambda>ds. concat (List.map y_import ds)) (\<lambda>_. True)"
proof (induction f arbitrary: N P pre ds)
  case (Suc f)
  show ?case
  proof (rule spec_pos)
    assume pos: "0 < N"
    show ?thesis
      unfolding import_loop.simps
      by (intro spec_match_kw [where t = TOK_IMPORT] spec_bind [OF spec_qualified_name] spec_bind [OF spec_import_tail]
          spec_bind [OF spec_expects] spec_returns Suc.IH)
        (use pos Suc.prems in \<open>auto simp: plain_tokens y_import_def y_import_tail_def\<close>)
  qed
qed simp

lemma y_decl_pos: "0 < length (y_decl d)"
  by (cases d) simp_all

lemma spec_decl_loop:
  "N \<le> Suc n \<Longrightarrow> N < f \<Longrightarrow> pre = concat (List.map y_decl ds) \<Longrightarrow> list_all ok_decl ds \<Longrightarrow>
    spec S N P pre (decl_loop f R ds) (\<lambda>ds. concat (List.map y_decl ds)) (list_all ok_decl)"
proof (induction f arbitrary: N P pre ds)
  case (Suc f)
  show ?case
  proof (rule spec_pos)
    assume pos: "0 < N"
    have less: "N - length (y_decl d) < f" for d
      using pos y_decl_pos [of d] Suc.prems(2) by linarith
    show ?thesis
      unfolding decl_loop.simps
      by (intro spec_if_check spec_bind [OF spec_decl] spec_returns Suc.IH)
        (use less Suc.prems in simp_all)
  qed
qed simp

end

lemma decl_loop_at_end:
  "decl_loop f R ds p = Parsed x p' \<Longrightarrow> parser_check p' TOK_EOF"
  by (induction f arbitrary: ds p)
    (auto simp: out_of_fuel_def if_check_def returns_def andthen_def split: if_splits presult.splits)

lemma prest_at_end:
  assumes "pinv S p" and "parser_check p TOK_EOF"
  shows "prest S p = [kw TOK_EOF]"
proof -
  let ?ts = "ps_tokens p" and ?i = "ps_current p"
  have i: "?i < length ?ts" "tok_type (?ts ! ?i) = TOK_EOF"
    using assms parser_ok_nth [of p] by (auto simp: pinv_def parser_ok_def parser_check_def)
  then have "\<not> ?i < length (butlast ?ts)"
    using assms(1) by (auto simp: pinv_def parser_ok_def list_all_length stop_token_def nth_butlast)
  then have "drop (Suc ?i) ?ts = []"
    by simp
  then show ?thesis
    using prest_cons [OF assms(1)] assms(2)
    by (simp add: tview_def parser_check_def text_token_def template_token_def)
qed

lemma length_prest: "length (prest S p) \<le> 2 * length (ps_tokens p)"
proof -
  have "length (concat (List.map (tview S) ts)) \<le> 2 * length ts" for ts
  proof (induction ts)
    case (Cons t ts)
    then show ?case
      using tview_length [of S t] by (simp del: length_greater_0_conv)
  qed simp
  from this [of "drop (ps_current p) (ps_tokens p)"] show ?thesis
    by (simp add: prest_def)
qed

text \<open>The views of all tokens of a buffer.\<close>

definition token_views :: "string \<Rightarrow> Parser \<Rightarrow> view list" where
  "token_views S p = concat (List.map (tview S) (ps_tokens p))"

lemma spec_package: "N \<le> Suc n \<Longrightarrow> spec S N P []
    (if_match TOK_PACKAGE (\<lambda>_. andthen (parser_parse_qualified_name (knots n)) (\<lambda>name.
       andthen (expects TOK_SEMICOLON msg) (\<lambda>_. returns (Some name)))) (returns None))
    (\<lambda>x. case x of None \<Rightarrow> [] | Some m \<Rightarrow> kw TOK_PACKAGE # dotted (qn_segments m) @ [kw TOK_SEMICOLON]) (\<lambda>_. True)"
  by (intro spec_match_kw [where t = TOK_PACKAGE] spec_bind [OF levels.spec_qualified_name]
      spec_bind [OF spec_expects] spec_returns) (simp_all add: plain_tokens)

lemma spec_program: "N \<le> n \<Longrightarrow> spec S N P [] (program_body (knots n)) y_program
    (\<lambda>d. list_all ok_decl (pr_top_level_decls d))"
  unfolding program_body_def
  by (intro spec_bind [OF spec_package] spec_bind [OF levels.spec_import_loop] spec_bind [OF levels.spec_decl_loop]
      spec_returns) (simp_all add: y_program_def levels.fuel)

lemma program_at_end: "program_body R p = Parsed d p' \<Longrightarrow> parser_check p' TOK_EOF"
  by (auto simp: program_body_def andthen_def returns_def dest: decl_loop_at_end split: presult.splits)

lemma rewind_pinv: "pinv S p \<Longrightarrow> pinv S (p\<lparr>ps_current := 0\<rparr>)"
  by (auto simp: pinv_def parser_ok_def parser_source_def)

lemma program_result:
  assumes "pinv S p"
  shows "case parser_parse_program p of
      Parsed d p' \<Rightarrow> token_views S p = y_program d @ [kw TOK_EOF] \<and> list_all ok_decl (pr_top_level_decls d)
    | Failed p' \<Rightarrow> ps_has_error p' \<and> err_token (ps_error p') \<in> set (ps_tokens p')
    | Out_of_fuel \<Rightarrow> False"
proof -
  let ?p = "p\<lparr>ps_current := 0\<rparr>"
  have run: "parser_parse_program p = program_body (knots (2 * length (ps_tokens p))) ?p"
    using assms by (simp add: parser_parse_program_def parser_levels_def pinv_def)
  have "case program_body (knots (2 * length (ps_tokens p))) ?p of
      Parsed d p' \<Rightarrow> pinv S p' \<and> ps_current ?p \<le> ps_current p' \<and> [] @ prest S ?p = y_program d @ prest S p' \<and>
        list_all ok_decl (pr_top_level_decls d)
    | Failed p' \<Rightarrow> failure ?p p' | Out_of_fuel \<Rightarrow> False"
    using spec_program [of "2 * length (ps_tokens p)" _ S anytok] rewind_pinv [OF assms] length_prest [of S ?p]
    by (simp add: spec_def)
  then show ?thesis
    using prest_at_end [of S] program_at_end [of _ ?p]
    by (auto simp: run failure_def token_views_def prest_def [of S ?p] split: presult.splits)
qed

lemma expression_result:
  assumes "pinv S p"
  shows "case parser_parse_expression p of
      Parsed e p' \<Rightarrow> token_views S p = y_expr e @ [kw TOK_EOF] \<and> ok_expr e
    | Failed p' \<Rightarrow> ps_has_error p' \<and> err_token (ps_error p') \<in> set (ps_tokens p')
    | Out_of_fuel \<Rightarrow> False"
proof -
  let ?p = "p\<lparr>ps_current := 0\<rparr>" and ?n = "2 * length (ps_tokens p)"
  let ?m = "andthen (parse_expression_node (knots ?n)) (\<lambda>e.
    if_check TOK_EOF (returns e) (fails_with ''Expected end of expression.''))"
  have "spec S ?n anytok [] ?m y_expr ok_expr"
    by (intro spec_bind [OF levels.spec_expression_node] spec_if_check spec_returns spec_fails) simp_all
  then have "case ?m ?p of
      Parsed d p' \<Rightarrow> pinv S p' \<and> ps_current ?p \<le> ps_current p' \<and> [] @ prest S ?p = y_expr d @ prest S p' \<and> ok_expr d
    | Failed p' \<Rightarrow> failure ?p p' | Out_of_fuel \<Rightarrow> False"
    using rewind_pinv [OF assms] length_prest [of S ?p] by (simp add: spec_def)
  moreover have "parser_check p' TOK_EOF" if "?m ?p = Parsed e p'" for e p'
    using that by (auto simp: andthen_def if_check_def returns_def fails_with_def split: presult.splits if_splits)
  moreover have "parser_parse_expression p = ?m ?p"
    using assms by (simp add: parser_parse_expression_def parser_levels_def pinv_def)
  ultimately show ?thesis
    using prest_at_end [of S]
    by (auto simp: failure_def token_views_def prest_def [of S ?p] split: presult.splits)
qed

section \<open>Properties of the parser\<close>

text \<open>
  C8 The parser ends.  On the buffer of any source the parser returns a tree or fails: the
  recursion goes no deeper than two levels for every token and no loop runs longer than that.
\<close>

theorem parser_ends:
  assumes "parser_init source = Some p"
  shows "parser_parse_program p \<noteq> Out_of_fuel \<and> parser_parse_expression p \<noteq> Out_of_fuel"
proof (cases "ps_has_error p")
  case True
  then show ?thesis
    by (simp add: parser_parse_program_def parser_parse_expression_def)
next
  case False
  then show ?thesis
    using program_result [OF parser_init_pinv [OF assms]] expression_result [OF parser_init_pinv [OF assms]]
    by (auto split: presult.splits)
qed

text \<open>
  C6 A program is its tokens.  When the parser accepts, the tokens of the syntax tree, written
  out in order, are the tokens of the source up to the end of the file: every token is
  consumed once and in order, no name, literal, operator or template text is lost or invented.
\<close>

theorem parser_roundtrip:
  assumes "parser_init source = Some p" and "parser_parse_program p = Parsed d p'"
  shows "token_views source p = y_program d @ [kw TOK_EOF]"
proof -
  have "\<not> ps_has_error p"
    using assms(2) by (auto simp: parser_parse_program_def split: if_splits)
  then show ?thesis
    using program_result [OF parser_init_pinv [OF assms(1)]] assms(2) by simp
qed

text \<open>
  C7 Precedence.  In every program that the parser accepts, binary operators of one level group
  to the left, assignments and ternaries to the right, and no operator stands as an operand of
  one that binds tighter unless parentheses make it a grouping.
\<close>

theorem parser_precedence:
  assumes "parser_init source = Some p" and "parser_parse_program p = Parsed d p'"
  shows "list_all ok_decl (pr_top_level_decls d)"
proof -
  have "\<not> ps_has_error p"
    using assms(2) by (auto simp: parser_parse_program_def split: if_splits)
  then show ?thesis
    using program_result [OF parser_init_pinv [OF assms(1)]] assms(2) by simp
qed

text \<open>
  Expressions.  An expression that \<open>parser_parse_expression\<close> accepts is grouped by precedence
  and its tokens are all tokens of the source.
\<close>

theorem parser_expression_exact:
  assumes "parser_init source = Some p" and "parser_parse_expression p = Parsed e p'"
  shows "ok_expr e \<and> token_views source p = y_expr e @ [kw TOK_EOF]"
proof -
  have "\<not> ps_has_error p"
    using assms(2) by (auto simp: parser_parse_expression_def split: if_splits)
  then show ?thesis
    using expression_result [OF parser_init_pinv [OF assms(1)]] assms(2) by simp
qed

text \<open>
  C9 Errors are recorded.  When the parser rejects a source, an error is recorded: the one of the
  tokenizer, or one at a token of the buffer.
\<close>

theorem parser_error:
  assumes "parser_init source = Some p" and "parser_parse_program p = Failed p'"
  shows "ps_has_error p' \<and> (if ps_has_error p then p' = p else err_token (ps_error p') \<in> set (ps_tokens p'))"
proof (cases "ps_has_error p")
  case True
  then show ?thesis
    using assms(2) by (simp add: parser_parse_program_def)
next
  case False
  then show ?thesis
    using program_result [OF parser_init_pinv [OF assms(1)]] assms(2) by simp
qed

text \<open>
  Variable parameters.  Appending a parameter clears the variable that the loop tests, so a
  parameter list goes on after a parameter with \<open>...\<close> like after any other.
\<close>

theorem parameters_after_varargs:
  "parser_parse_parameter_list R allow_empty =
     if_check TOK_RPAREN
       (if allow_empty then returns [] else fails_with ''Expected at least one parameter.'')
       (comma_list (k_fuel R) (typed_parameter R ''Expected parameter name.'') [])"
  by (simp add: parser_parse_parameter_list_def parameter_loop_is_list)

section \<open>Witnesses\<close>

lemmas token_steps = andthen_def reads_def returns_def advances_def expects_def parser_consume_def
  if_check_def if_match_def parser_match_def parser_check_def parser_advance_eq parser_advance_def
  parser_is_at_end_def parser_current_token_def parser_previous_token_def parser_token_at_def type_at_def
  fails_with_def expects_identifier_def parser_consume_identifier_def parser_copy_token_text_def Let_def

lemmas expression_steps = parse_expression_node_def [THEN fun_cong] parse_assignment_expression_def [THEN fun_cong]
  parse_ternary_expression_def [THEN fun_cong] parse_logical_or_expression_def [THEN fun_cong]
  parse_logical_and_expression_def [THEN fun_cong] parse_bitwise_or_expression_def [THEN fun_cong]
  parse_bitwise_nand_expression_def [THEN fun_cong] parse_bitwise_xor_expression_def [THEN fun_cong]
  parse_bitwise_xnor_expression_def [THEN fun_cong] parse_bitwise_and_expression_def [THEN fun_cong]
  parse_equality_expression_def [THEN fun_cong] parse_relational_expression_def [THEN fun_cong]
  parse_shift_expression_def [THEN fun_cong] parse_additive_expression_def [THEN fun_cong]
  parse_multiplicative_expression_def [THEN fun_cong] parser_parse_binary_level_def [THEN fun_cong]
  parse_unary_expression_def [THEN fun_cong] parse_postfix_expression_def [THEN fun_cong]
  parse_primary_expression_def [THEN fun_cong]

lemmas operator_tables = logical_or_operators_def logical_and_operators_def bitwise_or_operators_def
  bitwise_nand_operators_def bitwise_xor_operators_def bitwise_xnor_operators_def bitwise_and_operators_def
  equality_operators_def relational_operators_def shift_operators_def additive_operators_def
  multiplicative_operators_def assignment_operators_def unary_operators_def

lemmas program_steps = program_body_def [THEN fun_cong] parse_top_level_decl_def [THEN fun_cong]
  parse_binding_decl_def [THEN fun_cong] is_modifier_token_def looks_like_lambda_expression_def

lemmas loop_steps = binary_loop.simps(2) [THEN fun_cong] postfix_loop.simps(2) [THEN fun_cong]
  import_loop.simps(2) [THEN fun_cong] decl_loop.simps(2) [THEN fun_cong] modifier_loop.simps(2) [THEN fun_cong]

lemma knots_steps:
  "k_fuel (knots n) = Suc (Suc n)"
  "0 < n \<Longrightarrow> k_expression (knots n) = parse_expression_node (knots (n - 1))"
  by (cases n; simp)+

lemma sample_run:
  assumes "ps_has_error p = False"
    and "List.map tok_type (ps_tokens p) = [TOK_VAR, TOK_IDENTIFIER, TOK_ASSIGN, TOK_INT_LIT, TOK_PLUS,
      TOK_INT_LIT, TOK_SEMICOLON, TOK_EOF]"
  shows "\<exists>d p'. parser_parse_program p = Parsed d p'"
proof -
  obtain a0 a1 a2 a3 a4 a5 a6 a7 where "ps_tokens p = [a0, a1, a2, a3, a4, a5, a6, a7]"
    "tok_type a0 = TOK_VAR" "tok_type a1 = TOK_IDENTIFIER" "tok_type a2 = TOK_ASSIGN" "tok_type a3 = TOK_INT_LIT"
    "tok_type a4 = TOK_PLUS" "tok_type a5 = TOK_INT_LIT" "tok_type a6 = TOK_SEMICOLON" "tok_type a7 = TOK_EOF"
    using assms(2) by (auto simp: map_eq_Cons_conv)
  with assms(1) show ?thesis
    supply [simp del] = binary_loop.simps postfix_loop.simps import_loop.simps decl_loop.simps modifier_loop.simps
      dimension_loop.simps comma_list.simps template_loop.simps knots.simps block_loop.simps Suc_numeral
    by (simp add: parser_parse_program_def parser_levels_def token_steps expression_steps operator_tables
        program_steps loop_steps knots_steps)
qed

definition sample_source :: string where "sample_source = ''var x=1+2;''"

definition sample_buffer :: Parser where "sample_buffer = the (parser_init sample_source)"

lemma sample_init: "parser_init sample_source = Some sample_buffer"
  using parser_init_returns_Some [of sample_source] by (auto simp: sample_buffer_def)

lemma sample_types: "List.map tok_type (ps_tokens sample_buffer) =
    [TOK_VAR, TOK_IDENTIFIER, TOK_ASSIGN, TOK_INT_LIT, TOK_PLUS, TOK_INT_LIT, TOK_SEMICOLON, TOK_EOF]"
  by (code_simp, simp)+

lemma sample_parsed: "\<exists>d p'. parser_parse_program sample_buffer = Parsed d p'"
proof -
  have "ps_has_error sample_buffer = False"
    by (code_simp, simp)+
  then show ?thesis
    using sample_types by (rule sample_run)
qed

theorem parser_ends_witness:
  "parser_parse_program sample_buffer \<noteq> Out_of_fuel \<and> parser_parse_expression sample_buffer \<noteq> Out_of_fuel"
  by (rule parser_ends [OF sample_init])

theorem parser_roundtrip_witness:
  "\<exists>d. token_views sample_source sample_buffer = y_program d @ [kw TOK_EOF]"
  using sample_parsed parser_roundtrip [OF sample_init] by blast

theorem parser_precedence_witness:
  "\<exists>d p'. parser_parse_program sample_buffer = Parsed d p' \<and> list_all ok_decl (pr_top_level_decls d)"
  using sample_parsed parser_precedence [OF sample_init] by blast

lemma one_expression:
  assumes "ps_has_error p = False" and "List.map tok_type (ps_tokens p) = [TOK_INT_LIT, TOK_EOF]"
  shows "\<exists>d p'. parser_parse_expression p = Parsed d p'" and "\<exists>p'. parser_parse_program p = Failed p'"
proof -
  obtain a0 a1 where "ps_tokens p = [a0, a1]" "tok_type a0 = TOK_INT_LIT" "tok_type a1 = TOK_EOF"
    using assms(2) by (auto simp: map_eq_Cons_conv)
  note facts = this assms(1)
  show "\<exists>d p'. parser_parse_expression p = Parsed d p'"
    supply [simp del] = binary_loop.simps postfix_loop.simps comma_list.simps template_loop.simps knots.simps
      block_loop.simps Suc_numeral
    by (use facts in \<open>simp add: parser_parse_expression_def parser_levels_def token_steps expression_steps
        operator_tables program_steps loop_steps knots_steps\<close>)
  show "\<exists>p'. parser_parse_program p = Failed p'"
    supply [simp del] = import_loop.simps decl_loop.simps knots.simps Suc_numeral
    by (use facts in \<open>simp add: parser_parse_program_def parser_levels_def token_steps program_steps loop_steps
        knots_steps is_type_start_token_def is_primitive_type_token_def\<close>)
qed

definition number_buffer :: Parser where "number_buffer = the (parser_init ''7'')"

lemma number_init: "parser_init ''7'' = Some number_buffer"
  using parser_init_returns_Some [of "''7''"] by (auto simp: number_buffer_def)

lemma number_result:
  "\<exists>e p'. parser_parse_expression number_buffer = Parsed e p'" "\<exists>p'. parser_parse_program number_buffer = Failed p'"
proof -
  have e: "ps_has_error number_buffer = False"
    by (code_simp, simp)+
  have t: "List.map tok_type (ps_tokens number_buffer) = [TOK_INT_LIT, TOK_EOF]"
    by (code_simp, simp)+
  show "\<exists>e p'. parser_parse_expression number_buffer = Parsed e p'"
    by (rule one_expression(1) [OF e t])
  show "\<exists>p'. parser_parse_program number_buffer = Failed p'"
    by (rule one_expression(2) [OF e t])
qed

theorem parser_expression_exact_witness:
  "\<exists>e. ok_expr e \<and> token_views ''7'' number_buffer = y_expr e @ [kw TOK_EOF]"
  using number_result(1) parser_expression_exact [OF number_init] by blast

theorem parser_error_witness: "\<exists>p'. parser_parse_program number_buffer = Failed p' \<and> ps_has_error p'"
  using number_result(2) parser_error [OF number_init] by blast

end
