(* ===== verification/SymbolTable.thy ===== *)
theory SymbolTable
  imports Ast CText
begin

text \<open>
  The symbol table of the compiler (compiler/src/sema/symbol_table*.c).  A scope is an index into
  the list of scopes in the order of their creation and holds the index of its parent; a node of
  the syntax tree that the code refers to by a pointer has an address, the way to it from the root
  of the program.  Symbols do not change once they are in the table, so a pointer to a symbol is
  the symbol.  Allocation succeeds.
\<close>

section \<open>Addresses of nodes\<close>

text \<open>The position of a node below its parent comes first.\<close>

type_synonym address = "nat list"

definition program_address :: address where "program_address = []"
definition package_address :: address where "package_address = [0]"
definition import_address :: "nat \<Rightarrow> address" where "import_address i = [i, 1]"
definition decl_address :: "nat \<Rightarrow> address" where "decl_address i = [i, 2]"

section \<open>Data\<close>

datatype SymbolKind =
    SYMBOL_KIND_PACKAGE | SYMBOL_KIND_IMPORT | SYMBOL_KIND_TOP_LEVEL_BINDING | SYMBOL_KIND_EXTERN
  | SYMBOL_KIND_PARAMETER | SYMBOL_KIND_LOCAL | SYMBOL_KIND_UNION | SYMBOL_KIND_TYPE_PARAMETER
  | SYMBOL_KIND_VARIANT

datatype ScopeKind =
    SCOPE_KIND_PROGRAM | SCOPE_KIND_START | SCOPE_KIND_BOOT | SCOPE_KIND_LAMBDA | SCOPE_KIND_BLOCK
  | SCOPE_KIND_UNION

record Symbol =
  sy_kind :: SymbolKind
  sy_name :: "string option"
  sy_qualified_name :: "string option"
  sy_declared_type :: "AstType option"
  sy_is_inferred_type :: bool
  sy_is_final :: bool
  sy_is_exported :: bool
  sy_is_static :: bool
  sy_is_internal :: bool
  sy_generic_param_count :: nat
  sy_declaration_span :: AstSourceSpan
  sy_declaration :: address
  sy_scope :: "nat option"
  sy_variant_index :: nat
  sy_variant_has_payload :: bool
  sy_variant_payload_type :: "AstType option"
  sy_is_wildcard_import :: bool

record Scope =
  sc_kind :: ScopeKind
  sc_owner :: address
  sc_parent :: "nat option"
  sc_children :: "nat list"
  sc_symbols :: "Symbol list"

record SymbolResolution =
  re_identifier :: address
  re_scope :: nat
  re_source_span :: AstSourceSpan
  re_symbol :: Symbol

record UnresolvedIdentifier =
  un_identifier :: address
  un_name :: string
  un_scope :: nat
  un_source_span :: AstSourceSpan

record SymbolTableError =
  te_primary_span :: AstSourceSpan
  te_related_span :: AstSourceSpan
  te_has_related_span :: bool
  te_message :: string

text \<open>The root scope is scope 0.\<close>

record SymbolTable =
  tb_package_symbol :: "Symbol option"
  tb_imports :: "Symbol list"
  tb_scopes :: "Scope list"
  tb_resolutions :: "SymbolResolution list"
  tb_unresolved_identifiers :: "UnresolvedIdentifier list"
  tb_error :: SymbolTableError
  tb_has_error :: bool

definition symbol_table_init :: SymbolTable where
  "symbol_table_init =
     \<lparr>tb_package_symbol = None, tb_imports = [], tb_scopes = [], tb_resolutions = [],
      tb_unresolved_identifiers = [],
      tb_error = \<lparr>te_primary_span = zero_span, te_related_span = zero_span, te_has_related_span = False,
        te_message = []\<rparr>,
      tb_has_error = False\<rparr>"

text \<open>A step returns whether it succeeded; \<open>a && b\<close> runs \<open>b\<close> only after success.\<close>

type_synonym step = "SymbolTable \<Rightarrow> bool \<times> SymbolTable"

definition succeed :: step where "succeed t = (True, t)"

definition and_then :: "step \<Rightarrow> step \<Rightarrow> step" where
  "and_then m k t = (case m t of (ok, t) \<Rightarrow> if ok then k t else (False, t))"

text \<open>A loop that returns early on a failure.\<close>

primrec each :: "step list \<Rightarrow> step" where
  "each [] = succeed"
| "each (m # ms) = and_then m (each ms)"

section \<open>Scopes and symbols (symbol_table_core.c)\<close>

definition st_scope_new :: "ScopeKind \<Rightarrow> address \<Rightarrow> nat option \<Rightarrow> SymbolTable \<Rightarrow> nat \<times> SymbolTable" where
  "st_scope_new kind owner parent t =
     (let i = length (tb_scopes t);
          scope = \<lparr>sc_kind = kind, sc_owner = owner, sc_parent = parent, sc_children = [], sc_symbols = []\<rparr>;
          scopes = (case parent of None \<Rightarrow> tb_scopes t
            | Some p \<Rightarrow> (tb_scopes t)[p := (tb_scopes t ! p)\<lparr>sc_children := sc_children (tb_scopes t ! p) @ [i]\<rparr>])
      in (i, t\<lparr>tb_scopes := scopes @ [scope]\<rparr>))"

fun st_qualified_name_to_string :: "string list \<Rightarrow> string" where
  "st_qualified_name_to_string [] = []"
| "st_qualified_name_to_string [s] = s"
| "st_qualified_name_to_string (s # ss) = s @ CHR ''.'' # st_qualified_name_to_string ss"

definition st_qualified_name_tail :: "string list \<Rightarrow> string" where
  "st_qualified_name_tail segments = (if segments = [] then [] else last segments)"

definition st_symbol_new ::
    "SymbolKind \<Rightarrow> string option \<Rightarrow> string option \<Rightarrow> AstType option \<Rightarrow> bool \<Rightarrow> bool \<Rightarrow> bool \<Rightarrow> bool \<Rightarrow> bool \<Rightarrow>
     AstSourceSpan \<Rightarrow> address \<Rightarrow> nat option \<Rightarrow> Symbol" where
  "st_symbol_new kind name qualified_name declared_type is_inferred_type is_final is_exported is_static
     is_internal declaration_span declaration scope =
     \<lparr>sy_kind = kind, sy_name = name, sy_qualified_name = qualified_name, sy_declared_type = declared_type,
      sy_is_inferred_type = is_inferred_type, sy_is_final = is_final, sy_is_exported = is_exported,
      sy_is_static = is_static, sy_is_internal = is_internal, sy_generic_param_count = 0,
      sy_declaration_span = declaration_span, sy_declaration = declaration, sy_scope = scope,
      sy_variant_index = 0, sy_variant_has_payload = False, sy_variant_payload_type = None,
      sy_is_wildcard_import = False\<rparr>"

definition st_scope_append_symbol :: "nat \<Rightarrow> Symbol \<Rightarrow> step" where
  "st_scope_append_symbol scope symbol t =
     (True, t\<lparr>tb_scopes := (tb_scopes t)[scope :=
       (tb_scopes t ! scope)\<lparr>sc_symbols := sc_symbols (tb_scopes t ! scope) @ [symbol]\<rparr>]\<rparr>)"

section \<open>Registration and errors (symbol_table_registry.c)\<close>

definition st_imports_append :: "Symbol \<Rightarrow> step" where
  "st_imports_append symbol t = (True, t\<lparr>tb_imports := tb_imports t @ [symbol]\<rparr>)"

definition st_resolutions_append :: "address \<Rightarrow> AstSourceSpan \<Rightarrow> nat \<Rightarrow> Symbol \<Rightarrow> step" where
  "st_resolutions_append identifier span scope symbol t =
     (True, t\<lparr>tb_resolutions := tb_resolutions t @
       [\<lparr>re_identifier = identifier, re_scope = scope, re_source_span = span, re_symbol = symbol\<rparr>]\<rparr>)"

definition st_unresolved_append :: "address \<Rightarrow> string \<Rightarrow> AstSourceSpan \<Rightarrow> nat \<Rightarrow> step" where
  "st_unresolved_append identifier name span scope t =
     (True, t\<lparr>tb_unresolved_identifiers := tb_unresolved_identifiers t @
       [\<lparr>un_identifier = identifier, un_name = name, un_scope = scope, un_source_span = span\<rparr>]\<rparr>)"

definition st_source_span_is_valid :: "AstSourceSpan \<Rightarrow> bool" where
  "st_source_span_is_valid span \<longleftrightarrow> start_line span > 0 \<and> start_column span > 0"

definition st_set_error_at :: "AstSourceSpan \<Rightarrow> AstSourceSpan \<Rightarrow> string \<Rightarrow> step" where
  "st_set_error_at primary related message t =
     (if tb_has_error t then (False, t)
      else (False, t\<lparr>tb_has_error := True,
        tb_error := (if st_source_span_is_valid related
          then (tb_error t)\<lparr>te_primary_span := primary, te_related_span := related,
                 te_has_related_span := True, te_message := snprintf 256 message\<rparr>
          else (tb_error t)\<lparr>te_primary_span := primary, te_message := snprintf 256 message\<rparr>)\<rparr>))"

section \<open>Queries (symbol_table_query.c)\<close>

primrec symbol_kind_name :: "SymbolKind \<Rightarrow> string" where
  "symbol_kind_name SYMBOL_KIND_PACKAGE = ''package''"
| "symbol_kind_name SYMBOL_KIND_IMPORT = ''import''"
| "symbol_kind_name SYMBOL_KIND_TOP_LEVEL_BINDING = ''top-level binding''"
| "symbol_kind_name SYMBOL_KIND_EXTERN = ''extern C declaration''"
| "symbol_kind_name SYMBOL_KIND_PARAMETER = ''parameter''"
| "symbol_kind_name SYMBOL_KIND_LOCAL = ''local''"
| "symbol_kind_name SYMBOL_KIND_UNION = ''union''"
| "symbol_kind_name SYMBOL_KIND_TYPE_PARAMETER = ''type parameter''"
| "symbol_kind_name SYMBOL_KIND_VARIANT = ''variant''"

primrec scope_kind_name :: "ScopeKind \<Rightarrow> string" where
  "scope_kind_name SCOPE_KIND_PROGRAM = ''program scope''"
| "scope_kind_name SCOPE_KIND_START = ''start scope''"
| "scope_kind_name SCOPE_KIND_BOOT = ''boot scope''"
| "scope_kind_name SCOPE_KIND_LAMBDA = ''lambda scope''"
| "scope_kind_name SCOPE_KIND_BLOCK = ''block scope''"
| "scope_kind_name SCOPE_KIND_UNION = ''union scope''"

definition symbol_table_find_import :: "SymbolTable \<Rightarrow> string \<Rightarrow> Symbol option" where
  "symbol_table_find_import t name = find (\<lambda>s. sy_name s = Some name) (tb_imports t)"

definition scope_lookup_local :: "Scope \<Rightarrow> string \<Rightarrow> Symbol option" where
  "scope_lookup_local scope name = find (\<lambda>s. sy_name s = Some name) (sc_symbols scope)"

text \<open>
  The walk along the parents of a scope.  A parent has a smaller index than its children, so
  as many steps as there are scopes are enough (\<open>env_length\<close> in \<open>SymbolLaws\<close>).
\<close>

fun lookup_in_scopes :: "nat \<Rightarrow> Scope list \<Rightarrow> nat option \<Rightarrow> string \<Rightarrow> Symbol option" where
  "lookup_in_scopes fuel scopes None name = None"
| "lookup_in_scopes 0 scopes (Some i) name = None"
| "lookup_in_scopes (Suc fuel) scopes (Some i) name =
     (case scope_lookup_local (scopes ! i) name of
        Some symbol \<Rightarrow> Some symbol
      | None \<Rightarrow> lookup_in_scopes fuel scopes (sc_parent (scopes ! i)) name)"

definition st_lookup_in_scopes :: "SymbolTable \<Rightarrow> nat \<Rightarrow> string \<Rightarrow> Symbol option" where
  "st_lookup_in_scopes t scope name =
     lookup_in_scopes (length (tb_scopes t)) (tb_scopes t) (Some scope) name"

definition symbol_table_lookup :: "SymbolTable \<Rightarrow> nat \<Rightarrow> string \<Rightarrow> Symbol option" where
  "symbol_table_lookup t scope name =
     (case st_lookup_in_scopes t scope name of
        Some symbol \<Rightarrow> Some symbol
      | None \<Rightarrow> symbol_table_find_import t name)"

definition symbol_table_find_resolution :: "SymbolTable \<Rightarrow> address \<Rightarrow> SymbolResolution option" where
  "symbol_table_find_resolution t identifier = find (\<lambda>r. re_identifier r = identifier) (tb_resolutions t)"

definition symbol_table_resolve_identifier :: "SymbolTable \<Rightarrow> address \<Rightarrow> Symbol option" where
  "symbol_table_resolve_identifier t identifier =
     map_option re_symbol (symbol_table_find_resolution t identifier)"

text \<open>
  The search for the scope of a node, from a scope down in the order of the children.  A child has
  a larger index than its parent, so the number of scopes bounds the depth.
\<close>

fun st_find_scope_recursive :: "nat \<Rightarrow> Scope list \<Rightarrow> address \<Rightarrow> ScopeKind \<Rightarrow> nat \<Rightarrow> nat option"
  and find_in_children :: "nat \<Rightarrow> Scope list \<Rightarrow> address \<Rightarrow> ScopeKind \<Rightarrow> nat list \<Rightarrow> nat option" where
  "st_find_scope_recursive 0 scopes owner kind i = None"
| "st_find_scope_recursive (Suc fuel) scopes owner kind i =
     (if sc_owner (scopes ! i) = owner \<and> sc_kind (scopes ! i) = kind then Some i
      else find_in_children fuel scopes owner kind (sc_children (scopes ! i)))"
| "find_in_children fuel scopes owner kind [] = None"
| "find_in_children fuel scopes owner kind (i # is) =
     (case st_find_scope_recursive fuel scopes owner kind i of
        Some found \<Rightarrow> Some found
      | None \<Rightarrow> find_in_children fuel scopes owner kind is)"

definition symbol_table_find_scope :: "SymbolTable \<Rightarrow> address \<Rightarrow> ScopeKind \<Rightarrow> nat option" where
  "symbol_table_find_scope t owner kind =
     (if tb_scopes t = [] then None
      else st_find_scope_recursive (length (tb_scopes t)) (tb_scopes t) owner kind 0)"

definition symbol_table_get_import :: "SymbolTable \<Rightarrow> nat \<Rightarrow> Symbol option" where
  "symbol_table_get_import t index = (if index \<ge> length (tb_imports t) then None else Some (tb_imports t ! index))"

definition symbol_table_get_unresolved_identifier :: "SymbolTable \<Rightarrow> nat \<Rightarrow> UnresolvedIdentifier option" where
  "symbol_table_get_unresolved_identifier t index =
     (if index \<ge> length (tb_unresolved_identifiers t) then None else Some (tb_unresolved_identifiers t ! index))"

definition symbol_table_get_error :: "SymbolTable \<Rightarrow> SymbolTableError option" where
  "symbol_table_get_error t = (if tb_has_error t then Some (tb_error t) else None)"

section \<open>Messages (symbol_table.c)\<close>

text \<open>The result and the text in a buffer of the given size, which is not 0.\<close>

definition at_position :: "AstSourceSpan \<Rightarrow> string" where
  "at_position span = print_nat (start_line span) @ CHR '':'' # print_nat (start_column span)"

definition symbol_table_format_error :: "SymbolTableError \<Rightarrow> nat \<Rightarrow> bool \<times> string" where
  "symbol_table_format_error error buffer_size =
     (let text = (if st_source_span_is_valid (te_primary_span error)
            then at_position (te_primary_span error) @ '': '' @ te_message error else te_message error)
      in if length text \<ge> buffer_size then (False, snprintf buffer_size text)
         else if te_has_related_span error \<and> st_source_span_is_valid (te_related_span error) then
           (let text = text @ '' Previous declaration at '' @ at_position (te_related_span error) @ ''.''
            in (length text < buffer_size, snprintf buffer_size text))
         else (True, text))"

definition symbol_table_format_unresolved_identifier :: "UnresolvedIdentifier \<Rightarrow> nat \<Rightarrow> bool \<times> string" where
  "symbol_table_format_unresolved_identifier unresolved buffer_size =
     (let message = ''Unresolved identifier '' @ CHR 0x27 # un_name unresolved @ CHR 0x27 # ''.''
      in (True, snprintf buffer_size (if st_source_span_is_valid (un_source_span unresolved)
           then at_position (un_source_span unresolved) @ '': '' @ message else message)))"

end
