(* ===== verification/SymbolAnalyze.thy ===== *)
theory SymbolAnalyze
  imports SymbolTable
begin

text \<open>
  Building the symbol table: the package, the imports, the names of the top level, and the walk
  over the bodies that opens scopes, declares parameters and locals and resolves identifiers
  (symbol_table_imports.c, symbol_table_predecl.c, symbol_table_analyze.c,
  symbol_table_analyze_expr.c and \<open>symbol_table_build\<close>).
\<close>

section \<open>Package and imports\<close>

definition st_add_package_symbol :: "AstProgram \<Rightarrow> step" where
  "st_add_package_symbol program t =
     (case pr_package_name program of
        None \<Rightarrow> (True, t)
      | Some name \<Rightarrow>
          (True, t\<lparr>tb_package_symbol := Some (st_symbol_new SYMBOL_KIND_PACKAGE
             (Some (st_qualified_name_tail (qn_segments name)))
             (Some (st_qualified_name_to_string (qn_segments name)))
             None False False False False False (qn_tail_span name) package_address None)\<rparr>))"

definition import_symbol :: "string option \<Rightarrow> string \<Rightarrow> AstSourceSpan \<Rightarrow> address \<Rightarrow> Symbol" where
  "import_symbol name qualified_name span a =
     st_symbol_new SYMBOL_KIND_IMPORT name (Some qualified_name) None False False False False False span a (Some 0)"

text \<open>An import under a name that no earlier import has.\<close>

definition named_import :: "string \<Rightarrow> string \<Rightarrow> AstSourceSpan \<Rightarrow> address \<Rightarrow> string \<Rightarrow> step" where
  "named_import name qualified_name span a message t =
     (case symbol_table_find_import t name of
        Some existing_import \<Rightarrow> st_set_error_at span (sy_declaration_span existing_import) message t
      | None \<Rightarrow> st_imports_append (import_symbol (Some name) qualified_name span a) t)"

definition st_add_import_symbol :: "address \<Rightarrow> AstImportDecl \<Rightarrow> step" where
  "st_add_import_symbol a imp =
     (let qualified_name = st_qualified_name_to_string (qn_segments (id_module_name imp));
          span = qn_tail_span (id_module_name imp)
      in case id_kind imp of
           AST_IMPORT_PLAIN \<Rightarrow>
             (let name = st_qualified_name_tail (qn_segments (id_module_name imp))
              in named_import name qualified_name span a (''Duplicate import alias '' @ CHR 0x27 # name @ CHR 0x27 # ''.''))
         | AST_IMPORT_ALIAS \<Rightarrow>
             (case id_alias imp of
                None \<Rightarrow> st_imports_append (import_symbol None qualified_name span a)
              | Some alias \<Rightarrow> named_import alias qualified_name span a
                  (''Duplicate import alias '' @ CHR 0x27 # alias @ CHR 0x27 # ''.''))
         | AST_IMPORT_WILDCARD \<Rightarrow>
             st_imports_append ((import_symbol None qualified_name span a)\<lparr>sy_is_wildcard_import := True\<rparr>)
         | AST_IMPORT_SELECTIVE \<Rightarrow>
             each (List.map (\<lambda>name. named_import name (qualified_name @ CHR ''.'' # name) span a
               (''Ambiguous import: '' @ CHR 0x27 # name @ CHR 0x27 # '' is already imported.'')) (id_selected_names imp)))"

definition st_add_import_symbols :: "AstProgram \<Rightarrow> step" where
  "st_add_import_symbols program =
     each (List.map (\<lambda>(i, imp). st_add_import_symbol (import_address i) imp) (List.enumerate 0 (pr_imports program)))"

section \<open>Names of the top level\<close>

definition duplicate_message :: "string \<Rightarrow> ScopeKind \<Rightarrow> string" where
  "duplicate_message name kind =
     ''Duplicate symbol '' @ CHR 0x27 # name @ CHR 0x27 # '' in '' @ scope_kind_name kind @ ''.''"

text \<open>Either the conflict with an earlier symbol is reported, or the symbol joins the scope.\<close>

definition declare_unless :: "Symbol option \<Rightarrow> AstSourceSpan \<Rightarrow> string \<Rightarrow> nat \<Rightarrow> Symbol \<Rightarrow> step" where
  "declare_unless conflicting_symbol span name scope symbol t =
     (case conflicting_symbol of
        Some s \<Rightarrow> st_set_error_at span (sy_declaration_span s)
          (duplicate_message name (sc_kind (tb_scopes t ! scope))) t
      | None \<Rightarrow> st_scope_append_symbol scope symbol t)"

definition ast_decl_has_modifier :: "AstModifier list \<Rightarrow> AstModifier \<Rightarrow> bool" where
  "ast_decl_has_modifier modifiers modifier \<longleftrightarrow> list_ex (\<lambda>m. m = modifier) modifiers"

definition st_top_level_binding_is_final :: "AstBindingDecl \<Rightarrow> bool" where
  "st_top_level_binding_is_final d \<longleftrightarrow> list_ex (\<lambda>m. m = AST_MODIFIER_FINAL) (bd_modifiers d)"

text \<open>The field of an inferred type is zeroed memory, the representation of \<open>void\<close>.\<close>

definition stored_type :: "AstType option \<Rightarrow> AstType" where
  "stored_type t = (case t of None \<Rightarrow> AST_TYPE_VOID | Some t \<Rightarrow> t)"

definition binding_symbol :: "address \<Rightarrow> AstBindingDecl \<Rightarrow> Symbol" where
  "binding_symbol a d =
     st_symbol_new SYMBOL_KIND_TOP_LEVEL_BINDING (Some (bd_name d)) None (Some (stored_type (bd_declared_type d)))
       (bd_declared_type d = None) (st_top_level_binding_is_final d)
       (ast_decl_has_modifier (bd_modifiers d) AST_MODIFIER_EXPORT)
       (ast_decl_has_modifier (bd_modifiers d) AST_MODIFIER_STATIC)
       (ast_decl_has_modifier (bd_modifiers d) AST_MODIFIER_INTERNAL) (bd_name_span d) a (Some 0)"

definition union_symbol :: "address \<Rightarrow> AstUnionDecl \<Rightarrow> Symbol" where
  "union_symbol a d =
     (st_symbol_new SYMBOL_KIND_UNION (Some (ud_name d)) None None False False
       (ast_decl_has_modifier (ud_modifiers d) AST_MODIFIER_EXPORT)
       (ast_decl_has_modifier (ud_modifiers d) AST_MODIFIER_STATIC) False (ud_name_span d) a (Some 0))
     \<lparr>sy_generic_param_count := length (ud_generic_params d)\<rparr>"

definition extern_symbol :: "address \<Rightarrow> AstExternDecl \<Rightarrow> Symbol" where
  "extern_symbol a d =
     st_symbol_new SYMBOL_KIND_EXTERN (Some (xd_name d)) None (Some (xd_return_type d)) False False False False False
       (xd_name_span d) a (Some 0)"

definition local_or_import :: "SymbolTable \<Rightarrow> string \<Rightarrow> Symbol option" where
  "local_or_import t name =
     (case scope_lookup_local (tb_scopes t ! 0) name of
        Some s \<Rightarrow> Some s
      | None \<Rightarrow> symbol_table_find_import t name)"

definition st_predeclare :: "address \<Rightarrow> AstTopLevelDecl \<Rightarrow> step" where
  "st_predeclare a decl t =
     (case decl of
        AST_TOP_LEVEL_BINDING d \<Rightarrow>
          declare_unless (local_or_import t (bd_name d)) (bd_name_span d) (bd_name d) 0 (binding_symbol a d) t
      | AST_TOP_LEVEL_UNION d \<Rightarrow>
          declare_unless (local_or_import t (ud_name d)) (ud_name_span d) (ud_name d) 0 (union_symbol a d) t
      | AST_TOP_LEVEL_EXTERN d \<Rightarrow>
          declare_unless (scope_lookup_local (tb_scopes t ! 0) (xd_name d)) (xd_name_span d) (xd_name d) 0
            (extern_symbol a d) t
      | _ \<Rightarrow> (True, t))"

definition st_predeclare_top_level_bindings :: "AstProgram \<Rightarrow> step" where
  "st_predeclare_top_level_bindings program =
     each (List.map (\<lambda>(i, d). st_predeclare (decl_address i) d) (List.enumerate 0 (pr_top_level_decls program)))"

section \<open>Expressions, statements and blocks\<close>

text \<open>The text behind the last dot.\<close>

definition after_last_dot :: "string \<Rightarrow> string" where
  "after_last_dot s = rev (takeWhile (\<lambda>c. c \<noteq> CHR ''.'') (rev s))"

definition wildcard_symbol :: "Symbol \<Rightarrow> nat \<Rightarrow> string \<Rightarrow> Symbol" where
  "wildcard_symbol sentinel scope identifier =
     (st_symbol_new SYMBOL_KIND_IMPORT (Some identifier)
       (Some (after_last_dot (case sy_qualified_name sentinel of None \<Rightarrow> [] | Some q \<Rightarrow> q)))
       None False False False False False (sy_declaration_span sentinel) (sy_declaration sentinel) (Some scope))
     \<lparr>sy_is_wildcard_import := True\<rparr>"

definition st_try_wildcard_resolve :: "nat \<Rightarrow> string \<Rightarrow> SymbolTable \<Rightarrow> Symbol option \<times> SymbolTable" where
  "st_try_wildcard_resolve scope identifier t =
     (case find sy_is_wildcard_import (tb_imports t) of
        None \<Rightarrow> (None, t)
      | Some sentinel \<Rightarrow>
          (let syn = wildcard_symbol sentinel scope identifier
           in (Some syn, snd (st_imports_append syn t))))"

definition st_analyze_identifier :: "AstSourceSpan \<Rightarrow> string \<Rightarrow> address \<Rightarrow> nat \<Rightarrow> step" where
  "st_analyze_identifier span name a scope t =
     (case (case symbol_table_lookup t scope name of
              Some s \<Rightarrow> (Some s, t)
            | None \<Rightarrow> st_try_wildcard_resolve scope name t) of
        (Some resolved, t) \<Rightarrow> st_resolutions_append a span scope resolved t
      | (None, t) \<Rightarrow> st_unresolved_append a name span scope t)"

definition parameter_symbol :: "address \<Rightarrow> AstParameter \<Rightarrow> nat \<Rightarrow> Symbol" where
  "parameter_symbol a p scope =
     st_symbol_new SYMBOL_KIND_PARAMETER (Some (ap_name p)) None (Some (ap_type p)) False False False False False
       (ap_name_span p) a (Some scope)"

definition st_add_parameter_symbol :: "address \<Rightarrow> AstParameter \<Rightarrow> nat \<Rightarrow> step" where
  "st_add_parameter_symbol a p scope t =
     declare_unless (scope_lookup_local (tb_scopes t ! scope) (ap_name p)) (ap_name_span p) (ap_name p) scope
       (parameter_symbol a p scope) t"

definition st_add_parameter_symbols :: "address \<Rightarrow> AstParameter list \<Rightarrow> nat \<Rightarrow> step" where
  "st_add_parameter_symbols a ps scope =
     each (List.map (\<lambda>(i, p). st_add_parameter_symbol (i # a) p scope) (List.enumerate 0 ps))"

definition local_symbol ::
    "address \<Rightarrow> bool \<Rightarrow> bool \<Rightarrow> AstType option \<Rightarrow> string \<Rightarrow> AstSourceSpan \<Rightarrow> nat \<Rightarrow> Symbol" where
  "local_symbol a is_final is_internal type name span scope =
     st_symbol_new SYMBOL_KIND_LOCAL (Some name) None (Some (stored_type type)) (type = None) is_final False False
       is_internal span a (Some scope)"

definition st_add_local_symbol ::
    "address \<Rightarrow> bool \<Rightarrow> bool \<Rightarrow> AstType option \<Rightarrow> string \<Rightarrow> AstSourceSpan \<Rightarrow> nat \<Rightarrow> step" where
  "st_add_local_symbol a is_final is_internal type name span scope t =
     declare_unless (scope_lookup_local (tb_scopes t ! scope) name) span name scope
       (local_symbol a is_final is_internal type name span scope) t"

definition each_child :: "nat \<Rightarrow> (address \<Rightarrow> nat \<Rightarrow> step) list \<Rightarrow> address \<Rightarrow> nat \<Rightarrow> step" where
  "each_child off ms a scope = each (List.map (\<lambda>(i, m). m (i # a) scope) (List.enumerate off ms))"

text \<open>A new scope, and a step in it.\<close>

definition in_new_scope :: "ScopeKind \<Rightarrow> address \<Rightarrow> nat \<Rightarrow> (nat \<Rightarrow> step) \<Rightarrow> step" where
  "in_new_scope kind owner parent k t = (case st_scope_new kind owner (Some parent) t of (s, t) \<Rightarrow> k s t)"

primrec st_analyze_expression :: "AstExpression \<Rightarrow> address \<Rightarrow> nat \<Rightarrow> step"
  and analyze_literal :: "AstLiteral \<Rightarrow> address \<Rightarrow> nat \<Rightarrow> step"
  and analyze_part :: "AstTemplatePart \<Rightarrow> address \<Rightarrow> nat \<Rightarrow> step"
  and analyze_body :: "AstLambdaBody \<Rightarrow> address \<Rightarrow> nat \<Rightarrow> step"
  and st_analyze_statement :: "AstStatement \<Rightarrow> address \<Rightarrow> nat \<Rightarrow> step"
  and st_analyze_block :: "AstBlock \<Rightarrow> address \<Rightarrow> nat \<Rightarrow> step" where
  "st_analyze_expression (AST_EXPR_LITERAL span l) = analyze_literal l"
| "st_analyze_expression (AST_EXPR_IDENTIFIER span name) = st_analyze_identifier span name"
| "st_analyze_expression (AST_EXPR_LAMBDA span ps b) = (\<lambda>a scope.
     in_new_scope SCOPE_KIND_LAMBDA a scope (\<lambda>s.
       and_then (st_add_parameter_symbols a ps s) (analyze_body b (length ps # a) s)))"
| "st_analyze_expression (AST_EXPR_ASSIGNMENT span op target value) = (\<lambda>a scope.
     and_then (st_analyze_expression target (0 # a) scope) (st_analyze_expression value (1 # a) scope))"
| "st_analyze_expression (AST_EXPR_TERNARY span c y n) = (\<lambda>a scope.
     and_then (st_analyze_expression c (0 # a) scope)
       (and_then (st_analyze_expression y (1 # a) scope) (st_analyze_expression n (2 # a) scope)))"
| "st_analyze_expression (AST_EXPR_BINARY span op l r) = (\<lambda>a scope.
     and_then (st_analyze_expression l (0 # a) scope) (st_analyze_expression r (1 # a) scope))"
| "st_analyze_expression (AST_EXPR_UNARY span op e) = (\<lambda>a. st_analyze_expression e (0 # a))"
| "st_analyze_expression (AST_EXPR_CALL span callee args) = (\<lambda>a scope.
     and_then (st_analyze_expression callee (0 # a) scope)
       (each_child 1 (List.map st_analyze_expression args) a scope))"
| "st_analyze_expression (AST_EXPR_INDEX span target i) = (\<lambda>a scope.
     and_then (st_analyze_expression target (0 # a) scope) (st_analyze_expression i (1 # a) scope))"
| "st_analyze_expression (AST_EXPR_MEMBER span target name) = (\<lambda>a. st_analyze_expression target (0 # a))"
| "st_analyze_expression (AST_EXPR_CAST span type e) = (\<lambda>a. st_analyze_expression e (0 # a))"
| "st_analyze_expression (AST_EXPR_ARRAY_LITERAL span es) = each_child 0 (List.map st_analyze_expression es)"
| "st_analyze_expression (AST_EXPR_GROUPING span e) = (\<lambda>a. st_analyze_expression e (0 # a))"
| "st_analyze_expression (AST_EXPR_DISCARD span) = (\<lambda>a scope. succeed)"
| "st_analyze_expression (AST_EXPR_POST_INCREMENT span e) = (\<lambda>a. st_analyze_expression e (0 # a))"
| "st_analyze_expression (AST_EXPR_POST_DECREMENT span e) = (\<lambda>a. st_analyze_expression e (0 # a))"
| "analyze_literal (AST_LITERAL_INTEGER s) = (\<lambda>a scope. succeed)"
| "analyze_literal (AST_LITERAL_FLOAT s) = (\<lambda>a scope. succeed)"
| "analyze_literal (AST_LITERAL_BOOL b) = (\<lambda>a scope. succeed)"
| "analyze_literal (AST_LITERAL_CHAR s) = (\<lambda>a scope. succeed)"
| "analyze_literal (AST_LITERAL_STRING s) = (\<lambda>a scope. succeed)"
| "analyze_literal (AST_LITERAL_TEMPLATE parts) = each_child 0 (List.map analyze_part parts)"
| "analyze_literal AST_LITERAL_NULL = (\<lambda>a scope. succeed)"
| "analyze_part (AST_TEMPLATE_PART_TEXT s) = (\<lambda>a scope. succeed)"
| "analyze_part (AST_TEMPLATE_PART_EXPRESSION e) = (\<lambda>a. st_analyze_expression e (0 # a))"
| "analyze_body (AST_LAMBDA_BODY_BLOCK b) = st_analyze_block b"
| "analyze_body (AST_LAMBDA_BODY_EXPRESSION e) = st_analyze_expression e"
| "st_analyze_statement (AST_STMT_LOCAL_BINDING span is_final is_internal type name name_span e) = (\<lambda>a scope.
     and_then (st_analyze_expression e (0 # a) scope)
       (st_add_local_symbol a is_final is_internal type name name_span scope))"
| "st_analyze_statement (AST_STMT_RETURN span e) = (\<lambda>a scope.
     case map_option st_analyze_expression e of None \<Rightarrow> succeed | Some m \<Rightarrow> m (0 # a) scope)"
| "st_analyze_statement (AST_STMT_EXIT span) = (\<lambda>a scope. succeed)"
| "st_analyze_statement (AST_STMT_THROW span e) = (\<lambda>a. st_analyze_expression e (0 # a))"
| "st_analyze_statement (AST_STMT_EXPRESSION span e) = (\<lambda>a. st_analyze_expression e (0 # a))"
| "st_analyze_statement (AST_STMT_MANUAL span is_checked b) = (\<lambda>a. st_analyze_block b (0 # a))"
| "st_analyze_block (AstBlock ss) = (\<lambda>a parent.
     in_new_scope SCOPE_KIND_BLOCK a parent (each_child 0 (List.map st_analyze_statement ss) a))"

section \<open>Declarations and the program\<close>

definition type_param_symbol :: "address \<Rightarrow> AstUnionDecl \<Rightarrow> nat \<Rightarrow> string \<Rightarrow> Symbol" where
  "type_param_symbol a d scope name =
     st_symbol_new SYMBOL_KIND_TYPE_PARAMETER (Some name) None None False False False False False (ud_name_span d) a
       (Some scope)"

definition variant_symbol :: "address \<Rightarrow> AstUnionDecl \<Rightarrow> nat \<Rightarrow> nat \<Rightarrow> AstUnionVariant \<Rightarrow> Symbol" where
  "variant_symbol a d scope i v =
     (st_symbol_new SYMBOL_KIND_VARIANT (Some (uv_name v)) None (uv_payload_type v) False False False False False
       (ud_name_span d) a (Some scope))
     \<lparr>sy_variant_index := i, sy_variant_has_payload := uv_payload_type v \<noteq> None,
      sy_variant_payload_type := uv_payload_type v\<rparr>"

definition st_analyze_union_decl :: "AstUnionDecl \<Rightarrow> address \<Rightarrow> nat \<Rightarrow> step" where
  "st_analyze_union_decl d a parent =
     in_new_scope SCOPE_KIND_UNION a parent (\<lambda>s.
       and_then (each (List.map (\<lambda>p. st_scope_append_symbol s (type_param_symbol a d s p)) (ud_generic_params d)))
         (each (List.map (\<lambda>(i, v). st_scope_append_symbol s (variant_symbol a d s i v))
           (List.enumerate 0 (ud_variants d)))))"

definition st_analyze_start_decl :: "AstStartDecl \<Rightarrow> address \<Rightarrow> nat \<Rightarrow> step" where
  "st_analyze_start_decl d a parent =
     in_new_scope SCOPE_KIND_START a parent (\<lambda>s.
       and_then (st_add_parameter_symbols a (sd_parameters d) s)
         (analyze_body (sd_body d) (length (sd_parameters d) # a) s))"

definition st_analyze_boot_decl :: "AstBootDecl \<Rightarrow> address \<Rightarrow> nat \<Rightarrow> step" where
  "st_analyze_boot_decl d a parent =
     in_new_scope SCOPE_KIND_BOOT a parent (\<lambda>s.
       and_then (st_add_parameter_symbols a (bo_parameters d) s)
         (analyze_body (bo_body d) (length (bo_parameters d) # a) s))"

primrec st_analyze_top_level_decl :: "AstTopLevelDecl \<Rightarrow> address \<Rightarrow> nat \<Rightarrow> step" where
  "st_analyze_top_level_decl (AST_TOP_LEVEL_START d) = st_analyze_start_decl d"
| "st_analyze_top_level_decl (AST_TOP_LEVEL_BOOT d) = st_analyze_boot_decl d"
| "st_analyze_top_level_decl (AST_TOP_LEVEL_BINDING d) = (\<lambda>a. st_analyze_expression (bd_initializer d) (0 # a))"
| "st_analyze_top_level_decl (AST_TOP_LEVEL_UNION d) = st_analyze_union_decl d"
| "st_analyze_top_level_decl (AST_TOP_LEVEL_EXTERN d) = (\<lambda>a scope. succeed)"

definition symbol_table_build :: "AstProgram \<Rightarrow> bool \<times> SymbolTable" where
  "symbol_table_build program =
     and_then (st_add_package_symbol program)
       (and_then (st_add_import_symbols program)
         (and_then (st_predeclare_top_level_bindings program)
           (each (List.map (\<lambda>(i, d). st_analyze_top_level_decl d (decl_address i) 0)
             (List.enumerate 0 (pr_top_level_decls program))))))
       (snd (st_scope_new SCOPE_KIND_PROGRAM program_address None symbol_table_init))"

end
