(* ===== verification/SymbolLaws.thy ===== *)
theory SymbolLaws
  imports SymbolAnalyze
begin

text \<open>
  Lexical scoping without a table: the identifiers of a program in the order of the walk, each with
  the symbols that are visible there (\<open>expr_uses\<close>), the programs that declare no name twice
  (\<open>clean_expr\<close>), and the calculus that relates the steps of the symbol table to them.
\<close>

section \<open>Scoping by environments\<close>

text \<open>A symbol without the scope that holds it; an environment lists frames from the innermost on.\<close>

definition plain_symbol :: "Symbol \<Rightarrow> Symbol" where
  "plain_symbol s = s\<lparr>sy_scope := None\<rparr>"

type_synonym env = "Symbol list list"

type_synonym use = "address \<times> AstSourceSpan \<times> string \<times> env"

abbreviation symbol_names :: "Symbol list \<Rightarrow> string option list" where
  "symbol_names \<equiv> List.map sy_name"

definition parameter_frame :: "address \<Rightarrow> AstParameter list \<Rightarrow> Symbol list" where
  "parameter_frame a ps =
     List.map (\<lambda>(i, p). plain_symbol (parameter_symbol (i # a) p 0)) (List.enumerate 0 ps)"

primrec statement_symbols :: "AstStatement \<Rightarrow> address \<Rightarrow> Symbol list" where
  "statement_symbols (AST_STMT_LOCAL_BINDING span is_final is_internal type name name_span e) a =
     [plain_symbol (local_symbol a is_final is_internal type name name_span 0)]"
| "statement_symbols (AST_STMT_RETURN span e) a = []"
| "statement_symbols (AST_STMT_EXIT span) a = []"
| "statement_symbols (AST_STMT_THROW span e) a = []"
| "statement_symbols (AST_STMT_EXPRESSION span e) a = []"
| "statement_symbols (AST_STMT_MANUAL span is_checked b) a = []"

definition children :: "nat \<Rightarrow> (address \<Rightarrow> env \<Rightarrow> use list) list \<Rightarrow> address \<Rightarrow> env \<Rightarrow> use list" where
  "children off us a env = concat (List.map (\<lambda>(i, u). u (i # a) env) (List.enumerate off us))"

text \<open>A name is visible from the statement after its declaration on.\<close>

fun sequence :: "nat \<Rightarrow> ((address \<Rightarrow> env \<Rightarrow> use list) \<times> (address \<Rightarrow> Symbol list)) list \<Rightarrow>
    address \<Rightarrow> Symbol list \<Rightarrow> env \<Rightarrow> use list" where
  "sequence i [] a frame env = []"
| "sequence i ((u, d) # ms) a frame env =
     u (i # a) (frame # env) @ sequence (Suc i) ms a (frame @ d (i # a)) env"

primrec expr_uses :: "AstExpression \<Rightarrow> address \<Rightarrow> env \<Rightarrow> use list"
  and literal_uses :: "AstLiteral \<Rightarrow> address \<Rightarrow> env \<Rightarrow> use list"
  and part_uses :: "AstTemplatePart \<Rightarrow> address \<Rightarrow> env \<Rightarrow> use list"
  and body_uses :: "AstLambdaBody \<Rightarrow> address \<Rightarrow> env \<Rightarrow> use list"
  and statement_uses :: "AstStatement \<Rightarrow> address \<Rightarrow> env \<Rightarrow> use list"
  and block_uses :: "AstBlock \<Rightarrow> address \<Rightarrow> env \<Rightarrow> use list" where
  "expr_uses (AST_EXPR_LITERAL span l) = literal_uses l"
| "expr_uses (AST_EXPR_IDENTIFIER span name) = (\<lambda>a env. [(a, span, name, env)])"
| "expr_uses (AST_EXPR_LAMBDA span ps b) = (\<lambda>a env. body_uses b (length ps # a) (parameter_frame a ps # env))"
| "expr_uses (AST_EXPR_ASSIGNMENT span op target value) =
     (\<lambda>a env. expr_uses target (0 # a) env @ expr_uses value (1 # a) env)"
| "expr_uses (AST_EXPR_TERNARY span c y n) =
     (\<lambda>a env. expr_uses c (0 # a) env @ expr_uses y (1 # a) env @ expr_uses n (2 # a) env)"
| "expr_uses (AST_EXPR_BINARY span op l r) = (\<lambda>a env. expr_uses l (0 # a) env @ expr_uses r (1 # a) env)"
| "expr_uses (AST_EXPR_UNARY span op e) = (\<lambda>a. expr_uses e (0 # a))"
| "expr_uses (AST_EXPR_CALL span callee args) =
     (\<lambda>a env. expr_uses callee (0 # a) env @ children 1 (List.map expr_uses args) a env)"
| "expr_uses (AST_EXPR_INDEX span target i) = (\<lambda>a env. expr_uses target (0 # a) env @ expr_uses i (1 # a) env)"
| "expr_uses (AST_EXPR_MEMBER span target name) = (\<lambda>a. expr_uses target (0 # a))"
| "expr_uses (AST_EXPR_CAST span type e) = (\<lambda>a. expr_uses e (0 # a))"
| "expr_uses (AST_EXPR_ARRAY_LITERAL span es) = children 0 (List.map expr_uses es)"
| "expr_uses (AST_EXPR_GROUPING span e) = (\<lambda>a. expr_uses e (0 # a))"
| "expr_uses (AST_EXPR_DISCARD span) = (\<lambda>a env. [])"
| "expr_uses (AST_EXPR_POST_INCREMENT span e) = (\<lambda>a. expr_uses e (0 # a))"
| "expr_uses (AST_EXPR_POST_DECREMENT span e) = (\<lambda>a. expr_uses e (0 # a))"
| "literal_uses (AST_LITERAL_INTEGER s) = (\<lambda>a env. [])"
| "literal_uses (AST_LITERAL_FLOAT s) = (\<lambda>a env. [])"
| "literal_uses (AST_LITERAL_BOOL b) = (\<lambda>a env. [])"
| "literal_uses (AST_LITERAL_CHAR s) = (\<lambda>a env. [])"
| "literal_uses (AST_LITERAL_STRING s) = (\<lambda>a env. [])"
| "literal_uses (AST_LITERAL_TEMPLATE parts) = children 0 (List.map part_uses parts)"
| "literal_uses AST_LITERAL_NULL = (\<lambda>a env. [])"
| "part_uses (AST_TEMPLATE_PART_TEXT s) = (\<lambda>a env. [])"
| "part_uses (AST_TEMPLATE_PART_EXPRESSION e) = (\<lambda>a. expr_uses e (0 # a))"
| "body_uses (AST_LAMBDA_BODY_BLOCK b) = block_uses b"
| "body_uses (AST_LAMBDA_BODY_EXPRESSION e) = expr_uses e"
| "statement_uses (AST_STMT_LOCAL_BINDING span is_final is_internal type name name_span e) =
     (\<lambda>a. expr_uses e (0 # a))"
| "statement_uses (AST_STMT_RETURN span e) = (\<lambda>a env.
     case map_option expr_uses e of None \<Rightarrow> [] | Some u \<Rightarrow> u (0 # a) env)"
| "statement_uses (AST_STMT_EXIT span) = (\<lambda>a env. [])"
| "statement_uses (AST_STMT_THROW span e) = (\<lambda>a. expr_uses e (0 # a))"
| "statement_uses (AST_STMT_EXPRESSION span e) = (\<lambda>a. expr_uses e (0 # a))"
| "statement_uses (AST_STMT_MANUAL span is_checked b) = (\<lambda>a. block_uses b (0 # a))"
| "block_uses (AstBlock ss) = (\<lambda>a env.
     sequence 0 (zip (List.map statement_uses ss) (List.map statement_symbols ss)) a [] env)"

text \<open>The name that a statement declares.\<close>

primrec statement_names :: "AstStatement \<Rightarrow> string list" where
  "statement_names (AST_STMT_LOCAL_BINDING span is_final is_internal type name name_span e) = [name]"
| "statement_names (AST_STMT_RETURN span e) = []"
| "statement_names (AST_STMT_EXIT span) = []"
| "statement_names (AST_STMT_THROW span e) = []"
| "statement_names (AST_STMT_EXPRESSION span e) = []"
| "statement_names (AST_STMT_MANUAL span is_checked b) = []"

primrec clean_expr :: "AstExpression \<Rightarrow> bool"
  and clean_literal :: "AstLiteral \<Rightarrow> bool"
  and clean_part :: "AstTemplatePart \<Rightarrow> bool"
  and clean_body :: "AstLambdaBody \<Rightarrow> bool"
  and clean_statement :: "AstStatement \<Rightarrow> bool"
  and clean_block :: "AstBlock \<Rightarrow> bool" where
  "clean_expr (AST_EXPR_LITERAL span l) = clean_literal l"
| "clean_expr (AST_EXPR_IDENTIFIER span name) = True"
| "clean_expr (AST_EXPR_LAMBDA span ps b) = (distinct (List.map ap_name ps) \<and> clean_body b)"
| "clean_expr (AST_EXPR_ASSIGNMENT span op target value) = (clean_expr target \<and> clean_expr value)"
| "clean_expr (AST_EXPR_TERNARY span c y n) = (clean_expr c \<and> clean_expr y \<and> clean_expr n)"
| "clean_expr (AST_EXPR_BINARY span op l r) = (clean_expr l \<and> clean_expr r)"
| "clean_expr (AST_EXPR_UNARY span op e) = clean_expr e"
| "clean_expr (AST_EXPR_CALL span callee args) = (clean_expr callee \<and> list_all (\<lambda>b. b) (List.map clean_expr args))"
| "clean_expr (AST_EXPR_INDEX span target i) = (clean_expr target \<and> clean_expr i)"
| "clean_expr (AST_EXPR_MEMBER span target name) = clean_expr target"
| "clean_expr (AST_EXPR_CAST span type e) = clean_expr e"
| "clean_expr (AST_EXPR_ARRAY_LITERAL span es) = list_all (\<lambda>b. b) (List.map clean_expr es)"
| "clean_expr (AST_EXPR_GROUPING span e) = clean_expr e"
| "clean_expr (AST_EXPR_DISCARD span) = True"
| "clean_expr (AST_EXPR_POST_INCREMENT span e) = clean_expr e"
| "clean_expr (AST_EXPR_POST_DECREMENT span e) = clean_expr e"
| "clean_literal (AST_LITERAL_INTEGER s) = True"
| "clean_literal (AST_LITERAL_FLOAT s) = True"
| "clean_literal (AST_LITERAL_BOOL b) = True"
| "clean_literal (AST_LITERAL_CHAR s) = True"
| "clean_literal (AST_LITERAL_STRING s) = True"
| "clean_literal (AST_LITERAL_TEMPLATE parts) = list_all (\<lambda>b. b) (List.map clean_part parts)"
| "clean_literal AST_LITERAL_NULL = True"
| "clean_part (AST_TEMPLATE_PART_TEXT s) = True"
| "clean_part (AST_TEMPLATE_PART_EXPRESSION e) = clean_expr e"
| "clean_body (AST_LAMBDA_BODY_BLOCK b) = clean_block b"
| "clean_body (AST_LAMBDA_BODY_EXPRESSION e) = clean_expr e"
| "clean_statement (AST_STMT_LOCAL_BINDING span is_final is_internal type name name_span e) = clean_expr e"
| "clean_statement (AST_STMT_RETURN span e) = (case map_option clean_expr e of None \<Rightarrow> True | Some b \<Rightarrow> b)"
| "clean_statement (AST_STMT_EXIT span) = True"
| "clean_statement (AST_STMT_THROW span e) = clean_expr e"
| "clean_statement (AST_STMT_EXPRESSION span e) = clean_expr e"
| "clean_statement (AST_STMT_MANUAL span is_checked b) = clean_block b"
| "clean_block (AstBlock ss) =
     (list_all (\<lambda>b. b) (List.map clean_statement ss) \<and> distinct (concat (List.map statement_names ss)))"

section \<open>Resolving the identifiers\<close>

text \<open>
  An identifier is the innermost visible symbol of its name, or else the first import of its
  name.  If there is none, the first wildcard import gets a new import of the name.
\<close>

record Resolver =
  rs_imports :: "Symbol list"
  rs_resolved :: "(address \<times> AstSourceSpan \<times> Symbol) list"
  rs_unresolved :: "(address \<times> string \<times> AstSourceSpan) list"

definition visible :: "env \<Rightarrow> Symbol list \<Rightarrow> string \<Rightarrow> Symbol option" where
  "visible env imports name = find (\<lambda>s. sy_name s = Some name) (concat env @ imports)"

definition resolve :: "use \<Rightarrow> Resolver \<Rightarrow> Resolver" where
  "resolve = (\<lambda>(a, span, name, env) r.
     case visible env (rs_imports r) name of
       Some s \<Rightarrow> r\<lparr>rs_resolved := rs_resolved r @ [(a, span, s)]\<rparr>
     | None \<Rightarrow>
         (case find sy_is_wildcard_import (rs_imports r) of
            Some sentinel \<Rightarrow>
              (let s = plain_symbol (wildcard_symbol sentinel 0 name)
               in r\<lparr>rs_imports := rs_imports r @ [s], rs_resolved := rs_resolved r @ [(a, span, s)]\<rparr>)
          | None \<Rightarrow> r\<lparr>rs_unresolved := rs_unresolved r @ [(a, name, span)]\<rparr>))"

definition resolver_of :: "SymbolTable \<Rightarrow> Resolver" where
  "resolver_of t =
     \<lparr>rs_imports = List.map plain_symbol (tb_imports t),
      rs_resolved = List.map (\<lambda>r. (re_identifier r, re_source_span r, plain_symbol (re_symbol r))) (tb_resolutions t),
      rs_unresolved = List.map (\<lambda>u. (un_identifier u, un_name u, un_source_span u)) (tb_unresolved_identifiers t)\<rparr>"

section \<open>Scopes and environments\<close>

definition scope_frame :: "Scope \<Rightarrow> Symbol list" where
  "scope_frame s = List.map plain_symbol (sc_symbols s)"

inductive in_env :: "Scope list \<Rightarrow> nat option \<Rightarrow> env \<Rightarrow> bool" for scopes where
  Root: "in_env scopes None []"
| Scope: "i < length scopes \<Longrightarrow> (\<And>p. sc_parent (scopes ! i) = Some p \<Longrightarrow> p < i) \<Longrightarrow>
    in_env scopes (sc_parent (scopes ! i)) env \<Longrightarrow> in_env scopes (Some i) (scope_frame (scopes ! i) # env)"

inductive_cases in_env_Some: "in_env scopes (Some i) env"
inductive_cases in_env_None: "in_env scopes None env"

lemma plain_symbol_fields [simp]:
  "sy_name (plain_symbol s) = sy_name s" "sy_is_wildcard_import (plain_symbol s) = sy_is_wildcard_import s"
  "sy_qualified_name (plain_symbol s) = sy_qualified_name s"
  "sy_declaration_span (plain_symbol s) = sy_declaration_span s"
  "sy_declaration (plain_symbol s) = sy_declaration s" "plain_symbol (plain_symbol s) = plain_symbol s"
  by (simp_all add: plain_symbol_def)

lemma find_map: "find P (List.map f xs) = map_option f (find (\<lambda>x. P (f x)) xs)"
  by (induction xs) simp_all

lemma find_append: "find P (xs @ ys) = (case find P xs of None \<Rightarrow> find P ys | Some x \<Rightarrow> Some x)"
  by (induction xs) simp_all

text \<open>The length of an environment is bounded by the index of its scope.\<close>

lemma env_length: "in_env scopes s env \<Longrightarrow> (case s of None \<Rightarrow> env = [] | Some i \<Rightarrow> length env \<le> Suc i \<and> i < length scopes)"
proof (induction rule: in_env.induct)
  case (Scope i env)
  then show ?case
    by (cases "sc_parent (scopes ! i)") (auto simp: Suc_le_eq)
qed simp

lemma lookup_env: "in_env scopes s env \<Longrightarrow> length env \<le> fuel \<Longrightarrow>
    map_option plain_symbol (lookup_in_scopes fuel scopes s name) = find (\<lambda>s. sy_name s = Some name) (concat env)"
proof (induction arbitrary: fuel rule: in_env.induct)
  case (Scope i env)
  obtain f where f: "fuel = Suc f" "length env \<le> f"
    using Scope.prems by (cases fuel) auto
  show ?case
    using Scope.IH [OF f(2)]
    by (simp add: f(1) find_append scope_frame_def find_map scope_lookup_local_def split: option.split)
qed simp

lemma symbol_table_lookup_env:
  assumes "in_env (tb_scopes t) (Some i) env"
  shows "map_option plain_symbol (symbol_table_lookup t i name) = visible env (rs_imports (resolver_of t)) name"
proof -
  have "length env \<le> length (tb_scopes t)"
    using env_length [OF assms] by simp
  from lookup_env [OF assms this, of name] show ?thesis
    by (auto simp: symbol_table_lookup_def st_lookup_in_scopes_def visible_def find_append resolver_of_def find_map
        symbol_table_find_import_def split: option.splits)
qed

section \<open>The judgement\<close>

text \<open>
  From the scope \<open>i\<close> of an environment \<open>frame # env\<close>, a step succeeds exactly when \<open>ok\<close> holds;
  then it has resolved \<open>us\<close> and added \<open>new\<close> to the scope, and the other scopes have kept their
  symbols.  A step that fails records an error.
\<close>

definition extends :: "nat \<Rightarrow> Symbol list \<Rightarrow> SymbolTable \<Rightarrow> SymbolTable \<Rightarrow> bool" where
  "extends i new t t' \<longleftrightarrow> length (tb_scopes t) \<le> length (tb_scopes t') \<and>
     (\<forall>j < length (tb_scopes t). sc_parent (tb_scopes t' ! j) = sc_parent (tb_scopes t ! j) \<and>
        sc_kind (tb_scopes t' ! j) = sc_kind (tb_scopes t ! j) \<and>
        scope_frame (tb_scopes t' ! j) = scope_frame (tb_scopes t ! j) @ (if j = i then new else []))"

definition walks :: "(nat \<Rightarrow> step) \<Rightarrow> Symbol list \<Rightarrow> env \<Rightarrow> use list \<Rightarrow> bool \<Rightarrow> Symbol list \<Rightarrow> bool" where
  "walks m frame env us ok new \<longleftrightarrow>
     (\<forall>i t. in_env (tb_scopes t) (Some i) (frame # env) \<longrightarrow> \<not> tb_has_error t \<longrightarrow>
       (case m i t of (success, t') \<Rightarrow>
          (success \<longleftrightarrow> ok) \<and> (success \<longleftrightarrow> \<not> tb_has_error t') \<and>
          (success \<longrightarrow> resolver_of t' = fold resolve us (resolver_of t) \<and> extends i new t t' \<and>
             tb_package_symbol t' = tb_package_symbol t)))"

lemma in_env_extends:
  assumes "in_env (tb_scopes t) s env" and "extends i new t t'"
  shows "case s of None \<Rightarrow> in_env (tb_scopes t') s env
    | Some j \<Rightarrow> (j < i \<or> new = [] \<longrightarrow> in_env (tb_scopes t') s env) \<and>
        (j = i \<longrightarrow> in_env (tb_scopes t') s ((hd env @ new) # tl env))"
  using assms(1)
proof (induction rule: in_env.induct)
  case Root
  then show ?case
    by (simp add: in_env.Root)
next
  case (Scope j env)
  have same: "sc_parent (tb_scopes t' ! j) = sc_parent (tb_scopes t ! j)" "j < length (tb_scopes t')"
    "scope_frame (tb_scopes t' ! j) = scope_frame (tb_scopes t ! j) @ (if j = i then new else [])"
    using assms(2) Scope.hyps(1) by (auto simp: extends_def)
  have "in_env (tb_scopes t') (sc_parent (tb_scopes t ! j)) env" if "j < i \<or> new = [] \<or> j = i"
    using Scope.IH Scope.hyps(2) that
    by (cases "sc_parent (tb_scopes t ! j)") (fastforce)+
  then show ?case
    using same Scope.hyps(2) in_env.Scope [of j "tb_scopes t'" env]
    by (auto split: if_splits)
qed

lemma in_env_same:
  assumes "in_env (tb_scopes t) (Some i) (frame # env)" and "extends i new t t'"
  shows "in_env (tb_scopes t') (Some i) ((frame @ new) # env)"
  using in_env_extends [OF assms] by simp

lemma extends_refl: "extends i [] t t"
  by (simp add: extends_def)

lemma extends_trans:
  assumes "extends i new t t'" and "extends i new' t' t''"
  shows "extends i (new @ new') t t''"
  using assms by (auto simp: extends_def)

lemma walks_succeed: "walks (\<lambda>i. succeed) frame env [] True []"
  by (simp add: walks_def succeed_def extends_refl)

lemma walks_then:
  assumes "walks m frame env us ok new" and "walks k (frame @ new) env us' ok' new'"
  shows "walks (\<lambda>i. and_then (m i) (k i)) frame env (us @ us') (ok \<and> ok') (new @ new')"
  unfolding walks_def
proof (intro allI impI)
  fix i and t :: SymbolTable
  assume t: "in_env (tb_scopes t) (Some i) (frame # env)" "\<not> tb_has_error t"
  obtain s t' where m: "m i t = (s, t')"
    by fastforce
  then have first: "s \<longleftrightarrow> ok" "s \<longleftrightarrow> \<not> tb_has_error t'"
    "s \<Longrightarrow> resolver_of t' = fold resolve us (resolver_of t) \<and> extends i new t t' \<and>
      tb_package_symbol t' = tb_package_symbol t"
    using assms(1) t unfolding walks_def by force+
  show "case and_then (m i) (k i) t of (success, t') \<Rightarrow>
      (success \<longleftrightarrow> ok \<and> ok') \<and> (success \<longleftrightarrow> \<not> tb_has_error t') \<and>
      (success \<longrightarrow> resolver_of t' = fold resolve (us @ us') (resolver_of t) \<and> extends i (new @ new') t t' \<and>
        tb_package_symbol t' = tb_package_symbol t)"
  proof (cases s)
    case True
    then have "in_env (tb_scopes t') (Some i) ((frame @ new) # env)" "\<not> tb_has_error t'"
      using first in_env_same [OF t(1)] by blast+
    then have "case k i t' of (success, t'') \<Rightarrow> (success \<longleftrightarrow> ok') \<and> (success \<longleftrightarrow> \<not> tb_has_error t'') \<and>
        (success \<longrightarrow> resolver_of t'' = fold resolve us' (resolver_of t') \<and> extends i new' t' t'' \<and>
          tb_package_symbol t'' = tb_package_symbol t')"
      by (rule assms(2) [unfolded walks_def, rule_format])
    then show ?thesis
      using True first m extends_trans [of i new t t' new'] by (auto simp: and_then_def)
  next
    case False
    then show ?thesis
      using first m by (simp add: and_then_def)
  qed
qed

lemma walks_cong: "walks m frame env us ok new \<Longrightarrow> us = us' \<Longrightarrow> (ok \<longleftrightarrow> ok') \<Longrightarrow> new = new' \<Longrightarrow>
    walks m frame env us' ok' new'"
  by simp

lemma walks_scope:
  assumes "walks k [] (frame # env) us ok new"
  shows "walks (\<lambda>i. in_new_scope kind a i k) frame env us ok []"
  unfolding walks_def
proof (intro allI impI)
  fix i and t :: SymbolTable
  assume t: "in_env (tb_scopes t) (Some i) (frame # env)" "\<not> tb_has_error t"
  define s u where "s = length (tb_scopes t)" and "u = snd (st_scope_new kind a (Some i) t)"
  have new: "in_new_scope kind a i k t = k s u"
    by (simp add: in_new_scope_def st_scope_new_def s_def u_def Let_def)
  have i: "i < s"
    using env_length [OF t(1)] by (simp add: s_def)
  have u: "length (tb_scopes u) = Suc s" "resolver_of u = resolver_of t" "\<not> tb_has_error u"
    "tb_package_symbol u = tb_package_symbol t"
    using t(2) by (simp_all add: u_def s_def st_scope_new_def resolver_of_def Let_def)
  have old: "sc_parent (tb_scopes u ! j) = sc_parent (tb_scopes t ! j)"
    "sc_kind (tb_scopes u ! j) = sc_kind (tb_scopes t ! j)"
    "scope_frame (tb_scopes u ! j) = scope_frame (tb_scopes t ! j)" if "j < s" for j
    using that i by (cases "i = j"; simp add: u_def s_def st_scope_new_def scope_frame_def nth_append Let_def)+
  have last: "sc_parent (tb_scopes u ! s) = Some i" "scope_frame (tb_scopes u ! s) = []"
    by (simp_all add: u_def s_def st_scope_new_def scope_frame_def nth_append Let_def)
  have ext: "extends i [] t u"
    using old u(1) by (simp add: extends_def s_def)
  have "in_env (tb_scopes u) (Some i) (frame # env)"
    using in_env_same [OF t(1) ext] by simp
  then have env: "in_env (tb_scopes u) (Some s) ([] # frame # env)"
    using in_env.Scope [of s "tb_scopes u" "frame # env"] last u(1) i by simp
  obtain b t' where k: "k s u = (b, t')"
    by fastforce
  have r: "(b \<longleftrightarrow> ok) \<and> (b \<longleftrightarrow> \<not> tb_has_error t') \<and> (b \<longrightarrow> resolver_of t' = fold resolve us (resolver_of u) \<and>
      extends s new u t' \<and> tb_package_symbol t' = tb_package_symbol u)"
    using assms env u(3) k unfolding walks_def by force
  moreover have "extends i [] t t'" if "extends s new u t'"
    using that old u(1) unfolding extends_def s_def by auto
  ultimately show "case in_new_scope kind a i k t of (success, t') \<Rightarrow>
      (success \<longleftrightarrow> ok) \<and> (success \<longleftrightarrow> \<not> tb_has_error t') \<and>
      (success \<longrightarrow> resolver_of t' = fold resolve us (resolver_of t) \<and> extends i [] t t' \<and>
        tb_package_symbol t' = tb_package_symbol t)"
    using u by (auto simp: new k)
qed

lemma lookup_local_env:
  assumes "in_env (tb_scopes t) (Some i) (frame # env)"
  shows "scope_lookup_local (tb_scopes t ! i) name = None \<longleftrightarrow> Some name \<notin> set (symbol_names frame)"
proof -
  have "frame = scope_frame (tb_scopes t ! i)"
    using assms by (auto elim: in_env_Some)
  then show ?thesis
    by (auto simp: scope_lookup_local_def scope_frame_def find_None_iff image_iff)
qed

lemma set_error_fails:
  "fst (st_set_error_at span related msg t) = False" "tb_has_error (snd (st_set_error_at span related msg t))"
  by (simp_all add: st_set_error_at_def)

lemma walks_declare:
  assumes "\<And>i. plain_symbol (f i) = s" and "sy_name s = Some name"
  shows "walks (\<lambda>i t. declare_unless (scope_lookup_local (tb_scopes t ! i) name) span name i (f i) t) frame env []
    (Some name \<notin> set (symbol_names frame)) [s]"
  unfolding walks_def
proof (intro allI impI)
  fix i and t :: SymbolTable
  assume t: "in_env (tb_scopes t) (Some i) (frame # env)" "\<not> tb_has_error t"
  have i: "i < length (tb_scopes t)"
    using env_length [OF t(1)] by simp
  show "case declare_unless (scope_lookup_local (tb_scopes t ! i) name) span name i (f i) t of (success, t') \<Rightarrow>
      (success \<longleftrightarrow> Some name \<notin> set (symbol_names frame)) \<and> (success \<longleftrightarrow> \<not> tb_has_error t') \<and>
      (success \<longrightarrow> resolver_of t' = fold resolve [] (resolver_of t) \<and> extends i [s] t t' \<and>
        tb_package_symbol t' = tb_package_symbol t)"
  proof (cases "scope_lookup_local (tb_scopes t ! i) name")
    case None
    then show ?thesis
      using lookup_local_env [OF t(1), of name] t(2) i assms(1)
      by (auto simp: declare_unless_def st_scope_append_symbol_def resolver_of_def extends_def nth_list_update
          scope_frame_def)
  next
    case (Some c)
    then show ?thesis
      using lookup_local_env [OF t(1), of name] set_error_fails
      by (auto simp: declare_unless_def case_prod_beta)
  qed
qed

lemma wildcard_find: "find sy_is_wildcard_import (List.map plain_symbol ss) =
    map_option plain_symbol (find sy_is_wildcard_import ss)"
  by (simp add: find_map)

lemma plain_wildcard: "plain_symbol (wildcard_symbol (plain_symbol s) i name) = plain_symbol (wildcard_symbol s j name)"
  by (simp add: wildcard_symbol_def st_symbol_new_def) (simp add: plain_symbol_def)

lemma walks_identifier: "walks (st_analyze_identifier span name a) frame env [(a, span, name, frame # env)] True []"
  unfolding walks_def
proof (intro allI impI)
  fix i and t :: SymbolTable
  assume t: "in_env (tb_scopes t) (Some i) (frame # env)" "\<not> tb_has_error t"
  note look = symbol_table_lookup_env [OF t(1), of name]
  show "case st_analyze_identifier span name a i t of (success, t') \<Rightarrow>
      (success \<longleftrightarrow> True) \<and> (success \<longleftrightarrow> \<not> tb_has_error t') \<and>
      (success \<longrightarrow> resolver_of t' = fold resolve [(a, span, name, frame # env)] (resolver_of t) \<and>
        extends i [] t t' \<and> tb_package_symbol t' = tb_package_symbol t)"
  proof (cases "symbol_table_lookup t i name")
    case (Some s)
    have "visible (frame # env) (rs_imports (resolver_of t)) name = Some (plain_symbol s)"
      using look Some by simp
    then show ?thesis
      using Some t(2)
      by (simp add: st_analyze_identifier_def st_resolutions_append_def resolve_def extends_def resolver_of_def)
  next
    case None
    have "visible (frame # env) (rs_imports (resolver_of t)) name = None"
      using look None by simp
    then show ?thesis
      using None t(2) plain_wildcard [of _ 0 name i]
      by (auto simp: st_analyze_identifier_def st_try_wildcard_resolve_def st_resolutions_append_def
          st_imports_append_def st_unresolved_append_def resolve_def extends_def resolver_of_def wildcard_find Let_def
          split: option.split)
  qed
qed

lemma walks_each_child:
  assumes "\<And>x a. x \<in> set xs \<Longrightarrow> walks (f x a) frame env (u x a (frame # env)) (c x) []"
  shows "walks (each_child off (List.map f xs) a) frame env (children off (List.map u xs) a (frame # env))
    (list_all (\<lambda>b. b) (List.map c xs)) []"
  using assms
proof (induction xs arbitrary: off)
  case Nil
  then show ?case
    using walks_succeed by (simp add: each_child_def children_def)
next
  case (Cons x xs)
  have "walks (\<lambda>i. and_then (f x (off # a) i) (each_child (Suc off) (List.map f xs) a i)) frame env
      (u x (off # a) (frame # env) @ children (Suc off) (List.map u xs) a (frame # env))
      (c x \<and> list_all (\<lambda>b. b) (List.map c xs)) ([] @ [])"
    by (rule walks_then) (use Cons in simp_all)
  then show ?case
    by (simp add: each_child_def children_def)
qed

lemma walks_parameters:
  "walks (\<lambda>i. each (List.map (\<lambda>(k, p). st_add_parameter_symbol (k # a) p i) (List.enumerate off ps))) frame env []
     (distinct (List.map ap_name ps) \<and> (\<forall>p \<in> set ps. Some (ap_name p) \<notin> set (symbol_names frame)))
     (List.map (\<lambda>(k, p). plain_symbol (parameter_symbol (k # a) p 0)) (List.enumerate off ps))"
proof (induction ps arbitrary: off frame)
  case Nil
  then show ?case
    using walks_succeed by simp
next
  case (Cons p ps)
  let ?s = "plain_symbol (parameter_symbol (off # a) p 0)"
  have s: "sy_name ?s = Some (ap_name p)" "\<And>i. plain_symbol (parameter_symbol (off # a) p i) = ?s"
    by (simp_all add: parameter_symbol_def st_symbol_new_def) (simp add: plain_symbol_def)
  have "walks (\<lambda>i. and_then (st_add_parameter_symbol (off # a) p i)
        (each (List.map (\<lambda>(k, p). st_add_parameter_symbol (k # a) p i) (List.enumerate (Suc off) ps)))) frame env ([] @ [])
      (Some (ap_name p) \<notin> set (symbol_names frame) \<and> distinct (List.map ap_name ps) \<and>
        (\<forall>q \<in> set ps. Some (ap_name q) \<notin> set (symbol_names (frame @ [?s]))))
      ([?s] @ List.map (\<lambda>(k, p). plain_symbol (parameter_symbol (k # a) p 0)) (List.enumerate (Suc off) ps))"
    unfolding st_add_parameter_symbol_def [abs_def]
    by (rule walks_then [OF walks_declare [OF s(2) s(1)] Cons.IH [unfolded st_add_parameter_symbol_def [abs_def]]])
  then show ?case
    unfolding enumerate_simps list.map each.simps prod.case
    by (rule walks_cong) (use s in \<open>auto simp: image_iff\<close>)
qed

lemma walks_statements:
  assumes "\<And>x a frame. x \<in> set xs \<Longrightarrow> walks (st_analyze_statement x a) frame env (statement_uses x a (frame # env))
      (clean_statement x \<and> (\<forall>n \<in> set (statement_names x). Some n \<notin> set (symbol_names frame))) (statement_symbols x a)"
  shows "\<exists>new. walks (each_child off (List.map st_analyze_statement xs) a) frame env
      (sequence off (zip (List.map statement_uses xs) (List.map statement_symbols xs)) a frame env)
      (list_all clean_statement xs \<and> distinct (concat (List.map statement_names xs)) \<and>
        (\<forall>n \<in> set (concat (List.map statement_names xs)). Some n \<notin> set (symbol_names frame))) new"
  using assms
proof (induction xs arbitrary: off frame)
  case Nil
  then show ?case
    using walks_succeed by (auto simp: each_child_def)
next
  case (Cons x xs)
  let ?d = "statement_symbols x (off # a)"
  have names: "symbol_names ?d = List.map Some (statement_names x)" "distinct (statement_names x)"
    by (cases x; simp add: local_symbol_def st_symbol_new_def)+
  obtain new where new: "walks (each_child (Suc off) (List.map st_analyze_statement xs) a) (frame @ ?d) env
      (sequence (Suc off) (zip (List.map statement_uses xs) (List.map statement_symbols xs)) a (frame @ ?d) env)
      (list_all clean_statement xs \<and> distinct (concat (List.map statement_names xs)) \<and>
        (\<forall>n \<in> set (concat (List.map statement_names xs)). Some n \<notin> set (symbol_names (frame @ ?d)))) new"
    using Cons.IH [of "Suc off" "frame @ ?d"] Cons.prems by auto
  have "walks (\<lambda>i. and_then (st_analyze_statement x (off # a) i) (each_child (Suc off) (List.map st_analyze_statement xs) a i))
      frame env
      (statement_uses x (off # a) (frame # env) @
        sequence (Suc off) (zip (List.map statement_uses xs) (List.map statement_symbols xs)) a (frame @ ?d) env)
      ((clean_statement x \<and> (\<forall>n \<in> set (statement_names x). Some n \<notin> set (symbol_names frame))) \<and>
        (list_all clean_statement xs \<and> distinct (concat (List.map statement_names xs)) \<and>
        (\<forall>n \<in> set (concat (List.map statement_names xs)). Some n \<notin> set (symbol_names (frame @ ?d)))))
      (?d @ new)"
    by (rule walks_then [OF Cons.prems new]) simp
  then have "walks (each_child off (List.map st_analyze_statement (x # xs)) a) frame env
      (sequence off (zip (List.map statement_uses (x # xs)) (List.map statement_symbols (x # xs))) a frame env)
      (list_all clean_statement (x # xs) \<and> distinct (concat (List.map statement_names (x # xs))) \<and>
        (\<forall>n \<in> set (concat (List.map statement_names (x # xs))). Some n \<notin> set (symbol_names frame))) (?d @ new)"
    unfolding each_child_def list.map enumerate_simps each.simps prod.case
    by (rule walks_cong) (use names in \<open>auto simp: image_iff\<close>)
  then show ?case
    by blast
qed

section \<open>The walk over bodies\<close>

lemma list_all_map: "list_all (\<lambda>b. b) (List.map f xs) = list_all f xs"
  by (induction xs) simp_all

lemma walks_both:
  "walks m frame env us ok [] \<Longrightarrow> walks k frame env us' ok' [] \<Longrightarrow>
    walks (\<lambda>i. and_then (m i) (k i)) frame env (us @ us') (ok \<and> ok') []"
  using walks_then [of m frame env us ok "[]" k us' ok' "[]"] by simp

lemma walks_with_parameters:
  assumes "\<And>frame env. walks k frame env (us (frame # env)) ok []"
  shows "walks (\<lambda>i. in_new_scope kind a i (\<lambda>s. and_then (st_add_parameter_symbols b ps s) (k s))) frame env
    (us (parameter_frame b ps # frame # env)) (distinct (List.map ap_name ps) \<and> ok) []"
proof (rule walks_scope)
  have ps: "walks (st_add_parameter_symbols b ps) [] (frame # env) [] (distinct (List.map ap_name ps)) (parameter_frame b ps)"
    unfolding st_add_parameter_symbols_def [abs_def] parameter_frame_def
    by (rule walks_cong [OF walks_parameters]) auto
  show "walks (\<lambda>s. and_then (st_add_parameter_symbols b ps s) (k s)) [] (frame # env)
      (us (parameter_frame b ps # frame # env)) (distinct (List.map ap_name ps) \<and> ok) (parameter_frame b ps @ [])"
    using walks_then [OF ps, of k "us (parameter_frame b ps # frame # env)" ok "[]"] assms by simp
qed

lemmas walks_intros = walks_both walks_succeed walks_identifier walks_each_child walks_with_parameters

lemma walks_block:
  assumes "\<And>x a frame env. x \<in> set ss \<Longrightarrow> walks (st_analyze_statement x a) frame env (statement_uses x a (frame # env))
      (clean_statement x \<and> (\<forall>n \<in> set (statement_names x). Some n \<notin> set (symbol_names frame))) (statement_symbols x a)"
  shows "walks (st_analyze_block (AstBlock ss) a) frame env (block_uses (AstBlock ss) a (frame # env)) (clean_block (AstBlock ss)) []"
proof -
  obtain new where "walks (each_child 0 (List.map st_analyze_statement ss) a) [] (frame # env)
      (sequence 0 (zip (List.map statement_uses ss) (List.map statement_symbols ss)) a [] (frame # env))
      (list_all clean_statement ss \<and> distinct (concat (List.map statement_names ss)) \<and>
        (\<forall>n \<in> set (concat (List.map statement_names ss)). Some n \<notin> set (symbol_names []))) new"
    using walks_statements [of ss "frame # env" 0 a "[]"] assms by blast
  then show ?thesis
    using walks_scope by (simp add: list.pred_map comp_def)
qed

lemma walks_all:
  "\<forall>a frame env. walks (st_analyze_expression e a) frame env (expr_uses e a (frame # env)) (clean_expr e) []"
  "\<forall>a frame env. walks (analyze_literal l a) frame env (literal_uses l a (frame # env)) (clean_literal l) []"
  "\<forall>a frame env. walks (analyze_part p a) frame env (part_uses p a (frame # env)) (clean_part p) []"
  "\<forall>a frame env. walks (analyze_body b a) frame env (body_uses b a (frame # env)) (clean_body b) []"
  "\<forall>a frame env. walks (st_analyze_statement s a) frame env (statement_uses s a (frame # env))
     (clean_statement s \<and> (\<forall>n \<in> set (statement_names s). Some n \<notin> set (symbol_names frame))) (statement_symbols s a)"
  "\<forall>a frame env. walks (st_analyze_block k a) frame env (block_uses k a (frame # env)) (clean_block k) []"
proof (induction e and l and p and b and s and k)
  case (AST_STMT_LOCAL_BINDING span is_final is_internal type name name_span e)
  show ?case
  proof (intro allI)
    fix a frame env
    let ?s = "plain_symbol (local_symbol a is_final is_internal type name name_span 0)"
    have s: "sy_name ?s = Some name" "\<And>i. plain_symbol (local_symbol a is_final is_internal type name name_span i) = ?s"
      by (simp_all add: local_symbol_def st_symbol_new_def) (simp add: plain_symbol_def)
    have "walks (\<lambda>i. and_then (st_analyze_expression e (0 # a) i)
          (st_add_local_symbol a is_final is_internal type name name_span i)) frame env
        (expr_uses e (0 # a) (frame # env) @ []) (clean_expr e \<and> Some name \<notin> set (symbol_names (frame @ []))) ([] @ [?s])"
      unfolding st_add_local_symbol_def [abs_def]
      by (rule walks_then [OF _ walks_declare [OF s(2) s(1)]]) (use AST_STMT_LOCAL_BINDING in simp)
    then show "walks (st_analyze_statement (AST_STMT_LOCAL_BINDING span is_final is_internal type name name_span e) a)
        frame env (statement_uses (AST_STMT_LOCAL_BINDING span is_final is_internal type name name_span e) a (frame # env))
        (clean_statement (AST_STMT_LOCAL_BINDING span is_final is_internal type name name_span e) \<and>
          (\<forall>n \<in> set (statement_names (AST_STMT_LOCAL_BINDING span is_final is_internal type name name_span e)).
            Some n \<notin> set (symbol_names frame)))
        (statement_symbols (AST_STMT_LOCAL_BINDING span is_final is_internal type name name_span e) a)"
      by simp
  qed
next
  case (AST_STMT_RETURN span e)
  then show ?case
    by (cases e) (simp_all add: walks_succeed)
next
  case (AstBlock ss)
  then show ?case
    by (intro allI walks_block) simp
qed (simp_all, (intro allI walks_intros; simp)+)

end
