(* ===== verification/SymbolBuild.thy ===== *)
theory SymbolBuild
  imports SymbolLaws "HOL-Library.Sublist" "HOL-Library.Multiset"
begin

text \<open>
  The whole construction of the symbol table: which programs it accepts, and that the table then
  holds what lexical scoping gives for every identifier.
\<close>

section \<open>Imports, names of the top level and declarations in the specification\<close>

definition decl_imports :: "address \<Rightarrow> AstImportDecl \<Rightarrow> Symbol list" where
  "decl_imports a imp =
     (let q = st_qualified_name_to_string (qn_segments (id_module_name imp)); span = qn_tail_span (id_module_name imp)
      in case id_kind imp of
           AST_IMPORT_PLAIN \<Rightarrow> [import_symbol (Some (st_qualified_name_tail (qn_segments (id_module_name imp)))) q span a]
         | AST_IMPORT_ALIAS \<Rightarrow> [import_symbol (id_alias imp) q span a]
         | AST_IMPORT_WILDCARD \<Rightarrow> [(import_symbol None q span a)\<lparr>sy_is_wildcard_import := True\<rparr>]
         | AST_IMPORT_SELECTIVE \<Rightarrow>
             List.map (\<lambda>name. import_symbol (Some name) (q @ CHR ''.'' # name) span a) (id_selected_names imp))"

definition program_imports :: "AstProgram \<Rightarrow> Symbol list" where
  "program_imports p =
     concat (List.map (\<lambda>(i, imp). decl_imports (import_address i) imp) (List.enumerate 0 (pr_imports p)))"

definition given_names :: "Symbol list \<Rightarrow> string list" where
  "given_names ss = List.map_filter sy_name ss"

primrec decl_symbols :: "address \<Rightarrow> AstTopLevelDecl \<Rightarrow> Symbol list" where
  "decl_symbols a (AST_TOP_LEVEL_START d) = []"
| "decl_symbols a (AST_TOP_LEVEL_BOOT d) = []"
| "decl_symbols a (AST_TOP_LEVEL_BINDING d) = [binding_symbol a d]"
| "decl_symbols a (AST_TOP_LEVEL_UNION d) = [union_symbol a d]"
| "decl_symbols a (AST_TOP_LEVEL_EXTERN d) = [extern_symbol a d]"

definition program_symbols :: "AstProgram \<Rightarrow> Symbol list" where
  "program_symbols p =
     concat (List.map (\<lambda>(i, d). decl_symbols (decl_address i) d) (List.enumerate 0 (pr_top_level_decls p)))"

text \<open>An extern may have the name of an import, a binding or a union may not.\<close>

primrec import_conflict :: "string list \<Rightarrow> AstTopLevelDecl \<Rightarrow> bool" where
  "import_conflict names (AST_TOP_LEVEL_START d) = False"
| "import_conflict names (AST_TOP_LEVEL_BOOT d) = False"
| "import_conflict names (AST_TOP_LEVEL_BINDING d) = (bd_name d \<in> set names)"
| "import_conflict names (AST_TOP_LEVEL_UNION d) = (ud_name d \<in> set names)"
| "import_conflict names (AST_TOP_LEVEL_EXTERN d) = False"

primrec decl_uses :: "AstTopLevelDecl \<Rightarrow> address \<Rightarrow> env \<Rightarrow> use list" where
  "decl_uses (AST_TOP_LEVEL_START d) a env =
     body_uses (sd_body d) (length (sd_parameters d) # a) (parameter_frame a (sd_parameters d) # env)"
| "decl_uses (AST_TOP_LEVEL_BOOT d) a env =
     body_uses (bo_body d) (length (bo_parameters d) # a) (parameter_frame a (bo_parameters d) # env)"
| "decl_uses (AST_TOP_LEVEL_BINDING d) a env = expr_uses (bd_initializer d) (0 # a) env"
| "decl_uses (AST_TOP_LEVEL_UNION d) a env = []"
| "decl_uses (AST_TOP_LEVEL_EXTERN d) a env = []"

primrec clean_decl :: "AstTopLevelDecl \<Rightarrow> bool" where
  "clean_decl (AST_TOP_LEVEL_START d) = (distinct (List.map ap_name (sd_parameters d)) \<and> clean_body (sd_body d))"
| "clean_decl (AST_TOP_LEVEL_BOOT d) = (distinct (List.map ap_name (bo_parameters d)) \<and> clean_body (bo_body d))"
| "clean_decl (AST_TOP_LEVEL_BINDING d) = clean_expr (bd_initializer d)"
| "clean_decl (AST_TOP_LEVEL_UNION d) = True"
| "clean_decl (AST_TOP_LEVEL_EXTERN d) = True"

text \<open>The identifiers of a program; in every body the names of the top level are visible.\<close>

definition program_uses :: "AstProgram \<Rightarrow> use list" where
  "program_uses p =
     concat (List.map (\<lambda>(i, d). decl_uses d (decl_address i) [List.map plain_symbol (program_symbols p)])
       (List.enumerate 0 (pr_top_level_decls p)))"

definition clean_program :: "AstProgram \<Rightarrow> bool" where
  "clean_program p \<longleftrightarrow>
     distinct (given_names (program_imports p)) \<and> distinct (given_names (program_symbols p)) \<and>
     (\<forall>d \<in> set (pr_top_level_decls p). \<not> import_conflict (given_names (program_imports p)) d \<and> clean_decl d)"

definition program_resolver :: "AstProgram \<Rightarrow> Resolver" where
  "program_resolver p =
     fold resolve (program_uses p)
       \<lparr>rs_imports = List.map plain_symbol (program_imports p), rs_resolved = [], rs_unresolved = []\<rparr>"

section \<open>Imports\<close>

definition fresh :: "Symbol list \<Rightarrow> Symbol list \<Rightarrow> bool" where
  "fresh old new \<longleftrightarrow> distinct (given_names new) \<and> set (given_names old) \<inter> set (given_names new) = {}"

lemma given_names_simps [simp]:
  "given_names [] = []" "given_names (ss @ ss') = given_names ss @ given_names ss'"
  "given_names (s # ss) = (case sy_name s of None \<Rightarrow> [] | Some n \<Rightarrow> [n]) @ given_names ss"
  by (simp_all add: given_names_def map_filter_def split: option.split)

lemma set_given_names: "n \<in> set (given_names ss) \<longleftrightarrow> Some n \<in> set (symbol_names ss)"
  by (induction ss) (auto split: option.split)

lemma fresh_append: "fresh old (xs @ ys) \<longleftrightarrow> fresh old xs \<and> fresh (old @ xs) ys"
  by (auto simp: fresh_def)

lemma fresh_Nil [simp]: "fresh old []"
  by (simp add: fresh_def)

definition imports_step :: "step \<Rightarrow> Symbol list \<Rightarrow> bool" where
  "imports_step m new \<longleftrightarrow> (\<forall>t. \<not> tb_has_error t \<longrightarrow>
     (case m t of (success, t') \<Rightarrow> (success \<longleftrightarrow> fresh (tb_imports t) new) \<and> (success \<longleftrightarrow> \<not> tb_has_error t') \<and>
        (success \<longrightarrow> t' = t\<lparr>tb_imports := tb_imports t @ new\<rparr>)))"

lemma imports_step_then:
  assumes "imports_step m xs" and "imports_step k ys"
  shows "imports_step (and_then m k) (xs @ ys)"
  unfolding imports_step_def
proof (intro allI impI)
  fix t :: SymbolTable
  assume t: "\<not> tb_has_error t"
  obtain s t' where m: "m t = (s, t')"
    by fastforce
  have first: "s \<longleftrightarrow> fresh (tb_imports t) xs" "s \<longleftrightarrow> \<not> tb_has_error t'"
    "s \<Longrightarrow> t' = t\<lparr>tb_imports := tb_imports t @ xs\<rparr>"
    using assms(1) t m unfolding imports_step_def by force+
  have "case k t' of (success, t'') \<Rightarrow> (success \<longleftrightarrow> fresh (tb_imports t') ys) \<and> (success \<longleftrightarrow> \<not> tb_has_error t'') \<and>
      (success \<longrightarrow> t'' = t'\<lparr>tb_imports := tb_imports t' @ ys\<rparr>)" if s
    using first that by (intro assms(2) [unfolded imports_step_def, rule_format]) simp
  then show "case and_then m k t of (success, t') \<Rightarrow> (success \<longleftrightarrow> fresh (tb_imports t) (xs @ ys)) \<and>
      (success \<longleftrightarrow> \<not> tb_has_error t') \<and> (success \<longrightarrow> t' = t\<lparr>tb_imports := tb_imports t @ (xs @ ys)\<rparr>)"
    using first m by (cases s) (auto simp: and_then_def fresh_append)
qed

lemma imports_step_each:
  "(\<And>x. x \<in> set xs \<Longrightarrow> imports_step (f x) (g x)) \<Longrightarrow> imports_step (each (List.map f xs)) (concat (List.map g xs))"
  by (induction xs) (simp_all add: imports_step_then, simp add: imports_step_def succeed_def)

lemma imports_step_append: "sy_name s = None \<Longrightarrow> imports_step (st_imports_append s) [s]"
  by (simp add: imports_step_def st_imports_append_def fresh_def)

lemma find_import_names: "symbol_table_find_import t name = None \<longleftrightarrow> name \<notin> set (given_names (tb_imports t))"
  by (auto simp: symbol_table_find_import_def find_None_iff set_given_names image_iff)

lemma imports_step_map:
  "(\<And>x. imports_step (f x) [g x]) \<Longrightarrow> imports_step (each (List.map f xs)) (List.map g xs)"
  using imports_step_each [of xs f "\<lambda>x. [g x]"] by (simp add: concat_map_singleton)

lemma imports_step_named:
  "imports_step (named_import name q span a msg) [import_symbol (Some name) q span a]"
  unfolding imports_step_def
proof (intro allI impI)
  fix t :: SymbolTable
  assume t: "\<not> tb_has_error t"
  have "sy_name (import_symbol (Some name) q span a) = Some name"
    by (simp add: import_symbol_def st_symbol_new_def)
  then have "fresh (tb_imports t) [import_symbol (Some name) q span a] \<longleftrightarrow> symbol_table_find_import t name = None"
    by (simp add: fresh_def find_import_names)
  then show "case named_import name q span a msg t of (success, t') \<Rightarrow>
      (success \<longleftrightarrow> fresh (tb_imports t) [import_symbol (Some name) q span a]) \<and> (success \<longleftrightarrow> \<not> tb_has_error t') \<and>
      (success \<longrightarrow> t' = t\<lparr>tb_imports := tb_imports t @ [import_symbol (Some name) q span a]\<rparr>)"
    using t set_error_fails
    by (auto simp: named_import_def st_imports_append_def case_prod_beta split: option.split)
qed

lemma imports_step_decl: "imports_step (st_add_import_symbol a imp) (decl_imports a imp)"
proof (cases "id_kind imp")
  case AST_IMPORT_SELECTIVE
  then show ?thesis
    unfolding st_add_import_symbol_def decl_imports_def Let_def AstImportKind.case AST_IMPORT_SELECTIVE
    by (intro imports_step_map imports_step_named)
qed (auto simp: st_add_import_symbol_def decl_imports_def Let_def imports_step_named import_symbol_def st_symbol_new_def
      intro!: imports_step_append imports_step_named [unfolded import_symbol_def st_symbol_new_def] split: option.split)

lemma imports_step_program: "imports_step (st_add_import_symbols p) (program_imports p)"
  unfolding st_add_import_symbols_def program_imports_def
  by (rule imports_step_each) (auto intro: imports_step_decl)

section \<open>Names of the top level\<close>

text \<open>While the names of the top level are declared there is only the root scope.\<close>

definition root_frame :: "SymbolTable \<Rightarrow> Symbol list" where
  "root_frame t = sc_symbols (tb_scopes t ! 0)"

definition add_root :: "Symbol list \<Rightarrow> SymbolTable \<Rightarrow> SymbolTable" where
  "add_root new t = t\<lparr>tb_scopes := (tb_scopes t)[0 := (tb_scopes t ! 0)\<lparr>sc_symbols := root_frame t @ new\<rparr>]\<rparr>"

definition root_step :: "step \<Rightarrow> (string list \<Rightarrow> bool) \<Rightarrow> Symbol list \<Rightarrow> bool" where
  "root_step m conflict new \<longleftrightarrow> (\<forall>t. \<not> tb_has_error t \<longrightarrow> tb_scopes t \<noteq> [] \<longrightarrow>
     (case m t of (success, t') \<Rightarrow>
        (success \<longleftrightarrow> fresh (root_frame t) new \<and> \<not> conflict (given_names (tb_imports t))) \<and>
        (success \<longleftrightarrow> \<not> tb_has_error t') \<and> (success \<longrightarrow> t' = add_root new t)))"

lemma add_root_simps [simp]:
  "tb_scopes t \<noteq> [] \<Longrightarrow> root_frame (add_root new t) = root_frame t @ new"
  "tb_scopes t \<noteq> [] \<Longrightarrow> add_root new' (add_root new t) = add_root (new @ new') t"
  "tb_has_error (add_root new t) = tb_has_error t" "tb_imports (add_root new t) = tb_imports t"
  "tb_scopes (add_root new t) = [] \<longleftrightarrow> tb_scopes t = []"
  by (simp_all add: add_root_def root_frame_def)

lemma root_step_then:
  assumes "root_step m c xs" and "root_step k c' ys"
  shows "root_step (and_then m k) (\<lambda>names. c names \<or> c' names) (xs @ ys)"
  unfolding root_step_def
proof (intro allI impI)
  fix t :: SymbolTable
  assume t: "\<not> tb_has_error t" "tb_scopes t \<noteq> []"
  obtain s t' where m: "m t = (s, t')"
    by fastforce
  have first: "s \<longleftrightarrow> fresh (root_frame t) xs \<and> \<not> c (given_names (tb_imports t))" "s \<longleftrightarrow> \<not> tb_has_error t'"
    "s \<Longrightarrow> t' = add_root xs t"
    using assms(1) t m unfolding root_step_def by force+
  have "case k t' of (success, t'') \<Rightarrow>
      (success \<longleftrightarrow> fresh (root_frame t') ys \<and> \<not> c' (given_names (tb_imports t'))) \<and>
      (success \<longleftrightarrow> \<not> tb_has_error t'') \<and> (success \<longrightarrow> t'' = add_root ys t')" if s
    using first that t(2) by (intro assms(2) [unfolded root_step_def, rule_format]) simp_all
  then show "case and_then m k t of (success, t') \<Rightarrow>
      (success \<longleftrightarrow> fresh (root_frame t) (xs @ ys) \<and>
         \<not> (c (given_names (tb_imports t)) \<or> c' (given_names (tb_imports t)))) \<and>
      (success \<longleftrightarrow> \<not> tb_has_error t') \<and> (success \<longrightarrow> t' = add_root (xs @ ys) t)"
    using first m t(2) by (cases s) (auto simp: and_then_def fresh_append)
qed

lemma root_step_each:
  "(\<And>x. x \<in> set xs \<Longrightarrow> root_step (f x) (c x) (g x)) \<Longrightarrow>
    root_step (each (List.map f xs)) (\<lambda>names. \<exists>x \<in> set xs. c x names) (concat (List.map g xs))"
proof (induction xs)
  case Nil
  then show ?case
    by (simp add: root_step_def succeed_def add_root_def root_frame_def)
next
  case (Cons x xs)
  then show ?case
    using root_step_then [of "f x" "c x" "g x" "each (List.map f xs)"] by simp
qed

lemma root_lookup: "scope_lookup_local (tb_scopes t ! 0) name = None \<longleftrightarrow> name \<notin> set (given_names (root_frame t))"
  by (auto simp: scope_lookup_local_def find_None_iff set_given_names image_iff root_frame_def)

lemma root_step_declare:
  assumes "sy_name s = Some name" and
    "\<And>t. conflicting t = None \<longleftrightarrow> name \<notin> set (given_names (root_frame t)) \<and> \<not> c (given_names (tb_imports t))"
  shows "root_step (\<lambda>t. declare_unless (conflicting t) span name 0 s t) c [s]"
  unfolding root_step_def
proof (intro allI impI)
  fix t :: SymbolTable
  assume t: "\<not> tb_has_error t" "tb_scopes t \<noteq> []"
  have "fresh (root_frame t) [s] \<and> \<not> c (given_names (tb_imports t)) \<longleftrightarrow> conflicting t = None"
    using assms by (simp add: fresh_def)
  then show "case declare_unless (conflicting t) span name 0 s t of (success, t') \<Rightarrow>
      (success \<longleftrightarrow> fresh (root_frame t) [s] \<and> \<not> c (given_names (tb_imports t))) \<and>
      (success \<longleftrightarrow> \<not> tb_has_error t') \<and> (success \<longrightarrow> t' = add_root [s] t)"
    using t set_error_fails
    by (auto simp: declare_unless_def st_scope_append_symbol_def add_root_def root_frame_def case_prod_beta
        split: option.split)
qed

lemma root_step_decl: "root_step (st_predeclare a d) (\<lambda>names. import_conflict names d) (decl_symbols a d)"
proof (cases d)
  case (AST_TOP_LEVEL_BINDING b)
  have "root_step (\<lambda>t. declare_unless (local_or_import t (bd_name b)) (bd_name_span b) (bd_name b) 0 (binding_symbol a b) t)
      (\<lambda>names. bd_name b \<in> set names) [binding_symbol a b]"
    by (rule root_step_declare)
      (auto simp: binding_symbol_def st_symbol_new_def local_or_import_def root_lookup [symmetric]
        find_import_names [symmetric] split: option.split)
  then show ?thesis
    by (simp add: AST_TOP_LEVEL_BINDING st_predeclare_def [abs_def])
next
  case (AST_TOP_LEVEL_UNION b)
  have "root_step (\<lambda>t. declare_unless (local_or_import t (ud_name b)) (ud_name_span b) (ud_name b) 0 (union_symbol a b) t)
      (\<lambda>names. ud_name b \<in> set names) [union_symbol a b]"
    by (rule root_step_declare)
      (auto simp: union_symbol_def st_symbol_new_def local_or_import_def root_lookup [symmetric]
        find_import_names [symmetric] split: option.split)
  then show ?thesis
    by (simp add: AST_TOP_LEVEL_UNION st_predeclare_def [abs_def])
next
  case (AST_TOP_LEVEL_EXTERN b)
  have "root_step (\<lambda>t. declare_unless (scope_lookup_local (tb_scopes t ! 0) (xd_name b)) (xd_name_span b) (xd_name b) 0
      (extern_symbol a b) t) (\<lambda>names. False) [extern_symbol a b]"
    by (rule root_step_declare) (auto simp: extern_symbol_def st_symbol_new_def root_lookup)
  then show ?thesis
    by (simp add: AST_TOP_LEVEL_EXTERN st_predeclare_def [abs_def])
qed (simp_all add: root_step_def st_predeclare_def add_root_def root_frame_def)

lemma ball_enumerate: "(\<forall>x \<in> set (List.enumerate i xs). P (snd x)) \<longleftrightarrow> (\<forall>x \<in> set xs. P x)"
  by (induction xs arbitrary: i) simp_all

lemma root_step_program: "root_step (st_predeclare_top_level_bindings p)
    (\<lambda>names. \<exists>d \<in> set (pr_top_level_decls p). import_conflict names d) (program_symbols p)"
proof -
  let ?ds = "List.enumerate 0 (pr_top_level_decls p)"
  have "root_step (each (List.map (\<lambda>(i, d). st_predeclare (decl_address i) d) ?ds))
      (\<lambda>names. \<exists>x \<in> set ?ds. import_conflict names (snd x))
      (concat (List.map (\<lambda>(i, d). decl_symbols (decl_address i) d) ?ds))"
    by (rule root_step_each) (auto intro: root_step_decl)
  moreover have "(\<exists>x \<in> set ?ds. import_conflict names (snd x)) \<longleftrightarrow>
      (\<exists>d \<in> set (pr_top_level_decls p). import_conflict names d)" for names
    using ball_enumerate [of 0 "pr_top_level_decls p" "\<lambda>d. \<not> import_conflict names d"] by blast
  ultimately show ?thesis
    by (simp add: st_predeclare_top_level_bindings_def program_symbols_def)
qed

section \<open>Bodies\<close>

lemma walks_append: "(\<And>i. plain_symbol (f i) = s) \<Longrightarrow> walks (\<lambda>i. st_scope_append_symbol i (f i)) frame env [] True [s]"
proof (unfold walks_def, intro allI impI)
  fix i and t :: SymbolTable
  assume f: "\<And>i. plain_symbol (f i) = s"
  assume t: "in_env (tb_scopes t) (Some i) (frame # env)" "\<not> tb_has_error t"
  have "i < length (tb_scopes t)"
    using env_length [OF t(1)] by simp
  then show "case st_scope_append_symbol i (f i) t of (success, t') \<Rightarrow>
      (success \<longleftrightarrow> True) \<and> (success \<longleftrightarrow> \<not> tb_has_error t') \<and>
      (success \<longrightarrow> resolver_of t' = fold resolve [] (resolver_of t) \<and> extends i [s] t t' \<and>
        tb_package_symbol t' = tb_package_symbol t)"
    using t(2) f by (auto simp: st_scope_append_symbol_def resolver_of_def extends_def nth_list_update scope_frame_def)
qed

lemma walks_appends:
  assumes "\<And>x i j. plain_symbol (f x i) = plain_symbol (f x j)"
  shows "walks (\<lambda>i. each (List.map (\<lambda>x. st_scope_append_symbol i (f x i)) xs)) frame env [] True
    (List.map (\<lambda>x. plain_symbol (f x 0)) xs)"
proof (induction xs arbitrary: frame)
  case Nil
  then show ?case
    using walks_succeed by simp
next
  case (Cons x xs)
  have "walks (\<lambda>i. st_scope_append_symbol i (f x i)) frame env [] True [plain_symbol (f x 0)]"
    by (rule walks_append) (rule assms)
  from walks_then [OF this Cons.IH] show ?case
    by simp
qed

lemma walks_union: "walks (st_analyze_union_decl d a) frame env [] True []"
proof -
  have "walks (\<lambda>s. and_then
        (each (List.map (\<lambda>p. st_scope_append_symbol s (type_param_symbol a d s p)) (ud_generic_params d)))
        (each (List.map (\<lambda>(i, v). st_scope_append_symbol s (variant_symbol a d s i v)) (List.enumerate 0 (ud_variants d)))))
      [] (frame # env) ([] @ []) (True \<and> True)
      (List.map (\<lambda>p. plain_symbol (type_param_symbol a d 0 p)) (ud_generic_params d) @
        List.map (\<lambda>x. plain_symbol (variant_symbol a d 0 (fst x) (snd x))) (List.enumerate 0 (ud_variants d)))"
    unfolding case_prod_beta
    by (rule walks_then; rule walks_appends)
      (simp_all add: type_param_symbol_def variant_symbol_def st_symbol_new_def plain_symbol_def)
  then show ?thesis
    unfolding st_analyze_union_decl_def [abs_def] by (intro walks_scope) simp
qed

lemma walks_decl: "walks (st_analyze_top_level_decl d a) frame env (decl_uses d a (frame # env)) (clean_decl d) []"
proof (cases d)
  case (AST_TOP_LEVEL_START s)
  then show ?thesis
    using walks_with_parameters [of "analyze_body (sd_body s) (length (sd_parameters s) # a)"
        "body_uses (sd_body s) (length (sd_parameters s) # a)"] walks_all(4)
    by (simp add: st_analyze_start_decl_def [abs_def])
next
  case (AST_TOP_LEVEL_BOOT s)
  then show ?thesis
    using walks_with_parameters [of "analyze_body (bo_body s) (length (bo_parameters s) # a)"
        "body_uses (bo_body s) (length (bo_parameters s) # a)"] walks_all(4)
    by (simp add: st_analyze_boot_decl_def [abs_def])
qed (simp_all add: walks_all(1) walks_union walks_succeed)

lemma walks_decls:
  "walks (\<lambda>i. each (List.map (\<lambda>(k, d). st_analyze_top_level_decl d (decl_address k) i) ds)) frame env
    (concat (List.map (\<lambda>(k, d). decl_uses d (decl_address k) (frame # env)) ds)) (\<forall>x \<in> set ds. clean_decl (snd x)) []"
proof (induction ds)
  case Nil
  then show ?case
    using walks_succeed by simp
next
  case (Cons x xs)
  then show ?case
    using walks_both [OF walks_decl Cons.IH] by (cases x) simp
qed

section \<open>The table of a program\<close>

definition start_table :: SymbolTable where
  "start_table = snd (st_scope_new SCOPE_KIND_PROGRAM program_address None symbol_table_init)"

lemma start_table_fields:
  "\<not> tb_has_error start_table" "length (tb_scopes start_table) = 1" "tb_imports start_table = []"
  "root_frame start_table = []" "sc_parent (tb_scopes start_table ! 0) = None"
  "tb_resolutions start_table = []" "tb_unresolved_identifiers start_table = []"
  by (simp_all add: start_table_def st_scope_new_def symbol_table_init_def root_frame_def)

lemma package_step:
  "\<exists>t. st_add_package_symbol p start_table = (True, t) \<and> \<not> tb_has_error t \<and> tb_scopes t = tb_scopes start_table \<and>
     tb_imports t = [] \<and> tb_resolutions t = [] \<and> tb_unresolved_identifiers t = []"
  using start_table_fields by (auto simp: st_add_package_symbol_def split: option.split)

lemma build_result:
  "case symbol_table_build p of (success, t) \<Rightarrow>
     (success \<longleftrightarrow> clean_program p) \<and> (success \<longleftrightarrow> \<not> tb_has_error t) \<and>
     (success \<longrightarrow> resolver_of t = program_resolver p)"
proof -
  obtain t0 where t0: "st_add_package_symbol p start_table = (True, t0)" "\<not> tb_has_error t0"
    "tb_scopes t0 = tb_scopes start_table" "tb_imports t0 = []" "tb_resolutions t0 = []" "tb_unresolved_identifiers t0 = []"
    using package_step by blast
  let ?m1 = "st_add_import_symbols p" and ?m2 = "st_predeclare_top_level_bindings p"
  let ?m3 = "each (List.map (\<lambda>(i, d). st_analyze_top_level_decl d (decl_address i) 0) (List.enumerate 0 (pr_top_level_decls p)))"
  have build: "symbol_table_build p = and_then ?m1 (and_then ?m2 ?m3) t0"
    by (simp add: symbol_table_build_def start_table_def [symmetric] and_then_def [of "st_add_package_symbol p"] t0(1))
  obtain s1 t1 where m1: "?m1 t0 = (s1, t1)"
    by fastforce
  have s1: "s1 \<longleftrightarrow> distinct (given_names (program_imports p))" "s1 \<longleftrightarrow> \<not> tb_has_error t1"
    "s1 \<Longrightarrow> t1 = t0\<lparr>tb_imports := program_imports p\<rparr>"
    using imports_step_program [of p, unfolded imports_step_def, rule_format, OF t0(2)] m1 t0(4)
    by (auto simp: fresh_def)
  show ?thesis
  proof (cases s1)
    case False
    then show ?thesis
      using s1 m1 by (simp add: build and_then_def clean_program_def)
  next
    case True
    then have t1: "t1 = t0\<lparr>tb_imports := program_imports p\<rparr>" "\<not> tb_has_error t1"
      using s1 by blast+
    then have scopes1: "tb_scopes t1 = tb_scopes start_table" "tb_scopes t1 \<noteq> []" "root_frame t1 = []"
      using t0(3) start_table_fields by (auto simp: root_frame_def)
    obtain s2 t2 where m2: "?m2 t1 = (s2, t2)"
      by fastforce
    have s2: "s2 \<longleftrightarrow> distinct (given_names (program_symbols p)) \<and>
        \<not> (\<exists>d \<in> set (pr_top_level_decls p). import_conflict (given_names (program_imports p)) d)"
      "s2 \<longleftrightarrow> \<not> tb_has_error t2" "s2 \<Longrightarrow> t2 = add_root (program_symbols p) t1"
      using root_step_program [of p, unfolded root_step_def, rule_format, OF t1(2) scopes1(2)] m2 scopes1(3) t1(1)
      by (auto simp: fresh_def)
    show ?thesis
    proof (cases s2)
      case False
      then show ?thesis
        using s1 s2 m1 m2 \<open>s1\<close> by (auto simp: build and_then_def clean_program_def)
    next
      case True
      then have t2: "t2 = add_root (program_symbols p) t1" "\<not> tb_has_error t2"
        using s2 by blast+
      have root: "length (tb_scopes t2) = 1" "sc_parent (tb_scopes t2 ! 0) = None"
        "scope_frame (tb_scopes t2 ! 0) = List.map plain_symbol (program_symbols p)"
        using scopes1 start_table_fields
        by (auto simp: t2(1) add_root_def scope_frame_def root_frame_def)
      then have env: "in_env (tb_scopes t2) (Some 0) [List.map plain_symbol (program_symbols p)]"
        using in_env.Scope [of 0 "tb_scopes t2" "[]"] in_env.Root by simp
      obtain s3 t3 where m3: "?m3 t2 = (s3, t3)"
        by fastforce
      have s3: "s3 \<longleftrightarrow> (\<forall>d \<in> set (pr_top_level_decls p). clean_decl d)" "s3 \<longleftrightarrow> \<not> tb_has_error t3"
        "s3 \<Longrightarrow> resolver_of t3 = fold resolve (program_uses p) (resolver_of t2)"
        using walks_decls [of "List.enumerate 0 (pr_top_level_decls p)" _ "[]", unfolded walks_def, rule_format, OF env t2(2)] m3
        by (auto simp: program_uses_def ball_enumerate [of 0 _ clean_decl])
      have "resolver_of t2 = \<lparr>rs_imports = List.map plain_symbol (program_imports p), rs_resolved = [], rs_unresolved = []\<rparr>"
        using t0(5,6) by (simp add: t2(1) t1(1) add_root_def resolver_of_def)
      then show ?thesis
        using s1 s2 s3 m1 m2 m3 \<open>s1\<close> \<open>s2\<close>
        by (auto simp: build and_then_def clean_program_def program_resolver_def)
    qed
  qed
qed

section \<open>Every identifier has an address of its own\<close>

definition at_or_below :: "address \<Rightarrow> use list \<Rightarrow> bool" where
  "at_or_below a us \<longleftrightarrow> distinct (List.map fst us) \<and> (\<forall>x \<in> set us. suffix a (fst x))"

definition from_child :: "nat \<Rightarrow> address \<Rightarrow> use list \<Rightarrow> bool" where
  "from_child k a us \<longleftrightarrow> distinct (List.map fst us) \<and> (\<forall>x \<in> set us. \<exists>j \<ge> k. suffix (j # a) (fst x))"

lemma suffix_child:
  assumes "suffix (i # a) x" and "suffix (j # a) x"
  shows "i = j"
proof -
  obtain ps qs where "ps @ i # a = qs @ j # a"
    using assms by (auto simp: suffix_def)
  then have "(ps @ [i]) @ a = (qs @ [j]) @ a"
    by simp
  then show ?thesis
    unfolding append_same_eq by simp
qed

lemma from_child_below: "from_child k a us \<Longrightarrow> at_or_below a us"
  unfolding from_child_def at_or_below_def by (blast intro: suffix_ConsD)

lemma from_child_one: "at_or_below (k # a) us \<Longrightarrow> from_child k a us"
  by (auto simp: from_child_def at_or_below_def)

lemma from_child_Nil: "from_child k a []"
  by (simp add: from_child_def)

lemma from_child_append:
  assumes "at_or_below (k # a) us" and "from_child (Suc k) a us'"
  shows "from_child k a (us @ us')"
proof -
  have "fst x \<noteq> fst y" if "x \<in> set us" "y \<in> set us'" for x y
    using assms that suffix_child [of k a "fst x"] by (fastforce simp: at_or_below_def from_child_def)
  moreover have "\<exists>j \<ge> k. suffix (j # a) (fst x)" if "x \<in> set us'" for x
    using assms(2) that by (auto simp: from_child_def dest: Suc_leD)
  ultimately show ?thesis
    using assms by (auto simp: at_or_below_def from_child_def)
qed

lemma from_child_children:
  "(\<And>x a. x \<in> set xs \<Longrightarrow> at_or_below a (u x a env)) \<Longrightarrow> from_child k a (children k (List.map u xs) a env)"
  by (induction xs arbitrary: k) (simp_all add: children_def from_child_Nil from_child_append)

lemma from_child_sequence:
  "(\<And>x a env. x \<in> set xs \<Longrightarrow> at_or_below a (u x a env)) \<Longrightarrow>
    from_child k a (sequence k (zip (List.map u xs) (List.map d xs)) a frame env)"
  by (induction xs arbitrary: k frame) (simp_all add: from_child_Nil from_child_append)

lemmas child_intros = from_child_one from_child_append from_child_children from_child_sequence

lemma below_two: "at_or_below (0 # a) us \<Longrightarrow> at_or_below (1 # a) us' \<Longrightarrow> at_or_below a (us @ us')"
  using from_child_append [of 0 a us us'] from_child_one [of 1 a us'] from_child_below by simp

lemma below_three: "at_or_below (0 # a) us \<Longrightarrow> at_or_below (1 # a) us' \<Longrightarrow> at_or_below (2 # a) us'' \<Longrightarrow>
    at_or_below a (us @ us' @ us'')"
  using from_child_append [of 0 a us "us' @ us''"] from_child_append [of 1 a us' us''] from_child_one [of 2 a us'']
    from_child_below by (simp add: numeral_2_eq_2)

lemma below_child: "at_or_below (i # a) us \<Longrightarrow> at_or_below a us"
  using from_child_one from_child_below by blast

text \<open>The uses of a construct lie at its address or below, each at an address of its own.\<close>

definition located :: "(address \<Rightarrow> env \<Rightarrow> use list) \<Rightarrow> bool" where
  "located u \<longleftrightarrow> (\<forall>a env. at_or_below a (u a env))"

lemma locatedD: "located u \<Longrightarrow> at_or_below a (u a env)"
  by (simp add: located_def)

lemma located_Nil: "located (\<lambda>a env. [])"
  by (simp add: located_def at_or_below_def)

lemma located_self: "located (\<lambda>a env. [(a, f a env)])"
  by (simp add: located_def at_or_below_def)

lemma located_child: "located u \<Longrightarrow> located (\<lambda>a. u (i # a))"
  by (auto simp: located_def intro: below_child)

lemma located_inner: "located u \<Longrightarrow> located (\<lambda>a env. u (i # a) (f a # env))"
  by (auto simp: located_def intro: below_child)

lemma located_two: "located u \<Longrightarrow> located v \<Longrightarrow> located (\<lambda>a env. u (0 # a) env @ v (1 # a) env)"
  unfolding located_def by (intro allI below_two) blast+

lemma located_three:
  "located u \<Longrightarrow> located v \<Longrightarrow> located w \<Longrightarrow> located (\<lambda>a env. u (0 # a) env @ v (1 # a) env @ w (2 # a) env)"
  unfolding located_def by (intro allI below_three) blast+

lemma located_children: "(\<And>x. x \<in> set xs \<Longrightarrow> located (u x)) \<Longrightarrow> located (children k (List.map u xs))"
  by (simp add: located_def from_child_below [OF from_child_children])

lemma located_call:
  "located u \<Longrightarrow> (\<And>x. x \<in> set xs \<Longrightarrow> located (v x)) \<Longrightarrow>
    located (\<lambda>a env. u (0 # a) env @ children 1 (List.map v xs) a env)"
  by (simp add: located_def from_child_below [OF from_child_append [where k = 0]] from_child_children)

lemma located_sequence:
  "(\<And>x. x \<in> set xs \<Longrightarrow> located (u x)) \<Longrightarrow> located (\<lambda>a. sequence 0 (zip (List.map u xs) (List.map d xs)) a [])"
  by (simp add: located_def from_child_below [OF from_child_sequence])

lemma located_return:
  "(\<And>x. e = Some x \<Longrightarrow> located (u x)) \<Longrightarrow>
    located (\<lambda>a env. case map_option u e of None \<Rightarrow> [] | Some v \<Rightarrow> v (0 # a) env)"
  by (cases e) (auto simp: located_Nil intro: located_child)

lemmas located_rules = located_Nil located_self located_two located_three located_children located_call
  located_sequence located_return located_inner located_child

lemma uses_located:
  "located (expr_uses e)" "located (literal_uses l)" "located (part_uses p)"
  "located (body_uses b)" "located (statement_uses s)" "located (block_uses k)"
proof (induction e and l and p and b and s and k)
  case (AST_EXPR_CALL span callee args)
  then show ?case
    by (simp only: expr_uses.simps) (rule located_call)
next
  case (AST_STMT_RETURN span e)
  then show ?case
    by (simp only: statement_uses.simps) (rule located_return, simp)
next
  case (AST_EXPR_LAMBDA span ps b)
  then show ?case
    by (simp only: expr_uses.simps) (rule located_inner)
qed (simp_all only: expr_uses.simps literal_uses.simps part_uses.simps body_uses.simps statement_uses.simps
    block_uses.simps, (rule located_rules; assumption)+)

lemma decl_addresses: "at_or_below a (decl_uses d a env)"
  by (cases d) (simp_all add: below_child [OF locatedD [OF uses_located(1)]]
    below_child [OF locatedD [OF uses_located(4)]] at_or_below_def [of _ "[]"])

lemma program_addresses: "distinct (List.map fst (program_uses p))"
proof -
  have "from_child k [2] (concat (List.map (\<lambda>(i, d). decl_uses d (decl_address i) env) (List.enumerate k ds)))" for k ds env
    by (induction ds arbitrary: k)
      (simp_all add: from_child_Nil from_child_append decl_address_def decl_addresses)
  then show ?thesis
    unfolding program_uses_def from_child_def by blast
qed

section \<open>What resolving keeps\<close>

lemma resolve_imports: "\<exists>new. rs_imports (resolve u r) = rs_imports r @ new"
  by (cases u) (auto simp: resolve_def Let_def split: option.split)

lemma visible_more: "visible env imports name = Some s \<Longrightarrow> visible env (imports @ new) name = Some s"
  by (auto simp: visible_def find_append split: option.splits)

lemma resolve_keeps: "set (rs_resolved r) \<subseteq> set (rs_resolved (fold resolve us r))"
proof (induction us arbitrary: r)
  case (Cons u us)
  have "set (rs_resolved r) \<subseteq> set (rs_resolved (resolve u r))"
    by (cases u) (auto simp: resolve_def Let_def split: option.split)
  then show ?case
    using Cons [of "resolve u r"] by auto
qed simp

lemma resolve_visible:
  "(a, span, name, env) \<in> set us \<Longrightarrow> visible env (rs_imports r) name = Some s \<Longrightarrow>
    (a, span, s) \<in> set (rs_resolved (fold resolve us r))"
proof (induction us arbitrary: r)
  case (Cons u us)
  show ?case
  proof (cases "u = (a, span, name, env)")
    case True
    then show ?thesis
      using Cons.prems(2) resolve_keeps [of "resolve u r" us] by (auto simp: resolve_def)
  next
    case False
    obtain new where "rs_imports (resolve u r) = rs_imports r @ new"
      using resolve_imports by blast
    then show ?thesis
      using Cons False visible_more [of env "rs_imports r" name s new] by simp
  qed
qed simp

lemma resolve_counts:
  "mset (List.map fst (rs_resolved (fold resolve us r))) + mset (List.map fst (rs_unresolved (fold resolve us r))) =
    mset (List.map fst (rs_resolved r)) + mset (List.map fst (rs_unresolved r)) + mset (List.map fst us)"
proof (induction us arbitrary: r)
  case (Cons u us)
  have "mset (List.map fst (rs_resolved (resolve u r))) + mset (List.map fst (rs_unresolved (resolve u r))) =
      mset (List.map fst (rs_resolved r)) + mset (List.map fst (rs_unresolved r)) + {#fst u#}"
    by (cases u) (simp add: resolve_def Let_def split: option.split)
  then show ?case
    using Cons [of "resolve u r"] by simp
qed simp

lemma resolve_wildcard:
  "\<exists>s \<in> set (rs_imports r). sy_is_wildcard_import s \<Longrightarrow> rs_unresolved (fold resolve us r) = rs_unresolved r"
proof (induction us arbitrary: r)
  case (Cons u us)
  have "find sy_is_wildcard_import (rs_imports r) \<noteq> None"
    using Cons.prems by (auto simp: find_None_iff)
  then have "rs_unresolved (resolve u r) = rs_unresolved r"
    by (cases u) (auto simp: resolve_def Let_def split: option.split)
  moreover obtain new where "rs_imports (resolve u r) = rs_imports r @ new"
    using resolve_imports by blast
  then have "\<exists>s \<in> set (rs_imports (resolve u r)). sy_is_wildcard_import s"
    using Cons.prems by auto
  ultimately show ?case
    using Cons.IH [of "resolve u r"] by simp
qed simp

lemma find_distinct:
  "distinct (List.map f xs) \<Longrightarrow> x \<in> set xs \<Longrightarrow> find (\<lambda>y. f y = f x) xs = Some x"
  by (induction xs) (auto simp: image_iff)

section \<open>Properties of the symbol table\<close>

text \<open>
  C11 Rejected programs.  Building the symbol table fails, with an error recorded, exactly when two
  imports share a name, two bindings, unions or externs of the top level do, a binding or a union
  and an import do, two parameters of one function do, or two locals of one block do.  Nothing else
  is compared: an extern may have the name of an import, a local that of a parameter, and the
  generic parameters and the variants of a union may repeat.
\<close>

theorem symbol_table_build_accepts:
  "fst (symbol_table_build p) = clean_program p \<and> tb_has_error (snd (symbol_table_build p)) = (\<not> clean_program p)"
  using build_result [of p] by (auto simp: case_prod_beta)

text \<open>
  C10 Lexical scoping.  The scopes with their parents and symbols that the code builds resolve the
  identifiers of an accepted program as environments do: in the order of the program, each to the
  innermost symbol of its name declared before it in an enclosing scope, to the first import of
  the name, or to a new import from the first wildcard import; the others are listed as unresolved.
\<close>

theorem symbol_table_build_scoping:
  assumes "clean_program p"
  shows "resolver_of (snd (symbol_table_build p)) = program_resolver p"
  using build_result [of p] assms by (auto simp: case_prod_beta)

lemma build_resolved: "clean_program p \<Longrightarrow> resolver_of (snd (symbol_table_build p)) = program_resolver p"
  using build_result [of p] by (auto simp: case_prod_beta)

lemma build_counts:
  assumes "clean_program p"
  shows "mset (List.map re_identifier (tb_resolutions (snd (symbol_table_build p)))) +
      mset (List.map un_identifier (tb_unresolved_identifiers (snd (symbol_table_build p)))) =
    mset (List.map fst (program_uses p))"
  using resolve_counts [of "program_uses p"
      "\<lparr>rs_imports = List.map plain_symbol (program_imports p), rs_resolved = [], rs_unresolved = []\<rparr>"]
    build_resolved [OF assms, symmetric]
  by (simp add: program_resolver_def [symmetric]) (simp add: resolver_of_def multiset.map_comp comp_def)

text \<open>
  C12 The symbol of an identifier.  For every identifier of an accepted program of which a
  declaration is visible, \<open>symbol_table_resolve_identifier\<close> returns the innermost one.
\<close>

theorem resolve_identifier_innermost:
  assumes "clean_program p" and "(a, span, name, env) \<in> set (program_uses p)"
    and "visible env (List.map plain_symbol (program_imports p)) name = Some s"
  shows "map_option plain_symbol (symbol_table_resolve_identifier (snd (symbol_table_build p)) a) = Some s"
proof -
  let ?t = "snd (symbol_table_build p)"
  have "(a, span, s) \<in> set (rs_resolved (program_resolver p))"
    unfolding program_resolver_def using assms(2,3) by (intro resolve_visible) simp_all
  then obtain r where r: "r \<in> set (tb_resolutions ?t)" "re_identifier r = a" "plain_symbol (re_symbol r) = s"
    using build_resolved [OF assms(1), symmetric] by (auto simp: resolver_of_def)
  have "distinct (List.map re_identifier (tb_resolutions ?t))"
    using mset_eq_imp_distinct_iff [OF build_counts [OF assms(1), folded mset_append]] program_addresses [of p]
    by simp
  from find_distinct [OF this r(1)] r show ?thesis
    by (simp add: symbol_table_resolve_identifier_def symbol_table_find_resolution_def)
qed

text \<open>
  C13 No identifier is lost.  After success every identifier of the program has exactly one entry,
  among the resolved or among the unresolved ones; with a wildcard import in the program, none is
  unresolved.
\<close>

theorem every_identifier_once:
  assumes "clean_program p"
  shows "mset (List.map re_identifier (tb_resolutions (snd (symbol_table_build p)))) +
      mset (List.map un_identifier (tb_unresolved_identifiers (snd (symbol_table_build p)))) =
      mset (List.map fst (program_uses p)) \<and> distinct (List.map fst (program_uses p)) \<and>
    ((\<exists>s \<in> set (program_imports p). sy_is_wildcard_import s) \<longrightarrow>
      tb_unresolved_identifiers (snd (symbol_table_build p)) = [])"
proof -
  have "rs_unresolved (program_resolver p) = []" if "\<exists>s \<in> set (program_imports p). sy_is_wildcard_import s"
    unfolding program_resolver_def using that by (subst resolve_wildcard) auto
  then show ?thesis
    using build_counts [OF assms] program_addresses [of p] build_resolved [OF assms, symmetric]
    by (auto simp: resolver_of_def)
qed

section \<open>A program\<close>

text \<open>\<open>f = (T a) -> { b = a; b; g; };\<close> with no import and no declaration of \<open>g\<close>.\<close>

definition sample_block :: AstBlock where
  "sample_block = AstBlock
     [AST_STMT_LOCAL_BINDING zero_span False False None ''b'' zero_span (AST_EXPR_IDENTIFIER zero_span ''a''),
      AST_STMT_EXPRESSION zero_span (AST_EXPR_IDENTIFIER zero_span ''b''),
      AST_STMT_EXPRESSION zero_span (AST_EXPR_IDENTIFIER zero_span ''g'')]"

definition sample_binding :: AstBindingDecl where
  "sample_binding =
     \<lparr>bd_modifiers = [], bd_declared_type = None, bd_name = ''f'', bd_name_span = zero_span,
      bd_initializer = AST_EXPR_LAMBDA zero_span
        [\<lparr>ap_type = AST_TYPE_NAMED ''T'' [] [], ap_name = ''a'', ap_name_span = zero_span, ap_is_varargs = False\<rparr>]
        (AST_LAMBDA_BODY_BLOCK sample_block)\<rparr>"

definition sample_program :: AstProgram where
  "sample_program =
     \<lparr>pr_package_name = None, pr_imports = [], pr_top_level_decls = [AST_TOP_LEVEL_BINDING sample_binding]\<rparr>"

lemmas sample_defs = sample_program_def sample_binding_def sample_block_def

lemma sample_clean: "clean_program sample_program"
  by (simp add: sample_defs clean_program_def program_imports_def program_symbols_def binding_symbol_def st_symbol_new_def)

lemma sample_symbols: "program_imports sample_program = []"
  "program_symbols sample_program = [binding_symbol [0, 2] sample_binding]"
  by (simp_all add: sample_program_def program_imports_def program_symbols_def decl_address_def)

lemmas symbol_defs = plain_symbol_def parameter_symbol_def local_symbol_def binding_symbol_def st_symbol_new_def

text \<open>\<open>import std; extern std = c(); union U<T, T> { A, A };\<close> and \<open>import std.*;\<close>.\<close>

definition std_import :: "AstImportKind \<Rightarrow> AstImportDecl" where
  "std_import kind =
     \<lparr>id_kind = kind, id_module_name = \<lparr>qn_segments = [''std''], qn_source_span = zero_span, qn_tail_span = zero_span\<rparr>,
      id_alias = None, id_selected_names = []\<rparr>"

definition repeating_program :: AstProgram where
  "repeating_program =
     \<lparr>pr_package_name = None, pr_imports = [std_import AST_IMPORT_PLAIN],
      pr_top_level_decls =
        [AST_TOP_LEVEL_EXTERN \<lparr>xd_name = ''std'', xd_return_type = AST_TYPE_VOID, xd_parameters = [], xd_name_span = zero_span\<rparr>,
         AST_TOP_LEVEL_UNION
           \<lparr>ud_modifiers = [], ud_name = ''U'', ud_name_span = zero_span, ud_generic_params = [''T'', ''T''],
            ud_variants = replicate 2 \<lparr>uv_name = ''A'', uv_payload_type = None\<rparr>\<rparr>]\<rparr>"

definition open_program :: AstProgram where
  "open_program = sample_program\<lparr>pr_imports := [std_import AST_IMPORT_WILDCARD]\<rparr>"

lemma open_imports: "program_imports open_program = decl_imports (import_address 0) (std_import AST_IMPORT_WILDCARD)"
  by (simp add: open_program_def program_imports_def)

lemma open_clean: "clean_program open_program"
  using sample_clean
  by (simp add: clean_program_def open_imports program_symbols_def) (simp add: open_program_def decl_imports_def
      std_import_def import_symbol_def st_symbol_new_def sample_program_def)

theorem symbol_table_build_accepts_witness:
  "fst (symbol_table_build repeating_program) \<and>
   \<not> fst (symbol_table_build (sample_program\<lparr>pr_top_level_decls := replicate 2 (AST_TOP_LEVEL_BINDING sample_binding)\<rparr>)) \<and>
   tb_has_error (snd (symbol_table_build (open_program\<lparr>pr_imports := replicate 2 (std_import AST_IMPORT_PLAIN)\<rparr>)))"
  using symbol_table_build_accepts [of repeating_program]
    symbol_table_build_accepts [of "sample_program\<lparr>pr_top_level_decls := replicate 2 (AST_TOP_LEVEL_BINDING sample_binding)\<rparr>"]
    symbol_table_build_accepts [of "open_program\<lparr>pr_imports := replicate 2 (std_import AST_IMPORT_PLAIN)\<rparr>"]
  by (simp add: clean_program_def program_imports_def program_symbols_def numeral_eq_Suc)
    (simp add: repeating_program_def open_program_def sample_defs std_import_def decl_imports_def import_symbol_def
      binding_symbol_def extern_symbol_def union_symbol_def st_symbol_new_def st_qualified_name_tail_def)

theorem symbol_table_build_scoping_witness:
  "List.map (\<lambda>(a, span, s). (a, sy_kind s)) (rs_resolved (resolver_of (snd (symbol_table_build sample_program)))) =
     [([0, 0, 1, 0, 0, 2], SYMBOL_KIND_PARAMETER), ([0, 1, 1, 0, 0, 2], SYMBOL_KIND_LOCAL)] \<and>
   List.map (\<lambda>(a, name, span). (a, name)) (rs_unresolved (resolver_of (snd (symbol_table_build sample_program)))) =
     [([0, 2, 1, 0, 0, 2], ''g'')]"
  unfolding symbol_table_build_scoping [OF sample_clean]
  by (simp add: program_resolver_def program_uses_def sample_symbols)
    (simp add: sample_defs decl_address_def resolve_def visible_def parameter_frame_def symbol_defs)

theorem resolve_identifier_innermost_witness:
  "map_option plain_symbol (symbol_table_resolve_identifier (snd (symbol_table_build sample_program)) [0, 1, 1, 0, 0, 2]) =
     Some (plain_symbol (local_symbol [0, 1, 0, 0, 2] False False None ''b'' zero_span 0))"
  by (rule resolve_identifier_innermost [OF sample_clean,
        where span = zero_span and name = "''b''" and
          env = "[[plain_symbol (local_symbol [0, 1, 0, 0, 2] False False None ''b'' zero_span 0)],
            parameter_frame [0, 0, 2] [\<lparr>ap_type = AST_TYPE_NAMED ''T'' [] [], ap_name = ''a'', ap_name_span = zero_span,
              ap_is_varargs = False\<rparr>],
            List.map plain_symbol (program_symbols sample_program)]"])
    (simp add: program_uses_def sample_symbols, simp add: sample_defs decl_address_def,
     simp add: visible_def symbol_defs)

theorem every_identifier_once_witness:
  "mset (List.map re_identifier (tb_resolutions (snd (symbol_table_build sample_program)))) +
      mset (List.map un_identifier (tb_unresolved_identifiers (snd (symbol_table_build sample_program)))) =
    {#[0, 0, 1, 0, 0, 2], [0, 1, 1, 0, 0, 2], [0, 2, 1, 0, 0, 2]#} \<and>
   tb_unresolved_identifiers (snd (symbol_table_build open_program)) = []"
proof -
  have "List.map fst (program_uses sample_program) = [[0, 0, 1, 0, 0, 2], [0, 1, 1, 0, 0, 2], [0, 2, 1, 0, 0, 2]]"
    by (simp add: program_uses_def sample_defs decl_address_def)
  moreover have "\<exists>s \<in> set (program_imports open_program). sy_is_wildcard_import s"
    by (simp add: open_imports decl_imports_def std_import_def)
  ultimately show ?thesis
    using every_identifier_once [OF sample_clean] every_identifier_once [OF open_clean] by simp
qed

end
