(* ===== verification/Reactive.thy ===== *)
theory Reactive
  imports Prelude
begin

text \<open>
  The reactive runtime (solite_runtime/src/solite_signal.c and solite_effect.c): signals, effects
  that run again when a signal they have read changes, batches and memos.  A callback of the
  application is a \<open>client\<close>, the tree of the calls that it makes; the C stack is a list of frames,
  and one step is one call or return.  Signals, effects and memos are numbered as they are
  created; a number that none has stands for the null pointer.  Allocation succeeds.
\<close>

section \<open>Callbacks\<close>

text \<open>
  \<open>Local f k\<close> is a piece of a callback that works on the memory of the application only: it updates
  the memory by \<open>f\<close> and goes on as the memory before that tells it.
\<close>

datatype 'm client =
    Return
  | Local "'m \<Rightarrow> 'm" "'m \<Rightarrow> 'm client"
  | Create_signal u32 "nat \<Rightarrow> 'm client"
  | Signal_get nat "u32 \<Rightarrow> 'm client"
  | Signal_set nat u32 "'m client"
  | Create_effect "'m client" "nat \<Rightarrow> 'm client"
  | Effect_dispose nat "'m client"
  | Flush_pending "'m client"
  | Batch_start "'m client"
  | Batch_end "'m client"
  | Is_batching "bool \<Rightarrow> 'm client"
  | Memo_alloc "nat \<Rightarrow> 'm client"
  | Memo_link nat nat "'m client"
  | Memo_store nat u32 "'m client"
  | Memo_get nat "u32 \<Rightarrow> 'm client"
  | Memo_dispose nat "'m client"

section \<open>State\<close>

record SoliteSignal =
  sg_value :: u32
  sg_subscribers :: "nat list"

record 'm SoliteEffect =
  ef_fn :: "'m client"
  ef_pending :: bool
  ef_disposed :: bool

record SoliteMemo =
  me_cached_value :: u32
  me_tracking_effect :: "nat option"
  me_dirty :: bool

text \<open>What happened, latest first; no code depends on it.\<close>

datatype event = Started nat | Got nat nat | Changed nat | Lost nat

record 'm runtime =
  rt_signals :: "SoliteSignal list"
  rt_effects :: "'m SoliteEffect list"
  rt_memos :: "SoliteMemo list"
  rt_observer_stack :: "nat list"
  rt_pending_queue :: "nat list"
  rt_batch_depth :: nat
  rt_memory :: 'm
  rt_events :: "event list"

definition SOLID_OBSERVER_STACK_MAX :: nat where "SOLID_OBSERVER_STACK_MAX = 64"
definition SOLID_PENDING_MAX :: nat where "SOLID_PENDING_MAX = 256"

definition runtime_start :: "'m \<Rightarrow> 'm runtime" where
  "runtime_start m =
     \<lparr>rt_signals = [], rt_effects = [], rt_memos = [], rt_observer_stack = [], rt_pending_queue = [],
      rt_batch_depth = 0, rt_memory = m, rt_events = []\<rparr>"

text \<open>The frames of the stack: a callback, the end of \<open>effect_run\<close>, and the two loops of a flush.\<close>

datatype 'm frame =
    Client "'m client"
  | Effect_return nat
  | Flush_loop
  | Snapshot_loop "nat list"

text \<open>An operation returns the frames that its calls leave to run and the new state.\<close>

type_synonym 'm call = "'m frame list \<times> 'm runtime"

definition is_disposed :: "'m runtime \<Rightarrow> nat \<Rightarrow> bool" where
  "is_disposed st e \<longleftrightarrow> e < length (rt_effects st) \<and> ef_disposed (rt_effects st ! e)"

definition is_pending :: "'m runtime \<Rightarrow> nat \<Rightarrow> bool" where
  "is_pending st e \<longleftrightarrow> e < length (rt_effects st) \<and> ef_pending (rt_effects st ! e)"

definition set_pending :: "bool \<Rightarrow> nat \<Rightarrow> 'm runtime \<Rightarrow> 'm runtime" where
  "set_pending b e st = st\<lparr>rt_effects := (rt_effects st)[e := (rt_effects st ! e)\<lparr>ef_pending := b\<rparr>]\<rparr>"

definition note_event :: "event \<Rightarrow> 'm runtime \<Rightarrow> 'm runtime" where
  "note_event x st = st\<lparr>rt_events := x # rt_events st\<rparr>"

section \<open>Observers (solite_signal.c)\<close>

text \<open>The top of the stack comes first.\<close>

definition solid_observer_push :: "nat \<Rightarrow> 'm runtime \<Rightarrow> 'm runtime" where
  "solid_observer_push e st =
     (if length (rt_observer_stack st) < SOLID_OBSERVER_STACK_MAX
      then st\<lparr>rt_observer_stack := e # rt_observer_stack st\<rparr> else st)"

definition solid_observer_pop :: "'m runtime \<Rightarrow> 'm runtime" where
  "solid_observer_pop st = st\<lparr>rt_observer_stack := tl (rt_observer_stack st)\<rparr>"

definition solid_observer_current :: "'m runtime \<Rightarrow> nat option" where
  "solid_observer_current st = (case rt_observer_stack st of [] \<Rightarrow> None | e # _ \<Rightarrow> Some e)"

section \<open>Effects (solite_effect.c)\<close>

text \<open>A full queue drops the effect.\<close>

definition solite_effect_schedule :: "nat \<Rightarrow> 'm runtime \<Rightarrow> 'm runtime" where
  "solite_effect_schedule e st =
     (if e \<ge> length (rt_effects st) \<or> is_disposed st e \<or> is_pending st e then st
      else if length (rt_pending_queue st) < SOLID_PENDING_MAX
      then (set_pending True e st)\<lparr>rt_pending_queue := rt_pending_queue st @ [e]\<rparr>
      else note_event (Lost e) st)"

definition effect_run :: "nat \<Rightarrow> 'm runtime \<Rightarrow> 'm call" where
  "effect_run e st =
     (if e \<ge> length (rt_effects st) \<or> is_disposed st e then ([], st)
      else ([Client (ef_fn (rt_effects st ! e)), Effect_return e],
        note_event (Started e) (solid_observer_push e st)))"

definition solite_effect_flush_pending :: "'m runtime \<Rightarrow> 'm call" where
  "solite_effect_flush_pending st = (if rt_batch_depth st > 0 then ([], st) else ([Flush_loop], st))"

definition solite_batch_start :: "'m runtime \<Rightarrow> 'm runtime" where
  "solite_batch_start st = st\<lparr>rt_batch_depth := rt_batch_depth st + 1\<rparr>"

definition solite_batch_end :: "'m runtime \<Rightarrow> 'm call" where
  "solite_batch_end st =
     (let st = (if rt_batch_depth st > 0 then st\<lparr>rt_batch_depth := rt_batch_depth st - 1\<rparr> else st)
      in if rt_batch_depth st = 0 then solite_effect_flush_pending st else ([], st))"

definition solite_is_batching :: "'m runtime \<Rightarrow> bool" where
  "solite_is_batching st \<longleftrightarrow> rt_batch_depth st > 0"

definition solite_create_effect :: "'m client \<Rightarrow> 'm runtime \<Rightarrow> nat \<times> 'm call" where
  "solite_create_effect fn st =
     (let e = length (rt_effects st)
      in (e, effect_run e (st\<lparr>rt_effects := rt_effects st @ [\<lparr>ef_fn = fn, ef_pending = False, ef_disposed = False\<rparr>]\<rparr>)))"

definition solite_effect_dispose :: "nat \<Rightarrow> 'm runtime \<Rightarrow> 'm runtime" where
  "solite_effect_dispose e st =
     (if e \<ge> length (rt_effects st) then st
      else st\<lparr>rt_effects := (rt_effects st)[e := (rt_effects st ! e)\<lparr>ef_disposed := True\<rparr>]\<rparr>)"

section \<open>Signals (solite_signal.c)\<close>

definition solite_create_signal :: "u32 \<Rightarrow> 'm runtime \<Rightarrow> nat \<times> 'm runtime" where
  "solite_create_signal v st =
     (length (rt_signals st), st\<lparr>rt_signals := rt_signals st @ [\<lparr>sg_value = v, sg_subscribers = []\<rparr>]\<rparr>)"

definition signal_subscribe :: "nat \<Rightarrow> nat \<Rightarrow> 'm runtime \<Rightarrow> 'm runtime" where
  "signal_subscribe s e st =
     (if e \<in> set (sg_subscribers (rt_signals st ! s)) then st
      else st\<lparr>rt_signals := (rt_signals st)[s :=
        (rt_signals st ! s)\<lparr>sg_subscribers := sg_subscribers (rt_signals st ! s) @ [e]\<rparr>]\<rparr>)"

definition solite_signal_get :: "nat \<Rightarrow> 'm runtime \<Rightarrow> u32 \<times> 'm runtime" where
  "solite_signal_get s st =
     (if s \<ge> length (rt_signals st) then (0, st)
      else (sg_value (rt_signals st ! s),
        case solid_observer_current st of
          Some e \<Rightarrow> note_event (Got e s) (signal_subscribe s e st)
        | None \<Rightarrow> st))"

definition solite_signal_set :: "nat \<Rightarrow> u32 \<Rightarrow> 'm runtime \<Rightarrow> 'm call" where
  "solite_signal_set s v st =
     (if s \<ge> length (rt_signals st) \<or> sg_value (rt_signals st ! s) = v then ([], st)
      else let st = note_event (Changed s) (st\<lparr>rt_signals := (rt_signals st)[s := (rt_signals st ! s)\<lparr>sg_value := v\<rparr>]\<rparr>);
               st = fold solite_effect_schedule (sg_subscribers (rt_signals st ! s)) st
      in solite_effect_flush_pending st)"

section \<open>Memos (solite_effect.c)\<close>

definition memo_store :: "nat \<Rightarrow> u32 \<Rightarrow> 'm runtime \<Rightarrow> 'm runtime" where
  "memo_store i v st =
     (if i \<ge> length (rt_memos st) then st
      else st\<lparr>rt_memos := (rt_memos st)[i := (rt_memos st ! i)\<lparr>me_cached_value := v, me_dirty := False\<rparr>]\<rparr>)"

definition memo_link :: "nat \<Rightarrow> nat \<Rightarrow> 'm runtime \<Rightarrow> 'm runtime" where
  "memo_link i e st = st\<lparr>rt_memos := (rt_memos st)[i := (rt_memos st ! i)\<lparr>me_tracking_effect := Some e\<rparr>]\<rparr>"

definition solite_memo_get :: "nat \<Rightarrow> 'm runtime \<Rightarrow> u32" where
  "solite_memo_get i st = (if i \<ge> length (rt_memos st) then 0 else me_cached_value (rt_memos st ! i))"

definition solite_memo_dispose :: "nat \<Rightarrow> 'm runtime \<Rightarrow> 'm runtime" where
  "solite_memo_dispose i st =
     (if i \<ge> length (rt_memos st) then st
      else case me_tracking_effect (rt_memos st ! i) of
        None \<Rightarrow> st
      | Some e \<Rightarrow> solite_effect_dispose e st)"

text \<open>
  The callback of a memo computes its value and passes it on; the effect of a memo stores it, and
  creating a memo is a piece of a callback that continues with the number of the memo.
\<close>

definition memo_recompute_cb :: "nat \<Rightarrow> ((u32 \<Rightarrow> 'm client) \<Rightarrow> 'm client) \<Rightarrow> 'm client" where
  "memo_recompute_cb i fn = fn (\<lambda>v. Memo_store i v Return)"

definition solid_create_memo :: "((u32 \<Rightarrow> 'm client) \<Rightarrow> 'm client) \<Rightarrow> (nat \<Rightarrow> 'm client) \<Rightarrow> 'm client" where
  "solid_create_memo fn k =
     Memo_alloc (\<lambda>i. Create_effect (memo_recompute_cb i fn) (\<lambda>e. Memo_link i e (k i)))"

section \<open>Steps\<close>

primrec client_step :: "'m client \<Rightarrow> 'm runtime \<Rightarrow> 'm call" where
  "client_step Return st = ([], st)"
| "client_step (Local f k) st = ([Client (k (rt_memory st))], st\<lparr>rt_memory := f (rt_memory st)\<rparr>)"
| "client_step (Create_signal v k) st = (case solite_create_signal v st of (s, st) \<Rightarrow> ([Client (k s)], st))"
| "client_step (Signal_get s k) st = (case solite_signal_get s st of (v, st) \<Rightarrow> ([Client (k v)], st))"
| "client_step (Signal_set s v k) st = (case solite_signal_set s v st of (fs, st) \<Rightarrow> (fs @ [Client k], st))"
| "client_step (Create_effect fn k) st =
     (case solite_create_effect fn st of (e, fs, st) \<Rightarrow> (fs @ [Client (k e)], st))"
| "client_step (Effect_dispose e k) st = ([Client k], solite_effect_dispose e st)"
| "client_step (Flush_pending k) st = (case solite_effect_flush_pending st of (fs, st) \<Rightarrow> (fs @ [Client k], st))"
| "client_step (Batch_start k) st = ([Client k], solite_batch_start st)"
| "client_step (Batch_end k) st = (case solite_batch_end st of (fs, st) \<Rightarrow> (fs @ [Client k], st))"
| "client_step (Is_batching k) st = ([Client (k (solite_is_batching st))], st)"
| "client_step (Memo_alloc k) st =
     ([Client (k (length (rt_memos st)))],
      st\<lparr>rt_memos := rt_memos st @ [\<lparr>me_cached_value = 0, me_tracking_effect = None, me_dirty = True\<rparr>]\<rparr>)"
| "client_step (Memo_link i e k) st = ([Client k], memo_link i e st)"
| "client_step (Memo_store i v k) st = ([Client k], memo_store i v st)"
| "client_step (Memo_get i k) st = ([Client (k (solite_memo_get i st))], st)"
| "client_step (Memo_dispose i k) st = ([Client k], solite_memo_dispose i st)"

fun frame_step :: "'m frame \<Rightarrow> 'm runtime \<Rightarrow> 'm call" where
  "frame_step (Client p) st = client_step p st"
| "frame_step (Effect_return e) st = ([], solid_observer_pop st)"
| "frame_step Flush_loop st =
     (if rt_pending_queue st = [] then ([], st)
      else ([Snapshot_loop (rt_pending_queue st), Flush_loop], st\<lparr>rt_pending_queue := []\<rparr>))"
| "frame_step (Snapshot_loop []) st = ([], st)"
| "frame_step (Snapshot_loop (e # es)) st =
     (let st = set_pending False e st
      in if is_disposed st e then ([Snapshot_loop es], st)
         else case effect_run e st of (fs, st) \<Rightarrow> (fs @ [Snapshot_loop es], st))"

text \<open>The step relation on stacks and states, and the runs that end with an empty stack.\<close>

inductive step :: "'m frame list \<times> 'm runtime \<Rightarrow> 'm frame list \<times> 'm runtime \<Rightarrow> bool" where
  step: "frame_step f st = (fs, st') \<Longrightarrow> step (f # K, st) (fs @ K, st')"

inductive_cases stepE: "step (K, st) c"

inductive returns :: "'m frame list \<Rightarrow> 'm runtime \<Rightarrow> 'm runtime \<Rightarrow> bool" where
  Done: "returns [] st st"
| Step: "frame_step f st = (fs, st') \<Longrightarrow> returns (fs @ K) st' st'' \<Longrightarrow> returns (f # K) st st''"

text \<open>The same for a number of steps, to evaluate.\<close>

fun run_steps :: "nat \<Rightarrow> 'm frame list \<Rightarrow> 'm runtime \<Rightarrow> 'm runtime option" where
  "run_steps n [] st = Some st"
| "run_steps 0 (f # K) st = None"
| "run_steps (Suc n) (f # K) st = (case frame_step f st of (fs, st') \<Rightarrow> run_steps n (fs @ K) st')"

end
