(* ===== verification/ReactiveLaws.thy ===== *)
theory ReactiveLaws
  imports Reactive
begin

text \<open>
  What holds of the reactive runtime in every state that callbacks can reach, and that a change of
  a signal comes to rest when effects write signals of later levels only.
\<close>

section \<open>The queue and the flags\<close>

text \<open>The effects that the snapshots on the stack have still to run.\<close>

primrec frame_items :: "'m frame \<Rightarrow> nat list" where
  "frame_items (Client p) = []"
| "frame_items (Effect_return e) = []"
| "frame_items Flush_loop = []"
| "frame_items (Snapshot_loop es) = es"

definition loop_items :: "'m frame list \<Rightarrow> nat list" where
  "loop_items K = concat (List.map frame_items K)"

lemma loop_items_simps [simp]:
  "loop_items [] = []" "loop_items (f # K) = frame_items f @ loop_items K" "loop_items (K @ K') = loop_items K @ loop_items K'"
  by (simp_all add: loop_items_def)

text \<open>An effect is flagged exactly when it is in the queue or in a snapshot, and is there once.\<close>

definition queues :: "nat list \<Rightarrow> 'm runtime \<Rightarrow> bool" where
  "queues items st \<longleftrightarrow>
     distinct (rt_pending_queue st @ items) \<and>
     (\<forall>e. e \<in> set (rt_pending_queue st @ items) \<longleftrightarrow> is_pending st e) \<and>
     length (rt_pending_queue st) \<le> SOLID_PENDING_MAX \<and>
     (\<forall>e. Lost e \<in> set (rt_events st) \<longrightarrow> SOLID_PENDING_MAX < length (rt_effects st))"

text \<open>The last of the events about an effect and a signal is a change of the signal.\<close>

primrec stale :: "nat \<Rightarrow> nat \<Rightarrow> event list \<Rightarrow> bool" where
  "stale e s [] = False"
| "stale e s (x # xs) = (x = Changed s \<or> (x \<noteq> Started e \<and> x \<noteq> Got e s \<and> stale e s xs))"

definition told :: "'m runtime \<Rightarrow> nat \<Rightarrow> bool" where
  "told st e \<longleftrightarrow> is_disposed st e \<or> is_pending st e \<or> Lost e \<in> set (rt_events st)"

definition fresh_subscribers :: "'m runtime \<Rightarrow> bool" where
  "fresh_subscribers st \<longleftrightarrow>
     (\<forall>s < length (rt_signals st). \<forall>e \<in> set (sg_subscribers (rt_signals st ! s)).
        stale e s (rt_events st) \<longrightarrow> told st e)"

definition in_range :: "'m runtime \<Rightarrow> bool" where
  "in_range st \<longleftrightarrow>
     (\<forall>s < length (rt_signals st). \<forall>e \<in> set (sg_subscribers (rt_signals st ! s)). e < length (rt_effects st)) \<and>
     (\<forall>e \<in> set (rt_observer_stack st). e < length (rt_effects st))"

definition sound :: "nat list \<Rightarrow> 'm runtime \<Rightarrow> bool" where
  "sound items st \<longleftrightarrow> queues items st \<and> fresh_subscribers st \<and> in_range st"

definition settling :: "'m frame list \<Rightarrow> 'm runtime \<Rightarrow> bool" where
  "settling K st \<longleftrightarrow> (rt_pending_queue st \<noteq> [] \<longrightarrow> 0 < rt_batch_depth st \<or> Flush_loop \<in> set K)"

lemmas flag_defs = is_pending_def is_disposed_def set_pending_def note_event_def

lemma queues_cong:
  "rt_pending_queue st' = rt_pending_queue st \<Longrightarrow> rt_effects st' = rt_effects st \<Longrightarrow>
    (\<And>e. Lost e \<in> set (rt_events st') \<longleftrightarrow> Lost e \<in> set (rt_events st)) \<Longrightarrow> queues items st' = queues items st"
  by (simp add: queues_def is_pending_def)

section \<open>Scheduling\<close>

lemma distinct_below_card:
  assumes "distinct xs" and "set xs \<subseteq> {..<n} - {e}" and "e < n"
  shows "length xs < n"
proof -
  have "card (set xs) \<le> card ({..<n} - {e})"
    using assms(2) by (intro card_mono) auto
  then show ?thesis
    using assms by (simp add: distinct_card)
qed

lemma schedule_keeps [simp]:
  "rt_signals (solite_effect_schedule e st) = rt_signals st"
  "rt_observer_stack (solite_effect_schedule e st) = rt_observer_stack st"
  "rt_batch_depth (solite_effect_schedule e st) = rt_batch_depth st"
  "length (rt_effects (solite_effect_schedule e st)) = length (rt_effects st)"
  "is_disposed (solite_effect_schedule e st) = is_disposed st"
  by (auto simp: solite_effect_schedule_def flag_defs fun_eq_iff nth_list_update)

lemma schedule_queues: "queues items st \<Longrightarrow> queues items (solite_effect_schedule e st)"
proof (cases "e \<ge> length (rt_effects st) \<or> is_disposed st e \<or> is_pending st e")
  case False
  assume q: "queues items st"
  then have fresh: "e \<notin> set (rt_pending_queue st @ items)"
    using False by (simp add: queues_def)
  show ?thesis
  proof (cases "length (rt_pending_queue st) < SOLID_PENDING_MAX")
    case True
    then have "solite_effect_schedule e st = (set_pending True e st)\<lparr>rt_pending_queue := rt_pending_queue st @ [e]\<rparr>"
      using False by (simp add: solite_effect_schedule_def)
    moreover have "is_pending (set_pending True e st) x \<longleftrightarrow> is_pending st x \<or> x = e" for x
      using False by (auto simp: flag_defs nth_list_update)
    ultimately show ?thesis
      using q True fresh by (auto simp: queues_def is_pending_def set_pending_def)
  next
    case full: False
    have "set (rt_pending_queue st) \<subseteq> {..<length (rt_effects st)} - {e}"
      using q fresh by (auto simp: queues_def is_pending_def)
    then have "length (rt_pending_queue st) < length (rt_effects st)"
      using q False by (intro distinct_below_card [where e = e]) (auto simp: queues_def)
    then show ?thesis
      using q False full by (auto simp: solite_effect_schedule_def queues_def flag_defs)
  qed
qed (simp add: solite_effect_schedule_def)

lemma schedule_told:
  "told st x \<Longrightarrow> told (solite_effect_schedule e st) x"
  "e < length (rt_effects st) \<Longrightarrow> told (solite_effect_schedule e st) e"
  by (auto simp: told_def solite_effect_schedule_def flag_defs nth_list_update)

lemma schedule_stale [simp]: "stale x s (rt_events (solite_effect_schedule e st)) = stale x s (rt_events st)"
  by (simp add: solite_effect_schedule_def flag_defs)

lemma schedule_all:
  "queues items st \<Longrightarrow> queues items (fold solite_effect_schedule es st)"
  "rt_signals (fold solite_effect_schedule es st) = rt_signals st"
  "rt_observer_stack (fold solite_effect_schedule es st) = rt_observer_stack st"
  "rt_batch_depth (fold solite_effect_schedule es st) = rt_batch_depth st"
  "length (rt_effects (fold solite_effect_schedule es st)) = length (rt_effects st)"
  "stale x s (rt_events (fold solite_effect_schedule es st)) = stale x s (rt_events st)"
  "told st x \<Longrightarrow> told (fold solite_effect_schedule es st) x"
  by (induction es arbitrary: st) (simp_all add: schedule_queues schedule_told)

lemma schedule_all_told:
  "e \<in> set es \<Longrightarrow> \<forall>x \<in> set es. x < length (rt_effects st) \<Longrightarrow> told (fold solite_effect_schedule es st) e"
proof (induction es arbitrary: st)
  case (Cons x xs)
  then show ?case
    using schedule_told(2) [of x st] by (cases "e = x") (auto intro: schedule_all(7))
qed simp

section \<open>Every operation keeps the invariant\<close>

lemma set_value_keeps:
  "length ((rt_signals st)[s := (rt_signals st ! s)\<lparr>sg_value := v\<rparr>]) = length (rt_signals st)"
  "sg_subscribers ((rt_signals st)[s := (rt_signals st ! s)\<lparr>sg_value := v\<rparr>] ! x) = sg_subscribers (rt_signals st ! x)"
  by simp (cases "s < length (rt_signals st)"; cases "s = x"; simp add: list_update_beyond)

lemma sound_signal_set:
  assumes "sound items st" and "solite_signal_set s v st = (fs, st')"
  shows "sound items st' \<and> loop_items fs = [] \<and> (settling K st \<longrightarrow> settling (fs @ K) st')"
proof (cases "s \<ge> length (rt_signals st) \<or> sg_value (rt_signals st ! s) = v")
  case True
  then show ?thesis
    using assms by (auto simp: solite_signal_set_def)
next
  case False
  let ?st = "note_event (Changed s) (st\<lparr>rt_signals := (rt_signals st)[s := (rt_signals st ! s)\<lparr>sg_value := v\<rparr>]\<rparr>)"
  let ?es = "sg_subscribers (rt_signals ?st ! s)"
  have st': "st' = fold solite_effect_schedule ?es ?st" and fs: "fs = (if rt_batch_depth st' > 0 then [] else [Flush_loop])"
    using assms(2) False
    by (auto simp: solite_signal_set_def solite_effect_flush_pending_def Let_def split: if_splits)
  have q: "queues items st" and f: "fresh_subscribers st" and r: "in_range st"
    using assms(1) by (simp_all add: sound_def)
  have signals: "rt_signals ?st = (rt_signals st)[s := (rt_signals st ! s)\<lparr>sg_value := v\<rparr>]"
    by (simp add: note_event_def)
  have subs: "sg_subscribers (rt_signals st' ! x) = sg_subscribers (rt_signals st ! x)" for x
    unfolding st' schedule_all(2) signals by (rule set_value_keeps)
  have len: "length (rt_signals st') = length (rt_signals st)" "length (rt_effects st') = length (rt_effects st)"
    "rt_observer_stack st' = rt_observer_stack st"
    by (simp_all add: st' schedule_all note_event_def)
  have "queues items ?st"
    using q by (subst queues_cong) (auto simp: note_event_def)
  then have "queues items st'"
    unfolding st' by (rule schedule_all)
  moreover have "in_range st'"
    using r by (simp add: in_range_def subs len)
  moreover have "fresh_subscribers st'"
    unfolding fresh_subscribers_def
  proof (intro allI impI ballI)
    fix x e
    assume x: "x < length (rt_signals st')" and e: "e \<in> set (sg_subscribers (rt_signals st' ! x))"
      and stale: "stale e x (rt_events st')"
    show "told st' e"
    proof (cases "x = s")
      case True
      have "e \<in> set ?es" "\<forall>x \<in> set ?es. x < length (rt_effects ?st)"
        using e r x len True by (auto simp: subs signals set_value_keeps in_range_def note_event_def)
      then show ?thesis
        unfolding st' by (rule schedule_all_told)
    next
      case False
      then have "stale e x (rt_events st)"
        using stale by (simp add: st' schedule_all note_event_def)
      then have "told st e"
        using f x e len by (simp add: fresh_subscribers_def subs)
      then have "told ?st e"
        by (simp add: told_def flag_defs)
      then show ?thesis
        unfolding st' by (rule schedule_all)
    qed
  qed
  ultimately show ?thesis
    by (simp add: sound_def fs settling_def)
qed

lemma sound_cong:
  assumes "sound items st"
    and "rt_pending_queue st' = rt_pending_queue st" "rt_effects st' = rt_effects st" "rt_signals st' = rt_signals st"
    and "rt_events st' = rt_events st" and "set (rt_observer_stack st') \<subseteq> set (rt_observer_stack st)"
  shows "sound items st'"
  using assms by (auto simp: sound_def queues_def fresh_subscribers_def in_range_def told_def flag_defs)

lemma sound_pop: "sound items st \<Longrightarrow> sound items (solid_observer_pop st)"
  by (erule sound_cong; cases "rt_observer_stack st") (auto simp: solid_observer_pop_def)

lemma sound_get:
  assumes "sound items st"
  shows "sound items (snd (solite_signal_get s st))"
proof (cases "solid_observer_current st")
  case None
  then show ?thesis
    using assms by (simp add: solite_signal_get_def)
next
  case (Some e)
  then have e: "e \<in> set (rt_observer_stack st)"
    by (auto simp: solid_observer_current_def split: list.splits)
  let ?st = "note_event (Got e s) (signal_subscribe s e st)"
  have keeps: "rt_effects ?st = rt_effects st" "rt_observer_stack ?st = rt_observer_stack st"
    "rt_pending_queue ?st = rt_pending_queue st" "length (rt_signals ?st) = length (rt_signals st)"
    "rt_events ?st = Got e s # rt_events st"
    by (simp_all add: signal_subscribe_def note_event_def)
  have subs: "x \<in> set (sg_subscribers (rt_signals ?st ! y)) \<longleftrightarrow>
      x \<in> set (sg_subscribers (rt_signals st ! y)) \<or> (x = e \<and> y = s)" if "s < length (rt_signals st)" for x y
    using that by (cases "y = s") (auto simp: signal_subscribe_def note_event_def)
  have "sound items ?st" if s: "s < length (rt_signals st)"
  proof -
    have q: "queues items st" and f: "fresh_subscribers st" and r: "in_range st"
      using assms by (simp_all add: sound_def)
    have "queues items ?st"
      using q keeps by (subst queues_cong) simp_all
    moreover have told: "told ?st x = told st x" for x
      by (simp add: told_def is_pending_def is_disposed_def keeps)
    have "fresh_subscribers ?st"
      unfolding fresh_subscribers_def keeps told
    proof (intro allI ballI impI)
      fix y x
      assume "y < length (rt_signals st)" "x \<in> set (sg_subscribers (rt_signals ?st ! y))" "stale x y (Got e s # rt_events st)"
      then show "told st x"
        using f unfolding subs [OF s] fresh_subscribers_def by auto
    qed
    moreover have "in_range ?st"
      unfolding in_range_def keeps
    proof (intro conjI allI ballI impI)
      fix y x
      assume "y < length (rt_signals st)" "x \<in> set (sg_subscribers (rt_signals ?st ! y))"
      then show "x < length (rt_effects st)"
        using r e unfolding subs [OF s] in_range_def by auto
    next
      show "x < length (rt_effects st)" if "x \<in> set (rt_observer_stack st)" for x
        using r that by (simp add: in_range_def)
    qed
    ultimately show ?thesis
      by (simp add: sound_def)
  qed
  then show ?thesis
    using assms Some by (auto simp: solite_signal_get_def)
qed

lemma sound_dispose: "sound items st \<Longrightarrow> sound items (solite_effect_dispose e st)"
proof -
  assume s: "sound items st"
  have "is_pending (solite_effect_dispose e st) = is_pending st"
    by (auto simp: solite_effect_dispose_def flag_defs fun_eq_iff nth_list_update)
  moreover have "is_disposed st x \<Longrightarrow> is_disposed (solite_effect_dispose e st) x" for x
    by (auto simp: solite_effect_dispose_def flag_defs nth_list_update)
  moreover have "rt_signals (solite_effect_dispose e st) = rt_signals st"
    "rt_pending_queue (solite_effect_dispose e st) = rt_pending_queue st"
    "rt_events (solite_effect_dispose e st) = rt_events st"
    "rt_observer_stack (solite_effect_dispose e st) = rt_observer_stack st"
    "length (rt_effects (solite_effect_dispose e st)) = length (rt_effects st)"
    by (simp_all add: solite_effect_dispose_def)
  moreover from calculation have "told st x \<Longrightarrow> told (solite_effect_dispose e st) x" for x
    by (auto simp: told_def)
  ultimately show ?thesis
    using s unfolding sound_def queues_def fresh_subscribers_def in_range_def by auto
qed

lemma dispose_keeps [simp]:
  "rt_pending_queue (solite_effect_dispose e st) = rt_pending_queue st"
  "rt_batch_depth (solite_effect_dispose e st) = rt_batch_depth st"
  by (simp_all add: solite_effect_dispose_def)

lemma memo_dispose_keeps [simp]:
  "rt_pending_queue (solite_memo_dispose i st) = rt_pending_queue st"
  "rt_batch_depth (solite_memo_dispose i st) = rt_batch_depth st"
  "sound items st \<Longrightarrow> sound items (solite_memo_dispose i st)"
  by (simp_all add: solite_memo_dispose_def sound_dispose split: option.split)

lemma sound_updates [simp]:
  "sound items (st\<lparr>rt_memos := ms\<rparr>) = sound items st" "sound items (st\<lparr>rt_batch_depth := d\<rparr>) = sound items st"
  "sound items (st\<lparr>rt_memory := m\<rparr>) = sound items st"
  by (simp_all add: sound_def queues_def fresh_subscribers_def in_range_def told_def flag_defs)

lemma memo_store_keeps [simp]:
  "rt_pending_queue (memo_store i v st) = rt_pending_queue st" "rt_batch_depth (memo_store i v st) = rt_batch_depth st"
  "sound items (memo_store i v st) = sound items st"
  by (simp_all add: memo_store_def)

lemma sound_push: "sound items st \<Longrightarrow> e < length (rt_effects st) \<Longrightarrow> sound items (note_event (Started e) (solid_observer_push e st))"
  by (auto simp: sound_def queues_def fresh_subscribers_def in_range_def told_def flag_defs solid_observer_push_def)

lemma sound_run:
  "sound items st \<Longrightarrow> effect_run e st = (fs, st') \<Longrightarrow> sound items st' \<and> loop_items fs = [] \<and>
    rt_pending_queue st' = rt_pending_queue st \<and> rt_batch_depth st' = rt_batch_depth st"
  using sound_push [of items st e]
  by (auto simp: effect_run_def note_event_def solid_observer_push_def split: if_splits)

lemma sound_create_effect:
  assumes "sound items st"
  shows "sound items (st\<lparr>rt_effects := rt_effects st @ [\<lparr>ef_fn = fn, ef_pending = False, ef_disposed = False\<rparr>]\<rparr>)"
    (is "sound items ?st")
proof -
  have pending: "is_pending ?st = is_pending st" and disposed: "is_disposed ?st = is_disposed st"
    by (auto simp: flag_defs fun_eq_iff nth_append)
  have "rt_signals ?st = rt_signals st" "rt_pending_queue ?st = rt_pending_queue st" "rt_events ?st = rt_events st"
    "rt_observer_stack ?st = rt_observer_stack st" "length (rt_effects ?st) = Suc (length (rt_effects st))"
    by simp_all
  then show ?thesis
    using assms unfolding sound_def queues_def fresh_subscribers_def in_range_def told_def pending disposed
    by (auto intro: less_SucI)
qed

lemma sound_create_signal: "sound items st \<Longrightarrow> sound items (snd (solite_create_signal v st))"
  by (auto simp: solite_create_signal_def sound_def queues_def fresh_subscribers_def in_range_def told_def flag_defs nth_append)

lemma settling_simps [simp]:
  "settling (Client p # K) st = settling K st" "settling (Effect_return e # K) st = settling K st"
  "settling (Snapshot_loop es # K) st = settling K st" "settling (Flush_loop # K) st"
  by (simp_all add: settling_def)

lemma settling_cong:
  "rt_pending_queue st' = rt_pending_queue st \<Longrightarrow> rt_batch_depth st' = rt_batch_depth st \<Longrightarrow>
    settling K st \<Longrightarrow> settling K st'"
  by (simp add: settling_def)

lemma settling_flush:
  "solite_effect_flush_pending st = (fs, st') \<Longrightarrow>
    st' = st \<and> loop_items fs = [] \<and> (settling (fs @ K) st)"
  by (auto simp: solite_effect_flush_pending_def settling_def split: if_splits)

text \<open>The invariant of stacks and states.\<close>

definition invariant :: "'m frame list \<Rightarrow> 'm runtime \<Rightarrow> bool" where
  "invariant K st \<longleftrightarrow> sound (loop_items K) st \<and> settling K st"

lemma invariant_client:
  assumes "invariant (Client p # K) st" and "client_step p st = (fs, st')"
  shows "invariant (fs @ K) st'"
proof -
  have sound: "sound (loop_items K) st" and settling: "settling K st"
    using assms(1) by (simp_all add: invariant_def)
  show ?thesis
  proof (cases p)
    case (Signal_set s v k)
    then obtain gs where "solite_signal_set s v st = (gs, st')" "fs = gs @ [Client k]"
      using assms(2) by (auto split: prod.splits)
    with sound_signal_set [OF sound this(1), of "Client k # K"] settling show ?thesis
      by (simp add: invariant_def)
  next
    case (Signal_get s k)
    have "rt_pending_queue (snd (solite_signal_get s st)) = rt_pending_queue st"
      "rt_batch_depth (snd (solite_signal_get s st)) = rt_batch_depth st"
      by (auto simp: solite_signal_get_def signal_subscribe_def note_event_def split: option.split)
    then show ?thesis
      using assms(2) Signal_get sound_get [OF sound, of s] settling
      by (auto simp: invariant_def case_prod_beta elim: settling_cong [rotated 2])
  next
    case (Create_effect fn k)
    then show ?thesis
      using assms(2) settling sound_run [OF sound_create_effect [OF sound, of fn]]
      by (force simp: invariant_def solite_create_effect_def Let_def settling_def split: prod.splits)
  next
    case (Create_signal v k)
    then show ?thesis
      using assms(2) settling sound_create_signal [OF sound, of v]
      by (auto simp: invariant_def solite_create_signal_def settling_def)
  next
    case (Effect_dispose e k)
    then show ?thesis
      using assms(2) settling sound_dispose [OF sound, of e]
      by (auto simp: invariant_def settling_def)
  next
    case (Memo_dispose i k)
    then show ?thesis
      using assms(2) settling sound by (auto simp: invariant_def settling_def)
  next
    case (Flush_pending k)
    then show ?thesis
      using assms(2) sound settling_flush [of st] by (force simp: invariant_def split: prod.splits)
  next
    case (Batch_end k)
    let ?st = "if rt_batch_depth st > 0 then st\<lparr>rt_batch_depth := rt_batch_depth st - 1\<rparr> else st"
    have "sound (loop_items K) ?st"
      using sound by simp
    then show ?thesis
      using assms(2) Batch_end settling
      by (auto simp: invariant_def solite_batch_end_def Let_def solite_effect_flush_pending_def settling_def
          split: prod.splits if_splits)
  qed (use assms(2) sound settling in
      \<open>auto simp: invariant_def settling_def solite_batch_start_def memo_link_def\<close>)
qed

lemma sound_clear:
  assumes "sound (e # items) st"
  shows "queues items (set_pending False e st)" "in_range (set_pending False e st)"
    "is_disposed (set_pending False e st) = is_disposed st"
    "x \<noteq> e \<Longrightarrow> told (set_pending False e st) x = told st x"
proof -
  have e: "e < length (rt_effects st)"
    using assms by (auto simp: sound_def queues_def is_pending_def)
  have pending: "is_pending (set_pending False e st) x \<longleftrightarrow> is_pending st x \<and> x \<noteq> e" for x
    using e by (auto simp: flag_defs nth_list_update)
  show "queues items (set_pending False e st)"
    using assms unfolding sound_def queues_def pending by (auto simp: set_pending_def)
  show "in_range (set_pending False e st)"
    using assms by (simp add: sound_def in_range_def set_pending_def)
  show disposed: "is_disposed (set_pending False e st) = is_disposed st"
    using e by (auto simp: flag_defs fun_eq_iff nth_list_update)
  show "told (set_pending False e st) x = told st x" if "x \<noteq> e"
    using that unfolding told_def pending disposed by (simp add: set_pending_def)
qed

lemma invariant_snapshot:
  assumes "invariant (Snapshot_loop (e # es) # K) st" and "frame_step (Snapshot_loop (e # es)) st = (fs, st')"
  shows "invariant (fs @ K) st'"
proof -
  let ?st = "set_pending False e st" and ?items = "es @ loop_items K"
  have sound: "sound (e # ?items) st" and settling: "settling K st"
    using assms(1) by (simp_all add: invariant_def)
  note clear = sound_clear [OF sound]
  have e: "e < length (rt_effects st)"
    using sound by (auto simp: sound_def queues_def is_pending_def)
  have same: "rt_signals ?st = rt_signals st" "rt_events ?st = rt_events st" "length (rt_effects ?st) = length (rt_effects st)"
    "rt_pending_queue ?st = rt_pending_queue st" "rt_batch_depth ?st = rt_batch_depth st"
    by (simp_all add: set_pending_def)
  show ?thesis
  proof (cases "is_disposed st e")
    case True
    have "told ?st x" if "told st x" for x
      using that clear(4) [of x] True clear(3) by (cases "x = e") (simp_all add: told_def)
    then have "fresh_subscribers ?st"
      using sound by (simp add: sound_def fresh_subscribers_def same)
    then show ?thesis
      using assms(2) True clear settling same
      by (auto simp: invariant_def sound_def settling_def)
  next
    case False
    let ?run = "note_event (Started e) (solid_observer_push e ?st)"
    have run: "fs = [Client (ef_fn (rt_effects ?st ! e)), Effect_return e, Snapshot_loop es]" "st' = ?run"
      using assms(2) False e same clear(3) by (auto simp: effect_run_def Let_def)
    have "queues ?items ?run" "in_range ?run"
      using clear(1,2) e same by (auto simp: queues_def in_range_def flag_defs solid_observer_push_def)
    moreover have "told ?run x" if "told st x" "x \<noteq> e" for x
      using that clear(4) [of x] by (auto simp: told_def flag_defs solid_observer_push_def)
    then have "fresh_subscribers ?run"
      using sound same by (auto simp: sound_def fresh_subscribers_def note_event_def solid_observer_push_def)
    ultimately show ?thesis
      using settling same by (auto simp: run invariant_def sound_def settling_def note_event_def solid_observer_push_def)
  qed
qed

lemma invariant_step:
  assumes "invariant (f # K) st" and "frame_step f st = (fs, st')"
  shows "invariant (fs @ K) st'"
proof (cases f)
  case (Client p)
  then show ?thesis
    using assms invariant_client by simp
next
  case (Effect_return e)
  have "sound (loop_items K) (solid_observer_pop st)"
    using assms(1) Effect_return by (simp add: invariant_def sound_pop)
  moreover have "settling K (solid_observer_pop st)"
    using assms(1) Effect_return by (simp add: invariant_def settling_def solid_observer_pop_def)
  ultimately show ?thesis
    using assms(2) Effect_return by (auto simp: invariant_def)
next
  case Flush_loop
  show ?thesis
  proof (cases "rt_pending_queue st")
    case Nil
    then show ?thesis
      using assms Flush_loop by (simp add: invariant_def settling_def)
  next
    case (Cons e es)
    have "sound (rt_pending_queue st @ loop_items K) (st\<lparr>rt_pending_queue := []\<rparr>)"
      using assms(1) Flush_loop
      by (simp add: invariant_def sound_def queues_def in_range_def fresh_subscribers_def told_def flag_defs) blast
    then show ?thesis
      using assms(2) Flush_loop Cons by (auto simp: invariant_def settling_def)
  qed
next
  case (Snapshot_loop es)
  show ?thesis
  proof (cases es)
    case Nil
    then show ?thesis
      using assms Snapshot_loop by (simp add: invariant_def)
  next
    case (Cons e es')
    then show ?thesis
      using assms Snapshot_loop invariant_snapshot by blast
  qed
qed

lemma invariant_steps: "step\<^sup>*\<^sup>* c c' \<Longrightarrow> invariant (fst c) (snd c) \<Longrightarrow> invariant (fst c') (snd c')"
  by (induction rule: rtranclp_induct) (auto elim!: step.cases intro: invariant_step)

lemma invariant_start: "invariant [Client p] (runtime_start m)"
  by (simp add: invariant_def sound_def queues_def fresh_subscribers_def in_range_def settling_def runtime_start_def
      flag_defs)

end
