(* ===== verification/ReactiveFlow.thy ===== *)
theory ReactiveFlow
  imports ReactiveLaws
begin

text \<open>
  What an application can rely on: no change of a signal is lost, the reads of an effect are its
  own, and a change comes to rest when effects write signals of later levels than they read.
\<close>

section \<open>Runs\<close>

lemma returns_append: "returns K st st' \<Longrightarrow> returns K' st' st'' \<Longrightarrow> returns (K @ K') st st''"
  by (induction rule: returns.induct) (auto intro: returns.intros)

lemma returns_steps: "returns K st st' \<Longrightarrow> step\<^sup>*\<^sup>* (K, st) ([], st')"
  by (induction rule: returns.induct) (auto intro: converse_rtranclp_into_rtranclp step.intros)

lemma run_steps_returns: "run_steps n K st = Some st' \<Longrightarrow> returns K st st'"
  by (induction n K st rule: run_steps.induct) (auto intro: returns.intros split: prod.splits)

lemma run_steps_numeral [simp]:
  "run_steps (numeral n) (f # K) st = (case frame_step f st of (fs, st') \<Rightarrow> run_steps (pred_numeral n) (fs @ K) st')"
  by (simp add: numeral_eq_Suc)

section \<open>Levels\<close>

text \<open>
  A callback that reads signals in \<open>R\<close> and writes signals in \<open>W\<close> only, creates nothing and ends
  the batches that it starts.
\<close>

primrec conforms :: "(nat \<Rightarrow> bool) \<Rightarrow> (nat \<Rightarrow> bool) \<Rightarrow> 'm client \<Rightarrow> nat \<Rightarrow> bool" where
  "conforms R W Return d = (d = 0)"
| "conforms R W (Local f k) d = (\<forall>m. conforms R W (k m) d)"
| "conforms R W (Create_signal v k) d = False"
| "conforms R W (Signal_get s k) d = (R s \<and> (\<forall>v. conforms R W (k v) d))"
| "conforms R W (Signal_set s v k) d = (W s \<and> conforms R W k d)"
| "conforms R W (Create_effect fn k) d = False"
| "conforms R W (Effect_dispose e k) d = conforms R W k d"
| "conforms R W (Flush_pending k) d = conforms R W k d"
| "conforms R W (Batch_start k) d = conforms R W k (Suc d)"
| "conforms R W (Batch_end k) d = (0 < d \<and> conforms R W k (d - 1))"
| "conforms R W (Is_batching k) d = (\<forall>b. conforms R W (k b) d)"
| "conforms R W (Memo_alloc k) d = (\<forall>i. conforms R W (k i) d)"
| "conforms R W (Memo_link i e k) d = conforms R W k d"
| "conforms R W (Memo_store i v k) d = conforms R W k d"
| "conforms R W (Memo_get i k) d = (\<forall>v. conforms R W (k v) d)"
| "conforms R W (Memo_dispose i k) d = conforms R W k d"

text \<open>
  Effects read signals up to their level and write signals of later levels; there are at most as
  many effects as the queue has places, and fewer levels than the observer stack has places.
\<close>

definition levelled :: "(nat \<Rightarrow> nat) \<Rightarrow> (nat \<Rightarrow> nat) \<Rightarrow> 'm runtime \<Rightarrow> bool" where
  "levelled slev elev st \<longleftrightarrow> length (rt_effects st) \<le> SOLID_PENDING_MAX \<and>
     (\<forall>e < length (rt_effects st). elev e < SOLID_OBSERVER_STACK_MAX \<and>
        conforms (\<lambda>s. slev s \<le> elev e) (\<lambda>s. elev e < slev s) (ef_fn (rt_effects st ! e)) 0) \<and>
     (\<forall>s < length (rt_signals st). \<forall>e \<in> set (sg_subscribers (rt_signals st ! s)). slev s \<le> elev e) \<and>
     (\<forall>e \<in> set (rt_pending_queue st). elev e < SOLID_OBSERVER_STACK_MAX)"

definition ready :: "(nat \<Rightarrow> nat) \<Rightarrow> (nat \<Rightarrow> nat) \<Rightarrow> nat \<Rightarrow> 'm runtime \<Rightarrow> bool" where
  "ready slev elev n st \<longleftrightarrow> levelled slev elev st \<and> (\<forall>e \<in> set (rt_pending_queue st). n \<le> elev e)"

lemma ready_updates [simp]:
  "ready slev elev n (st\<lparr>rt_memos := ms\<rparr>) = ready slev elev n st"
  "ready slev elev n (st\<lparr>rt_batch_depth := d\<rparr>) = ready slev elev n st"
  "ready slev elev n (st\<lparr>rt_memory := m\<rparr>) = ready slev elev n st"
  "ready slev elev n (st\<lparr>rt_observer_stack := os\<rparr>) = ready slev elev n st"
  "ready slev elev n (note_event x st) = ready slev elev n st"
  by (simp_all add: ready_def levelled_def note_event_def)

lemma effect_fields [simp]:
  "e < length xs \<Longrightarrow> ef_fn (xs[i := (xs ! i)\<lparr>ef_pending := b\<rparr>] ! e) = ef_fn (xs ! e)"
  "e < length xs \<Longrightarrow> ef_fn (xs[i := (xs ! i)\<lparr>ef_disposed := b\<rparr>] ! e) = ef_fn (xs ! e)"
  by (cases "i = e"; simp)+

lemma ready_set_pending [simp]: "ready slev elev n (set_pending b e st) = ready slev elev n st"
  by (simp add: ready_def levelled_def set_pending_def)

lemma ready_dispose [simp]: "ready slev elev n (solite_effect_dispose e st) = ready slev elev n st"
  by (simp add: ready_def levelled_def solite_effect_dispose_def)

lemma ready_memo [simp]:
  "ready slev elev n (memo_store i v st) = ready slev elev n st"
  "ready slev elev n (memo_link i e st) = ready slev elev n st"
  "ready slev elev n (solite_memo_dispose i st) = ready slev elev n st"
  by (simp_all add: memo_store_def memo_link_def solite_memo_dispose_def split: option.split)

lemma ready_schedule:
  "ready slev elev n st \<Longrightarrow> n \<le> elev e \<Longrightarrow> ready slev elev n (solite_effect_schedule e st)"
  by (auto simp: solite_effect_schedule_def ready_def levelled_def set_pending_def note_event_def)

lemma ready_schedule_all:
  "ready slev elev n st \<Longrightarrow> \<forall>e \<in> set es. n \<le> elev e \<Longrightarrow> ready slev elev n (fold solite_effect_schedule es st)"
  by (induction es arbitrary: st) (simp_all add: ready_schedule)

lemma ready_set_value:
  "ready slev elev n st \<Longrightarrow> ready slev elev n (st\<lparr>rt_signals := (rt_signals st)[s := (rt_signals st ! s)\<lparr>sg_value := v\<rparr>]\<rparr>)"
  by (simp add: ready_def levelled_def set_value_keeps)

lemma ready_get:
  assumes "ready slev elev n st" and "rt_observer_stack st = [] \<or> slev s \<le> elev (hd (rt_observer_stack st))"
  shows "ready slev elev n (snd (solite_signal_get s st))"
proof (cases "rt_observer_stack st")
  case (Cons e es)
  have "slev x \<le> elev y" if "s < length (rt_signals st)" "x < length (rt_signals st)"
    "y \<in> set (sg_subscribers ((rt_signals st)[s := (rt_signals st ! s)
      \<lparr>sg_subscribers := sg_subscribers (rt_signals st ! s) @ [e]\<rparr>] ! x))" for x y
    using that assms Cons by (cases "x = s") (auto simp: ready_def levelled_def)
  then show ?thesis
    using assms(1) Cons
    by (auto simp: solite_signal_get_def solid_observer_current_def signal_subscribe_def) (simp add: ready_def levelled_def)
qed (use assms in \<open>simp add: solite_signal_get_def solid_observer_current_def\<close>)

section \<open>Rest\<close>

text \<open>A stack runs to its end and leaves observers and batches as given.\<close>

definition ends :: "(nat \<Rightarrow> nat) \<Rightarrow> (nat \<Rightarrow> nat) \<Rightarrow> nat \<Rightarrow> nat list \<Rightarrow> nat \<Rightarrow> 'm frame list \<Rightarrow> 'm runtime \<Rightarrow> bool" where
  "ends slev elev n os d K st \<longleftrightarrow>
     (\<exists>st'. returns K st st' \<and> ready slev elev n st' \<and> rt_observer_stack st' = os \<and> rt_batch_depth st' = d)"

lemma ends_Nil: "ready slev elev n st \<Longrightarrow> ends slev elev n (rt_observer_stack st) (rt_batch_depth st) [] st"
  by (auto simp: ends_def intro: returns.Done)

lemma ends_frame: "ends slev elev n os d fs st' \<Longrightarrow> frame_step f st = (fs, st') \<Longrightarrow> ends slev elev n os d [f] st"
  using returns.Step [where K = "[]"] by (fastforce simp: ends_def)

lemma ends_append:
  assumes "ends slev elev n' os' d' K st"
    and "\<And>st'. ready slev elev n' st' \<Longrightarrow> rt_observer_stack st' = os' \<Longrightarrow> rt_batch_depth st' = d' \<Longrightarrow> ends slev elev n os d K' st'"
  shows "ends slev elev n os d (K @ K') st"
proof -
  obtain st1 where first: "returns K st st1" "ready slev elev n' st1" "rt_observer_stack st1 = os'" "rt_batch_depth st1 = d'"
    using assms(1) unfolding ends_def by blast
  then obtain st2 where "returns K' st1 st2" "ready slev elev n st2" "rt_observer_stack st2 = os" "rt_batch_depth st2 = d"
    using assms(2) unfolding ends_def by blast
  with first show ?thesis
    unfolding ends_def by (blast intro: returns_append)
qed

lemma ends_mono: "ends slev elev n os d K st \<Longrightarrow> m \<le> n \<Longrightarrow> ends slev elev m os d K st"
  by (force simp: ends_def ready_def)

definition flush_ends :: "(nat \<Rightarrow> nat) \<Rightarrow> (nat \<Rightarrow> nat) \<Rightarrow> nat \<Rightarrow> 'm itself \<Rightarrow> bool" where
  "flush_ends slev elev n _ \<longleftrightarrow>
     (\<forall>st :: 'm runtime. ready slev elev n st \<longrightarrow> length (rt_observer_stack st) \<le> n \<longrightarrow>
        ends slev elev n (rt_observer_stack st) (rt_batch_depth st) [Flush_loop] st)"

lemma flush_call:
  fixes st :: "'m runtime"
  assumes "flush_ends slev elev n TYPE('m)" and "ready slev elev n st" and "length (rt_observer_stack st) \<le> n"
    and "solite_effect_flush_pending st = (fs, st')"
  shows "ends slev elev n (rt_observer_stack st) (rt_batch_depth st) fs st'"
  using assms by (auto simp: solite_effect_flush_pending_def flush_ends_def intro: ends_Nil split: if_splits)

lemma client_ends:
  fixes p :: "'m client"
  assumes flush: "flush_ends slev elev n TYPE('m)" and writes: "\<And>s. W s \<Longrightarrow> n \<le> slev s"
    and reads: "\<And>s. R s \<Longrightarrow> os = [] \<or> slev s \<le> elev (hd os)" and len: "length os \<le> n"
  shows "conforms R W p d \<Longrightarrow> ready slev elev n st \<Longrightarrow> rt_observer_stack st = os \<Longrightarrow> rt_batch_depth st = b + d \<Longrightarrow>
    ends slev elev n os b [Client p] st"
proof (induction p arbitrary: st d)
  case Return
  then show ?case
    using ends_Nil [of slev elev n st] by (auto intro: ends_frame)
next
  case (Signal_get s k)
  have "rt_observer_stack (snd (solite_signal_get s st)) = os" "rt_batch_depth (snd (solite_signal_get s st)) = b + d"
    using Signal_get.prems by (auto simp: solite_signal_get_def signal_subscribe_def note_event_def split: option.split)
  moreover have "ready slev elev n (snd (solite_signal_get s st))"
    using Signal_get.prems reads by (intro ready_get) auto
  ultimately have "ends slev elev n os b [Client (k (fst (solite_signal_get s st)))] (snd (solite_signal_get s st))"
    using Signal_get.prems(1) by (intro Signal_get.IH [where d = d]) auto
  then show ?case
    by (rule ends_frame) (simp add: case_prod_beta)
next
  case (Signal_set s v k)
  obtain fs st' where set: "solite_signal_set s v st = (fs, st')"
    by fastforce
  have "ends slev elev n os (b + d) fs st'"
  proof (cases "s \<ge> length (rt_signals st) \<or> sg_value (rt_signals st ! s) = v")
    case True
    then show ?thesis
      using set Signal_set.prems ends_Nil [of slev elev n st] by (auto simp: solite_signal_set_def)
  next
    case False
    let ?st = "note_event (Changed s) (st\<lparr>rt_signals := (rt_signals st)[s := (rt_signals st ! s)\<lparr>sg_value := v\<rparr>]\<rparr>)"
    let ?es = "sg_subscribers (rt_signals ?st ! s)"
    have flushing: "solite_effect_flush_pending (fold solite_effect_schedule ?es ?st) = (fs, st')"
      using set False by (simp add: solite_signal_set_def Let_def)
    have "?es = sg_subscribers (rt_signals st ! s)"
      by (simp add: note_event_def set_value_keeps)
    then have "\<forall>e \<in> set ?es. n \<le> elev e"
      using Signal_set.prems(1,2) writes [of s] False by (auto simp: ready_def levelled_def intro: order_trans)
    then have "ready slev elev n (fold solite_effect_schedule ?es ?st)"
      using Signal_set.prems(2) by (intro ready_schedule_all) (simp_all add: ready_set_value)
    from flush_call [OF flush this _ flushing] show ?thesis
      using Signal_set.prems len by (simp add: schedule_all note_event_def)
  qed
  from ends_append [OF this, of n os b "[Client k]"] show ?case
    using Signal_set.IH Signal_set.prems(1) set by (auto intro: ends_frame)
next
  case (Flush_pending k)
  obtain fs st' where call: "solite_effect_flush_pending st = (fs, st')"
    by fastforce
  have "ends slev elev n os (b + d) fs st'"
    using flush_call [OF flush _ _ call] Flush_pending.prems len by simp
  from ends_append [OF this, of n os b "[Client k]"] show ?case
    using Flush_pending.IH Flush_pending.prems(1) call by (auto intro: ends_frame)
next
  case (Batch_end k)
  let ?st = "st\<lparr>rt_batch_depth := rt_batch_depth st - 1\<rparr>"
  obtain fs st' where call: "solite_batch_end st = (fs, st')"
    by fastforce
  have "ends slev elev n os (b + (d - 1)) fs st'"
  proof (cases "rt_batch_depth ?st = 0")
    case True
    then have "solite_effect_flush_pending ?st = (fs, st')"
      using call Batch_end.prems by (simp add: solite_batch_end_def)
    from flush_call [OF flush _ _ this] show ?thesis
      using Batch_end.prems len by simp
  next
    case False
    then have "fs = []" "st' = ?st"
      using call Batch_end.prems by (auto simp: solite_batch_end_def Let_def split: if_splits)
    then show ?thesis
      using ends_Nil [of slev elev n ?st] Batch_end.prems by simp
  qed
  from ends_append [OF this, of n os b "[Client k]"] show ?case
    using Batch_end.IH Batch_end.prems(1) call by (auto intro: ends_frame)
next
  case (Memo_dispose i k)
  have "rt_observer_stack (solite_memo_dispose i st) = rt_observer_stack st"
    by (simp add: solite_memo_dispose_def solite_effect_dispose_def split: option.split)
  then have "ends slev elev n os b [Client k] (solite_memo_dispose i st)"
    using Memo_dispose.prems by (intro Memo_dispose.IH [where d = d]) simp_all
  then show ?case
    by (rule ends_frame) simp
next
  case (Effect_dispose e k)
  have "rt_observer_stack (solite_effect_dispose e st) = rt_observer_stack st"
    by (simp add: solite_effect_dispose_def)
  then have "ends slev elev n os b [Client k] (solite_effect_dispose e st)"
    using Effect_dispose.prems by (intro Effect_dispose.IH [where d = d]) simp_all
  then show ?case
    by (rule ends_frame) simp
next
  case (Local f k)
  then have "ends slev elev n os b [Client (k (rt_memory st))] (st\<lparr>rt_memory := f (rt_memory st)\<rparr>)"
    by (intro Local.IH [where d = "d"]) simp_all
  then show ?case
    by (rule ends_frame) simp
next
  case (Batch_start k)
  then have "ends slev elev n os b [Client (k)] (solite_batch_start st)"
    by (intro Batch_start.IH [where d = "Suc d"]) (simp_all add: solite_batch_start_def)
  then show ?case
    by (rule ends_frame) simp
next
  case (Is_batching k)
  then have "ends slev elev n os b [Client (k (solite_is_batching st))] (st)"
    by (intro Is_batching.IH [where d = "d"]) simp_all
  then show ?case
    by (rule ends_frame) simp
next
  case (Memo_alloc k)
  then have "ends slev elev n os b [Client (k (length (rt_memos st)))] (st\<lparr>rt_memos := rt_memos st @ [\<lparr>me_cached_value = 0, me_tracking_effect = None, me_dirty = True\<rparr>]\<rparr>)"
    by (intro Memo_alloc.IH [where d = "d"]) simp_all
  then show ?case
    by (rule ends_frame) simp
next
  case (Memo_link i e k)
  then have "ends slev elev n os b [Client (k)] (memo_link i e st)"
    by (intro Memo_link.IH [where d = "d"]) (simp_all add: memo_link_def)
  then show ?case
    by (rule ends_frame) simp
next
  case (Memo_store i v k)
  then have "ends slev elev n os b [Client (k)] (memo_store i v st)"
    by (intro Memo_store.IH [where d = "d"]) (simp_all add: memo_store_def)
  then show ?case
    by (rule ends_frame) simp
next
  case (Memo_get i k)
  then have "ends slev elev n os b [Client (k (solite_memo_get i st))] (st)"
    by (intro Memo_get.IH [where d = "d"]) simp_all
  then show ?case
    by (rule ends_frame) simp
qed simp_all

lemma effect_runs:
  fixes st :: "'m runtime"
  assumes flush: "flush_ends slev elev (Suc l) TYPE('m)" and "l \<le> elev e"
    and "ready slev elev (Suc l) st" and "length (rt_observer_stack st) \<le> l" and "effect_run e st = (fs, st')"
  shows "ends slev elev (Suc l) (rt_observer_stack st) (rt_batch_depth st) fs st'"
proof (cases "e \<ge> length (rt_effects st) \<or> is_disposed st e")
  case True
  then show ?thesis
    using assms ends_Nil [of slev elev "Suc l" st] by (auto simp: effect_run_def)
next
  case False
  let ?st = "note_event (Started e) (st\<lparr>rt_observer_stack := e # rt_observer_stack st\<rparr>)"
  let ?p = "ef_fn (rt_effects st ! e)"
  have level: "elev e < SOLID_OBSERVER_STACK_MAX" "conforms (\<lambda>s. slev s \<le> elev e) (\<lambda>s. elev e < slev s) ?p 0"
    using assms(3) False by (simp_all add: ready_def levelled_def)
  then have run: "fs = [Client ?p] @ [Effect_return e]" "st' = ?st"
    using assms(2,4,5) False by (auto simp: effect_run_def solid_observer_push_def)
  have client: "ends slev elev (Suc l) (e # rt_observer_stack st) (rt_batch_depth st) [Client ?p] ?st"
    using assms(2-4) level(2)
    by (intro client_ends [OF flush, where R = "\<lambda>s. slev s \<le> elev e" and W = "\<lambda>s. elev e < slev s" and d = 0])
      (simp_all add: note_event_def ready_def levelled_def)
  show ?thesis
    unfolding run
  proof (rule ends_append [OF client])
    fix st'' :: "'m runtime"
    assume "ready slev elev (Suc l) st''" "rt_observer_stack st'' = e # rt_observer_stack st"
      "rt_batch_depth st'' = rt_batch_depth st"
    then show "ends slev elev (Suc l) (rt_observer_stack st) (rt_batch_depth st) [Effect_return e] st''"
      using ends_Nil [of slev elev "Suc l" "solid_observer_pop st''"]
      by (auto simp: solid_observer_pop_def intro: ends_frame)
  qed
qed

lemma snapshot_ends:
  fixes st :: "'m runtime"
  assumes flush: "flush_ends slev elev (Suc l) TYPE('m)"
  shows "\<forall>e \<in> set es. l \<le> elev e \<Longrightarrow> ready slev elev (Suc l) st \<Longrightarrow> length (rt_observer_stack st) \<le> l \<Longrightarrow>
    ends slev elev (Suc l) (rt_observer_stack st) (rt_batch_depth st) [Snapshot_loop es] st"
proof (induction es arbitrary: st)
  case Nil
  then show ?case
    using ends_Nil [of slev elev "Suc l" st] by (auto intro: ends_frame)
next
  case (Cons e es)
  let ?st = "set_pending False e st"
  have same: "rt_observer_stack ?st = rt_observer_stack st" "rt_batch_depth ?st = rt_batch_depth st"
    by (simp_all add: set_pending_def)
  have rest: "ends slev elev (Suc l) (rt_observer_stack st) (rt_batch_depth st) [Snapshot_loop es] st'"
    if "ready slev elev (Suc l) st'" "rt_observer_stack st' = rt_observer_stack st" "rt_batch_depth st' = rt_batch_depth st"
    for st' :: "'m runtime"
    using Cons.IH [of st'] Cons.prems that by simp
  show ?case
  proof (cases "is_disposed ?st e")
    case True
    then show ?thesis
      using Cons.prems rest [of ?st] same
      by (auto intro: ends_frame)
  next
    case False
    obtain fs st' where run: "effect_run e ?st = (fs, st')"
      by fastforce
    have "ends slev elev (Suc l) (rt_observer_stack st) (rt_batch_depth st) fs st'"
      using effect_runs [OF flush _ _ _ run] Cons.prems same by simp
    then have "ends slev elev (Suc l) (rt_observer_stack st) (rt_batch_depth st) (fs @ [Snapshot_loop es]) st'"
      by (rule ends_append) (rule rest)
    then show ?thesis
      by (rule ends_frame) (use False run in \<open>simp add: Let_def\<close>)
  qed
qed

lemma flush_ends_level: "flush_ends slev elev n TYPE('m)"
proof (induction "SOLID_OBSERVER_STACK_MAX - n" arbitrary: n)
  case 0
  have "rt_pending_queue st = []" if "ready slev elev n st" for st :: "'m runtime"
    using that 0 by (cases "rt_pending_queue st") (auto simp: ready_def levelled_def)
  then show ?case
    unfolding flush_ends_def
  proof (intro allI impI)
    fix st :: "'m runtime"
    assume "\<And>st :: 'm runtime. ready slev elev n st \<Longrightarrow> rt_pending_queue st = []" and "ready slev elev n st"
    then show "ends slev elev n (rt_observer_stack st) (rt_batch_depth st) [Flush_loop] st"
      using ends_Nil [of slev elev n st] by (auto intro: ends_frame)
  qed
next
  case (Suc k)
  then have flush: "flush_ends slev elev (Suc n) TYPE('m)"
    by simp
  show ?case
    unfolding flush_ends_def
  proof (intro allI impI)
    fix st :: "'m runtime"
    assume st: "ready slev elev n st" "length (rt_observer_stack st) \<le> n"
    show "ends slev elev n (rt_observer_stack st) (rt_batch_depth st) [Flush_loop] st"
    proof (cases "rt_pending_queue st = []")
      case True
      then show ?thesis
        using st ends_Nil [of slev elev n st] by (auto intro: ends_frame)
    next
      case False
      let ?st = "st\<lparr>rt_pending_queue := []\<rparr>"
      have "ends slev elev (Suc n) (rt_observer_stack st) (rt_batch_depth st) [Snapshot_loop (rt_pending_queue st)] ?st"
        using snapshot_ends [OF flush, of "rt_pending_queue st" ?st] st by (simp add: ready_def levelled_def)
      moreover have "ends slev elev n (rt_observer_stack st) (rt_batch_depth st) [Flush_loop] st'"
        if "ready slev elev (Suc n) st'" "rt_observer_stack st' = rt_observer_stack st" "rt_batch_depth st' = rt_batch_depth st"
        for st' :: "'m runtime"
      proof -
        have "ends slev elev (Suc n) (rt_observer_stack st) (rt_batch_depth st) [Flush_loop] st'"
          using flush that st(2) unfolding flush_ends_def by fastforce
        then show ?thesis
          by (rule ends_mono) simp
      qed
      ultimately have "ends slev elev n (rt_observer_stack st) (rt_batch_depth st)
          ([Snapshot_loop (rt_pending_queue st)] @ [Flush_loop]) ?st"
        by (rule ends_append)
      then show ?thesis
        using False
        by (auto intro: ends_frame)
    qed
  qed
qed

section \<open>The observer\<close>

text \<open>The effects whose callbacks are on the stack, the innermost first.\<close>

primrec frame_effect :: "'m frame \<Rightarrow> nat list" where
  "frame_effect (Client p) = []"
| "frame_effect (Effect_return e) = [e]"
| "frame_effect Flush_loop = []"
| "frame_effect (Snapshot_loop es) = []"

definition running :: "'m frame list \<Rightarrow> nat list" where
  "running K = concat (List.map frame_effect K)"

lemma running_simps [simp]:
  "running [] = []" "running (f # K) = frame_effect f @ running K" "running (K @ K') = running K @ running K'"
  by (simp_all add: running_def)

text \<open>A run in which never more than \<open>n\<close> effects are nested.\<close>

inductive nested_run :: "nat \<Rightarrow> 'm frame list \<times> 'm runtime \<Rightarrow> 'm frame list \<times> 'm runtime \<Rightarrow> bool" for n c where
  Here: "nested_run n c c"
| Next: "nested_run n c c' \<Longrightarrow> step c' c'' \<Longrightarrow> length (running (fst c'')) \<le> n \<Longrightarrow> nested_run n c c''"

lemma schedule_all_observers:
  "solite_signal_set s v st = (fs, st') \<Longrightarrow> rt_observer_stack st' = rt_observer_stack st \<and> running fs = []"
  by (auto simp: solite_signal_set_def solite_effect_flush_pending_def Let_def schedule_all note_event_def split: if_splits)

lemma effect_run_observers:
  "effect_run e st = (fs, st') \<Longrightarrow>
    (running fs = [] \<and> rt_observer_stack st' = rt_observer_stack st) \<or>
    (running fs = [e] \<and> rt_observer_stack st' = rt_observer_stack (solid_observer_push e st))"
  by (auto simp: effect_run_def note_event_def split: if_splits)

lemma client_observers:
  assumes "client_step p st = (fs, st')"
  shows "(running fs = [] \<and> rt_observer_stack st' = rt_observer_stack st) \<or>
    (\<exists>e. running fs = [e] \<and> rt_observer_stack st' = rt_observer_stack (solid_observer_push e st))"
proof (cases p)
  case (Create_effect fn k)
  then obtain gs where "effect_run (length (rt_effects st))
      (st\<lparr>rt_effects := rt_effects st @ [\<lparr>ef_fn = fn, ef_pending = False, ef_disposed = False\<rparr>]\<rparr>) = (gs, st')"
    and "fs = gs @ [Client (k (length (rt_effects st)))]"
    using assms by (auto simp: solite_create_effect_def Let_def split: prod.splits)
  from effect_run_observers [OF this(1)] this(2) show ?thesis
    by (auto simp: solid_observer_push_def)
next
  case (Signal_set s v k)
  then show ?thesis
    using assms by (auto dest: schedule_all_observers split: prod.splits)
qed (use assms in \<open>auto simp: solite_create_signal_def solite_signal_get_def signal_subscribe_def note_event_def
      solite_effect_dispose_def solite_memo_dispose_def solite_effect_flush_pending_def solite_batch_start_def
      solite_batch_end_def memo_link_def memo_store_def Let_def split: option.splits if_splits\<close>)

lemma frame_observers:
  assumes "frame_step f st = (fs, st')" and "rt_observer_stack st = running (f # K)"
    and "length (running (fs @ K)) \<le> SOLID_OBSERVER_STACK_MAX"
  shows "rt_observer_stack st' = running (fs @ K)"
proof (cases f)
  case (Client p)
  then show ?thesis
    using assms client_observers [of p st fs st'] by (auto simp: solid_observer_push_def)
next
  case (Effect_return e)
  then show ?thesis
    using assms by (auto simp: solid_observer_pop_def)
next
  case Flush_loop
  then show ?thesis
    using assms by (auto split: if_splits)
next
  case (Snapshot_loop es)
  show ?thesis
  proof (cases es)
    case Nil
    then show ?thesis
      using assms Snapshot_loop by simp
  next
    case (Cons e es')
    let ?st = "set_pending False e st"
    obtain gs st'' where run: "effect_run e ?st = (gs, st'')"
      by fastforce
    have "rt_observer_stack ?st = rt_observer_stack st"
      by (simp add: set_pending_def)
    then show ?thesis
      using assms Snapshot_loop Cons run effect_run_observers [OF run]
      by (auto simp: Let_def solid_observer_push_def split: if_splits)
  qed
qed

lemma observers_are_running:
  "nested_run SOLID_OBSERVER_STACK_MAX c c' \<Longrightarrow> rt_observer_stack (snd c) = running (fst c) \<Longrightarrow>
    rt_observer_stack (snd c') = running (fst c')"
  by (induction rule: nested_run.induct) (auto elim!: step.cases dest!: frame_observers)

text \<open>The observer stack never holds more than the effects that run.\<close>

lemma observers_bounded_step:
  assumes "frame_step f st = (fs, st')" and "length (rt_observer_stack st) \<le> length (running (f # K))"
  shows "length (rt_observer_stack st') \<le> length (running (fs @ K))"
proof (cases f)
  case (Client p)
  then show ?thesis
    using assms client_observers [of p st fs st'] by (auto simp: solid_observer_push_def)
next
  case (Effect_return e)
  then show ?thesis
    using assms by (auto simp: solid_observer_pop_def)
next
  case Flush_loop
  then show ?thesis
    using assms by (auto split: if_splits)
next
  case (Snapshot_loop es)
  show ?thesis
  proof (cases es)
    case Nil
    then show ?thesis
      using assms Snapshot_loop by simp
  next
    case (Cons e es')
    let ?st = "set_pending False e st"
    obtain gs st'' where run: "effect_run e ?st = (gs, st'')"
      by fastforce
    have "rt_observer_stack ?st = rt_observer_stack st"
      by (simp add: set_pending_def)
    then show ?thesis
      using assms Snapshot_loop Cons run effect_run_observers [OF run]
      by (auto simp: Let_def solid_observer_push_def split: if_splits)
  qed
qed

lemma observers_bounded: "step\<^sup>*\<^sup>* c c' \<Longrightarrow> length (rt_observer_stack (snd c)) \<le> length (running (fst c)) \<Longrightarrow>
    length (rt_observer_stack (snd c')) \<le> length (running (fst c'))"
  by (induction rule: rtranclp_induct) (auto elim!: step.cases dest!: observers_bounded_step)

section \<open>Properties of the reactive runtime\<close>

text \<open>
  C33 No update is lost.  When the callbacks of an application with at most 256 effects have
  returned and no batch is open, no effect is pending, and every effect that is not disposed has
  started or read again after the last change of each signal that it subscribes to.
\<close>

theorem no_update_is_lost:
  assumes "step\<^sup>*\<^sup>* ([Client p], runtime_start m) ([], st)"
    and "rt_batch_depth st = 0" and "length (rt_effects st) \<le> SOLID_PENDING_MAX"
  shows "rt_pending_queue st = [] \<and> (\<forall>e. \<not> is_pending st e) \<and>
    (\<forall>s < length (rt_signals st). \<forall>e \<in> set (sg_subscribers (rt_signals st ! s)).
       is_disposed st e \<or> \<not> stale e s (rt_events st))"
proof -
  have "invariant [] st"
    using invariant_steps [OF assms(1)] invariant_start [of p m] by simp
  then show ?thesis
    using assms(2,3) by (auto simp: invariant_def sound_def queues_def settling_def fresh_subscribers_def told_def)
qed

text \<open>
  C32 Changes come to rest.  The application has returned with no batch open, and has at most 256
  effects, each of a level below 64; signals have levels too.  Every effect reads signals of its own
  level or an earlier one and writes signals of later levels only, subscriptions are to such signals,
  and neither the effects nor a further callback of the main program create signals or effects or
  leave a batch open.  Then that callback, whatever signals it reads or writes, returns; nothing is
  pending, and every effect that is not disposed has started or read again after the last change of
  each signal that it subscribes to.
\<close>

theorem callback_settles:
  assumes "step\<^sup>*\<^sup>* ([Client p], runtime_start m) ([], st)" and "rt_batch_depth st = 0"
    and "levelled slev elev st" and "conforms (\<lambda>_. True) (\<lambda>_. True) q 0"
  shows "\<exists>st'. step\<^sup>*\<^sup>* ([Client q], st) ([], st') \<and> rt_batch_depth st' = 0 \<and> rt_pending_queue st' = [] \<and>
    (\<forall>e. \<not> is_pending st' e) \<and>
    (\<forall>s < length (rt_signals st'). \<forall>e \<in> set (sg_subscribers (rt_signals st' ! s)).
       is_disposed st' e \<or> \<not> stale e s (rt_events st'))"
proof -
  have inv: "invariant [] st"
    using invariant_steps [OF assms(1)] invariant_start [of p m] by simp
  have "rt_observer_stack st = []"
    using observers_bounded [OF assms(1)] by (simp add: runtime_start_def)
  moreover have "rt_pending_queue st = []"
    using inv assms(2) by (simp add: invariant_def settling_def)
  ultimately have "ends slev elev 0 [] 0 [Client q] st"
    using assms(2-4)
    by (intro client_ends [OF flush_ends_level, where R = "\<lambda>_. True" and W = "\<lambda>_. True" and d = 0])
      (simp_all add: ready_def)
  then obtain st' where st': "returns [Client q] st st'" "ready slev elev 0 st'" "rt_batch_depth st' = 0"
    unfolding ends_def by blast
  have "invariant [Client q] st"
    using inv by (simp add: invariant_def)
  then have "invariant [] st'"
    using invariant_steps [OF returns_steps [OF st'(1)]] by simp
  then have "rt_pending_queue st' = [] \<and> (\<forall>e. \<not> is_pending st' e) \<and>
    (\<forall>s < length (rt_signals st'). \<forall>e \<in> set (sg_subscribers (rt_signals st' ! s)).
       is_disposed st' e \<or> \<not> stale e s (rt_events st'))"
    using st'(2,3)
    by (auto simp: invariant_def sound_def queues_def settling_def fresh_subscribers_def told_def ready_def levelled_def)
  then show ?thesis
    using returns_steps [OF st'(1)] st'(3) by blast
qed

text \<open>
  C34 An effect subscribes to what it reads.  As long as no more than 64 effects are nested, a read of a
  signal subscribes the effect whose callback makes it, and outside all effects it subscribes none.
\<close>

theorem effect_reads_its_own:
  assumes "nested_run SOLID_OBSERVER_STACK_MAX ([Client p], runtime_start m) (Client (Signal_get s k) # K, st)"
    and "s < length (rt_signals st)"
  shows "set (sg_subscribers (rt_signals (snd (solite_signal_get s st)) ! s)) =
    set (sg_subscribers (rt_signals st ! s)) \<union> set (take 1 (running K))"
proof -
  have "rt_observer_stack st = running K"
    using observers_are_running [OF assms(1)] by (simp add: runtime_start_def)
  then show ?thesis
    using assms(2) by (auto simp: solite_signal_get_def solid_observer_current_def signal_subscribe_def note_event_def
        split: list.split)
qed

section \<open>An application\<close>

text \<open>Two signals and an effect that copies the first to the second, plus one.\<close>

definition sample_effect :: "unit client" where
  "sample_effect = Signal_get 0 (\<lambda>v. Signal_set 1 (v + 1) Return)"

definition sample_application :: "unit client" where
  "sample_application =
     Create_signal 4 (\<lambda>s. Create_signal 0 (\<lambda>t. Create_effect sample_effect (\<lambda>e. Signal_get 1 (\<lambda>v. Return))))"

definition sample_runtime :: "unit runtime" where
  "sample_runtime =
     \<lparr>rt_signals = [\<lparr>sg_value = 4, sg_subscribers = [0]\<rparr>, \<lparr>sg_value = 5, sg_subscribers = []\<rparr>],
      rt_effects = [\<lparr>ef_fn = sample_effect, ef_pending = False, ef_disposed = False\<rparr>], rt_memos = [],
      rt_observer_stack = [], rt_pending_queue = [], rt_batch_depth = 0, rt_memory = (),
      rt_events = [Changed 1, Got 0 0, Started 0]\<rparr>"

lemmas runtime_defs = solite_create_signal_def solite_create_effect_def effect_run_def solid_observer_push_def
  solid_observer_pop_def solite_signal_get_def solid_observer_current_def signal_subscribe_def note_event_def
  solite_signal_set_def solite_effect_flush_pending_def is_disposed_def SOLID_OBSERVER_STACK_MAX_def

lemma sample_runs: "step\<^sup>*\<^sup>* ([Client sample_application], runtime_start ()) ([], sample_runtime)"
proof -
  have "run_steps 20 [Client sample_application] (runtime_start ()) = Some sample_runtime"
    by (simp add: sample_application_def sample_effect_def sample_runtime_def runtime_start_def runtime_defs)
  then show ?thesis
    by (intro returns_steps run_steps_returns)
qed

theorem no_update_is_lost_witness:
  "rt_pending_queue sample_runtime = [] \<and> (\<forall>e. \<not> is_pending sample_runtime e) \<and>
    \<not> stale 0 0 (rt_events sample_runtime)"
  using no_update_is_lost [OF sample_runs]
  by (simp add: sample_runtime_def SOLID_PENDING_MAX_def is_disposed_def)

theorem callback_settles_witness:
  "\<exists>st'. step\<^sup>*\<^sup>* ([Client (Signal_set 0 7 Return)], sample_runtime) ([], st') \<and> rt_pending_queue st' = []"
proof -
  have "levelled (\<lambda>s. s) (\<lambda>e. e) sample_runtime"
    by (simp add: levelled_def sample_runtime_def sample_effect_def SOLID_OBSERVER_STACK_MAX_def SOLID_PENDING_MAX_def
        All_less_Suc)
  then show ?thesis
    using callback_settles [OF sample_runs, where q = "Signal_set 0 7 Return" and slev = "\<lambda>s. s" and elev = "\<lambda>e. e"]
    by (auto simp: sample_runtime_def)
qed

fun nested_steps :: "nat \<Rightarrow> nat \<Rightarrow> 'm frame list \<Rightarrow> 'm runtime \<Rightarrow> ('m frame list \<times> 'm runtime) option" where
  "nested_steps b 0 K st = Some (K, st)"
| "nested_steps b (Suc n) [] st = None"
| "nested_steps b (Suc n) (f # K) st =
     (case frame_step f st of (fs, st') \<Rightarrow>
        if length (running (fs @ K)) \<le> b then nested_steps b n (fs @ K) st' else None)"

lemma nested_steps_run: "nested_steps b n K st = Some c' \<Longrightarrow> nested_run b c (K, st) \<Longrightarrow> nested_run b c c'"
proof (induction b n K st rule: nested_steps.induct)
  case (3 b n f K st)
  obtain fs st' where frame: "frame_step f st = (fs, st')"
    by fastforce
  then have "nested_run b c (fs @ K, st')"
    using "3.prems" by (intro nested_run.Next [OF "3.prems"(2)]) (auto intro: step.intros split: if_splits)
  then show ?case
    using "3.IH" [OF frame [symmetric]] "3.prems"(1) frame by (auto split: if_splits)
qed auto

theorem effect_reads_its_own_witness:
  "\<exists>K st. 0 \<in> set (sg_subscribers (rt_signals (snd (solite_signal_get 0 st)) ! 0)) \<and> running K = [0] \<and>
    nested_run SOLID_OBSERVER_STACK_MAX ([Client sample_application], runtime_start ())
      (Client sample_effect # K, st)"
proof -
  let ?p = "Signal_get 0 (\<lambda>v. Signal_set 1 (v + 1) Return) :: unit client"
  let ?main = "Client (Signal_get 1 (\<lambda>v. Return)) :: unit frame"
  let ?st = "\<lparr>rt_signals = [\<lparr>sg_value = 4, sg_subscribers = []\<rparr>, \<lparr>sg_value = 0, sg_subscribers = []\<rparr>],
      rt_effects = [\<lparr>ef_fn = ?p, ef_pending = False, ef_disposed = False\<rparr>], rt_memos = [],
      rt_observer_stack = [0], rt_pending_queue = [], rt_batch_depth = 0, rt_memory = (), rt_events = [Started 0]\<rparr>"
  have run: "nested_run SOLID_OBSERVER_STACK_MAX ([Client sample_application], runtime_start ())
      (Client ?p # [Effect_return 0, ?main], ?st)"
    by (rule nested_steps_run [OF _ nested_run.Here, where n = "Suc (Suc (Suc 0))"])
      (simp add: sample_application_def sample_effect_def runtime_start_def runtime_defs)
  have "0 \<in> set (sg_subscribers (rt_signals (snd (solite_signal_get 0 ?st)) ! 0))"
    using effect_reads_its_own [OF run] by simp
  with run show ?thesis
    by (intro exI [of _ "[Effect_return 0, ?main]"] exI [of _ ?st]) (simp add: sample_effect_def)
qed

end
