(* ===== verification/Spec2Isabelle.thy ===== *)
theory Spec2Isabelle
  imports WiiLaws TokenStream TypeAlgebra Iso PpcFormat CfgBuild ParserProgram SymbolBuild ReactiveFlow
begin

text \<open>
  Verification library for Calynda for Wii: a compiler from the Calynda language to C for the
  Nintendo Wii, the runtime of its programs, the reactive runtime of GUI programs, and a decompiler for executables and disc
  images of the Wii and the GameCube.  The sources are in C; paths below are under src/.

  THE PROGRAM.  The compiler (compiler/src) reads a source text with the tokenizer, keeps the
  tokens in the buffer of the parser, builds the syntax tree by recursive descent, builds the
  symbol table, checks types, lowers the tree and prints C.  The printed program is a client of the
  runtime (compiler/src/c_runtime), which makes its strings, arrays, closures and unions and calls
  the packages of the console.  A GUI program runs on the reactive
  runtime (solite_runtime), in which effects run again when the signals that they have read change.
  The decompiler (decompiler) reads a DOL executable, possibly out of an encrypted disc image,
  decodes its PowerPC instructions and recovers the control-flow graph of a function with
  dominators and loops.

  CONVENTIONS.  A struct is a record, an enumeration or tagged union a datatype, an array with a
  count a list, and a pointer that may be null an option.  Unsigned integers keep their width as
  words where they can wrap.  An error code or a boolean result with an error record is a value;
  a read outside a buffer is \<open>None\<close>, so that a theorem that a function returns \<open>Some\<close> says that
  it stays inside.  Loops are recursive functions; where the recursion is not structural it has a
  measure, or fuel that a theorem shows to be enough.  Definitions keep the names of the code.

  THE THEORIES.

  Prelude, CText: machine integers, C strings, bounded reads, big-endian words; the output of
  \<open>snprintf\<close>.

  TokenTypes, Tokenizer, TokenizerLaws: compiler/src/tokenizer (tokenizer.c, tokenizer_keywords.c,
  tokenizer_literals.c, tokenizer_punctuation.c).  The state of the tokenizer is the record of the
  code with the source as a list of characters.  The laws: skipped text is blank, identifiers and
  operators are scanned by maximal munch, positions are exact, the depth of template literals stays
  within the array of brace depths.

  TokenStream: the token buffer of parser.c and parser_utils.c.  The locale of a stream of tokens
  is interpreted on the tokenizer.  The loop that reads all tokens may a priori not end and is a
  partial function; it is proved to return for every source, and source and tokens determine each
  other (\<open>parser_init_lossless\<close>); a token >> is split as the code does it.

  Ast: the syntax tree (compiler/src/ast/ast_types.h, ast_decl_types.h).

  Parser, ParserRules: every grammar function of compiler/src/parser in the order of the files.  A
  parser is a function of the record of the parser with a result option; the functions that are
  called recursively are the fields of a record \<open>Knots\<close>, and \<open>knots n\<close> ties them with depth \<open>n\<close>.
  ParserLaws, ParserYield, ParserSound, ParserProgram: the tokens that a tree stands for, a calculus
  of judgements for the grammar functions (the locale \<open>parse_level\<close>, interpreted for every depth),
  and the theorems: two levels of depth for each token are enough, so the parser ends; the tokens of
  an accepted program are those of its tree; trees obey precedence and associativity; a rejected
  source has an error.

  TypeAlgebra: the types of the checker (type_checker_types.c, type_checker_convert.c,
  type_checker_ops.c): equality, promotion, assignability, merge and operators.

  SymbolTable, SymbolAnalyze: compiler/src/sema/symbol_table*.c.  Scopes are numbered in the order
  of their creation and point to their parents; a node of the tree that the code names by its address
  is named by the way to it.  The search along the parents takes as much fuel as there are scopes,
  which is enough because a parent has a smaller number.  SymbolLaws, SymbolBuild: the same language
  of scopes by environments and lists only, the judgement \<open>walks\<close> that relates the two, and the
  theorems: a build fails exactly when two declarations of one of four lists share a name, and the table then
  resolves every identifier as the environments do.

  Reactive, ReactiveLaws, ReactiveFlow: solite_runtime/src/solite_signal.c and solite_effect.c.  A
  callback is the tree of the calls that it makes, the stack of C a list of frames and a step one call
  or return.  The invariant: an effect is flagged as pending exactly while it is in the queue or in a
  snapshot, and one that has not seen a change is flagged.  The theorems: no update is lost with at
  most 256 effects, the reads of an effect are its own with at most 64 nested effects, and a
  callback comes to rest when effects write signals of later levels than they read.

  WiiRuntime, WiiProgram, WiiLaws: compiler/src/c_runtime (calynda_runtime.c, calynda_gc_refcount.c,
  calynda_wpad.c, and the tables of calynda_mii.c and the bridges).  A word is a number or the
  address of an object; memory is a map from addresses, and an access without an object, or
  outside an array, is the outcome \<open>Wild\<close>.  A program is a tree of runtime calls, run with fuel; what
  allocation answers is a parameter, so that every failure is a branch.  What the packages mii, gfx,
  physics and motion answer is a parameter too, which may be a fault: the run then ends with the
  outcome \<open>Bridge_fault\<close>.  The invariant \<open>rt_wf\<close> says that the registry lies
  in its array and names live objects; the theorems: a process never reaches \<open>Wild\<close> whatever the packages do, members of
  packages reach their package, templates, casts and arrays do what they promise, and a start gives
  the program its arguments.

  Dol: decompiler/src/dol.c.  Parsing equals a reference definition and never leaves the buffer.

  Aes, WiiCrypto, Iso: decompiler/src/aes.c, wii_crypto.c and iso.c.  AES-128 with its tables is
  executable; decryption inverts encryption also for CBC in place.  Reads of a partition through the
  cache of one group refine the decrypted user data; an extracted executable is complete.

  PpcOps, Ppc, PpcFormat: decompiler/src/ppc.  All instruction forms of the decoder and their text;
  decoding inverts the encoding of the D-form, and its text determines the word.

  Cfg, CfgDom, CfgRpo, CfgDomLaws, CfgLoops: decompiler/src/cli/cfg/cfg_build.c and cfg_dominance.c.
  Leaders, blocks and edges; predecessors, the depth-first order, immediate dominators and loops.
  The locale \<open>numbered_graph\<close> holds the theory of a graph with a numbering and is interpreted on
  the numbering that the code computes.  The search has fuel for every edge, the iteration for every
  pair of blocks; both are proved to be enough, and the stored chains are exactly dominance.  The exits
  of loops follow the depths of blocks, so the latch of a loop counts as an exit and a header that
  leaves its own loop does not.

  CfgSwitch, CfgRegions, CfgBuild: decompiler/src/cli/cfg/cfg_switch.c, cfg_regions.c and \<open>cfg_build\<close>.
  The recovery of jump tables, the regions, and the passes in their order.  Writing behind the end of
  the stack or the queue of a search is \<open>None\<close>; the stack holds at most one block more than are
  marked, because a block has at most two successors that are followed, and the queue holds every
  block once, so \<open>cfg_build\<close> always returns.  The merge block of a branch is the nearest one that
  both arms reach.  Two searches miss what their comments promise, as lemmas show: that for irreducible
  loops finds side entries from blocks without a way to them only, and that for tables needs the lower
  half of an address before the upper one.

  ASSUMPTIONS.  Allocation succeeds (but for the runtime of programs, where its answers are
  arguments) and counters of sizes do not overflow; pointers passed in are not null where the model
  has no option; \<open>int\<close> has 32 bits and \<open>size_t\<close> 64 (LP64), on the console 32.  Line and
  column numbers, scope and block indices are natural numbers.  Release of memory, growth of
  arrays and the reuse of a freed object are not modelled.  A disc is a list of bytes that reads do
  not change.

  NOT MODELLED.  The walks of the type checker beyond its type algebra, lowering and the
  printing of C, which rest on the types of all expressions; the JSX front end; the dumps; the
  dispatch functions of the Mii, graphics, physics and motion packages (floating point and calls to
  the console library), which are parameters of the runtime; the runtime of the host; the libraries for graphics, mathematics, motion and physics (IEEE single
  precision and trigonometric functions); the GUI glue of the reactive runtime (a C++ library);
  in the decompiler the text of a graph, SSA form, types and classes, demangling and
  the printing of its results; all command lines.
\<close>

end
